(* ===== verification/CA_Prelude.thy ===== *)
theory CA_Prelude
  imports Main "HOL-Library.Word"
begin

section \<open>Shared vocabulary of the CA compiler model\<close>

text \<open>
  What every component of the model uses: the outcome of a C or C++ call (a value, the
  process exit of \<open>yyerror\<close>/\<open>caerror\<close>, or undefined behaviour), sequencing of such calls
  with and without the compiler's global state, C strings and the parts of \<open><ctype.h>\<close>,
  \<open><string.h>\<close> and \<open>sprintf\<close>/\<open>sscanf\<close> the compiler calls, and wrap-around of the fixed-width
  integers it stores.
\<close>

named_theorems run_simps \<open>unfolding rules that execute a model call\<close>
named_theorems names_intro \<open>rules that keep the name table invariant\<close>

subsection \<open>Outcomes\<close>

text \<open>
  \<open>yyerror\<close> and \<open>caerror\<close> (\<open>ca_parser.c\<close>) print and then call \<open>exit(-1)\<close>, so an error is the
  end of the run: \<open>Exit\<close> carries the format string of the report. \<open>Undefined\<close> is C++
  undefined behaviour (an out-of-range read, a buffer overrun, a null dereference),
  \<open>Out_of_fuel\<close> the bound of a model function whose recursion is not structural.
\<close>

datatype error = Exit string | Undefined string | Out_of_fuel

type_synonym 'a result = "error + 'a"

type_synonym ('s, 'a) action = "'s \<Rightarrow> ('a \<times> 's) result"

definition bind_result :: "'a result \<Rightarrow> ('a \<Rightarrow> 'b result) \<Rightarrow> 'b result" where
  "bind_result m f = (case m of Inl e \<Rightarrow> Inl e | Inr x \<Rightarrow> f x)"

definition act :: "('s, 'a) action \<Rightarrow> ('a \<Rightarrow> ('s, 'b) action) \<Rightarrow> ('s, 'b) action" where
  "act m f = (\<lambda>s. case m s of Inl e \<Rightarrow> Inl e | Inr (x, s') \<Rightarrow> f x s')"

definition ret :: "'a \<Rightarrow> ('s, 'a) action" where
  "ret x = (\<lambda>s. Inr (x, s))"

definition fail :: "error \<Rightarrow> ('s, 'a) action" where
  "fail e = (\<lambda>s. Inl e)"

definition lift_result :: "'a result \<Rightarrow> ('s, 'a) action" where
  "lift_result r = (\<lambda>s. case r of Inl e \<Rightarrow> Inl e | Inr x \<Rightarrow> Inr (x, s))"

definition reads :: "('s \<Rightarrow> 'a) \<Rightarrow> ('s, 'a) action" where
  "reads f = (\<lambda>s. Inr (f s, s))"

definition modifies :: "('s \<Rightarrow> 's) \<Rightarrow> ('s, unit) action" where
  "modifies f = (\<lambda>s. Inr ((), f s))"

lemma bind_result_simps [simp, run_simps]:
  "bind_result (Inr x) f = f x" "bind_result (Inl e) f = Inl e"
  by (simp_all add: bind_result_def)

lemma bind_result_Inr_iff:
  "bind_result m f = Inr y \<longleftrightarrow> (\<exists>x. m = Inr x \<and> f x = Inr y)"
  by (cases m) simp_all

lemma act_Inr_iff:
  "act m f s = Inr r \<longleftrightarrow> (\<exists>x s'. m s = Inr (x, s') \<and> f x s' = Inr r)"
  by (auto simp: act_def split: sum.splits prod.splits)

lemma act_Inr_E:
  assumes "act m f s = Inr r"
  obtains x s' where "m s = Inr (x, s')" "f x s' = Inr r"
  using assms unfolding act_Inr_iff by blast

lemma ran_E:
  assumes "\<not> isl r"
  obtains x where "r = Inr x"
  using assms by (cases r) simp_all

lemma act_Inr [simp]: "m s = Inr (x, s') \<Longrightarrow> act m f s = f x s'"
  by (simp add: act_def)

lemma act_Inl [simp]: "m s = Inl e \<Longrightarrow> act m f s = Inl e"
  by (simp add: act_def)

lemma action_simps [simp, run_simps]:
  "ret x s = Inr (x, s)" "fail e s = Inl e" "reads f s = Inr (f s, s)"
  "modifies g s = Inr ((), g s)"
  "lift_result (Inr x) s = Inr (x, s)" "lift_result (Inl e) s = Inl e"
  by (simp_all add: ret_def fail_def reads_def modifies_def lift_result_def)

lemma lift_result_Inr_iff:
  "lift_result r s = Inr (x, s') \<longleftrightarrow> r = Inr x \<and> s' = s"
  by (cases r) auto

text \<open>An action that keeps an invariant of the state whenever it returns.\<close>

definition keeps :: "('s \<Rightarrow> bool) \<Rightarrow> ('s, 'a) action \<Rightarrow> bool" where
  "keeps P m \<longleftrightarrow> (\<forall>s x s'. P s \<longrightarrow> m s = Inr (x, s') \<longrightarrow> P s')"

named_theorems keeps_intro \<open>rules for actions that keep an invariant\<close>

lemma keepsD: "keeps P m \<Longrightarrow> P s \<Longrightarrow> m s = Inr (x, s') \<Longrightarrow> P s'"
  unfolding keeps_def by blast

lemma keeps_rules [keeps_intro]:
  "keeps P (ret x)" "keeps P (fail e)" "keeps P (reads f)" "keeps P (lift_result r)"
  "keeps P (\<lambda>s. lift_result (f' s) s)"
  by (auto simp: keeps_def lift_result_Inr_iff)

lemma keeps_act [keeps_intro]: "keeps P m \<Longrightarrow> (\<And>x. keeps P (f x)) \<Longrightarrow> keeps P (act m f)"
  unfolding keeps_def act_Inr_iff by blast

lemma keeps_modifies: "(\<And>s. P s \<Longrightarrow> P (f s)) \<Longrightarrow> keeps P (modifies f)"
  by (simp add: keeps_def)

lemma keeps_if [keeps_intro]: "(b \<Longrightarrow> keeps P m) \<Longrightarrow> (\<not> b \<Longrightarrow> keeps P m') \<Longrightarrow> keeps P (if b then m else m')"
  by simp

lemma keeps_option [keeps_intro]:
  "keeps P m \<Longrightarrow> (\<And>x. keeps P (f x)) \<Longrightarrow> keeps P (case opt of None \<Rightarrow> m | Some x \<Rightarrow> f x)"
  by (cases opt) simp_all

subsection \<open>Fixed-width integers stored as numbers\<close>

definition u64 :: "nat \<Rightarrow> nat" where
  "u64 n = n mod 2 ^ 64"

definition u64_of_int :: "int \<Rightarrow> nat" where
  "u64_of_int i = nat (i mod 2 ^ 64)"

definition i64_of_int :: "int \<Rightarrow> int" where
  "i64_of_int i = (i + 2 ^ 63) mod 2 ^ 64 - 2 ^ 63"

definition i32_of_int :: "int \<Rightarrow> int" where
  "i32_of_int i = (i + 2 ^ 31) mod 2 ^ 32 - 2 ^ 31"

lemma u64_code [code]: "u64 n = nat (int n mod 2 ^ 64)"
  by (simp add: u64_def nat_mod_distrib)

lemma u64_less [simp]: "u64 n < 2 ^ 64"
  by (simp add: u64_def)

lemma u64_id: "n < 2 ^ 64 \<Longrightarrow> u64 n = n"
  by (simp add: u64_def)

lemma i64_of_int_id: "- (2 ^ 63) \<le> i \<Longrightarrow> i < 2 ^ 63 \<Longrightarrow> i64_of_int i = i"
  by (simp add: i64_of_int_def)

lemma i64_of_int_range: "- (2 ^ 63) \<le> i64_of_int i \<and> i64_of_int i < 2 ^ 63"
proof -
  have "0 \<le> (i + 2 ^ 63) mod 2 ^ 64" "(i + 2 ^ 63) mod 2 ^ 64 < (2 ^ 64 :: int)"
    by simp_all
  then show ?thesis by (simp add: i64_of_int_def)
qed

subsection \<open>C strings\<close>

text \<open>
  A C string is the list of its bytes before the terminating NUL, so a \<^typ>\<open>string\<close>
  without NUL. \<open>c_str\<close> is what a \<open>char *\<close> into a byte buffer reads as.
\<close>

definition NUL :: char where
  "NUL = CHR 0x00"

definition c_str :: "char list \<Rightarrow> string" where
  "c_str bytes = takeWhile (\<lambda>c. c \<noteq> NUL) bytes"

definition nul_free :: "string \<Rightarrow> bool" where
  "nul_free s = list_all (\<lambda>c. c \<noteq> NUL) s"

lemma nul_free_simps [simp]:
  "nul_free []" "nul_free (c # s) \<longleftrightarrow> c \<noteq> NUL \<and> nul_free s"
  "nul_free (s @ s') \<longleftrightarrow> nul_free s \<and> nul_free s'"
  by (simp_all add: nul_free_def)

lemma c_str_nul_free [simp]: "nul_free s \<Longrightarrow> c_str (s @ NUL # rest) = s"
  by (induction s) (simp_all add: c_str_def)

lemma c_str_id [simp]: "nul_free s \<Longrightarrow> c_str s = s"
  by (induction s) (simp_all add: c_str_def)

lemma nul_free_c_str [simp]: "nul_free (c_str s)"
  by (induction s) (simp_all add: c_str_def)

text \<open>\<open>strncpy(dst, src, n)\<close> with at least \<open>n\<close> bytes readable at \<open>src\<close>: it stops copying at the
  first NUL and fills the rest of the \<open>n\<close> bytes with NUL.\<close>

definition strncpy_bytes :: "nat \<Rightarrow> char list \<Rightarrow> char list" where
  "strncpy_bytes n src =
     (let w = c_str (take n src) in w @ replicate (n - length w) NUL)"

lemma c_str_length_le: "length (c_str s) \<le> length s"
  by (simp add: c_str_def length_takeWhile_le)

lemma length_strncpy_bytes [simp]: "length (strncpy_bytes n src) = n"
proof -
  have "length (c_str (take n src)) \<le> n"
    using c_str_length_le [of "take n src"] by simp
  then show ?thesis by (simp add: strncpy_bytes_def Let_def)
qed

lemma strncpy_bytes_all [simp]: "nul_free s \<Longrightarrow> strncpy_bytes (length s) s = s"
  by (simp add: strncpy_bytes_def)

lemma c_str_append_NUL: "c_str (c_str s @ NUL # rest) = c_str s"
  by simp

lemma c_str_strncpy_bytes:
  "c_str (strncpy_bytes (length s) s @ NUL # rest) = c_str s"
proof (cases "length s - length (c_str s)")
  case 0
  then show ?thesis by (simp add: strncpy_bytes_def Let_def)
next
  case (Suc k)
  then show ?thesis by (simp add: strncpy_bytes_def Let_def)
qed

text \<open>\<open>sprintf\<close> into a buffer of \<open>cap\<close> bytes: the text and its NUL must fit.\<close>

definition sprintf_into :: "nat \<Rightarrow> string \<Rightarrow> string result" where
  "sprintf_into cap s = (if length s < cap then Inr s else Inl (Undefined ''buffer overrun''))"

lemma sprintf_into_fits [simp]: "length s < cap \<Longrightarrow> sprintf_into cap s = Inr s"
  by (simp add: sprintf_into_def)

lemma sprintf_into_Inr_iff: "sprintf_into cap s = Inr r \<longleftrightarrow> r = s \<and> length s < cap"
  by (auto simp: sprintf_into_def)

end
