(* ===== verification/Symname.thy ===== *)
theory Symname
  imports CA_Prelude
begin

section \<open>The symbol name table (\<open>symtable_cpp.cpp\<close>)\<close>

text \<open>
  Every identifier, type name, mangled name and literal text of the compiler is interned:
  its bytes live in \<open>s_symname_buffer\<close>, NUL-terminated, and its id is the offset of its
  first byte there. \<open>s_symname_name2pos\<close> maps a text to its offset. The record can be
  extended, so that the components with more global state run the same operations.
\<close>

record names =
  s_symname_buffer :: "char list"
  s_symname_name2pos :: "string \<rightharpoonup> int"

definition symname_init :: "'z names_scheme \<Rightarrow> 'z names_scheme" where
  "symname_init t = t\<lparr>s_symname_name2pos := Map.empty\<rparr>"

text \<open>
  \<open>symname_insert\<close> grows the buffer by the length and one byte, copies with \<open>strncpy\<close> and
  returns the old size; \<open>unordered_map::insert\<close> keeps an entry that is there.
\<close>

definition symname_insert :: "string \<Rightarrow> 'z names_scheme \<Rightarrow> int \<times> 'z names_scheme" where
  "symname_insert s t =
     (let bsize = int (length (s_symname_buffer t));
          buf = s_symname_buffer t @ strncpy_bytes (length s) s @ [NUL];
          m = (case s_symname_name2pos t s of
                 None \<Rightarrow> (s_symname_name2pos t)(s \<mapsto> bsize)
               | Some _ \<Rightarrow> s_symname_name2pos t)
      in (bsize, t\<lparr>s_symname_buffer := buf, s_symname_name2pos := m\<rparr>))"

definition symname_check_insert :: "string \<Rightarrow> 'z names_scheme \<Rightarrow> int \<times> 'z names_scheme" where
  "symname_check_insert name t =
     (let s = c_str name
      in (case s_symname_name2pos t s of
            Some pos \<Rightarrow> (pos, t)
          | None \<Rightarrow> symname_insert s t))"

text \<open>The binary variant takes the bytes and their number, so the key may contain NUL bytes.\<close>

definition symname_binary_check_insert ::
  "char list \<Rightarrow> nat \<Rightarrow> 'z names_scheme \<Rightarrow> int \<times> 'z names_scheme" where
  "symname_binary_check_insert name len t =
     (let s = take len name
      in (case s_symname_name2pos t s of
            Some pos \<Rightarrow> (pos, t)
          | None \<Rightarrow> symname_insert s t))"

definition symname_check :: "string \<Rightarrow> 'z names_scheme \<Rightarrow> int" where
  "symname_check name t =
     (case s_symname_name2pos t (c_str name) of Some pos \<Rightarrow> pos | None \<Rightarrow> - 1)"

text \<open>
  \<open>&s_symname_buffer[pos]\<close>, read as a C string. An offset outside the buffer, such as
  \<open>typeid_novalue\<close>, is an out-of-range read.
\<close>

definition symname_get :: "int \<Rightarrow> 'z names_scheme \<Rightarrow> string result" where
  "symname_get pos t =
     (if 0 \<le> pos \<and> pos < int (length (s_symname_buffer t))
      then Inr (c_str (drop (nat pos) (s_symname_buffer t)))
      else Inl (Undefined ''symname_get out of range''))"

definition sg :: "int \<Rightarrow> 'z names_scheme \<Rightarrow> string result" where
  "sg pos t = symname_get pos t"

text \<open>The same two operations as steps over the global state.\<close>

definition intern :: "string \<Rightarrow> ('z names_scheme, int) action" where
  "intern s = (\<lambda>t. Inr (symname_check_insert s t))"

definition name_of :: "int \<Rightarrow> ('z names_scheme, string) action" where
  "name_of i = (\<lambda>t. lift_result (symname_get i t) t)"

subsection \<open>The invariant\<close>

text \<open>
  A stored text \<open>w\<close> sits at its offset, followed by NUL. The table is well formed when
  every key is stored there the way \<open>strncpy\<close> wrote it, and two keys share no offset.
\<close>

definition stored_at :: "char list \<Rightarrow> int \<Rightarrow> char list \<Rightarrow> bool" where
  "stored_at buf p w \<longleftrightarrow>
     0 \<le> p \<and> (\<exists>pre post. buf = pre @ w @ NUL # post \<and> int (length pre) = p)"

definition names_ok :: "'z names_scheme \<Rightarrow> bool" where
  "names_ok t \<longleftrightarrow>
     (\<forall>s p. s_symname_name2pos t s = Some p \<longrightarrow>
        stored_at (s_symname_buffer t) p (strncpy_bytes (length s) s)) \<and>
     (\<forall>s s' p. s_symname_name2pos t s = Some p \<longrightarrow> s_symname_name2pos t s' = Some p \<longrightarrow> s = s')"

definition interned :: "'z names_scheme \<Rightarrow> int \<Rightarrow> string \<Rightarrow> bool" where
  "interned t p s \<longleftrightarrow> nul_free s \<and> s_symname_name2pos t s = Some p"

lemma stored_at_append: "stored_at buf p w \<Longrightarrow> stored_at (buf @ xtra) p w"
  unfolding stored_at_def by (metis append.assoc append_Cons)

lemma stored_at_new: "stored_at (buf @ w @ [NUL]) (int (length buf)) w"
  by (auto simp: stored_at_def)

lemma stored_at_less: "stored_at buf p w \<Longrightarrow> p < int (length buf)"
  by (auto simp: stored_at_def)

lemma stored_at_c_str:
  assumes "stored_at buf p w"
  shows "c_str (drop (nat p) buf) = c_str (w @ NUL # rest)"
proof -
  from assms obtain pre post where buf: "buf = pre @ w @ NUL # post" and p: "int (length pre) = p"
    by (auto simp: stored_at_def)
  from p have "nat p = length pre" by simp
  with buf have "drop (nat p) buf = w @ NUL # post" by simp
  moreover have "c_str (w @ NUL # post) = c_str (w @ NUL # rest)"
    by (induction w) (auto simp: c_str_def)
  ultimately show ?thesis by simp
qed

lemma names_ok_stored:
  "names_ok t \<Longrightarrow> s_symname_name2pos t s = Some p \<Longrightarrow>
   stored_at (s_symname_buffer t) p (strncpy_bytes (length s) s)"
  by (auto simp: names_ok_def)

lemma names_ok_inj:
  "names_ok t \<Longrightarrow> s_symname_name2pos t s = Some p \<Longrightarrow> s_symname_name2pos t s' = Some p \<Longrightarrow> s = s'"
  unfolding names_ok_def by blast

lemma symname_get_stored:
  assumes "names_ok t" "s_symname_name2pos t s = Some p"
  shows "symname_get p t = Inr (c_str s)"
proof -
  note st = names_ok_stored [OF assms]
  from st have "0 \<le> p" "p < int (length (s_symname_buffer t))"
    by (auto simp: stored_at_less) (auto simp: stored_at_def)
  moreover have "c_str (drop (nat p) (s_symname_buffer t)) = c_str s"
    using stored_at_c_str [OF st, of "[]"] by (simp add: c_str_strncpy_bytes)
  ultimately show ?thesis by (simp add: symname_get_def)
qed

lemma interned_get: "names_ok t \<Longrightarrow> interned t p s \<Longrightarrow> symname_get p t = Inr s"
  by (auto simp: interned_def dest: symname_get_stored)

lemma interned_inj: "names_ok t \<Longrightarrow> interned t p s \<Longrightarrow> interned t p s' \<Longrightarrow> s = s'"
  by (auto simp: interned_def dest: names_ok_inj)

lemma interned_fun: "interned t p s \<Longrightarrow> interned t p' s \<Longrightarrow> p = p'"
  by (simp add: interned_def)

subsection \<open>Every operation keeps it, and no id ever changes its text\<close>

lemma names_ok_insert [names_intro]:
  assumes ok: "names_ok t" and new: "s_symname_name2pos t s = None"
  shows "names_ok (snd (symname_insert s t))"
proof -
  let ?b = "s_symname_buffer t" and ?m = "s_symname_name2pos t"
  have fresh: "?m s' \<noteq> Some (int (length ?b))" for s'
    using stored_at_less [OF names_ok_stored [OF ok]] by fastforce
  show ?thesis
    unfolding names_ok_def symname_insert_def using ok new fresh
    by (auto simp: Let_def stored_at_new names_ok_stored [THEN stored_at_append]
        dest: names_ok_inj [OF ok])
qed

lemma names_ok_check_insert [names_intro]:
  "names_ok t \<Longrightarrow> names_ok (snd (symname_check_insert s t))"
  by (auto simp: symname_check_insert_def Let_def names_ok_insert split: option.split)

lemma names_ok_binary_check_insert [names_intro]:
  "names_ok t \<Longrightarrow> names_ok (snd (symname_binary_check_insert s n t))"
  by (auto simp: symname_binary_check_insert_def Let_def names_ok_insert split: option.split)

lemma interned_insert:
  "interned t p s \<Longrightarrow> interned (snd (symname_insert s' t)) p s"
  by (auto simp: interned_def symname_insert_def Let_def split: option.split)

lemma interned_check_insert:
  "interned t p s \<Longrightarrow> interned (snd (symname_check_insert s' t)) p s"
  by (auto simp: symname_check_insert_def Let_def interned_insert split: option.split)

lemma interned_new:
  "nul_free s \<Longrightarrow> interned (snd (symname_check_insert s t)) (fst (symname_check_insert s t)) s"
  by (auto simp: interned_def symname_check_insert_def symname_insert_def Let_def split: option.split)

lemma check_insert_interned [simp]:
  "interned t p s \<Longrightarrow> symname_check_insert s t = (p, t)"
  by (simp add: interned_def symname_check_insert_def)

lemma symname_check_interned: "interned t p s \<Longrightarrow> symname_check s t = p"
  by (simp add: interned_def symname_check_def)

text \<open>No text of the buffer changes when more is interned, whoever holds the offset.\<close>

definition buffer_closed :: "'z names_scheme \<Rightarrow> bool" where
  "buffer_closed t \<longleftrightarrow> s_symname_buffer t = [] \<or> last (s_symname_buffer t) = NUL"

lemma buffer_closed_insert [names_intro]:
  "buffer_closed (snd (symname_insert s t))"
  by (simp add: buffer_closed_def symname_insert_def Let_def)

lemma buffer_closed_check_insert [names_intro]:
  "buffer_closed t \<Longrightarrow> buffer_closed (snd (symname_check_insert s t))"
  by (auto simp: symname_check_insert_def Let_def buffer_closed_insert split: option.split)

lemma c_str_closed_append:
  "xs \<noteq> [] \<Longrightarrow> last xs = NUL \<Longrightarrow> c_str (xs @ xtra) = c_str xs"
  by (induction xs) (auto simp: c_str_def split: if_splits)

lemma symname_get_insert:
  assumes "buffer_closed t" "symname_get p t = Inr s"
  shows "symname_get p (snd (symname_insert s' t)) = Inr s"
proof -
  let ?b = "s_symname_buffer t"
  from assms(2) have p: "0 \<le> p" "p < int (length ?b)" and s: "s = c_str (drop (nat p) ?b)"
    by (auto simp: symname_get_def split: if_splits)
  then have ne: "drop (nat p) ?b \<noteq> []" and "?b \<noteq> []" by auto
  with assms(1) have "last (drop (nat p) ?b) = NUL"
    by (simp add: buffer_closed_def)
  with ne s have "s = c_str (drop (nat p) ?b @ xtra)" for xtra
    by (simp add: c_str_closed_append)
  with p show ?thesis
    by (simp add: symname_get_def symname_insert_def Let_def)
qed

lemma symname_get_check_insert:
  "buffer_closed t \<Longrightarrow> symname_get p t = Inr s \<Longrightarrow>
   symname_get p (snd (symname_check_insert s' t)) = Inr s"
  by (auto simp: symname_check_insert_def Let_def symname_get_insert split: option.split)

subsection \<open>The interface the other components use\<close>

text \<open>
  A name store hands out ids for texts and gives the text of an id back. \<open>known s i w\<close> says
  that \<open>i\<close> is the id of \<open>w\<close> in the state \<open>s\<close>.
\<close>

locale name_store =
  fixes get :: "int \<Rightarrow> 's \<Rightarrow> string result"
    and ins :: "string \<Rightarrow> 's \<Rightarrow> int \<times> 's"
    and ok :: "'s \<Rightarrow> bool"
    and known :: "'s \<Rightarrow> int \<Rightarrow> string \<Rightarrow> bool"
  assumes known_get: "ok s \<Longrightarrow> known s i w \<Longrightarrow> get i s = Inr w"
    and known_unique: "ok s \<Longrightarrow> known s i w \<Longrightarrow> known s j w \<Longrightarrow> i = j"
    and ins_ok: "ok s \<Longrightarrow> ok (snd (ins w s))"
    and ins_new: "nul_free w \<Longrightarrow> known (snd (ins w s)) (fst (ins w s)) w"
    and ins_keeps: "known s i v \<Longrightarrow> known (snd (ins w s)) i v"
    and ins_again: "known s i w \<Longrightarrow> ins w s = (i, s)"
begin

lemma known_text_unique: "ok s \<Longrightarrow> known s i v \<Longrightarrow> known s i w \<Longrightarrow> v = w"
  by (metis known_get sum.inject(2))

lemma ins_get: "ok s \<Longrightarrow> nul_free w \<Longrightarrow> get (fst (ins w s)) (snd (ins w s)) = Inr w"
  by (blast intro: known_get ins_ok ins_new)

lemma ins_twice: "nul_free w \<Longrightarrow> ins w (snd (ins w s)) = (fst (ins w s), snd (ins w s))"
  by (blast intro: ins_again ins_new)

text \<open>Two texts get one id exactly when they are the same text.\<close>

lemma ins_ids_eq_iff:
  assumes "ok s" "nul_free v" "nul_free w"
  shows "fst (ins w (snd (ins v s))) = fst (ins v s) \<longleftrightarrow> w = v"
proof
  let ?s1 = "snd (ins v s)"
  assume eq: "fst (ins w ?s1) = fst (ins v s)"
  have "known (snd (ins w ?s1)) (fst (ins v s)) v"
    using assms(2) by (blast intro: ins_keeps ins_new)
  moreover have "known (snd (ins w ?s1)) (fst (ins v s)) w"
    using ins_new [OF assms(3), of ?s1] eq by simp
  ultimately show "w = v"
    using assms(1) by (blast intro: known_text_unique ins_ok)
next
  assume "w = v"
  then show "fst (ins w (snd (ins v s))) = fst (ins v s)"
    using assms(2) by (simp add: ins_twice)
qed

end

interpretation tbl: name_store symname_get symname_check_insert names_ok interned
  by unfold_locales
    (auto intro: interned_get interned_fun names_ok_check_insert interned_new
      interned_check_insert)

subsection \<open>What the table promises\<close>

definition names_empty :: names where
  "names_empty = \<lparr>s_symname_buffer = [], s_symname_name2pos = Map.empty\<rparr>"

lemma names_ok_empty [simp]: "names_ok names_empty" and buffer_closed_empty [simp]: "buffer_closed names_empty"
  by (simp_all add: names_empty_def names_ok_def buffer_closed_def)

text \<open>Claim C16: interning a text and reading its id back gives the text, the table stays well
  formed, and interning the same text again gives the same id and changes nothing.\<close>

theorem symname_roundtrip:
  assumes "names_ok t" "nul_free s"
  shows "names_ok (snd (symname_check_insert s t))
    \<and> symname_get (fst (symname_check_insert s t)) (snd (symname_check_insert s t)) = Inr s
    \<and> symname_check_insert s (snd (symname_check_insert s t)) = symname_check_insert s t
    \<and> symname_check s (snd (symname_check_insert s t)) = fst (symname_check_insert s t)"
  using assms tbl.ins_get tbl.ins_twice names_ok_check_insert
  by (metis interned_new prod.collapse symname_check_interned)

theorem symname_roundtrip_witness:
  "names_ok (snd (symname_check_insert ''t:i32'' names_empty))
    \<and> symname_get (fst (symname_check_insert ''t:i32'' names_empty))
        (snd (symname_check_insert ''t:i32'' names_empty)) = Inr ''t:i32''"
proof -
  have "nul_free ''t:i32''" by (simp add: NUL_def)
  with symname_roundtrip [OF names_ok_empty this] show ?thesis by simp
qed

text \<open>Claim C17: ids are canonical. After two texts have been interned, in any well formed table,
  their ids are equal exactly when the texts are, which is why the compiler compares types
  by comparing ids.\<close>

theorem symname_ids_canonical:
  assumes "names_ok t" "nul_free a" "nul_free b"
  shows "fst (symname_check_insert b (snd (symname_check_insert a t)))
           = fst (symname_check_insert a t) \<longleftrightarrow> b = a"
  using assms by (rule tbl.ins_ids_eq_iff)

theorem symname_ids_canonical_witness:
  "fst (symname_check_insert ''f:a'' (snd (symname_check_insert ''t:a'' names_empty)))
     \<noteq> fst (symname_check_insert ''t:a'' names_empty)"
proof -
  have "nul_free ''t:a''" "nul_free ''f:a''" by (simp_all add: NUL_def)
  from symname_ids_canonical [OF names_ok_empty this] show ?thesis by simp
qed

text \<open>Interning never changes the text behind an offset that was readable before,
  whether it was handed out as an id or points inside a text (the \<open>+ 2\<close> of
  \<open>catype_get_type_name\<close>).\<close>

lemma symname_get_stable:
  assumes "buffer_closed t" "symname_get p t = Inr s"
  shows "symname_get p (snd (symname_check_insert s' t)) = Inr s"
  using assms by (rule symname_get_check_insert)

lemma symname_get_stable_witness:
  "symname_get 2 (snd (symname_check_insert ''x'' (snd (symname_check_insert ''t:i32'' names_empty))))
     = Inr ''i32''"
proof -
  have "symname_get 2 (snd (symname_check_insert ''t:i32'' names_empty)) = Inr ''i32''"
    by (simp add: symname_get_def symname_check_insert_def symname_insert_def names_empty_def
        Let_def c_str_def strncpy_bytes_def NUL_def)
  moreover have "buffer_closed (snd (symname_check_insert ''t:i32'' names_empty))"
    by (intro buffer_closed_check_insert buffer_closed_empty)
  ultimately show ?thesis using symname_get_stable by blast
qed

text \<open>The binary variant does not store a text with an embedded NUL: whatever follows
  the first NUL is written as zero bytes, so the bytes of the literal are lost.\<close>

lemma symname_binary_loses_tail:
  assumes "s_symname_name2pos t (pre @ NUL # post) = None" "nul_free pre"
  shows "s_symname_buffer (snd (symname_binary_check_insert (pre @ NUL # post)
           (length (pre @ NUL # post)) t))
         = s_symname_buffer t @ pre @ replicate (length post + 2) NUL"
  using assms
  by (simp add: symname_binary_check_insert_def symname_insert_def strncpy_bytes_def Let_def
      replicate_append_same [symmetric])

lemma symname_binary_loses_tail_witness:
  "s_symname_buffer (snd (symname_binary_check_insert [CHR ''a'', NUL, CHR ''b'', NUL] 4 names_empty))
     = [CHR ''a'', NUL, NUL, NUL, NUL]"
proof -
  have "s_symname_name2pos names_empty (''a'' @ NUL # [CHR ''b'', NUL]) = None"
    by (simp add: names_empty_def)
  moreover have "nul_free ''a''" by (simp add: NUL_def)
  ultimately show ?thesis
    using symname_binary_loses_tail [of names_empty "''a''" "[CHR ''b'', NUL]"]
    by (simp add: names_empty_def eval_nat_numeral)
qed

end
