(* ===== verification/Containers.thy ===== *)
theory Containers
  imports Symname
begin

section \<open>The containers behind the C interface (\<open>symtable_cpp.cpp\<close>)\<close>

text \<open>
  The bison grammar is C, so it reaches the C++ containers through \<open>void *\<close> handles. A
  handle is modelled by the contents of its container, an operation that mutates it returns
  the new contents. A \<open>void *\<close> item is \<open>'a option\<close>, with \<open>None\<close> the null pointer.
\<close>

type_synonym 'a ptr = "'a option"
type_synonym 'a vec = "'a ptr list"

subsection \<open>\<open>vec_*\<close>: \<open>std::vector<void *>\<close>\<close>

definition vec_new :: "'a vec" where
  "vec_new = []"

definition vec_append :: "'a vec \<Rightarrow> 'a ptr \<Rightarrow> 'a vec" where
  "vec_append v item = v @ [item]"

definition vec_front :: "'a vec \<Rightarrow> 'a ptr" where
  "vec_front v = (if v = [] then None else hd v)"

definition vec_pushfront :: "'a vec \<Rightarrow> 'a ptr \<Rightarrow> 'a vec" where
  "vec_pushfront v item = item # v"

definition vec_popfront :: "'a vec \<Rightarrow> 'a ptr \<times> 'a vec" where
  "vec_popfront v = (if v = [] then (None, v) else (hd v, tl v))"

definition vec_popback :: "'a vec \<Rightarrow> 'a ptr \<times> 'a vec" where
  "vec_popback v = (if v = [] then (None, v) else (last v, butlast v))"

definition vec_size :: "'a vec option \<Rightarrow> nat" where
  "vec_size handle = (case handle of None \<Rightarrow> 0 | Some v \<Rightarrow> length v)"

text \<open>\<open>vector::at\<close> throws \<open>std::out_of_range\<close>, which nothing catches; a negative \<open>int\<close>
  becomes a large \<open>size_t\<close>.\<close>

definition vec_at :: "'a vec \<Rightarrow> int \<Rightarrow> 'a ptr result" where
  "vec_at v i =
     (if 0 \<le> i \<and> i < int (length v) then Inr (v ! nat i) else Inl (Exit ''std::out_of_range''))"

definition vec_reverse :: "'a vec \<Rightarrow> 'a vec" where
  "vec_reverse v = rev v"

lemmas vec_defs = vec_new_def vec_append_def vec_front_def vec_pushfront_def vec_popfront_def
  vec_popback_def vec_size_def vec_at_def vec_reverse_def

subsection \<open>\<open>string_*\<close> and \<open>set_*\<close>\<close>

definition string_new :: string where
  "string_new = []"

definition string_append :: "string \<Rightarrow> string \<Rightarrow> string" where
  "string_append h s = h @ c_str s"

definition string_append_char :: "string \<Rightarrow> char \<Rightarrow> string" where
  "string_append_char h c = h @ [c]"

definition string_c_str :: "string \<Rightarrow> string" where
  "string_c_str h = c_str h"

definition string_pop_back :: "string \<Rightarrow> string result" where
  "string_pop_back h = (if h = [] then Inl (Undefined ''pop_back on an empty string'') else Inr (butlast h))"

definition set_new :: "'a list" where
  "set_new = []"

definition set_insert :: "'a list \<Rightarrow> 'a \<Rightarrow> 'a list" where
  "set_insert h x = List.insert x h"

definition set_exists :: "'a list \<Rightarrow> 'a \<Rightarrow> bool" where
  "set_exists h x \<longleftrightarrow> List.member h x"

lemmas string_defs = string_new_def string_append_def string_append_char_def string_c_str_def
  string_pop_back_def

lemma set_exists_insert [simp]: "set_exists (set_insert h x) y \<longleftrightarrow> y = x \<or> set_exists h y"
  by (auto simp: set_exists_def set_insert_def)

lemma set_exists_new [simp]: "\<not> set_exists set_new x"
  by (simp add: set_exists_def set_new_def)

subsection \<open>\<open>buffer_*\<close>: the text of a string literal under construction\<close>

definition buffer_create :: "char list" where
  "buffer_create = []"

text \<open>\<open>buffer_append\<close> makes room for \<open>len\<close> bytes and fills them with \<open>strncpy\<close>.\<close>

definition buffer_append :: "char list \<Rightarrow> char list \<Rightarrow> nat \<Rightarrow> char list" where
  "buffer_append h text len = h @ strncpy_bytes len text"

definition buffer_append_char :: "char list \<Rightarrow> char \<Rightarrow> char list" where
  "buffer_append_char h ch = h @ [ch]"

definition buffer_binary_end ::
  "char list \<Rightarrow> 'z names_scheme \<Rightarrow> (int \<times> nat) \<times> 'z names_scheme" where
  "buffer_binary_end h t =
     (let v = h @ [NUL]; len = length v - 1;
          (name, t') = symname_binary_check_insert v (length v) t
      in ((name, len), t'))"

definition buffer_end :: "char list \<Rightarrow> ('z names_scheme, string \<times> nat) action" where
  "buffer_end h = (\<lambda>t.
     let ((name, len), t') = buffer_binary_end h t
     in (case symname_get name t' of Inl e \<Rightarrow> Inl e | Inr s \<Rightarrow> Inr ((s, len), t')))"

subsection \<open>Literal buffers and array expressions\<close>

record 'tok LitBuffer =
  lb_typetok :: 'tok
  lb_len :: nat
  lb_text :: int

definition set_litbuf ::
  "string \<Rightarrow> nat \<Rightarrow> 'tok \<Rightarrow> 'z names_scheme \<Rightarrow> 'tok LitBuffer \<times> 'z names_scheme" where
  "set_litbuf text len typetok t =
     (let (name, t') = symname_check_insert text t
      in (\<lparr>lb_typetok = typetok, lb_len = len, lb_text = name\<rparr>, t'))"

definition set_litbuf_symname :: "int \<Rightarrow> nat \<Rightarrow> 'tok \<Rightarrow> 'tok LitBuffer" where
  "set_litbuf_symname name len typetok = \<lparr>lb_typetok = typetok, lb_len = len, lb_text = name\<rparr>"

record 'node CAArrayExpr =
  repeat_count :: nat
  ae_data :: "'node list"

definition arrayexpr_new :: "'node CAArrayExpr" where
  "arrayexpr_new = \<lparr>repeat_count = 0, ae_data = []\<rparr>"

definition arrayexpr_append :: "'node CAArrayExpr \<Rightarrow> 'node \<Rightarrow> 'node CAArrayExpr" where
  "arrayexpr_append obj expr = obj\<lparr>ae_data := ae_data obj @ [expr]\<rparr>"

definition arrayexpr_size :: "'node CAArrayExpr \<Rightarrow> nat" where
  "arrayexpr_size obj = length (ae_data obj)"

definition arrayexpr_get :: "'node CAArrayExpr \<Rightarrow> int \<Rightarrow> 'node result" where
  "arrayexpr_get obj idx =
     (if 0 \<le> idx \<and> idx < int (length (ae_data obj)) then Inr (ae_data obj ! nat idx)
      else Inl (Exit ''std::out_of_range''))"

definition arrayexpr_fill :: "'node CAArrayExpr \<Rightarrow> 'node \<Rightarrow> nat \<Rightarrow> 'node CAArrayExpr" where
  "arrayexpr_fill obj expr n = obj\<lparr>ae_data := ae_data obj @ [expr], repeat_count := n\<rparr>"

subsection \<open>Argument list stacks\<close>

text \<open>
  \<open>s_actualarglist_stack\<close> and \<open>s_tuplelist_stack\<close> are \<open>std::stack\<close>s: \<open>top\<close> and \<open>pop\<close> of an
  empty one are undefined. The model keeps the top at the head of a list.
\<close>

definition MAX_ARGS :: nat where
  "MAX_ARGS = 16"

record 'node ST_ArgListActual =
  aa_argc :: nat
  aa_args :: "'node list"

definition actualarglist_current :: "'node ST_ArgListActual list \<Rightarrow> 'node ST_ArgListActual result" where
  "actualarglist_current st =
     (case st of [] \<Rightarrow> Inl (Undefined ''top of an empty stack'') | a # _ \<Rightarrow> Inr a)"

definition actualarglist_new_push :: "'node ST_ArgListActual list \<Rightarrow> 'node ST_ArgListActual list" where
  "actualarglist_new_push st = \<lparr>aa_argc = 0, aa_args = []\<rparr> # st"

definition actualarglist_pop :: "'node ST_ArgListActual list \<Rightarrow> 'node ST_ArgListActual list result" where
  "actualarglist_pop st =
     (case st of [] \<Rightarrow> Inl (Undefined ''pop of an empty stack'') | _ # r \<Rightarrow> Inr r)"

text \<open>\<open>add_fn_args_actual\<close> (\<open>ca_parser.c\<close>) appends to the top list, at most \<open>MAX_ARGS\<close> times.\<close>

definition add_fn_args_actual ::
  "'node ST_ArgListActual list \<Rightarrow> 'node \<Rightarrow> 'node ST_ArgListActual list result" where
  "add_fn_args_actual st arg =
     (case st of
        [] \<Rightarrow> Inl (Undefined ''top of an empty stack'')
      | aa # r \<Rightarrow>
          if MAX_ARGS \<le> aa_argc aa then Inl (Exit ''too many args'')
          else Inr (aa\<lparr>aa_argc := Suc (aa_argc aa), aa_args := aa_args aa @ [arg]\<rparr> # r))"

fun add_all_args ::
  "'node ST_ArgListActual list \<Rightarrow> 'node list \<Rightarrow> 'node ST_ArgListActual list result" where
  "add_all_args st [] = Inr st"
| "add_all_args st (x # xs) = bind_result (add_fn_args_actual st x) (\<lambda>st'. add_all_args st' xs)"

subsection \<open>What they promise\<close>

text \<open>\<open>push_type_impl\<close>/\<open>pop_type_impl\<close> use a vector as a stack, \<open>vec_pushfront\<close>/\<open>vec_popfront\<close>
  and \<open>vec_append\<close>/\<open>vec_popfront\<close> use it as a deque.\<close>

lemma vec_stack [simp]: "vec_popback (vec_append v x) = (x, v)"
  by (simp add: vec_defs)

lemma vec_deque [simp]: "vec_popfront (vec_pushfront v x) = (x, v)"
  by (simp add: vec_defs)

lemma vec_at_append:
  "vec_at (vec_append v x) i =
     (if i = int (length v) then Inr x else vec_at v i)"
  by (auto simp: vec_defs nth_append nat_less_iff)

lemma add_all_args_eq:
  assumes "aa_argc a = length (aa_args a)"
  shows "add_all_args (a # st) xs =
    (if xs = [] \<or> length (aa_args a) + length xs \<le> MAX_ARGS
     then Inr (\<lparr>aa_argc = length (aa_args a) + length xs, aa_args = aa_args a @ xs, \<dots> = ST_ArgListActual.more a\<rparr> # st)
     else Inl (Exit ''too many args''))"
  using assms
proof (induction xs arbitrary: a)
  case Nil
  then show ?case by (cases a) simp
next
  case (Cons x xs)
  then show ?case by (auto simp: add_fn_args_actual_def MAX_ARGS_def)
qed

text \<open>The arguments of a call are collected in source order, up to sixteen of them,
  whatever calls are still open below it on the stack; a seventeenth ends the run.\<close>

lemma call_arguments_collected:
  "add_all_args (actualarglist_new_push st) xs =
     (if length xs \<le> MAX_ARGS
      then Inr (\<lparr>aa_argc = length xs, aa_args = xs\<rparr> # st)
      else Inl (Exit ''too many args''))"
  by (simp add: actualarglist_new_push_def add_all_args_eq MAX_ARGS_def)

text \<open>The text of a literal reaches the name table byte for byte, when it has no NUL.\<close>

lemma buffer_appends:
  "nul_free s \<Longrightarrow> buffer_append h s (length s) = h @ s"
  by (simp add: buffer_append_def)

lemma symname_get_new:
  assumes "s_symname_name2pos t s = None" "names_ok t"
  shows "symname_get (fst (symname_insert s t)) (snd (symname_insert s t)) = Inr (c_str s)"
proof (rule symname_get_stored)
  show "names_ok (snd (symname_insert s t))" using assms by (rule names_ok_insert [rotated])
  show "s_symname_name2pos (snd (symname_insert s t)) s = Some (fst (symname_insert s t))"
    using assms(1) by (simp add: symname_insert_def Let_def)
qed

text \<open>Ending a literal buffer returns the number of its bytes, and the text read back
  is the text that was appended up to its first NUL, in a table that stays well formed.\<close>

lemma buffer_end_text:
  assumes "names_ok t"
  shows "\<exists>t'. buffer_end h t = Inr ((c_str h, length h), t') \<and> names_ok t'"
proof -
  let ?v = "h @ [NUL]"
  have c: "c_str ?v = c_str h"
    by (induction h) (auto simp: c_str_def)
  show ?thesis
  proof (cases "s_symname_name2pos t ?v")
    case None
    then show ?thesis
      using symname_get_new [OF None assms] names_ok_insert [OF assms None] c
      by (auto simp: buffer_end_def buffer_binary_end_def symname_binary_check_insert_def Let_def
          split: prod.split sum.split)
  next
    case (Some p)
    then show ?thesis
      using symname_get_stored [OF assms Some] assms c
      by (auto simp: buffer_end_def buffer_binary_end_def symname_binary_check_insert_def Let_def)
  qed
qed

lemma buffer_end_text_witness:
  "\<exists>t'. buffer_end ''hi'' names_empty = Inr ((''hi'', 2), t') \<and> names_ok t'"
  using buffer_end_text [OF names_ok_empty, of "''hi''"] by (simp add: c_str_def NUL_def numeral_2_eq_2)

end
