(* ===== verification/Source_Info.thy ===== *)
theory Source_Info
  imports CA_Prelude
begin

section \<open>Source lines for error reports (\<open>symtable_cpp.cpp\<close>)\<close>

text \<open>
  \<open>g_source_info\<close> keeps the lines of the source file, its size, and one buffer of
  \<open>size + 1\<close> bytes in which \<open>source_lines\<close> assembles the lines an error report shows.
\<close>

record SLoc =
  row :: int
  col :: int

record SourceInfo =
  si_content :: "string list"
  si_size :: nat
  si_buffer_size :: nat

text \<open>\<open>std::getline\<close> with delimiter newline, until it fails: a last line that is not
  terminated counts when it is not empty.\<close>

definition newline :: char where
  "newline = CHR 0x0A"

fun getlines :: "string \<Rightarrow> string \<Rightarrow> string list" where
  "getlines line [] = (if line = [] then [] else [line])"
| "getlines line (c # cs) =
     (if c = newline then line # getlines [] cs else getlines (line @ [c]) cs)"

definition source_info_init :: "string option \<Rightarrow> SourceInfo result" where
  "source_info_init file =
     (case file of
        None \<Rightarrow> Inl (Exit ''read source file failed for source info'')
      | Some src \<Rightarrow>
          Inr \<lparr>si_content = getlines [] src, si_size = length src,
               si_buffer_size = length src + 1\<rparr>)"

definition source_line :: "SourceInfo \<Rightarrow> int \<Rightarrow> string" where
  "source_line g lineno =
     (if lineno < 1 \<or> int (length (si_content g)) < lineno then []
      else c_str (si_content g ! nat (lineno - 1)))"

text \<open>
  The copying loop: \<open>startpos\<close> bytes of the buffer are filled. A copy that does not fit is a
  heap overrun, also the NUL that ends the text. The test \<open>linefrom == lineto\<close> of the
  source has no \<open>return\<close>, so it changes nothing.
\<close>

fun copy_lines :: "nat \<Rightarrow> string list \<Rightarrow> string \<Rightarrow> string result" where
  "copy_lines cap [] buffer =
     (if length buffer < cap then Inr buffer else Inl (Undefined ''source buffer overrun''))"
| "copy_lines cap (data # rest) buffer =
     (if length buffer + length data < cap
      then copy_lines cap rest (buffer @ data @ [newline])
      else Inl (Undefined ''source buffer overrun''))"

definition source_lines :: "SourceInfo \<Rightarrow> int \<Rightarrow> int \<Rightarrow> string result" where
  "source_lines g linefrom lineto =
     (let n = int (length (si_content g)) in
      if linefrom < 1 \<or> n < linefrom \<or> lineto < 1 \<or> n < lineto \<or> lineto < linefrom then Inr []
      else bind_result
             (copy_lines (si_buffer_size g)
               (take (nat (lineto - linefrom + 1)) (drop (nat (linefrom - 1)) (si_content g))) [])
             (\<lambda>src. Inr (c_str src)))"

definition source_region :: "SourceInfo \<Rightarrow> SLoc \<Rightarrow> SLoc \<Rightarrow> string result" where
  "source_region g beg fin =
     (let n = int (length (si_content g)) in
      if row beg < 1 \<or> n < row beg \<or> row fin < 1 \<or> n < row fin \<or> row fin < row beg then Inr []
      else source_lines g (row beg) (row fin))"

subsection \<open>Sizes\<close>

definition text_size :: "string list \<Rightarrow> nat" where
  "text_size ls = sum_list (map (\<lambda>l. Suc (length l)) ls)"

lemma text_size_simps [simp]:
  "text_size [] = 0"
  "text_size (l # ls) = Suc (length l) + text_size ls"
  "text_size (ls @ ls') = text_size ls + text_size ls'"
  by (simp_all add: text_size_def)

lemma copy_lines_eq:
  "copy_lines cap ls buf =
     (if length buf + text_size ls < cap
      then Inr (buf @ concat (map (\<lambda>l. l @ [newline]) ls))
      else Inl (Undefined ''source buffer overrun''))"
  by (induction ls arbitrary: buf) auto

lemma text_size_getlines:
  "text_size (getlines line src) =
     length line + length src +
     (if line @ src = [] \<or> (src \<noteq> [] \<and> last src = newline) then 0 else 1)"
proof (induction src arbitrary: line)
  case Nil
  then show ?case by simp
next
  case (Cons c cs)
  then show ?case by (cases "cs = []") auto
qed

lemma text_size_take_drop: "text_size (take k (drop j ls)) \<le> text_size ls"
proof -
  have "text_size ls = text_size (take j ls) + text_size (drop j ls)"
    by (metis append_take_drop_id text_size_simps(3))
  moreover have "text_size (drop j ls) =
      text_size (take k (drop j ls)) + text_size (drop k (drop j ls))"
    by (metis append_take_drop_id text_size_simps(3))
  ultimately show ?thesis by linarith
qed

text \<open>For a file that ends in a newline, every range of lines an error report can ask
  for is assembled inside the buffer, and is the lines of the range, each ended by a newline.\<close>

lemma source_lines_fit:
  assumes "source_info_init (Some src) = Inr g" "src \<noteq> []" "last src = newline"
    and "1 \<le> a" "a \<le> b" "b \<le> int (length (si_content g))"
  shows "source_lines g a b = Inr (c_str (concat (map (\<lambda>l. l @ [newline])
           (take (nat (b - a + 1)) (drop (nat (a - 1)) (si_content g))))))"
proof -
  from assms(1) have g: "si_content g = getlines [] src" "si_buffer_size g = length src + 1"
    by (auto simp: source_info_init_def)
  have "text_size (take (nat (b - a + 1)) (drop (nat (a - 1)) (si_content g)))
        \<le> text_size (getlines [] src)"
    unfolding g by (rule text_size_take_drop)
  also have "\<dots> = length src"
    using assms(2,3) by (simp add: text_size_getlines)
  finally show ?thesis
    using assms(4-6) by (simp add: source_lines_def copy_lines_eq g(2))
qed

definition two_line_file :: string where
  "two_line_file = ''ab'' @ [newline] @ ''c'' @ [newline]"

lemma source_lines_fit_witness:
  "\<exists>g. source_info_init (Some two_line_file) = Inr g
     \<and> source_lines g 1 2 = Inr (''ab'' @ [newline] @ ''c'' @ [newline])"
proof -
  have len: "getlines [] two_line_file = [''ab'', ''c'']"
    by (simp add: two_line_file_def newline_def)
  obtain g where g: "source_info_init (Some two_line_file) = Inr g"
    and c: "si_content g = [''ab'', ''c'']"
    using len by (simp add: source_info_init_def del: getlines.simps)
  have "source_lines g 1 2 = Inr (c_str (concat (map (\<lambda>l. l @ [newline])
           (take (nat (2 - 1 + 1)) (drop (nat (1 - 1)) (si_content g))))))"
    by (rule source_lines_fit [OF g]) (simp_all add: two_line_file_def c)
  with g show ?thesis by (auto simp: c c_str_def NUL_def newline_def)
qed

text \<open>When the file does not end in a newline, showing all of it writes one byte past
  the buffer: the added newline takes the byte that was kept for the NUL.\<close>

lemma source_lines_overrun:
  assumes "source_info_init (Some src) = Inr g" "src \<noteq> []" "last src \<noteq> newline"
  shows "source_lines g 1 (int (length (si_content g))) = Inl (Undefined ''source buffer overrun'')"
proof -
  from assms(1) have g: "si_content g = getlines [] src" "si_buffer_size g = length src + 1"
    by (auto simp: source_info_init_def)
  have size: "text_size (getlines [] src) = length src + 1"
    using assms(2,3) by (simp add: text_size_getlines)
  then have "getlines [] src \<noteq> []" by (metis add_is_0 one_neq_zero text_size_simps(1))
  then have "\<not> int (length (si_content g)) < 1" and "\<not> length (getlines [] src) < 1"
    by (cases "getlines [] src"; simp add: g(1))+
  with \<open>getlines [] src \<noteq> []\<close> show ?thesis
    by (simp add: source_lines_def copy_lines_eq g size Let_def)
qed

lemma source_lines_overrun_witness:
  "\<exists>g. source_info_init (Some ''fn'') = Inr g
     \<and> source_lines g 1 1 = Inl (Undefined ''source buffer overrun'')"
proof -
  have len: "getlines [] ''fn'' = [''fn'']" by (simp add: newline_def)
  obtain g where g: "source_info_init (Some ''fn'') = Inr g" and c: "si_content g = [''fn'']"
    using len by (simp add: source_info_init_def del: getlines.simps)
  from source_lines_overrun [OF g] c g show ?thesis by (auto simp: newline_def)
qed

end
