(* ===== verification/Tokens.thy ===== *)
theory Tokens
  imports Complex_Main CA_Prelude
begin

section \<open>Tokens, primitive types and literal scopes (\<open>ca.y\<close>, \<open>type_system.cpp\<close>)\<close>

text \<open>
  The token ids bison generates from \<open>ca.y\<close> double as type tags (\<open>tokenid_t\<close>). The tokens
  from \<open>VOID\<close> to \<open>CSTRING\<close> are consecutive, and the conversion tables are indexed by the
  difference to \<open>VOID\<close>; \<open>RANGE\<close> and \<open>SLICE\<close> come much later in the same declaration.
  \<open>No_Token\<close> is \<open>tokenid_novalue\<close>, \<open>Tok\<close> holds the keywords and
  operators, which are never the tag of a type; \<open>TYPE_KW\<close> is the token \<open>TYPE\<close>, \<open>LESS\<close> and
  \<open>GREATER\<close> are the characters \<open>'<'\<close> and \<open>'>'\<close>.
\<close>

datatype other_token =
    WHILE | IF | IFE | ELSE | DBGPRINT | DBGPRINTTYPE | GOTO | EXTERN | FN | RET | LET | IMPL | TRAIT
  | LOOP | FOR | IN | BREAK | CONTINUE | MATCH | USE | MOD
  | TYPE_KW | SIZEOF | TYPEOF | TYPEID | ZERO_INITIAL | REF | BOX | DROP | AS
  | EQ | NE | GE | LE | LESS | GREATER

datatype tokenid =
    No_Token
  | VOID | I16 | I32 | I64 | U16 | U32 | U64 | F32 | F64 | BOOL | I8 | U8
  | ATOMTYPE_END | STRUCT | ARRAY | POINTER | CSTRING
  | RANGE | SLICE
  | Tok other_token

fun tok_index :: "tokenid \<Rightarrow> nat option" where
  "tok_index VOID = Some 0"
| "tok_index I16 = Some 1"
| "tok_index I32 = Some 2"
| "tok_index I64 = Some 3"
| "tok_index U16 = Some 4"
| "tok_index U32 = Some 5"
| "tok_index U64 = Some 6"
| "tok_index F32 = Some 7"
| "tok_index F64 = Some 8"
| "tok_index BOOL = Some 9"
| "tok_index I8 = Some 10"
| "tok_index U8 = Some 11"
| "tok_index ATOMTYPE_END = Some 12"
| "tok_index STRUCT = Some 13"
| "tok_index ARRAY = Some 14"
| "tok_index POINTER = Some 15"
| "tok_index CSTRING = Some 16"
| "tok_index _ = None"

text \<open>Reading \<open>table[from - VOID][to - VOID]\<close>; outside the table it is undefined.\<close>

definition table_at :: "'a list list \<Rightarrow> tokenid \<Rightarrow> tokenid \<Rightarrow> 'a result" where
  "table_at table from to =
     (case (tok_index from, tok_index to) of
        (Some i, Some j) \<Rightarrow>
          if i < length table \<and> j < length (table ! i) then Inr (table ! i ! j)
          else Inl (Undefined ''table index out of range'')
      | _ \<Rightarrow> Inl (Undefined ''table index out of range''))"

subsection \<open>Names of the primitive types\<close>

definition s_token_primitive_map :: "(string \<times> tokenid) list" where
  "s_token_primitive_map = [
    (''void'', VOID), (''short'', I16), (''i16'', I16), (''int'', I32), (''i32'', I32),
    (''i64'', I64), (''isize'', I64), (''ushort'', U16), (''u16'', U16), (''uint'', U32),
    (''u32'', U32), (''u64'', U64), (''usize'', U64), (''float'', F32), (''f32'', F32),
    (''double'', F64), (''f64'', F64), (''bool'', BOOL), (''i8'', I8), (''char'', I8),
    (''u8'', U8), (''uchar'', U8)]"

definition s_token_primitive_inner_map :: "(string \<times> string) list" where
  "s_token_primitive_inner_map = [
    (''void'', ''void''), (''short'', ''i16''), (''i16'', ''i16''), (''int'', ''i32''),
    (''i32'', ''i32''), (''i64'', ''i64''), (''isize'', ''i64''), (''ushort'', ''u16''),
    (''u16'', ''u16''), (''uint'', ''u32''), (''u32'', ''u32''), (''u64'', ''u64''),
    (''usize'', ''u64''), (''float'', ''f32''), (''f32'', ''f32''), (''double'', ''f64''),
    (''f64'', ''f64''), (''bool'', ''bool''), (''i8'', ''i8''), (''char'', ''i8''),
    (''u8'', ''u8''), (''uchar'', ''u8'')]"

definition s_token_map :: "(string \<times> tokenid) list" where
  "s_token_map = [
    (''while'', Tok WHILE), (''if'', Tok IF), (''ife'', Tok IFE), (''else'', Tok ELSE),
    (''print'', Tok DBGPRINT), (''dbgprint'', Tok DBGPRINT),
    (''dbgprinttype'', Tok DBGPRINTTYPE), (''goto'', Tok GOTO), (''fn'', Tok FN),
    (''extern'', Tok EXTERN), (''return'', Tok RET), (''let'', Tok LET),
    (''struct'', STRUCT), (''type'', Tok TYPE_KW), (''as'', Tok AS),
    (''sizeof'', Tok SIZEOF), (''typeof'', Tok TYPEOF), (''typeid'', Tok TYPEID),
    (''__zero_init__'', Tok ZERO_INITIAL), (''loop'', Tok LOOP), (''for'', Tok FOR),
    (''in'', Tok IN), (''break'', Tok BREAK), (''continue'', Tok CONTINUE),
    (''match'', Tok MATCH), (''use'', Tok USE), (''mod'', Tok MOD), (''box'', Tok BOX),
    (''ref'', Tok REF), (''drop'', Tok DROP), (''impl'', Tok IMPL), (''trait'', Tok TRAIT)]"

text \<open>\<open>None\<close> is the \<open>-1\<close> of "not a keyword".\<close>

definition find_lexical_keyword :: "string \<Rightarrow> tokenid option" where
  "find_lexical_keyword name = map_of s_token_map name"

definition get_inner_type_string_by_str :: "string \<Rightarrow> string" where
  "get_inner_type_string_by_str name =
     (case map_of s_token_primitive_inner_map name of Some s \<Rightarrow> s | None \<Rightarrow> name)"

fun get_type_string_common :: "tokenid \<Rightarrow> bool \<Rightarrow> string result" where
  "get_type_string_common VOID forid = Inr ''void''"
| "get_type_string_common I16 forid = Inr ''i16''"
| "get_type_string_common I32 forid = Inr ''i32''"
| "get_type_string_common I64 forid = Inr ''i64''"
| "get_type_string_common U16 forid = Inr ''u16''"
| "get_type_string_common U32 forid = Inr ''u32''"
| "get_type_string_common U64 forid = Inr ''u64''"
| "get_type_string_common F32 forid = Inr ''f32''"
| "get_type_string_common F64 forid = Inr ''f64''"
| "get_type_string_common BOOL forid = Inr ''bool''"
| "get_type_string_common I8 forid =
     Inr (if forid then get_inner_type_string_by_str ''char'' else ''char'')"
| "get_type_string_common U8 forid =
     Inr (if forid then get_inner_type_string_by_str ''uchar'' else ''uchar'')"
| "get_type_string_common CSTRING forid = Inr ''*i8''"
| "get_type_string_common _ forid = Inl (Exit ''bad type token: %d'')"

definition get_type_string :: "tokenid \<Rightarrow> string result" where
  "get_type_string tok = get_type_string_common tok False"

definition get_type_string_for_signature :: "tokenid \<Rightarrow> string result" where
  "get_type_string_for_signature tok = get_type_string_common tok True"

definition primitive_token_of_name :: "string \<Rightarrow> tokenid result" where
  "primitive_token_of_name name =
     (case map_of s_token_primitive_map name of
        Some t \<Rightarrow> Inr t
      | None \<Rightarrow> Inl (Exit ''get primitive type `%s` token failed''))"

fun get_printf_format :: "tokenid \<Rightarrow> string result" where
  "get_printf_format VOID = Inl (Exit ''(internal) void type have no format value'')"
| "get_printf_format I16 = Inr ''%d''"
| "get_printf_format I32 = Inr ''%d''"
| "get_printf_format I64 = Inr ''%ld''"
| "get_printf_format U16 = Inr ''%u''"
| "get_printf_format U32 = Inr ''%u''"
| "get_printf_format U64 = Inr ''%lu''"
| "get_printf_format F32 = Inr ''%f''"
| "get_printf_format F64 = Inr ''%lf''"
| "get_printf_format I8 = Inr ''%c''"
| "get_printf_format U8 = Inr ''%c''"
| "get_printf_format BOOL = Inr ''%1d''"
| "get_printf_format POINTER = Inr ''%p''"
| "get_printf_format _ = Inr [CHR 0x0A]"

subsection \<open>Predicates on type tokens\<close>

definition catype_is_float :: "tokenid \<Rightarrow> bool" where
  "catype_is_float typetok \<longleftrightarrow> typetok = F32 \<or> typetok = F64"

definition catype_is_signed :: "tokenid \<Rightarrow> bool" where
  "catype_is_signed t \<longleftrightarrow> t = I8 \<or> t = I16 \<or> t = I32 \<or> t = I64"

definition catype_is_unsigned :: "tokenid \<Rightarrow> bool" where
  "catype_is_unsigned t \<longleftrightarrow> t = U8 \<or> t = U16 \<or> t = U32 \<or> t = U64"

fun catype_is_integer :: "tokenid \<Rightarrow> bool" where
  "catype_is_integer I8 = True"
| "catype_is_integer I16 = True"
| "catype_is_integer I32 = True"
| "catype_is_integer I64 = True"
| "catype_is_integer U8 = True"
| "catype_is_integer U16 = True"
| "catype_is_integer U32 = True"
| "catype_is_integer U64 = True"
| "catype_is_integer _ = False"

lemma catype_is_integer_iff: "catype_is_integer t \<longleftrightarrow> catype_is_signed t \<or> catype_is_unsigned t"
  by (cases t) (simp_all add: catype_is_signed_def catype_is_unsigned_def)

text \<open>Every name of a primitive type normalises to the one the token prints for signatures.\<close>

lemma primitive_names_agree:
  "list_all (\<lambda>(name, tok). get_type_string_for_signature tok = Inr (get_inner_type_string_by_str name))
     s_token_primitive_map"
  by code_simp

lemma inner_names_fixed:
  "list_all (\<lambda>(_, inner). get_inner_type_string_by_str inner = inner) s_token_primitive_inner_map"
  by code_simp

text \<open>Every spelling of a primitive type (\<open>int\<close>, \<open>isize\<close>, \<open>char\<close>, ...) has the token
  whose signature text is the spelling's normal form, and normalising is idempotent; so the
  aliases of a type end in one type name.\<close>

lemma primitive_aliases_normalise:
  "(primitive_token_of_name name = Inr tok \<longrightarrow>
      get_type_string_for_signature tok = Inr (get_inner_type_string_by_str name))
   \<and> get_inner_type_string_by_str (get_inner_type_string_by_str name)
       = get_inner_type_string_by_str name"
proof
  show "primitive_token_of_name name = Inr tok \<longrightarrow>
      get_type_string_for_signature tok = Inr (get_inner_type_string_by_str name)"
    using primitive_names_agree
    by (auto simp: primitive_token_of_name_def list_all_iff dest!: map_of_SomeD split: option.splits)
  show "get_inner_type_string_by_str (get_inner_type_string_by_str name)
       = get_inner_type_string_by_str name"
  proof (cases "map_of s_token_primitive_inner_map name")
    case None
    then show ?thesis by (simp add: get_inner_type_string_by_str_def)
  next
    case (Some s)
    then have "get_inner_type_string_by_str s = s"
      using inner_names_fixed by (auto simp: list_all_iff dest!: map_of_SomeD)
    with Some show ?thesis by (simp add: get_inner_type_string_by_str_def [of name])
  qed
qed

lemma primitive_aliases_normalise_witness:
  "get_type_string_for_signature I64 = Inr (get_inner_type_string_by_str ''isize'')"
proof -
  have "primitive_token_of_name ''isize'' = Inr I64" by code_simp
  then show ?thesis using primitive_aliases_normalise [of "''isize''" I64] by simp
qed

end
