(* ===== verification/Literal_Scopes.thy ===== *)
theory Literal_Scopes
  imports Tokens
begin

section \<open>Which type a literal can take (\<open>type_system.cpp\<close>)\<close>

text \<open>
  The lexer knows four shapes of a number: \<open>I64\<close> for one with a minus sign, \<open>U64\<close> without,
  \<open>F64\<close> with a decimal point, and \<open>I8\<close>/\<open>U8\<close> for characters. Whether such a literal can
  become a value of a given type is decided in two steps: a table of token pairs, then a
  check of the value against the limits of the type.
\<close>

subsection \<open>Doubles\<close>

text \<open>The values of a C \<open>double\<close>: the finite ones as the rational they stand for.\<close>

datatype double = Fin rat | Pos_Inf | Neg_Inf | NaN

fun double_less :: "double \<Rightarrow> double \<Rightarrow> bool" where
  "double_less NaN y = False"
| "double_less x NaN = False"
| "double_less (Fin a) (Fin b) = (a < b)"
| "double_less Neg_Inf y = (y \<noteq> Neg_Inf)"
| "double_less x Pos_Inf = (x \<noteq> Pos_Inf)"
| "double_less x y = False"

text \<open>\<open>std::numeric_limits<float>::min()\<close> is the least positive normal number.\<close>

definition FLT_MIN :: double where
  "FLT_MIN = Fin (1 / 2 ^ 126)"

definition FLT_MAX :: double where
  "FLT_MAX = Fin ((2 - 1 / 2 ^ 23) * 2 ^ 127)"

subsection \<open>The table\<close>

definition zero_row :: "int list" where
  "zero_row = [0, 0, 0, 0, 0, 0, 0, 0, 0, 0, 0, 0, 0, 0, 0, 0, 0]"

definition s_literal_type_convertable_table :: "int list list" where
  "s_literal_type_convertable_table =
    [zero_row,                                             \<comment> \<open>VOID\<close>
     zero_row,                                             \<comment> \<open>I16\<close>
     zero_row,                                             \<comment> \<open>I32\<close>
     [0, 1, 1, 1, 0, 0, 0, 1, 1, 0, 0, 0, 0, 0, 0, 0, 1],  \<comment> \<open>I64\<close>
     zero_row,                                             \<comment> \<open>U16\<close>
     zero_row,                                             \<comment> \<open>U32\<close>
     [0, 1, 1, 1, 1, 1, 1, 1, 1, 0, 1, 1, 0, 0, 0, 0, 1],  \<comment> \<open>U64\<close>
     zero_row,                                             \<comment> \<open>F32\<close>
     [0, 0, 0, 0, 0, 0, 0, 1, 1, 0, 0, 0, 0, 0, 0, 0, 0],  \<comment> \<open>F64\<close>
     [0, 0, 0, 0, 0, 0, 0, 0, 0, 1, 0, 0, 0, 0, 0, 0, 0],  \<comment> \<open>BOOL\<close>
     [0, 1, 1, 1, 1, 1, 1, 1, 1, 0, 1, 1, 0, 0, 0, 0, 1],  \<comment> \<open>I8\<close>
     [0, 1, 1, 1, 1, 1, 1, 1, 1, 0, 1, 1, 0, 0, 0, 0, 1],  \<comment> \<open>U8\<close>
     zero_row]                                             \<comment> \<open>ATOMTYPE_END\<close>"

definition literal_type_convertable :: "tokenid \<Rightarrow> tokenid \<Rightarrow> int result" where
  "literal_type_convertable from to = table_at s_literal_type_convertable_table from to"

fun as_type_convertable :: "tokenid \<Rightarrow> tokenid \<Rightarrow> bool" where
  "as_type_convertable from to =
     (if to = BOOL then from = BOOL
      else case from of
             BOOL \<Rightarrow> to \<noteq> F32 \<and> to \<noteq> F64
           | _ \<Rightarrow> True)"

declare as_type_convertable.simps [simp del]

subsection \<open>The scope checks\<close>

text \<open>The result is the \<open>int\<close> of the source: zero accepts, and the \<open>default\<close> ends the run.\<close>

definition incompatible :: "string \<Rightarrow> tokenid \<Rightarrow> int result" where
  "incompatible fmt typetok = bind_result (get_type_string typetok) (\<lambda>_. Inl (Exit fmt))"

fun check_i64_value_scope :: "int \<Rightarrow> tokenid \<Rightarrow> int result" where
  "check_i64_value_scope lit I16 = Inr (if lit < - (2 ^ 15) then 1 else 0)"
| "check_i64_value_scope lit I32 = Inr (if lit < - (2 ^ 31) then 1 else 0)"
| "check_i64_value_scope lit I64 = Inr 0"
| "check_i64_value_scope lit F32 = Inr 0"
| "check_i64_value_scope lit F64 = Inr 0"
| "check_i64_value_scope lit CSTRING = Inr 0"
| "check_i64_value_scope lit POINTER = Inr 0"
| "check_i64_value_scope lit ARRAY = Inr 0"
| "check_i64_value_scope lit STRUCT = Inr 0"
| "check_i64_value_scope lit typetok = incompatible ''i64 lexcial value incompatible with %s'' typetok"

text \<open>The unsigned check compares a \<open>uint64_t\<close> with the maximum of the type, converted to it.\<close>

fun check_u64_value_scope :: "nat \<Rightarrow> tokenid \<Rightarrow> int result" where
  "check_u64_value_scope lit I16 = Inr (if 2 ^ 15 - 1 < lit then - 1 else 0)"
| "check_u64_value_scope lit I32 = Inr (if 2 ^ 31 - 1 < lit then - 1 else 0)"
| "check_u64_value_scope lit I64 = Inr (if 2 ^ 63 - 1 < lit then - 1 else 0)"
| "check_u64_value_scope lit U64 = Inr 0"
| "check_u64_value_scope lit F32 = Inr 0"
| "check_u64_value_scope lit F64 = Inr 0"
| "check_u64_value_scope lit U16 = Inr (if 2 ^ 16 - 1 < lit then - 1 else 0)"
| "check_u64_value_scope lit U32 = Inr (if 2 ^ 32 - 1 < lit then - 1 else 0)"
| "check_u64_value_scope lit I8 = Inr (if 2 ^ 7 - 1 < lit then - 1 else 0)"
| "check_u64_value_scope lit U8 = Inr (if 2 ^ 8 - 1 < lit then - 1 else 0)"
| "check_u64_value_scope lit CSTRING = Inr 0"
| "check_u64_value_scope lit POINTER = Inr 0"
| "check_u64_value_scope lit ARRAY = Inr 0"
| "check_u64_value_scope lit STRUCT = Inr 0"
| "check_u64_value_scope lit typetok = incompatible ''u64 lexcial value incompatible with %s'' typetok"

fun check_f64_value_scope :: "double \<Rightarrow> tokenid \<Rightarrow> int result" where
  "check_f64_value_scope lit F32 =
     Inr (if double_less lit FLT_MIN \<or> double_less FLT_MAX lit then 1 else 0)"
| "check_f64_value_scope lit F64 = Inr 0"
| "check_f64_value_scope lit typetok = incompatible ''f64 lexcial value incompatible with %s'' typetok"

text \<open>A \<open>char\<close> argument is signed, so it is a number from -128 to 127.\<close>

definition check_char_value_scope :: "int \<Rightarrow> tokenid \<Rightarrow> int" where
  "check_char_value_scope lit typetok = (if typetok = U8 \<and> lit < 0 then 1 else 0)"

definition check_uchar_value_scope :: "nat \<Rightarrow> tokenid \<Rightarrow> int" where
  "check_uchar_value_scope lit typetok = (if typetok = I8 \<and> 127 < lit then - 1 else 0)"

subsection \<open>What they accept\<close>

text \<open>The value ranges of the integer types, as the language defines them.\<close>

fun int_type_bits :: "tokenid \<Rightarrow> nat option" where
  "int_type_bits I8 = Some 8"
| "int_type_bits U8 = Some 8"
| "int_type_bits I16 = Some 16"
| "int_type_bits U16 = Some 16"
| "int_type_bits I32 = Some 32"
| "int_type_bits U32 = Some 32"
| "int_type_bits I64 = Some 64"
| "int_type_bits U64 = Some 64"
| "int_type_bits _ = None"

definition in_type_range :: "tokenid \<Rightarrow> int \<Rightarrow> bool" where
  "in_type_range t v \<longleftrightarrow>
     (case int_type_bits t of
        None \<Rightarrow> False
      | Some n \<Rightarrow>
          if catype_is_signed t then - (2 ^ (n - 1)) \<le> v \<and> v < 2 ^ (n - 1)
          else 0 \<le> v \<and> v < 2 ^ n)"

lemma literal_table_defined:
  "tok_index to = Some j \<Longrightarrow> from \<in> {I64, U64, F64, BOOL, I8, U8} \<Longrightarrow>
   \<exists>v. literal_type_convertable from to = Inr v \<and> v \<in> {0, 1}"
  by (cases to)
    (auto simp: literal_type_convertable_def table_at_def s_literal_type_convertable_table_def)

lemma u64_scope_iff:
  assumes "catype_is_integer t" "n < 2 ^ 64"
  shows "check_u64_value_scope n t = Inr 0 \<longleftrightarrow> in_type_range t (int n)"
  using assms by (cases t) (auto simp: in_type_range_def catype_is_signed_def)

text \<open>Claim C22: for a literal without a minus sign and an integer type, the check accepts
  exactly the values of the type.\<close>

theorem u64_scope_exact:
  assumes "catype_is_integer t" "n < 2 ^ 64"
  shows "check_u64_value_scope n t = Inr 0 \<longleftrightarrow> in_type_range t (int n)"
  using assms by (rule u64_scope_iff)

theorem u64_scope_exact_witness:
  "check_u64_value_scope 255 U8 = Inr 0 \<and> check_u64_value_scope 256 U8 \<noteq> Inr 0"
  using u64_scope_exact [of U8 255] u64_scope_exact [of U8 256]
  by (simp add: in_type_range_def catype_is_signed_def)

text \<open>For a literal with a minus sign and a type the table allows, the check accepts
  exactly the values of the type; a negative value of an unsigned type or of \<open>char\<close> never
  passes, because the run ends.\<close>

lemma i64_scope_exact:
  assumes "catype_is_integer t" "- (2 ^ 63) \<le> v" "v \<le> 0"
  shows "(literal_type_convertable I64 t = Inr 1 \<longrightarrow>
            (check_i64_value_scope v t = Inr 0 \<longleftrightarrow> in_type_range t v))
       \<and> (literal_type_convertable I64 t = Inr 0 \<longrightarrow>
            (\<exists>msg. check_i64_value_scope v t = Inl (Exit msg)))"
  using assms
  by (cases t) (auto simp: in_type_range_def catype_is_signed_def incompatible_def get_type_string_def
      literal_type_convertable_def table_at_def s_literal_type_convertable_table_def)

lemma i64_scope_exact_witness:
  "check_i64_value_scope (- 32768) I16 = Inr 0 \<and> check_i64_value_scope (- 32769) I16 \<noteq> Inr 0"
proof -
  have "literal_type_convertable I64 I16 = Inr 1"
    by (simp add: literal_type_convertable_def table_at_def s_literal_type_convertable_table_def)
  then show ?thesis
    using i64_scope_exact [of I16 "- 32768"] i64_scope_exact [of I16 "- 32769"]
    by (simp add: in_type_range_def catype_is_signed_def)
qed

text \<open>Claim C21: the table and the checks agree, as the comment in each check asks: a number
  literal is convertible to a primitive type exactly when the check of its lexical type
  returns for that type instead of ending the run.\<close>

theorem scope_checks_match_table:
  assumes "to \<in> {VOID, I16, I32, I64, U16, U32, U64, F32, F64, BOOL, I8, U8}"
  shows "(literal_type_convertable I64 to = Inr 1 \<longleftrightarrow> (\<exists>r. check_i64_value_scope i to = Inr r))
       \<and> (literal_type_convertable U64 to = Inr 1 \<longleftrightarrow> (\<exists>r. check_u64_value_scope n to = Inr r))
       \<and> (literal_type_convertable F64 to = Inr 1 \<longleftrightarrow> (\<exists>r. check_f64_value_scope d to = Inr r))"
  using assms
  by (auto simp: incompatible_def get_type_string_def literal_type_convertable_def table_at_def
      s_literal_type_convertable_table_def zero_row_def)

theorem scope_checks_match_table_witness:
  "literal_type_convertable U64 I8 = Inr 1 \<and> (\<exists>r. check_u64_value_scope 300 I8 = Inr r)"
  using scope_checks_match_table [of I8 0 300 NaN]
  by (simp add: literal_type_convertable_def table_at_def s_literal_type_convertable_table_def)

text \<open>As an \<open>f32\<close>, no literal with value zero or below is accepted: the lower limit is
  the least positive normal float, where the most negative one was meant.\<close>

lemma f32_scope_rejects_nonpositive:
  assumes "x \<le> 0"
  shows "check_f64_value_scope (Fin x) F32 = Inr 1"
proof -
  have "x < 1 / 2 ^ 126" using assms by (rule le_less_trans) simp
  then show ?thesis by (simp add: FLT_MIN_def)
qed

lemma f32_scope_rejects_nonpositive_witness: "check_f64_value_scope (Fin 0) F32 = Inr 1"
  by (rule f32_scope_rejects_nonpositive) simp

end
