(* ===== verification/Symtable.thy ===== *)
theory Symtable
  imports Containers Source_Info
begin

section \<open>Scoped symbol tables (\<open>symtable.h\<close>, \<open>symtable_cpp.cpp\<close>, \<open>ca_parser.c\<close>)\<close>

text \<open>
  A scope is a \<open>SymTable\<close>: a map from name ids to entries, a pointer to the enclosing scope,
  and optionally an association that redirects some ids to another table (generic parameters
  and \<open>Self\<close>). Tables live on the heap and are shared by pointer, so they are modelled by a
  map from addresses. An entry never moves, so a pointer to an entry is the address of its
  table with its name id.
\<close>

type_synonym addr = nat

datatype SymType =
    Sym_Variable | Sym_Label | Sym_Label_Hanging | Sym_ArgList | Sym_FnDecl | Sym_FnDef
  | Sym_DataType | Sym_Member | Sym_TraitDef | Sym_TraitImpl

datatype CAStructType =
    Struct_NamedStruct | Struct_NamedTuple | Struct_GeneralTuple | Struct_Slice
  | Struct_Union | Struct_Enum | Struct_General

record CAVariable =
  v_datatype :: int
  v_loc :: SLoc
  v_name :: int
  v_global :: bool
  v_llvm_value :: "addr option"

text \<open>\<open>varlist\<close> is a null pointer or a vector; \<open>current\<close> is null in a fresh entry.\<close>

record CAVariableShielding =
  vs_current :: "CAVariable option"
  vs_varlist :: "CAVariable list option"

text \<open>\<open>argnames\<close> and \<open>types\<close> share their memory in the source, so they are one list of ids here.\<close>

record ST_ArgList =
  al_argc :: nat
  al_contain_varg :: bool
  al_ids :: "int list"
  al_symtable :: addr

record TypeImplInfo =
  class_id :: int
  trait_id :: int
  trait_impl_id :: int
  fn_def_recursive_count :: int

text \<open>The union of an entry; a fresh entry is zeroed. \<open>'r\<close> is what \<open>runables\<close> points to.\<close>

datatype 'r entry_union =
    U_Zero
  | U_Fn (fn_arglists: ST_ArgList) (fn_rettype: int) (fn_type: nat) (fn_generic: "int list option")
  | U_Var (u_shielding: CAVariableShielding)
  | U_Data (ud_tuple: CAStructType) (ud_id: int) (ud_members: "ST_ArgList option")
      (ud_idtable: addr) (ud_runables: "'r option")
  | U_Trait_Def (td_node: addr)
  | U_Trait_Impl (ti_info: TypeImplInfo)

record 'r STEntry =
  sym_name :: int
  sym_type :: SymType
  sloc :: SLoc
  u :: "'r entry_union"

datatype SymTableAssocType = STAT_Generic | STAT_Num

record SymTableAssoc =
  as_type :: SymTableAssocType
  assoc_table :: addr
  extra_id_list :: "int list"

record 'r SymTable =
  opaque :: "(int \<times> 'r STEntry) list"
  assoc :: "SymTableAssoc option"
  parent :: "addr option"

record 'r symtabs = names +
  sym_heap :: "addr \<Rightarrow> 'r SymTable option"
  sym_next :: addr
  curr_symtable :: addr

type_synonym entry_ptr = "addr \<times> int"

definition g_root_symtable :: addr where
  "g_root_symtable = 0"

subsection \<open>Tables and entries\<close>

definition get_table :: "addr \<Rightarrow> ('r, 'z) symtabs_scheme \<Rightarrow> 'r SymTable result" where
  "get_table st w =
     (case sym_heap w st of Some t \<Rightarrow> Inr t | None \<Rightarrow> Inl (Undefined ''no symbol table at this address''))"

definition put_table :: "addr \<Rightarrow> 'r SymTable \<Rightarrow> ('r, 'z) symtabs_scheme \<Rightarrow> ('r, 'z) symtabs_scheme" where
  "put_table st t w = w\<lparr>sym_heap := (sym_heap w)(st \<mapsto> t)\<rparr>"

definition sym_init :: "addr option \<Rightarrow> 'r SymTable" where
  "sym_init par = \<lparr>opaque = [], assoc = None, parent = par\<rparr>"

definition fresh_entry :: "int \<Rightarrow> SymType \<Rightarrow> 'r STEntry" where
  "fresh_entry name type = \<lparr>sym_name = name, sym_type = type, sloc = \<lparr>row = 0, col = 0\<rparr>, u = U_Zero\<rparr>"

text \<open>\<open>unordered_map::insert\<close>: an entry that is there stays.\<close>

definition map_insert :: "int \<Rightarrow> 'r STEntry \<Rightarrow> 'r SymTable \<Rightarrow> 'r SymTable" where
  "map_insert name e t =
     (case map_of (opaque t) name of None \<Rightarrow> t\<lparr>opaque := opaque t @ [(name, e)]\<rparr> | Some _ \<Rightarrow> t)"

definition sym_check_insert ::
  "addr \<Rightarrow> int \<Rightarrow> SymType \<Rightarrow> (('r, 'z) symtabs_scheme, entry_ptr) action" where
  "sym_check_insert st name type =
     act (\<lambda>w. lift_result (get_table st w) w) (\<lambda>t.
       (case map_of (opaque t) name of
          None \<Rightarrow> act (modifies (put_table st (map_insert name (fresh_entry name type) t)))
                    (\<lambda>_. ret (st, name))
        | Some _ \<Rightarrow> ret (st, name)))"

definition sym_check_insert_withname ::
  "addr \<Rightarrow> string \<Rightarrow> SymType \<Rightarrow> (('r, 'z) symtabs_scheme, int) action" where
  "sym_check_insert_withname st name type =
     act (intern name) (\<lambda>pos.
     act (\<lambda>w. lift_result (get_table st w) w) (\<lambda>t.
       (case map_of (opaque t) pos of
          None \<Rightarrow> act (modifies (put_table st (map_insert pos (fresh_entry pos Sym_Variable) t)))
                    (\<lambda>_. ret pos)
        | Some _ \<Rightarrow> ret pos)))"

text \<open>\<open>sym_insert\<close> builds the entry first and gives the map's own entry back.\<close>

definition sym_insert ::
  "addr \<Rightarrow> int \<Rightarrow> SymType \<Rightarrow> (('r, 'z) symtabs_scheme, entry_ptr) action" where
  "sym_insert st name type =
     act (\<lambda>w. lift_result (get_table st w) w) (\<lambda>t.
     act (modifies (put_table st (map_insert name (fresh_entry name type) t))) (\<lambda>_.
     ret (st, name)))"

text \<open>Reading and writing through an entry pointer.\<close>

definition get_entry :: "entry_ptr \<Rightarrow> ('r, 'z) symtabs_scheme \<Rightarrow> 'r STEntry result" where
  "get_entry p w =
     bind_result (get_table (fst p) w) (\<lambda>t.
       (case map_of (opaque t) (snd p) of
          Some e \<Rightarrow> Inr e | None \<Rightarrow> Inl (Undefined ''dangling entry pointer'')))"

definition set_entry :: "entry_ptr \<Rightarrow> 'r STEntry \<Rightarrow> (('r, 'z) symtabs_scheme, unit) action" where
  "set_entry p e =
     act (\<lambda>w. lift_result (get_table (fst p) w) w) (\<lambda>t.
     modifies (put_table (fst p)
       (t\<lparr>opaque := map (\<lambda>(n, e'). if n = snd p then (n, e) else (n, e')) (opaque t)\<rparr>)))"

definition sym_tablelen :: "addr \<Rightarrow> ('r, 'z) symtabs_scheme \<Rightarrow> nat result" where
  "sym_tablelen st w = bind_result (get_table st w) (\<lambda>t. Inr (length (opaque t)))"

definition sym_parent_or_global :: "addr \<Rightarrow> ('r, 'z) symtabs_scheme \<Rightarrow> addr result" where
  "sym_parent_or_global st w =
     bind_result (get_table st w) (\<lambda>t. Inr (case parent t of Some p \<Rightarrow> p | None \<Rightarrow> st))"

subsection \<open>Lookup\<close>

definition symtable_get_with_assoc :: "addr \<Rightarrow> int \<Rightarrow> ('r, 'z) symtabs_scheme \<Rightarrow> addr result" where
  "symtable_get_with_assoc st idx w =
     bind_result (get_table st w) (\<lambda>t.
       (case assoc t of
          None \<Rightarrow> Inr st
        | Some a \<Rightarrow>
            (case as_type a of
               STAT_Generic \<Rightarrow> Inr (if idx \<in> set (extra_id_list a) then assoc_table a else st)
             | _ \<Rightarrow> Inl (Exit ''unknown symbol table association type: %d''))))"

text \<open>
  The loop over the enclosing scopes. The chain of \<open>parent\<close> pointers visits a table at most
  once when it ends, so one unit of fuel for every allocated table is enough
  (\<open>sym_search_enough\<close>).
\<close>

fun sym_search ::
  "nat \<Rightarrow> (addr \<Rightarrow> 'r SymTable option) \<Rightarrow> addr option \<Rightarrow> int \<Rightarrow> bool \<Rightarrow> entry_ptr option result" where
  "sym_search 0 h st idx par = Inl Out_of_fuel"
| "sym_search (Suc n) h None idx par = Inr None"
| "sym_search (Suc n) h (Some st) idx par =
     (case h st of
        None \<Rightarrow> Inl (Undefined ''no symbol table at this address'')
      | Some t \<Rightarrow>
          (case map_of (opaque t) idx of
             Some _ \<Rightarrow> Inr (Some (st, idx))
           | None \<Rightarrow> if par then sym_search n h (parent t) idx par else Inr None))"

text \<open>The table an entry was found in (\<open>entry_st\<close>) is the first part of its pointer.\<close>

definition sym_getsym_with_symtable ::
  "addr \<Rightarrow> int \<Rightarrow> bool \<Rightarrow> ('r, 'z) symtabs_scheme \<Rightarrow> entry_ptr option result" where
  "sym_getsym_with_symtable st idx par w =
     bind_result (symtable_get_with_assoc st idx w) (\<lambda>st'.
       sym_search (sym_next w + 2) (sym_heap w) (Some st') idx par)"

definition sym_getsym ::
  "addr \<Rightarrow> int \<Rightarrow> bool \<Rightarrow> ('r, 'z) symtabs_scheme \<Rightarrow> entry_ptr option result" where
  "sym_getsym st idx par w = sym_getsym_with_symtable st idx par w"

record SymbolQueryParams =
  st_normal :: addr
  st_extra :: addr
  q_extra_id_list :: "int list"
  q_idx :: int
  q_parent :: bool

definition sym_getsym_st2_with_symtable ::
  "SymbolQueryParams \<Rightarrow> ('r, 'z) symtabs_scheme \<Rightarrow> entry_ptr option result" where
  "sym_getsym_st2_with_symtable q w =
     (let st = (if q_idx q \<in> set (q_extra_id_list q) then st_extra q else st_normal q)
      in sym_getsym_with_symtable st (q_idx q) (q_parent q) w)"

definition sym_getsym_st2 :: "SymbolQueryParams \<Rightarrow> ('r, 'z) symtabs_scheme \<Rightarrow> entry_ptr option result" where
  "sym_getsym_st2 q w = sym_getsym_st2_with_symtable q w"

text \<open>\<open>sym_gettype\<close>, \<open>sym_getsloc\<close> and \<open>sym_setsloc\<close> dereference the entry without a check.\<close>

definition deref_entry :: "entry_ptr option \<Rightarrow> ('r, 'z) symtabs_scheme \<Rightarrow> 'r STEntry result" where
  "deref_entry p w =
     (case p of None \<Rightarrow> Inl (Undefined ''null entry'') | Some q \<Rightarrow> get_entry q w)"

definition sym_gettype :: "addr \<Rightarrow> int \<Rightarrow> bool \<Rightarrow> ('r, 'z) symtabs_scheme \<Rightarrow> SymType result" where
  "sym_gettype st idx par w =
     bind_result (sym_getsym st idx par w) (\<lambda>p.
     bind_result (deref_entry p w) (\<lambda>e. Inr (sym_type e)))"

definition sym_getsloc :: "addr \<Rightarrow> int \<Rightarrow> bool \<Rightarrow> ('r, 'z) symtabs_scheme \<Rightarrow> SLoc result" where
  "sym_getsloc st idx par w =
     bind_result (sym_getsym st idx par w) (\<lambda>p.
     bind_result (deref_entry p w) (\<lambda>e. Inr (sloc e)))"

definition sym_setsloc :: "addr \<Rightarrow> int \<Rightarrow> SLoc \<Rightarrow> (('r, 'z) symtabs_scheme, unit) action" where
  "sym_setsloc st idx loc =
     act (\<lambda>w. lift_result (sym_getsym st idx False w) w) (\<lambda>p.
     act (\<lambda>w. lift_result (deref_entry p w) w) (\<lambda>e.
     (case p of None \<Rightarrow> fail (Undefined ''null entry'') | Some q \<Rightarrow> set_entry q (e\<lparr>sloc := loc\<rparr>))))"

fun is_sub_symtable :: "nat \<Rightarrow> (addr \<Rightarrow> 'r SymTable option) \<Rightarrow> addr option \<Rightarrow> addr \<Rightarrow> bool result" where
  "is_sub_symtable 0 h sub root = Inl Out_of_fuel"
| "is_sub_symtable (Suc n) h None root = Inr False"
| "is_sub_symtable (Suc n) h (Some s) root =
     (if s = root then Inr True
      else case h s of
             None \<Rightarrow> Inl (Undefined ''no symbol table at this address'')
           | Some t \<Rightarrow> is_sub_symtable n h (parent t) root)"

definition sym_is_sub_symtable :: "addr \<Rightarrow> addr \<Rightarrow> ('r, 'z) symtabs_scheme \<Rightarrow> bool result" where
  "sym_is_sub_symtable sub root w = is_sub_symtable (sym_next w + 2) (sym_heap w) (Some sub) root"

subsection \<open>Scopes opened and closed by the parser (\<open>ca_parser.c\<close>)\<close>

definition push_new_symtable_with_parent ::
  "addr option \<Rightarrow> (('r, 'z) symtabs_scheme, addr) action" where
  "push_new_symtable_with_parent par = (\<lambda>w.
     Inr (sym_next w, put_table (sym_next w) (sym_init par) (w\<lparr>sym_next := Suc (sym_next w)\<rparr>)))"

definition push_new_symtable :: "(('r, 'z) symtabs_scheme, addr) action" where
  "push_new_symtable =
     act (reads curr_symtable) (\<lambda>cur.
     act (push_new_symtable_with_parent (Some cur)) (\<lambda>st.
     act (modifies (\<lambda>w. w\<lparr>curr_symtable := st\<rparr>)) (\<lambda>_. ret st)))"

definition push_symtable :: "addr \<Rightarrow> (('r, 'z) symtabs_scheme, addr) action" where
  "push_symtable st =
     act (\<lambda>w. lift_result (get_table st w) w) (\<lambda>t.
     act (reads curr_symtable) (\<lambda>cur.
     act (modifies (put_table st (t\<lparr>parent := Some cur\<rparr>))) (\<lambda>_.
     act (modifies (\<lambda>w. w\<lparr>curr_symtable := st\<rparr>)) (\<lambda>_. ret st))))"

text \<open>The null \<open>parent\<close> of a table that is not the root would become the current table.\<close>

definition pop_symtable :: "(('r, 'z) symtabs_scheme, addr) action" where
  "pop_symtable =
     act (reads curr_symtable) (\<lambda>cur.
     if cur = g_root_symtable then ret cur
     else act (\<lambda>w. lift_result (get_table cur w) w) (\<lambda>t.
       (case parent t of
          Some p \<Rightarrow> act (modifies (\<lambda>w. w\<lparr>curr_symtable := p\<rparr>)) (\<lambda>_. ret p)
        | None \<Rightarrow> fail (Undefined ''null current symbol table''))))"

subsection \<open>Well formed scopes\<close>

text \<open>
  Every table and every table it points to is allocated, an enclosing scope was allocated
  before the scopes inside it, names are unique within a scope, and an entry carries its name.
\<close>

definition table_ok :: "(addr \<Rightarrow> 'r SymTable option) \<Rightarrow> addr \<Rightarrow> 'r SymTable \<Rightarrow> bool" where
  "table_ok h a t \<longleftrightarrow>
     distinct (map fst (opaque t)) \<and>
     (\<forall>(n, e) \<in> set (opaque t). sym_name e = n) \<and>
     (\<forall>p. parent t = Some p \<longrightarrow> p < a \<and> h p \<noteq> None) \<and>
     (\<forall>s. assoc t = Some s \<longrightarrow> h (assoc_table s) \<noteq> None)"

definition scopes_ok :: "('r, 'z) symtabs_scheme \<Rightarrow> bool" where
  "scopes_ok w \<longleftrightarrow>
     (\<forall>a t. sym_heap w a = Some t \<longrightarrow> a < sym_next w \<and> table_ok (sym_heap w) a t) \<and>
     sym_heap w (curr_symtable w) \<noteq> None"

lemma scopes_okD:
  assumes "scopes_ok w" "sym_heap w a = Some t"
  shows "a < sym_next w" "table_ok (sym_heap w) a t"
  using assms by (auto simp: scopes_ok_def)

lemma scopes_ok_parent:
  "scopes_ok w \<Longrightarrow> sym_heap w a = Some t \<Longrightarrow> parent t = Some p \<Longrightarrow> p < a \<and> sym_heap w p \<noteq> None"
  by (blast dest: scopes_okD table_ok_def [THEN iffD1])

text \<open>What a name means in a scope: the entry of the innermost enclosing scope that has it.\<close>

inductive resolves :: "(addr \<Rightarrow> 'r SymTable option) \<Rightarrow> addr \<Rightarrow> int \<Rightarrow> addr \<Rightarrow> bool" for h where
  here: "h st = Some t \<Longrightarrow> map_of (opaque t) idx = Some e \<Longrightarrow> resolves h st idx st"
| outer: "h st = Some t \<Longrightarrow> map_of (opaque t) idx = None \<Longrightarrow> parent t = Some p \<Longrightarrow>
          resolves h p idx r \<Longrightarrow> resolves h st idx r"

inductive_cases resolvesE: "resolves h st idx r"

lemma resolves_simp:
  "h st = Some t \<Longrightarrow> resolves h st idx r \<longleftrightarrow>
     (case map_of (opaque t) idx of
        Some _ \<Rightarrow> r = st
      | None \<Rightarrow> (case parent t of None \<Rightarrow> False | Some p \<Rightarrow> resolves h p idx r))"
  by (auto split: option.splits elim: resolvesE intro: resolves.intros)

lemma sym_search_enough:
  assumes "scopes_ok w" "sym_heap w st \<noteq> None" "st + 1 < n"
  shows "\<exists>r. sym_search n (sym_heap w) (Some st) idx par = Inr r"
  using assms(2,3)
proof (induction st arbitrary: n rule: less_induct)
  case (less st)
  from less.prems obtain t m where t: "sym_heap w st = Some t" and n: "n = Suc m"
    by (cases n) auto
  show ?case
  proof (cases "map_of (opaque t) idx")
    case None
    show ?thesis
    proof (cases "parent t")
      case None
      with t n less.prems \<open>map_of (opaque t) idx = None\<close> show ?thesis by (cases m) auto
    next
      case (Some p)
      with scopes_ok_parent [OF assms(1) t] have "p < st" "sym_heap w p \<noteq> None" by auto
      moreover from this less.prems n have "p + 1 < m" by simp
      ultimately obtain r where "sym_search m (sym_heap w) (Some p) idx par = Inr r"
        using less.IH by blast
      with t n None Some show ?thesis by (cases par) simp_all
    qed
  next
    case (Some e)
    with t n show ?thesis by simp
  qed
qed

lemma sym_search_resolves:
  "sym_search n h (Some st) idx True = Inr r \<Longrightarrow>
   (case r of Some q \<Rightarrow> snd q = idx \<and> resolves h st idx (fst q) | None \<Rightarrow> \<not> (\<exists>q. resolves h st idx q))"
proof (induction n h "Some st" idx True arbitrary: st r rule: sym_search.induct)
  case (3 n h st idx)
  from "3.prems" obtain t where t: "h st = Some t" by (auto split: option.splits)
  show ?case
  proof (cases "map_of (opaque t) idx")
    case (Some e)
    with t "3.prems" show ?thesis by (auto intro: resolves.here)
  next
    case none: None
    show ?thesis
    proof (cases "parent t")
      case None
      with t none "3.prems" show ?thesis by (cases n) (auto simp: resolves_simp)
    next
      case (Some p)
      with t none "3.prems" have "sym_search n h (Some p) idx True = Inr r" by simp
      from "3.hyps" [OF t none, of p] this t none Some show ?thesis
        by (auto simp: resolves_simp split: option.splits)
    qed
  qed
qed simp_all

text \<open>Claim C4: looking a name up through the enclosing scopes always ends, and gives the entry
  of the innermost scope that declares it, or null when no enclosing scope does.\<close>

theorem sym_getsym_innermost:
  assumes "scopes_ok w" "sym_heap w st = Some t" "assoc t = None"
  shows "\<exists>r. sym_getsym st idx True w = Inr r
    \<and> (case r of Some q \<Rightarrow> snd q = idx \<and> resolves (sym_heap w) st idx (fst q)
              | None \<Rightarrow> \<not> (\<exists>q. resolves (sym_heap w) st idx q))"
proof -
  have "st + 1 < sym_next w + 2" using scopes_okD(1) [OF assms(1,2)] by simp
  with assms obtain r where r: "sym_search (sym_next w + 2) (sym_heap w) (Some st) idx True = Inr r"
    using sym_search_enough by blast
  then have "sym_getsym st idx True w = Inr r"
    using assms by (simp add: sym_getsym_def sym_getsym_with_symtable_def
        symtable_get_with_assoc_def get_table_def)
  with sym_search_resolves [OF r] show ?thesis by blast
qed

text \<open>A small state with two scopes: the root declares the names 10 and 11, the block 10.\<close>

definition ex_entry :: "int \<Rightarrow> SymType \<Rightarrow> unit STEntry" where
  "ex_entry n ty = fresh_entry n ty"

definition two_scopes :: "unit symtabs" where
  "two_scopes =
     \<lparr>s_symname_buffer = [], s_symname_name2pos = Map.empty,
      sym_heap = [0 \<mapsto> \<lparr>opaque = [(10, ex_entry 10 Sym_Variable), (11, ex_entry 11 Sym_FnDef)],
                        assoc = None, parent = None\<rparr>,
                  1 \<mapsto> \<lparr>opaque = [(10, ex_entry 10 Sym_DataType)], assoc = None, parent = Some 0\<rparr>],
      sym_next = 2, curr_symtable = 1\<rparr>"

lemma two_scopes_ok: "scopes_ok two_scopes"
  by (auto simp: scopes_ok_def two_scopes_def table_ok_def ex_entry_def fresh_entry_def split: if_splits)

theorem sym_getsym_innermost_witness:
  "sym_getsym 1 10 True two_scopes = Inr (Some (1, 10))
   \<and> sym_getsym 1 11 True two_scopes = Inr (Some (0, 11))
   \<and> (\<exists>r. sym_getsym 1 12 True two_scopes = Inr r)"
proof -
  have "\<exists>t. sym_heap two_scopes 1 = Some t \<and> assoc t = None"
    by (simp add: two_scopes_def)
  with sym_getsym_innermost [OF two_scopes_ok]
  have "\<exists>r. sym_getsym 1 12 True two_scopes = Inr r" by blast
  moreover have "sym_getsym 1 10 True two_scopes = Inr (Some (1, 10))"
      "sym_getsym 1 11 True two_scopes = Inr (Some (0, 11))"
    by (simp_all add: two_scopes_def sym_getsym_def sym_getsym_with_symtable_def
        symtable_get_with_assoc_def get_table_def eval_nat_numeral)
  ultimately show ?thesis by simp
qed

subsection \<open>Declaring a name\<close>

lemma map_of_map_insert:
  "map_of (opaque (map_insert n e t)) idx =
     (if idx = n then Some (case map_of (opaque t) n of Some e' \<Rightarrow> e' | None \<Rightarrow> e)
      else map_of (opaque t) idx)"
  by (auto simp: map_insert_def map_add_def split: option.splits)

lemma map_insert_fields [simp]:
  "parent (map_insert n e t) = parent t" "assoc (map_insert n e t) = assoc t"
  by (simp_all add: map_insert_def split: option.splits)

text \<open>The two ways of declaring a name do the same. The "insert without check" also
  keeps an entry that is already there, because the map's \<open>insert\<close> does.\<close>

lemma sym_insert_keeps_existing:
  "sym_insert st n ty w = sym_check_insert st n ty w
   \<and> (sym_insert st n ty w = Inr (p, w') \<longrightarrow> get_entry (st, n) w = Inr e \<longrightarrow> w' = w)"
proof -
  have put_same: "put_table st t w = w" if "sym_heap w st = Some t" for t
    using that by (simp add: put_table_def fun_upd_idem)
  show ?thesis
    by (auto simp: sym_insert_def sym_check_insert_def act_def get_table_def get_entry_def
        map_insert_def put_same split: option.splits sum.splits prod.splits)
qed

lemma sym_insert_keeps_existing_witness:
  "sym_insert 1 10 Sym_Variable two_scopes = Inr ((1, 10), two_scopes)"
proof -
  have "sym_check_insert 1 10 Sym_Variable two_scopes = Inr ((1, 10), two_scopes)"
    by (simp add: sym_check_insert_def act_def get_table_def two_scopes_def)
  then show ?thesis
    using sym_insert_keeps_existing [of 1 10 Sym_Variable two_scopes] by simp
qed

text \<open>A search sees only which names the tables have and how they are chained.\<close>

lemma sym_search_cong:
  assumes "\<And>a. case h a of
                None \<Rightarrow> h' a = None
              | Some t \<Rightarrow> \<exists>t'. h' a = Some t' \<and> parent t' = parent t \<and>
                  (map_of (opaque t') idx = None \<longleftrightarrow> map_of (opaque t) idx = None)"
  shows "sym_search n h' st idx par = sym_search n h st idx par"
proof (induction n arbitrary: st)
  case (Suc n)
  show ?case
  proof (cases st)
    case (Some a)
    show ?thesis
    proof (cases "h a")
      case None
      with assms [of a] Some show ?thesis by simp
    next
      case (Some t)
      with assms [of a] obtain t' where "h' a = Some t'" "parent t' = parent t"
        "map_of (opaque t') idx = None \<longleftrightarrow> map_of (opaque t) idx = None"
        by auto
      with Some \<open>st = Some a\<close> Suc.IH show ?thesis by (auto split: option.splits)
    qed
  qed simp
qed simp

lemma sym_insert_eq:
  "sym_heap w st = Some t \<Longrightarrow>
   sym_insert st n ty w = Inr ((st, n), put_table st (map_insert n (fresh_entry n ty) t) w)"
  by (simp add: sym_insert_def act_def get_table_def)

lemma put_table_simps [simp]:
  "sym_heap (put_table st t w) = (sym_heap w)(st \<mapsto> t)"
  "sym_next (put_table st t w) = sym_next w"
  "curr_symtable (put_table st t w) = curr_symtable w"
  by (simp_all add: put_table_def)

lemma scopes_ok_put_table:
  assumes "scopes_ok w" "sym_heap w st = Some t" "table_ok (sym_heap w) st t'"
  shows "scopes_ok (put_table st t' w)"
  using assms unfolding scopes_ok_def table_ok_def
  by (auto split: if_splits)

lemma scopes_ok_sym_insert:
  assumes "scopes_ok w" "sym_heap w st = Some t"
  shows "scopes_ok (put_table st (map_insert n (fresh_entry n ty) t) w)"
proof (rule scopes_ok_put_table [OF assms])
  from scopes_okD(2) [OF assms] show "table_ok (sym_heap w) st (map_insert n (fresh_entry n ty) t)"
    by (auto simp: table_ok_def map_insert_def fresh_entry_def map_of_eq_None_iff split: option.splits)
qed

lemma sym_getsym_frame:
  assumes "sym_heap w st = Some t" "idx \<noteq> n"
  shows "sym_getsym a idx par (put_table st (map_insert n e t) w) = sym_getsym a idx par w"
proof -
  let ?w' = "put_table st (map_insert n e t) w"
  have "sym_search k (sym_heap ?w') s idx par = sym_search k (sym_heap w) s idx par" for k s
    by (rule sym_search_cong) (use assms in \<open>auto simp: map_of_map_insert split: option.splits\<close>)
  moreover have "symtable_get_with_assoc a idx ?w' = symtable_get_with_assoc a idx w"
    using assms by (simp add: symtable_get_with_assoc_def get_table_def)
  ultimately show ?thesis
    by (simp add: sym_getsym_def sym_getsym_with_symtable_def)
qed

text \<open>Claim C14: after a name is declared in a scope, looking it up there gives that entry, the
  scopes stay well formed, and no other name means anything different anywhere.\<close>

theorem declare_then_lookup:
  assumes "scopes_ok w" "sym_heap w st = Some t" "assoc t = None"
    and "sym_insert st n ty w = Inr (p, w')"
  shows "scopes_ok w' \<and> p = (st, n) \<and> sym_getsym st n par w' = Inr (Some (st, n))
    \<and> (idx = n \<or> sym_getsym a idx par' w' = sym_getsym a idx par' w)"
proof -
  from assms have w': "w' = put_table st (map_insert n (fresh_entry n ty) t) w" and "p = (st, n)"
    by (simp_all add: sym_insert_eq)
  moreover have "sym_getsym st n par w' = Inr (Some (st, n))"
    using assms(2,3) unfolding w'
    by (auto simp: sym_getsym_def sym_getsym_with_symtable_def symtable_get_with_assoc_def
        get_table_def map_of_map_insert split: option.split)
  ultimately show ?thesis
    using scopes_ok_sym_insert [OF assms(1,2)] sym_getsym_frame [OF assms(2)] by blast
qed

theorem declare_then_lookup_witness:
  "\<exists>w'. sym_insert 1 12 Sym_Member two_scopes = Inr ((1, 12), w')
      \<and> sym_getsym 1 12 False w' = Inr (Some (1, 12))
      \<and> sym_getsym 1 11 True w' = sym_getsym 1 11 True two_scopes"
proof -
  obtain t where t: "sym_heap two_scopes 1 = Some t" "assoc t = None"
    by (simp add: two_scopes_def)
  obtain p w' where i: "sym_insert 1 12 Sym_Member two_scopes = Inr (p, w')"
    using sym_insert_eq [OF t(1)] by blast
  from declare_then_lookup [OF two_scopes_ok t i, of False 11 1 True] i show ?thesis by auto
qed

lemma sym_search_outer:
  assumes "scopes_ok w" "a < st" and same: "\<And>x. x \<noteq> st \<Longrightarrow> h x = sym_heap w x"
  shows "sym_search n h (Some a) idx par = sym_search n (sym_heap w) (Some a) idx par"
  using assms(2)
proof (induction n arbitrary: a)
  case (Suc n)
  then have a: "h a = sym_heap w a" by (simp add: same)
  show ?case
  proof (cases "sym_heap w a")
    case (Some t)
    have "sym_search n h (parent t) idx par = sym_search n (sym_heap w) (parent t) idx par"
    proof (cases "parent t")
      case None
      then show ?thesis by (cases n) simp_all
    next
      case (Some p)
      with scopes_ok_parent [OF assms(1) \<open>sym_heap w a = Some t\<close>] Suc.prems have "p < st" by auto
      then show ?thesis unfolding Some by (rule Suc.IH)
    qed
    with Some a show ?thesis by (cases par) (simp_all split: option.split)
  qed (simp add: a)
qed simp

text \<open>A declaration in an inner scope is invisible from the scopes around it: a lookup
  that starts in a table allocated before it gives the same entry as before.\<close>

lemma inner_declaration_hidden:
  assumes "scopes_ok w" "sym_insert st n ty w = Inr (p, w')"
    and "a < st" "sym_heap w a = Some t" "assoc t = None"
  shows "sym_getsym a idx par w' = sym_getsym a idx par w"
proof -
  from assms(2) obtain ts where ts: "sym_heap w st = Some ts"
    by (auto simp: sym_insert_def act_Inr_iff lift_result_Inr_iff get_table_def split: option.splits)
  with assms(2) have "w' = put_table st (map_insert n (fresh_entry n ty) ts) w"
    by (simp add: sym_insert_eq)
  moreover have "sym_search k (sym_heap (put_table st t' w)) (Some a) idx par
      = sym_search k (sym_heap w) (Some a) idx par" for k t'
    by (rule sym_search_outer [OF assms(1,3)]) simp
  ultimately show ?thesis using assms(3-5)
    by (simp add: sym_getsym_def sym_getsym_with_symtable_def symtable_get_with_assoc_def
        get_table_def del: sym_search.simps)
qed

lemma inner_declaration_hidden_witness:
  "\<exists>w'. sym_insert 1 11 Sym_Variable two_scopes = Inr ((1, 11), w')
      \<and> sym_getsym 0 11 True w' = Inr (Some (0, 11))"
proof -
  obtain t where t: "sym_heap two_scopes 1 = Some t" by (simp add: two_scopes_def)
  obtain t0 where t0: "sym_heap two_scopes 0 = Some t0" "assoc t0 = None" by (simp add: two_scopes_def)
  obtain w' where i: "sym_insert 1 11 Sym_Variable two_scopes = Inr ((1, 11), w')"
    using sym_insert_eq [OF t] by blast
  have "sym_getsym 0 11 True two_scopes = Inr (Some (0, 11))"
    by (simp add: two_scopes_def sym_getsym_def sym_getsym_with_symtable_def
        symtable_get_with_assoc_def get_table_def eval_nat_numeral)
  with inner_declaration_hidden [OF two_scopes_ok i _ t0] i show ?thesis by auto
qed

subsection \<open>Opening and closing scopes\<close>

lemma push_new_symtable_eq:
  "push_new_symtable w =
     Inr (sym_next w, put_table (sym_next w) (sym_init (Some (curr_symtable w)))
            (w\<lparr>sym_next := Suc (sym_next w), curr_symtable := sym_next w\<rparr>))"
  by (simp add: push_new_symtable_def push_new_symtable_with_parent_def act_def put_table_def)

lemma scopes_ok_push_new:
  assumes "scopes_ok w" "push_new_symtable w = Inr (st, w')"
  shows "scopes_ok w'"
proof -
  have "curr_symtable w < sym_next w"
    using assms(1) scopes_okD(1) by (fastforce simp: scopes_ok_def)
  with assms show ?thesis
    unfolding push_new_symtable_eq scopes_ok_def table_ok_def sym_init_def
    by (fastforce split: if_splits)
qed

text \<open>Claim C15: opening a scope and closing it again gives back the current scope, and every
  lookup from the scopes that were there is what it was.\<close>

theorem push_pop_scope:
  assumes "scopes_ok w" "push_new_symtable w = Inr (st, w1)" "0 < sym_next w"
  shows "\<exists>w2. pop_symtable w1 = Inr (curr_symtable w, w2) \<and> scopes_ok w2
    \<and> curr_symtable w2 = curr_symtable w \<and> sym_heap w2 st = Some (sym_init (Some (curr_symtable w)))
    \<and> (\<forall>a. a \<noteq> st \<longrightarrow> sym_heap w2 a = sym_heap w a)"
proof -
  let ?w2 = "w1\<lparr>curr_symtable := curr_symtable w\<rparr>"
  from assms(2) have st: "st = sym_next w" and heap: "sym_heap w1 = (sym_heap w)(st \<mapsto> sym_init (Some (curr_symtable w)))"
    and cur: "curr_symtable w1 = st"
    by (auto simp: push_new_symtable_eq)
  have "pop_symtable w1 = Inr (curr_symtable w, ?w2)"
    using st heap cur assms(3)
    by (simp add: pop_symtable_def act_def get_table_def sym_init_def g_root_symtable_def)
  moreover have "sym_heap w (sym_next w) = None"
    using scopes_okD(1) [OF assms(1)] by fastforce
  moreover have "scopes_ok ?w2"
    using scopes_ok_push_new [OF assms(1,2)] assms(1) by (auto simp: scopes_ok_def heap)
  ultimately show ?thesis by (intro exI [of _ ?w2]) (simp add: heap)
qed

theorem push_pop_scope_witness:
  "\<exists>w1 w2. push_new_symtable two_scopes = Inr (2, w1) \<and> pop_symtable w1 = Inr (1, w2)"
proof -
  obtain st w1 where p: "push_new_symtable two_scopes = Inr (st, w1)"
    by (simp add: push_new_symtable_eq)
  have "0 < sym_next two_scopes" by (simp add: two_scopes_def)
  from push_pop_scope [OF two_scopes_ok p this] p show ?thesis
    by (auto simp: push_new_symtable_eq two_scopes_def)
qed

end
