(* ===== verification/CText.thy ===== *)
theory CText
  imports CA_Prelude
begin

section \<open>Text: \<open>strutil.c\<close> and the C library calls of the compiler\<close>

text \<open>
  The scanners of \<open>strutil.c\<close>, the character classes of \<open>ctype.h\<close> (in the "C" locale), the
  numbers \<open>sprintf\<close> prints for \<open>%d\<close>, \<open>%lu\<close> and \<open>%p\<close>, and the ones \<open>atoi\<close>, \<open>strtol\<close> and
  \<open>sscanf\<close> read.
\<close>

subsection \<open>Character classes\<close>

definition code :: "char \<Rightarrow> nat" where
  "code c = of_char c"

definition is_digit :: "char \<Rightarrow> bool" where
  "is_digit c \<longleftrightarrow> 48 \<le> code c \<and> code c \<le> 57"

definition is_alpha :: "char \<Rightarrow> bool" where
  "is_alpha c \<longleftrightarrow> (65 \<le> code c \<and> code c \<le> 90) \<or> (97 \<le> code c \<and> code c \<le> 122)"

definition is_alnum :: "char \<Rightarrow> bool" where
  "is_alnum c \<longleftrightarrow> is_alpha c \<or> is_digit c"

definition is_ident_char :: "char \<Rightarrow> bool" where
  "is_ident_char c \<longleftrightarrow> is_alnum c \<or> c = CHR ''_''"

lemmas char_classes = code_def is_digit_def is_alpha_def is_alnum_def is_ident_char_def

lemma NUL_no_class [simp]:
  "\<not> is_digit NUL" "\<not> is_alpha NUL" "\<not> is_alnum NUL" "\<not> is_ident_char NUL"
  by (simp_all add: char_classes NUL_def)

subsection \<open>The scanners of \<open>strutil.c\<close>\<close>

text \<open>Each returns how many characters it consumed and the text it copied out.\<close>

definition strutil_parse_ident_str :: "string \<Rightarrow> nat \<times> string" where
  "strutil_parse_ident_str input =
     (case input of
        [] \<Rightarrow> (0, [])
      | c # cs \<Rightarrow>
          if \<not> is_alpha c then (0, [])
          else (let out = c # takeWhile is_ident_char cs in (length out, out)))"

definition strutil_parse_alnum_str :: "string \<Rightarrow> nat \<times> string" where
  "strutil_parse_alnum_str input = (let out = takeWhile is_alnum input in (length out, out))"

definition strutil_parse_number_str :: "string \<Rightarrow> nat \<times> string" where
  "strutil_parse_number_str input = (let out = takeWhile is_digit input in (length out, out))"

definition strutil_parse_alpha_str :: "string \<Rightarrow> nat \<times> string" where
  "strutil_parse_alpha_str input = (let out = takeWhile is_alpha input in (length out, out))"

text \<open>A name the scanner reads back whole.\<close>

definition is_ident :: "string \<Rightarrow> bool" where
  "is_ident s \<longleftrightarrow> s \<noteq> [] \<and> is_alpha (hd s) \<and> list_all is_ident_char s"

definition stops :: "(char \<Rightarrow> bool) \<Rightarrow> string \<Rightarrow> bool" where
  "stops p rest \<longleftrightarrow> rest = [] \<or> \<not> p (hd rest)"

lemma takeWhile_stops: "list_all p s \<Longrightarrow> stops p rest \<Longrightarrow> takeWhile p (s @ rest) = s"
  by (induction s) (cases rest; auto simp: stops_def)+

lemma parse_ident_append:
  "is_ident s \<Longrightarrow> stops is_ident_char rest \<Longrightarrow>
   strutil_parse_ident_str (s @ rest) = (length s, s)"
  by (cases s) (auto simp: is_ident_def strutil_parse_ident_str_def takeWhile_stops)

lemma parse_alnum_append:
  "list_all is_alnum s \<Longrightarrow> stops is_alnum rest \<Longrightarrow>
   strutil_parse_alnum_str (s @ rest) = (length s, s)"
  by (simp add: strutil_parse_alnum_str_def takeWhile_stops)

lemma is_ident_nul_free: "is_ident s \<Longrightarrow> nul_free s"
  by (auto simp: is_ident_def nul_free_def list_all_iff)

subsection \<open>Printing numbers\<close>

definition digit_char :: "nat \<Rightarrow> char" where
  "digit_char d = (if d < 10 then char_of (48 + d) else char_of (87 + d))"

fun num_text :: "nat \<Rightarrow> nat \<Rightarrow> string" where
  "num_text b n =
     (if n < b \<or> b < 2 then [digit_char n] else num_text b (n div b) @ [digit_char (n mod b)])"

declare num_text.simps [simp del]

definition nat_text :: "nat \<Rightarrow> string" where
  "nat_text n = num_text 10 n"

definition int_text :: "int \<Rightarrow> string" where
  "int_text i = (if i < 0 then CHR ''-'' # nat_text (nat (- i)) else nat_text (nat i))"

text \<open>\<open>%p\<close> in glibc.\<close>

definition pointer_text :: "nat \<Rightarrow> string" where
  "pointer_text a = (if a = 0 then ''(nil)'' else ''0x'' @ num_text 16 a)"

subsection \<open>Reading numbers\<close>

definition digit_value :: "char \<Rightarrow> nat" where
  "digit_value c =
     (if is_digit c then code c - 48
      else if 97 \<le> code c \<and> code c \<le> 122 then code c - 87
      else if 65 \<le> code c \<and> code c \<le> 90 then code c - 55
      else 255)"

definition is_base_digit :: "nat \<Rightarrow> char \<Rightarrow> bool" where
  "is_base_digit b c \<longleftrightarrow> digit_value c < b"

definition digits_value :: "nat \<Rightarrow> string \<Rightarrow> nat" where
  "digits_value b s = foldl (\<lambda>v c. v * b + digit_value c) 0 s"

lemma digits_value_simps [simp]:
  "digits_value b [] = 0"
  "digits_value b (s @ [c]) = digits_value b s * b + digit_value c"
  by (simp_all add: digits_value_def)

lemma digit_value_char [simp]: "d < 36 \<Longrightarrow> digit_value (digit_char d) = d"
  by (auto simp: digit_value_def digit_char_def char_classes of_char_of)

lemma digits_value_num_text:
  "2 \<le> b \<Longrightarrow> b \<le> 36 \<Longrightarrow> digits_value b (num_text b n) = n"
proof (induction b n rule: num_text.induct)
  case (1 b n)
  show ?case
  proof (cases "n < b")
    case True
    with "1.prems" show ?thesis
      using digits_value_simps(2) [of b "[]" "digit_char n"] by (simp add: num_text.simps [of b n])
  next
    case False
    with 1 have "digits_value b (num_text b (n div b)) = n div b" by simp
    moreover from "1.prems" have "n mod b < b" by simp
    moreover from this "1.prems" have "digit_value (digit_char (n mod b)) = n mod b"
      by (intro digit_value_char) (rule less_le_trans)
    ultimately show ?thesis
      using False "1.prems" by (simp add: num_text.simps [of b n])
  qed
qed

lemma num_text_digits:
  "2 \<le> b \<Longrightarrow> b \<le> 36 \<Longrightarrow> list_all (is_base_digit b) (num_text b n)"
proof (induction b n rule: num_text.induct)
  case (1 b n)
  show ?case
  proof (cases "n < b")
    case True
    with "1.prems" show ?thesis by (simp add: num_text.simps [of b n] is_base_digit_def)
  next
    case False
    moreover have "n mod b < b" using "1.prems" by simp
    moreover from this "1.prems" have "digit_value (digit_char (n mod b)) = n mod b"
      by (intro digit_value_char) (rule less_le_trans)
    ultimately show ?thesis
      using 1 by (simp add: num_text.simps [of b n] is_base_digit_def)
  qed
qed

lemma num_text_not_empty [simp]: "num_text b n \<noteq> []"
  by (simp add: num_text.simps [of b n])

lemma is_base_digit_10: "is_base_digit 10 c \<longleftrightarrow> is_digit c"
  by (auto simp: is_base_digit_def digit_value_def char_classes)

lemma nat_text_digits [simp]: "list_all is_digit (nat_text n)"
  using num_text_digits [of 10 n] by (simp add: nat_text_def is_base_digit_10 [abs_def])

lemma nat_text_not_empty [simp]: "nat_text n \<noteq> []"
  by (simp add: nat_text_def)

lemma digits_value_nat_text [simp]: "digits_value 10 (nat_text n) = n"
  by (simp add: nat_text_def digits_value_num_text)

lemma nat_text_inj: "nat_text m = nat_text n \<Longrightarrow> m = n"
  by (metis digits_value_nat_text)

lemma is_digit_not_NUL: "is_digit c \<Longrightarrow> c \<noteq> NUL"
  by auto

lemma nat_text_nul_free [simp]: "nul_free (nat_text n)"
  unfolding nul_free_def using nat_text_digits by (rule list.pred_mono_strong) auto

lemma int_text_nul_free [simp]: "nul_free (int_text i)"
  by (simp add: int_text_def NUL_def [symmetric]) (simp add: NUL_def)

text \<open>
  \<open>strtoul\<close> in base \<open>b\<close> on a text with an optional sign, as glibc's \<open>sscanf\<close> uses it: a value that
  does not fit becomes the largest \<open>unsigned long\<close>, a minus sign negates one that fits in 64
  bits, and the rest of the text is not read. A hexadecimal conversion skips \<open>0x\<close>.
\<close>

definition strip_sign :: "string \<Rightarrow> bool \<times> string" where
  "strip_sign s =
     (case s of
        [] \<Rightarrow> (False, [])
      | c # cs \<Rightarrow> if c = CHR ''-'' then (True, cs) else if c = CHR ''+'' then (False, cs) else (False, s))"

definition strip_0x :: "string \<Rightarrow> string" where
  "strip_0x s = (if take 2 s = ''0x'' \<or> take 2 s = ''0X'' then drop 2 s else s)"

definition strtoul :: "nat \<Rightarrow> string \<Rightarrow> nat option" where
  "strtoul b s =
     (let (neg, r) = strip_sign s;
          r' = (if b = 16 then strip_0x r else r);
          ds = takeWhile (is_base_digit b) r';
          v = digits_value b ds
      in if ds = [] then None
         else Some (if 2 ^ 64 \<le> v then 2 ^ 64 - 1 else if neg then u64_of_int (- int v) else v))"

text \<open>\<open>atoi\<close>/\<open>atoll\<close> on a text without leading space.\<close>

definition atoi :: "string \<Rightarrow> int" where
  "atoi s =
     (let (neg, r) = strip_sign s; v = int (digits_value 10 (takeWhile is_digit r))
      in if neg then - v else v)"

lemma not_digit_minus [simp]: "\<not> is_digit CHR ''-''" "\<not> is_digit CHR ''+''"
  by (simp_all add: char_classes)

lemma strip_sign_digits: "list_all is_digit s \<Longrightarrow> strip_sign (s @ rest) = (if s = [] then strip_sign rest else (False, s @ rest))"
  by (cases s) (auto simp: strip_sign_def)

lemma atoi_nat_text: "stops is_digit rest \<Longrightarrow> atoi (nat_text n @ rest) = int n"
  by (simp add: atoi_def strip_sign_digits takeWhile_stops)

end
