(* ===== verification/Typeid.thy ===== *)
theory Typeid
  imports CText Tokens Symtable
begin

section \<open>Name mangling: the texts behind type, function and label ids (\<open>ca_parser.c\<close>)\<close>

text \<open>
  The compiler keeps one table of texts. A type is the id of \<open>t:name\<close>, a function the id of
  \<open>f:name\<close>, a label the id of \<open>l:name\<close>, so one name can be used for each without a clash;
  derived types (pointer, array, tuple) and methods have composite texts. The texts are put
  together in static buffers of 1024 bytes, without a length check.
\<close>

definition name_buffer :: nat where
  "name_buffer = 1024"

definition sym_form_label_name :: "string \<Rightarrow> string result" where
  "sym_form_label_name name = sprintf_into name_buffer (''l:'' @ name)"

definition sym_form_type_name :: "string \<Rightarrow> string result" where
  "sym_form_type_name name = sprintf_into name_buffer (''t:'' @ name)"

definition sym_form_function_name :: "string \<Rightarrow> string result" where
  "sym_form_function_name name = sprintf_into name_buffer (''f:'' @ name)"

definition sym_form_pointer_name :: "string \<Rightarrow> string result" where
  "sym_form_pointer_name name = sprintf_into name_buffer (''t:*'' @ name)"

definition sym_form_array_name :: "string \<Rightarrow> int \<Rightarrow> string result" where
  "sym_form_array_name name dimension =
     sprintf_into name_buffer (''t:['' @ name @ '';'' @ int_text dimension @ '']'')"

text \<open>The text of \<open>typeof(e)\<close> is the address of the node \<open>e\<close>; unwinding reads it back.\<close>

definition expr_typeof_text :: "nat \<Rightarrow> string" where
  "expr_typeof_text expr = ''+:'' @ pointer_text expr"

definition astnode_unwind_from_addr :: "string \<Rightarrow> nat \<times> nat" where
  "astnode_unwind_from_addr text_at =
     (let r = drop 2 text_at;
          digits = takeWhile (is_base_digit 16) (strip_0x r)
      in if digits = [] then (0, 2)
         else (digits_value 16 digits, 2 + (length r - length (strip_0x r)) + length digits))"

subsection \<open>Ids\<close>

text \<open>The name of a type or function starts after its two byte prefix.\<close>

definition name_after_prefix :: "int \<Rightarrow> 'z names_scheme \<Rightarrow> string result" where
  "name_after_prefix i t = bind_result (symname_get i t) (\<lambda>_. symname_get (i + 2) t)"

definition catype_get_type_name :: "int \<Rightarrow> ('z names_scheme, string) action" where
  "catype_get_type_name type = (\<lambda>t. lift_result (name_after_prefix type t) t)"

definition catype_get_function_name :: "int \<Rightarrow> ('z names_scheme, string) action" where
  "catype_get_function_name fnname = (\<lambda>t. lift_result (name_after_prefix fnname t) t)"

definition get_inner_type_string :: "int \<Rightarrow> ('z names_scheme, string) action" where
  "get_inner_type_string i = act (name_of i) (\<lambda>name. ret (get_inner_type_string_by_str name))"

definition sym_form_type_id :: "int \<Rightarrow> ('z names_scheme, int) action" where
  "sym_form_type_id i =
     act (get_inner_type_string i) (\<lambda>name.
     act (lift_result (sym_form_type_name name)) intern)"

definition sym_form_type_id_by_str :: "string \<Rightarrow> ('z names_scheme, int) action" where
  "sym_form_type_id_by_str idname = act (lift_result (sym_form_type_name idname)) intern"

definition sym_form_expr_typeof_id :: "nat \<Rightarrow> ('z names_scheme, int) action" where
  "sym_form_expr_typeof_id expr =
     act (lift_result (sprintf_into 32 (expr_typeof_text expr))) sym_form_type_id_by_str"

definition sym_form_label_id :: "int \<Rightarrow> ('z names_scheme, int) action" where
  "sym_form_label_id i =
     act (name_of i) (\<lambda>name. act (lift_result (sym_form_label_name name)) intern)"

definition sym_form_function_id :: "int \<Rightarrow> ('z names_scheme, int) action" where
  "sym_form_function_id fnid =
     act (name_of fnid) (\<lambda>name. act (lift_result (sym_form_function_name name)) intern)"

text \<open>\<open>-1\<close> stands for "no trait".\<close>

definition get_method_impl_prefix :: "int \<Rightarrow> int \<Rightarrow> ('z names_scheme, string) action" where
  "get_method_impl_prefix cls_id trt_id =
     (if cls_id = -1 then fail (Exit ''assert(class_id != -1)'')
      else act (catype_get_type_name cls_id) (\<lambda>clsname.
        if trt_id \<noteq> -1
        then act (catype_get_type_name trt_id) (\<lambda>trait_name.
               lift_result (sprintf_into name_buffer (clsname @ ''::<'' @ trait_name @ ''>'')))
        else lift_result (sprintf_into name_buffer clsname)))"

definition sym_form_method_id :: "int \<Rightarrow> int \<Rightarrow> int \<Rightarrow> ('z names_scheme, int) action" where
  "sym_form_method_id fnid cls_id trt_id =
     act (name_of fnid) (\<lambda>name.
     act (get_method_impl_prefix cls_id trt_id) (\<lambda>prefix.
     act (lift_result (sprintf_into name_buffer (prefix @ ''::'' @ name))) (\<lambda>namebuf.
     act (lift_result (sym_form_function_name namebuf)) intern)))"

definition sym_form_pointer_id :: "int \<Rightarrow> ('z names_scheme, int) action" where
  "sym_form_pointer_id type =
     act (catype_get_type_name type) (\<lambda>name.
     act (lift_result (sym_form_pointer_name name)) intern)"

definition sym_form_array_id :: "int \<Rightarrow> int \<Rightarrow> ('z names_scheme, int) action" where
  "sym_form_array_id type dimension =
     act (catype_get_type_name type) (\<lambda>name.
     act (lift_result (sym_form_array_name name dimension)) intern)"

fun append_type_names :: "int list \<Rightarrow> string \<Rightarrow> ('z names_scheme, string) action" where
  "append_type_names [] hs = ret hs"
| "append_type_names (ty # types) hs =
     act (catype_get_type_name ty) (\<lambda>name. append_type_names types (hs @ name @ '',''))"

definition sym_form_tuple_id :: "int list \<Rightarrow> ('z names_scheme, int) action" where
  "sym_form_tuple_id types =
     act (append_type_names types ''t:(;'') (\<lambda>hs.
     intern ((if types = [] then hs else butlast hs) @ '')''))"

text \<open>
  A table's address is part of the key under which a type is cached per scope. The model's
  table numbers stand for non-null addresses.
\<close>

definition table_text :: "addr \<Rightarrow> string" where
  "table_text st = pointer_text (Suc st)"

definition sym_form_struct_signature :: "string \<Rightarrow> addr \<Rightarrow> string result" where
  "sym_form_struct_signature name st = sprintf_into name_buffer (name @ ''@'' @ table_text st)"

definition sym_form_symtable_type_id :: "addr \<Rightarrow> int \<Rightarrow> (('r, 'z) symtabs_scheme, int) action" where
  "sym_form_symtable_type_id st name =
     act (catype_get_type_name name) (\<lambda>chname.
     act (\<lambda>w. lift_result (get_table st w) w) (\<lambda>t.
     act (lift_result (sprintf_into name_buffer
            (case assoc t of
               Some a \<Rightarrow> chname @ ''@'' @ table_text st @ ''@'' @ table_text (assoc_table a)
             | None \<Rightarrow> chname @ ''@'' @ table_text st))) intern))"

definition sym_form_trait_impl_by_str :: "string \<Rightarrow> ('z names_scheme, int) action" where
  "sym_form_trait_impl_by_str impl_str =
     act (lift_result (sprintf_into name_buffer (''i:'' @ impl_str))) intern"

text \<open>\<open>strrchr(name, ':')\<close>: what follows the last colon.\<close>

definition catype_remove_impl_prefix :: "string \<Rightarrow> string" where
  "catype_remove_impl_prefix name = rev (takeWhile (\<lambda>c. c \<noteq> CHR '':'') (rev name))"

definition catype_struct_impl_id_to_function_name_str :: "int \<Rightarrow> ('z names_scheme, string) action" where
  "catype_struct_impl_id_to_function_name_str fnname =
     act (catype_get_function_name fnname) (\<lambda>local_name_impl.
     ret (catype_remove_impl_prefix local_name_impl))"

definition catype_struct_impl_id_to_function_name :: "int \<Rightarrow> ('z names_scheme, int) action" where
  "catype_struct_impl_id_to_function_name fnname =
     act (catype_struct_impl_id_to_function_name_str fnname) intern"

definition catype_trait_self_id :: "('z names_scheme, int) action" where
  "catype_trait_self_id = sym_form_type_id_by_str ''Self''"

definition catype_trait_self_ptr_id :: "('z names_scheme, int) action" where
  "catype_trait_self_ptr_id = act catype_trait_self_id sym_form_pointer_id"

text \<open>Whether a call \<open>name(...)\<close> is a function call or builds a named tuple: \<open>0\<close>, \<open>1\<close>, or \<open>-1\<close>.\<close>

definition extract_function_or_tuple ::
  "addr \<Rightarrow> int \<Rightarrow> (('r, 'z) symtabs_scheme, int \<times> entry_ptr option \<times> string) action" where
  "extract_function_or_tuple symtable name =
     act (catype_get_type_name name) (\<lambda>fnname.
     act (\<lambda>w. lift_result (sym_getsym symtable name True w) w) (\<lambda>entry.
     (case entry of
        Some p \<Rightarrow>
          act (\<lambda>w. lift_result (get_entry p w) w) (\<lambda>e.
          ret (if sym_type e = Sym_FnDecl \<or> sym_type e = Sym_FnDef then 0 else - 1, entry, fnname))
      | None \<Rightarrow>
          act (reads (symname_check fnname)) (\<lambda>tupleid.
          if tupleid = -1 then ret (- 1, None, fnname)
          else act (sym_form_type_id tupleid) (\<lambda>tid.
            act (\<lambda>w. lift_result (sym_getsym symtable tid True w) w) (\<lambda>entry'.
            (case entry' of
               None \<Rightarrow> ret (- 1, None, fnname)
             | Some p \<Rightarrow>
                 act (\<lambda>w. lift_result (get_entry p w) w) (\<lambda>e.
                 ret (if sym_type e = Sym_DataType then 1 else - 1, entry', fnname)))))))))"

subsection \<open>What an id stands for\<close>

text \<open>
  \<open>known_as t i pre name\<close>: \<open>i\<close> is the id of the two byte prefix \<open>pre\<close> followed by \<open>name\<close>. It is
  kept by everything that only interns, and it is all a proof needs to know of an id.
\<close>

definition known_as :: "'z names_scheme \<Rightarrow> int \<Rightarrow> string \<Rightarrow> string \<Rightarrow> bool" where
  "known_as t i pre name \<longleftrightarrow> names_ok t \<and> length pre = 2 \<and> interned t i (pre @ name)"

lemma intern_run:
  assumes "names_ok t" "nul_free s" "intern s t = Inr (i, t')"
  shows "names_ok t'" "interned t' i s" "\<And>p v. interned t p v \<Longrightarrow> interned t' p v"
  using assms names_ok_check_insert [of t s] interned_new [of s t] interned_check_insert [of t _ _ s]
  by (auto simp: intern_def)

lemma stored_nonempty_next:
  assumes "stored_at buf p w" "k \<le> length w"
  shows "nat (p + int k) < length buf" "c_str (drop (nat (p + int k)) buf) = c_str (drop k w @ [NUL])"
proof -
  from assms(1) obtain pre post where buf: "buf = pre @ w @ NUL # post" and p: "int (length pre) = p"
    by (auto simp: stored_at_def)
  from p have n: "nat (p + int k) = length pre + k" by simp
  with buf assms(2) show "nat (p + int k) < length buf" by simp
  from buf n assms(2) have "drop (nat (p + int k)) buf = drop k w @ NUL # post" by simp
  moreover have "c_str (v @ NUL # post) = c_str (v @ [NUL])" for v
    by (induction v) (auto simp: c_str_def)
  ultimately show "c_str (drop (nat (p + int k)) buf) = c_str (drop k w @ [NUL])" by simp
qed

lemma nul_free_drop: "nul_free s \<Longrightarrow> nul_free (drop k s)"
  by (metis append_take_drop_id nul_free_simps(3))

lemma name_after_prefix_known:
  assumes "known_as t i pre name"
  shows "name_after_prefix i t = Inr name"
proof -
  from assms have ok: "names_ok t" and len: "length pre = 2"
    and key: "s_symname_name2pos t (pre @ name) = Some i" and nf: "nul_free (pre @ name)"
    by (auto simp: known_as_def interned_def)
  from names_ok_stored [OF ok key] nf
  have st: "stored_at (s_symname_buffer t) i (pre @ name)" by (metis strncpy_bytes_all)
  from st have "0 \<le> i" by (simp add: stored_at_def)
  moreover from symname_get_stored [OF ok key] have "\<exists>x. symname_get i t = Inr x" by blast
  moreover have "nat (i + 2) < length (s_symname_buffer t)"
      "c_str (drop (nat (i + 2)) (s_symname_buffer t)) = name"
    using stored_nonempty_next [OF st, of 2] len nf by simp_all
  ultimately show ?thesis by (auto simp: name_after_prefix_def symname_get_def)
qed

lemma known_as_interned: "known_as t i pre name \<Longrightarrow> interned t i (pre @ name)"
  by (simp add: known_as_def)

lemma known_as_prefix_unique:
  "known_as t i pre name \<Longrightarrow> known_as t i pre' name' \<Longrightarrow> pre = pre' \<and> name = name'"
  unfolding known_as_def by (metis append_eq_append_conv interned_inj)

lemma known_as_id_unique: "known_as t i pre name \<Longrightarrow> known_as t j pre name \<Longrightarrow> i = j"
  unfolding known_as_def by (metis interned_fun)

lemma known_as_intern:
  "known_as t i pre name \<Longrightarrow> nul_free s \<Longrightarrow> intern s t = Inr (j, t') \<Longrightarrow> known_as t' i pre name"
  unfolding known_as_def using intern_run by metis

lemma known_as_nul_free: "known_as t i pre name \<Longrightarrow> nul_free name"
  by (simp add: known_as_def interned_def)

text \<open>The shape all the id constructors share.\<close>

lemma intern_known_as:
  assumes "names_ok t" "nul_free (pre @ name)" "length pre = 2"
    and "act (lift_result (sprintf_into name_buffer (pre @ name))) intern t = Inr (i, t')"
  shows "known_as t' i pre name"
    and "\<And>p q v. known_as t p q v \<Longrightarrow> known_as t' p q v"
proof -
  from assms(4) have run: "intern (pre @ name) t = Inr (i, t')"
    by (auto simp: act_Inr_iff lift_result_Inr_iff sprintf_into_Inr_iff)
  from intern_run [OF assms(1,2) run] assms(3) show "known_as t' i pre name"
    by (simp add: known_as_def)
  show "known_as t' p q v" if "known_as t p q v" for p q v
    using known_as_intern [OF that assms(2) run] .
qed

lemma get_type_name_known:
  "known_as t i pre name \<Longrightarrow> catype_get_type_name i t = Inr (name, t)"
  "known_as t i pre name \<Longrightarrow> catype_get_function_name i t = Inr (name, t)"
  by (simp_all add: catype_get_type_name_def catype_get_function_name_def name_after_prefix_known)

lemma name_of_nul_free: "name_of i t = Inr (s, t') \<Longrightarrow> nul_free s \<and> t' = t"
  by (auto simp: name_of_def lift_result_Inr_iff symname_get_def split: if_splits)

lemma name_after_prefix_nul_free: "name_after_prefix i t = Inr s \<Longrightarrow> nul_free s"
  by (auto simp: name_after_prefix_def bind_result_Inr_iff symname_get_def split: if_splits)

lemma name_of_interned: "names_ok t \<Longrightarrow> interned t i s \<Longrightarrow> name_of i t = Inr (s, t)"
  by (simp add: name_of_def interned_get)

subsection \<open>The name spaces\<close>

lemma type_id_known_as:
  assumes "names_ok t" "nul_free a" "sym_form_type_id_by_str a t = Inr (i, t')"
  shows "known_as t' i ''t:'' a" "names_ok t'" "\<And>p q v. known_as t p q v \<Longrightarrow> known_as t' p q v"
proof -
  have nf: "nul_free (''t:'' @ a)" using assms(2) by (simp add: NUL_def)
  note run = intern_known_as [OF assms(1) nf _ assms(3)
    [unfolded sym_form_type_id_by_str_def sym_form_type_name_def]]
  from run(1) show "known_as t' i ''t:'' a" by simp
  then show "names_ok t'" by (simp add: known_as_def)
  from run(2) show "\<And>p q v. known_as t p q v \<Longrightarrow> known_as t' p q v" by simp
qed

lemma function_id_known_as:
  assumes "names_ok t" "sym_form_function_id n t = Inr (i, t')"
  shows "\<exists>b. known_as t' i ''f:'' b" "names_ok t'" "\<And>p q v. known_as t p q v \<Longrightarrow> known_as t' p q v"
proof -
  from assms(2) obtain b where b: "name_of n t = Inr (b, t)"
      and run: "act (lift_result (sprintf_into name_buffer (''f:'' @ b))) intern t = Inr (i, t')"
    by (auto simp: sym_form_function_id_def sym_form_function_name_def act_Inr_iff
        dest: name_of_nul_free)
  have nf: "nul_free (''f:'' @ b)" using name_of_nul_free [OF b] by (simp add: NUL_def)
  note * = intern_known_as [OF assms(1) nf _ run]
  from *(1) show "\<exists>b. known_as t' i ''f:'' b" by auto
  then show "names_ok t'" by (auto simp: known_as_def)
  from *(2) show "\<And>p q v. known_as t p q v \<Longrightarrow> known_as t' p q v" by simp
qed

lemma label_id_known_as:
  assumes "names_ok t" "sym_form_label_id n t = Inr (i, t')"
  shows "\<exists>b. known_as t' i ''l:'' b" "\<And>p q v. known_as t p q v \<Longrightarrow> known_as t' p q v"
proof -
  from assms(2) obtain b where b: "name_of n t = Inr (b, t)"
      and run: "act (lift_result (sprintf_into name_buffer (''l:'' @ b))) intern t = Inr (i, t')"
    by (auto simp: sym_form_label_id_def sym_form_label_name_def act_Inr_iff
        dest: name_of_nul_free)
  have nf: "nul_free (''l:'' @ b)" using name_of_nul_free [OF b] by (simp add: NUL_def)
  note * = intern_known_as [OF assms(1) nf _ run]
  from *(1) show "\<exists>b. known_as t' i ''l:'' b" by auto
  from *(2) show "\<And>p q v. known_as t p q v \<Longrightarrow> known_as t' p q v" by simp
qed

text \<open>Claim C18: a type, a function and a label never share an id, whatever their names, so the
  three name spaces can live in one symbol table; and the name of the type is still read back
  from its id after the others have been interned.\<close>

theorem name_spaces_disjoint:
  assumes "names_ok t" "nul_free a"
    and "sym_form_type_id_by_str a t = Inr (ty, t1)"
    and "sym_form_function_id n t1 = Inr (fn, t2)"
    and "sym_form_label_id m t2 = Inr (lab, t3)"
  shows "distinct [ty, fn, lab] \<and> catype_get_type_name ty t3 = Inr (a, t3)"
proof -
  note ty = type_id_known_as [OF assms(1,2,3)]
  note fn = function_id_known_as [OF ty(2) assms(4)]
  note lab = label_id_known_as [OF fn(2) assms(5)]
  from lab(2) [OF fn(3) [OF ty(1)]] have a: "known_as t3 ty ''t:'' a" .
  moreover from fn(1) lab(2) obtain b where "known_as t3 fn ''f:'' b" by blast
  moreover from lab(1) obtain c where "known_as t3 lab ''l:'' c" by blast
  ultimately have "distinct [ty, fn, lab]"
    by (auto dest: known_as_prefix_unique)
  with a show ?thesis by (simp add: get_type_name_known)
qed

theorem name_spaces_disjoint_witness:
  "\<exists>ty fn lab t3. act (sym_form_type_id_by_str ''a'') (\<lambda>ty. act (sym_form_function_id 0)
     (\<lambda>fn. act (sym_form_label_id 0) (\<lambda>lab. ret (ty, fn, lab))))
       (snd (symname_check_insert ''a'' names_empty)) = Inr ((ty, fn, lab), t3)
     \<and> distinct [ty, fn, lab]"
proof -
  let ?t = "snd (symname_check_insert ''a'' names_empty)"
  have ok: "names_ok ?t" by (intro names_ok_check_insert names_ok_empty)
  have nf: "nul_free ''a''" by (simp add: NUL_def)
  have "\<exists>ty t1 fn t2 lab t3. sym_form_type_id_by_str ''a'' ?t = Inr (ty, t1)
      \<and> sym_form_function_id 0 t1 = Inr (fn, t2) \<and> sym_form_label_id 0 t2 = Inr (lab, t3)"
    by (simp add: sym_form_type_id_by_str_def sym_form_function_id_def sym_form_label_id_def
        sym_form_type_name_def sym_form_function_name_def sym_form_label_name_def name_buffer_def
        act_def lift_result_def sprintf_into_def intern_def name_of_def symname_get_def
        symname_check_insert_def symname_insert_def names_empty_def strncpy_bytes_def c_str_def
        NUL_def Let_def)
  then show ?thesis
    using name_spaces_disjoint [OF ok nf] by (fastforce simp: act_Inr_iff)
qed

subsection \<open>Methods\<close>

lemma remove_impl_prefix_append:
  "CHR '':'' \<notin> set name \<Longrightarrow> catype_remove_impl_prefix (pre @ ''::'' @ name) = name"
proof -
  assume "CHR '':'' \<notin> set name"
  then have "\<forall>c\<in>set (rev name). c \<noteq> CHR '':''" by auto
  then show ?thesis by (simp add: catype_remove_impl_prefix_def takeWhile_append)
qed

lemma method_impl_prefix_run:
  "get_method_impl_prefix c tr t = Inr (pre, t') \<Longrightarrow> nul_free pre \<and> t' = t"
  using name_after_prefix_nul_free
  by (auto simp: get_method_impl_prefix_def act_Inr_iff lift_result_Inr_iff sprintf_into_Inr_iff
      catype_get_type_name_def NUL_def split: if_splits)

lemma method_id_known_as:
  assumes "names_ok t" "interned t f name" "sym_form_method_id f c tr t = Inr (m, t')"
  shows "\<exists>pre. known_as t' m ''f:'' (pre @ ''::'' @ name)" "interned t' f name" "names_ok t'"
proof -
  have nm: "name_of f t = Inr (name, t)" using assms(1,2) by (rule name_of_interned)
  from assms(3) nm obtain pre where pre: "get_method_impl_prefix c tr t = Inr (pre, t)"
    and run: "act (lift_result (sprintf_into name_buffer (''f:'' @ pre @ ''::'' @ name))) intern t
      = Inr (m, t')"
    by (auto simp: sym_form_method_id_def sym_form_function_name_def act_Inr_iff lift_result_Inr_iff
        sprintf_into_Inr_iff dest: method_impl_prefix_run)
  have nf: "nul_free (''f:'' @ pre @ ''::'' @ name)"
    using method_impl_prefix_run [OF pre] assms(2) by (simp add: interned_def NUL_def)
  from intern_known_as(1) [OF assms(1) nf _ run]
  have k: "known_as t' m ''f:'' (pre @ ''::'' @ name)" by simp
  then show "\<exists>pre. known_as t' m ''f:'' (pre @ ''::'' @ name)" by blast
  from k show "names_ok t'" by (simp add: known_as_def)
  from run have "intern (''f:'' @ pre @ ''::'' @ name) t = Inr (m, t')"
    by (auto simp: act_Inr_iff lift_result_Inr_iff sprintf_into_Inr_iff)
  from intern_run(3) [OF assms(1) nf this assms(2)] show "interned t' f name" .
qed

text \<open>Claim C20: from the id of a method, whatever its struct and trait, the compiler recovers the
  id of the plain function name it was formed from, as long as that name has no colon.\<close>

theorem method_id_gives_function_name:
  assumes "names_ok t" "interned t f name" "CHR '':'' \<notin> set name"
    and "sym_form_method_id f c tr t = Inr (m, t')"
  shows "catype_struct_impl_id_to_function_name m t' = Inr (f, t')"
proof -
  note m = method_id_known_as [OF assms(1,2,4)]
  from m(1) obtain pre where k: "known_as t' m ''f:'' (pre @ ''::'' @ name)" by blast
  from m(2) have "intern name t' = Inr (f, t')" by (simp add: intern_def)
  then show ?thesis
    using get_type_name_known(2) [OF k] remove_impl_prefix_append [OF assms(3), of pre]
    by (simp add: catype_struct_impl_id_to_function_name_def
        catype_struct_impl_id_to_function_name_str_def act_def)
qed

theorem method_id_gives_function_name_witness:
  "\<exists>m t'. sym_form_method_id 0 2 (- 1)
     (snd (symname_check_insert ''t:A'' (snd (symname_check_insert ''f'' names_empty)))) = Inr (m, t')
     \<and> catype_struct_impl_id_to_function_name m t' = Inr (0, t')"
proof -
  let ?f = "snd (symname_check_insert ''f'' names_empty)"
  let ?t = "snd (symname_check_insert ''t:A'' ?f)"
  have ok: "names_ok ?t" by (intro names_ok_check_insert names_ok_empty)
  have "interned ?f 0 ''f''"
    by (simp add: interned_def symname_check_insert_def symname_insert_def names_empty_def NUL_def Let_def)
  note f = interned_check_insert [of ?f 0 "''f''" "''t:A''", OF this]
  have "\<not> isl (sym_form_method_id 0 2 (- 1) ?t)" by code_simp
  then obtain m t' where "sym_form_method_id 0 2 (- 1) ?t = Inr (m, t')"
    by (cases "sym_form_method_id 0 2 (- 1) ?t") auto
  moreover have "CHR '':'' \<notin> set ''f''" by simp
  ultimately show ?thesis using method_id_gives_function_name [OF ok f] by blast
qed

subsection \<open>Pointer and array types\<close>

lemma last_sep_unique:
  "xs @ c # ys = xs' @ c # ys' \<Longrightarrow> c \<notin> set ys \<Longrightarrow> c \<notin> set ys' \<Longrightarrow> xs = xs' \<and> ys = ys'"
  by (auto simp: append_eq_append_conv2 append_eq_Cons_conv Cons_eq_append_conv)

lemma nat_text_no: "\<not> is_digit c \<Longrightarrow> c \<notin> set (nat_text n)"
  using nat_text_digits [of n] by (auto simp: list_all_iff)

lemma int_text_no_semicolon: "CHR '';'' \<notin> set (int_text d)"
  by (auto simp: int_text_def nat_text_no char_classes)

lemma int_text_inj: "int_text d = int_text e \<longleftrightarrow> d = e"
proof
  have minus: "CHR ''-'' # nat_text m \<noteq> nat_text n" for m n
    using nat_text_no [of "CHR ''-''" n] by (metis list.set_intros(1) not_digit_minus(1))
  assume "int_text d = int_text e"
  then show "d = e"
    by (auto simp: int_text_def minus minus [symmetric] dest!: nat_text_inj split: if_splits)
qed simp

lemma array_text_inj:
  "n @ '';'' @ int_text d @ '']'' = n' @ '';'' @ int_text d' @ '']'' \<longleftrightarrow> n = n' \<and> d = d'"
  using last_sep_unique [of n "CHR '';''" "int_text d @ '']''" n' "int_text d' @ '']''"]
  by (auto simp: int_text_no_semicolon int_text_inj)

lemma pointer_id_known_as:
  assumes "known_as t a ''t:'' na" "sym_form_pointer_id a t = Inr (i, t')"
  shows "known_as t' i ''t:'' (CHR ''*'' # na)" "\<And>p q v. known_as t p q v \<Longrightarrow> known_as t' p q v"
proof -
  from assms have run: "act (lift_result (sprintf_into name_buffer (''t:'' @ CHR ''*'' # na))) intern t
      = Inr (i, t')"
    by (simp add: sym_form_pointer_id_def sym_form_pointer_name_def get_type_name_known)
  have ok: "names_ok t" using assms(1) by (simp add: known_as_def)
  have nf: "nul_free (''t:'' @ CHR ''*'' # na)"
    using known_as_nul_free [OF assms(1)] by (simp add: NUL_def)
  from intern_known_as [OF ok nf _ run]
  show "known_as t' i ''t:'' (CHR ''*'' # na)" "\<And>p q v. known_as t p q v \<Longrightarrow> known_as t' p q v"
    by simp_all
qed

lemma array_id_known_as:
  assumes "known_as t a ''t:'' na" "sym_form_array_id a d t = Inr (i, t')"
  shows "known_as t' i ''t:'' (CHR ''['' # na @ '';'' @ int_text d @ '']'')"
    "\<And>p q v. known_as t p q v \<Longrightarrow> known_as t' p q v"
proof -
  let ?n = "CHR ''['' # na @ '';'' @ int_text d @ '']''"
  from assms have run: "act (lift_result (sprintf_into name_buffer (''t:'' @ ?n))) intern t = Inr (i, t')"
    by (simp add: sym_form_array_id_def sym_form_array_name_def get_type_name_known)
  have ok: "names_ok t" using assms(1) by (simp add: known_as_def)
  have nf: "nul_free (''t:'' @ ?n)"
    using known_as_nul_free [OF assms(1)] int_text_nul_free [of d] by simp (simp add: NUL_def)
  from intern_known_as [OF ok nf _ run]
  show "known_as t' i ''t:'' ?n" "\<And>p q v. known_as t p q v \<Longrightarrow> known_as t' p q v"
    by simp_all
qed



end
