(* ===== verification/Methods.thy ===== *)
theory Methods
  imports Typeid
begin

section \<open>Methods of a type: \<open>impl\<close> blocks and traits (\<open>symtable_cpp.cpp\<close>, \<open>symtable_cpp.h\<close>)\<close>

text \<open>
  The entry of a struct type owns a \<open>StructImplInfo\<close>: its own methods, the methods it gets
  from \<open>impl Trait for Struct\<close> blocks by trait, and the associations of the default methods
  it inherits. All three are \<open>std::map\<close>s: iteration is in key order, and \<open>insert\<close> keeps an
  element that is there.
\<close>

subsection \<open>\<open>std::map\<close>\<close>

type_synonym 'a omap = "(int \<times> 'a) list"

fun omap_insert :: "int \<Rightarrow> 'a \<Rightarrow> 'a omap \<Rightarrow> 'a omap" where
  "omap_insert k v [] = [(k, v)]"
| "omap_insert k v ((k', v') # m) =
     (if k < k' then (k, v) # (k', v') # m
      else if k = k' then (k', v') # m
      else (k', v') # omap_insert k v m)"

definition omap_find :: "int \<Rightarrow> 'a omap \<Rightarrow> 'a option" where
  "omap_find k m = map_of m k"

text \<open>Writing through an iterator that was found.\<close>

definition omap_update :: "int \<Rightarrow> ('a \<Rightarrow> 'a) \<Rightarrow> 'a omap \<Rightarrow> 'a omap" where
  "omap_update k f m = map (\<lambda>(k', v). if k' = k then (k', f v) else (k', v)) m"

definition omap_ok :: "'a omap \<Rightarrow> bool" where
  "omap_ok m \<longleftrightarrow> sorted_wrt (<) (map fst m)"

text \<open>The contract of \<open>insert\<close> and \<open>find\<close>, shared by every map of the compiler.\<close>

locale insert_once_map =
  fixes find :: "'k \<Rightarrow> 'm \<Rightarrow> 'v option"
    and ins :: "'k \<Rightarrow> 'v \<Rightarrow> 'm \<Rightarrow> 'm"
    and ok :: "'m \<Rightarrow> bool"
  assumes find_ins: "ok m \<Longrightarrow>
      find k (ins k' v m) = (if k = k' \<and> find k m = None then Some v else find k m)"
    and ok_ins: "ok m \<Longrightarrow> ok (ins k v m)"
begin

lemma ins_absent: "ok m \<Longrightarrow> find k m = None \<Longrightarrow> find k (ins k v m) = Some v"
  by (simp add: find_ins)

lemma ins_present: "ok m \<Longrightarrow> find k m = Some w \<Longrightarrow> find k' (ins k v m) = find k' m"
  by (cases "k' = k") (simp_all add: find_ins)

lemma first_ins_wins: "ok m \<Longrightarrow> find k' (ins k w (ins k v m)) = find k' (ins k v m)"
  by (cases "k' = k") (simp_all add: find_ins ok_ins)

lemma ins_other: "ok m \<Longrightarrow> k \<noteq> k' \<Longrightarrow> find k (ins k' v m) = find k m"
  by (simp add: find_ins)

end

lemma omap_insert_keys: "set (map fst (omap_insert k v m)) = insert k (set (map fst m))"
  by (induction k v m rule: omap_insert.induct) auto

lemma omap_insert_ok: "omap_ok m \<Longrightarrow> omap_ok (omap_insert k v m)"
  unfolding omap_ok_def
proof (induction k v m rule: omap_insert.induct)
  case (2 k v k' v' m)
  then show ?case
    using omap_insert_keys [of k v m] by (auto dest: less_trans simp del: set_map)
qed simp

lemma omap_find_insert:
  "omap_ok m \<Longrightarrow>
   omap_find k (omap_insert k' v m) = (if k = k' \<and> omap_find k m = None then Some v else omap_find k m)"
  unfolding omap_ok_def omap_find_def
proof (induction k' v m rule: omap_insert.induct)
  case (2 k' v k'' v'' m)
  then have "\<forall>x\<in>set (map fst m). k'' < x" by simp
  then have "k' < k'' \<Longrightarrow> k' \<notin> set (map fst m)" by force
  then have "k' < k'' \<Longrightarrow> map_of m k' = None" by (simp add: map_of_eq_None_iff)
  with 2 show ?case by auto
qed simp

interpretation omap: insert_once_map omap_find omap_insert omap_ok
  by unfold_locales (simp_all add: omap_find_insert omap_insert_ok)

interpretation scope_map: insert_once_map
  "\<lambda>k t. map_of (opaque t) k" "\<lambda>k e t. map_insert k e t" "\<lambda>t. True"
  by unfold_locales (auto simp: map_insert_def map_add_def split: option.splits)

lemma omap_update_find:
  "omap_find k (omap_update k' f m) = (if k = k' then map_option f (omap_find k m) else omap_find k m)"
  by (induction m) (auto simp: omap_find_def omap_update_def)

lemma omap_update_keys [simp]: "map fst (omap_update k f m) = map fst m"
  by (induction m) (auto simp: omap_update_def)

lemma omap_update_ok [simp]: "omap_ok (omap_update k f m) \<longleftrightarrow> omap_ok m"
  by (simp add: omap_ok_def)

subsection \<open>Registering methods\<close>

record MethodImplInfo =
  fnname :: int
  nameentry :: entry_ptr
  fnname_manged :: int

record StructImplInfo =
  method_in_struct :: "MethodImplInfo omap"
  method_in_traits :: "MethodImplInfo omap omap"
  method_in_traits_copied :: "SymTableAssoc omap omap"

definition empty_impl_info :: StructImplInfo where
  "empty_impl_info = \<lparr>method_in_struct = [], method_in_traits = [], method_in_traits_copied = []\<rparr>"

text \<open>The pointer in the entry's union; reading it from an entry of another kind is undefined.\<close>

definition runables_opaque :: "StructImplInfo STEntry \<Rightarrow> StructImplInfo option result" where
  "runables_opaque e =
     (case u e of
        U_Zero \<Rightarrow> Inr None
      | U_Data _ _ _ _ r \<Rightarrow> Inr r
      | _ \<Rightarrow> Inl (Undefined ''not a data type entry''))"

definition set_runables :: "StructImplInfo \<Rightarrow> StructImplInfo STEntry \<Rightarrow> StructImplInfo STEntry result" where
  "set_runables m e =
     (case u e of
        U_Data tp i ms st _ \<Rightarrow> Inr (e\<lparr>u := U_Data tp i ms st (Some m)\<rparr>)
      | _ \<Rightarrow> Inl (Undefined ''not a data type entry''))"

definition runable_find_entry_from_map :: "'a omap \<Rightarrow> int \<Rightarrow> 'a option" where
  "runable_find_entry_from_map method_map fn = omap_find fn method_map"

text \<open>The loop over the traits: it stops at the wanted trait, or collects the candidates.\<close>

fun collect_impls :: "'a omap omap \<Rightarrow> int \<Rightarrow> int \<Rightarrow> (int \<times> 'a) list \<Rightarrow> 'a + (int \<times> 'a) list" where
  "collect_impls [] fn trait_name multiple_impls = Inr multiple_impls"
| "collect_impls ((tr, mm) # rest) fn trait_name multiple_impls =
     (case runable_find_entry_from_map mm fn of
        None \<Rightarrow> collect_impls rest fn trait_name multiple_impls
      | Some r \<Rightarrow>
          if tr = trait_name then Inl r
          else collect_impls rest fn trait_name (multiple_impls @ [(tr, r)]))"

definition pick_impl :: "'a + (int \<times> 'a) list \<Rightarrow> 'a option result" where
  "pick_impl c =
     (case c of
        Inl r \<Rightarrow> Inr (Some r)
      | Inr [] \<Rightarrow> Inr None
      | Inr [(_, r)] \<Rightarrow> Inr (Some r)
      | Inr (_ # _ # _) \<Rightarrow> Inl (Exit ''multiple applicable items in scope''))"

definition runable_find_entry ::
  "StructImplInfo STEntry \<Rightarrow> int \<Rightarrow> int \<Rightarrow> MethodImplInfo option result" where
  "runable_find_entry cls_entry fn trait_name =
     bind_result (runables_opaque cls_entry) (\<lambda>r.
       (case r of
          None \<Rightarrow> Inr None
        | Some m \<Rightarrow>
            (case (if trait_name = -1 then runable_find_entry_from_map (method_in_struct m) fn else None) of
               Some i \<Rightarrow> Inr (Some i)
             | None \<Rightarrow> pick_impl (collect_impls (method_in_traits m) fn trait_name []))))"

definition runable_get_or_create_impl_info :: "StructImplInfo STEntry \<Rightarrow> StructImplInfo result" where
  "runable_get_or_create_impl_info cls_entry =
     bind_result (runables_opaque cls_entry) (\<lambda>r.
       Inr (case r of Some m \<Rightarrow> m | None \<Rightarrow> empty_impl_info))"

definition runable_is_method_in_struct :: "StructImplInfo STEntry \<Rightarrow> int \<Rightarrow> bool result" where
  "runable_is_method_in_struct cls_entry fn =
     bind_result (runables_opaque cls_entry) (\<lambda>r.
       Inr (case r of None \<Rightarrow> False
          | Some m \<Rightarrow> runable_find_entry_from_map (method_in_struct m) fn \<noteq> None))"

definition runable_find_entry_assoc ::
  "StructImplInfo STEntry \<Rightarrow> int \<Rightarrow> int \<Rightarrow> SymTableAssoc option result" where
  "runable_find_entry_assoc cls_entry fn trait_name =
     bind_result (runables_opaque cls_entry) (\<lambda>r.
       (case r of
          None \<Rightarrow> Inr None
        | Some m \<Rightarrow> pick_impl (collect_impls (method_in_traits_copied m) fn trait_name [])))"

text \<open>\<open>insert\<close> of the trait's map if it is missing, then of the method in it.\<close>

definition insert_in_trait :: "int \<Rightarrow> int \<Rightarrow> 'a \<Rightarrow> 'a omap omap \<Rightarrow> 'a omap omap" where
  "insert_in_trait tr fn x m = omap_update tr (omap_insert fn x) (omap_insert tr [] m)"

definition runable_add_entry_assoc ::
  "TypeImplInfo \<Rightarrow> StructImplInfo STEntry \<Rightarrow> int \<Rightarrow> SymTableAssoc \<Rightarrow> StructImplInfo STEntry result" where
  "runable_add_entry_assoc impl_info cls_entry fn a =
     bind_result (runable_get_or_create_impl_info cls_entry) (\<lambda>m.
     set_runables (m\<lparr>method_in_traits_copied :=
       insert_in_trait (trait_id impl_info) fn a (method_in_traits_copied m)\<rparr>) cls_entry)"

definition runable_add_entry ::
  "TypeImplInfo \<Rightarrow> StructImplInfo STEntry \<Rightarrow> int \<Rightarrow> int \<Rightarrow> entry_ptr \<Rightarrow> StructImplInfo STEntry result" where
  "runable_add_entry impl_info cls_entry fn fn_mangled ne =
     bind_result (runable_get_or_create_impl_info cls_entry) (\<lambda>m.
       let info = \<lparr>fnname = fn, nameentry = ne, fnname_manged = fn_mangled\<rparr>
       in set_runables
            (if trait_id impl_info = -1
             then m\<lparr>method_in_struct := omap_insert fn info (method_in_struct m)\<rparr>
             else m\<lparr>method_in_traits :=
                     insert_in_trait (trait_id impl_info) fn info (method_in_traits m)\<rparr>)
            cls_entry)"

subsection \<open>Finding the method of a call\<close>

text \<open>
  The entry of a struct is looked up in the scope of the call. With no method found the report
  names the trait, unless \<open>trait_name\<close> is \<open>0\<close>; the callers pass \<open>-1\<close> for "no trait".
\<close>

type_synonym 'z world = "(StructImplInfo, 'z) symtabs_scheme"

definition report_no_method :: "int \<Rightarrow> int \<Rightarrow> int \<Rightarrow> ('z world, 'a) action" where
  "report_no_method method_name name_type trait_name =
     act (name_of method_name) (\<lambda>_.
     act (catype_get_type_name name_type) (\<lambda>_.
     if trait_name \<noteq> 0
     then act (catype_get_type_name trait_name)
            (\<lambda>_. fail (Exit ''cannot find method `%s` for struct `%s` on trait `%s`''))
     else fail (Exit ''cannot find method `%s` for struct `%s`'')))"

definition get_method_impl_info ::
  "addr \<Rightarrow> int \<Rightarrow> int \<Rightarrow> int \<Rightarrow> ('z world, MethodImplInfo option \<times> entry_ptr option) action" where
  "get_method_impl_info symtable struct_name method_name trait_name =
     act (sym_form_type_id struct_name) (\<lambda>name_type.
     act (\<lambda>w. lift_result (sym_getsym_with_symtable symtable name_type True w) w) (\<lambda>p.
     (case p of
        None \<Rightarrow> fail (Exit ''cannot find symbol entry for type `%s`'')
      | Some cls \<Rightarrow>
          act (\<lambda>w. lift_result (get_entry cls w) w) (\<lambda>cls_entry.
          if sym_type cls_entry \<noteq> Sym_DataType \<and> sym_type cls_entry \<noteq> Sym_TraitDef
          then fail (Exit ''expected `data` or `trait` type, but find wrong symbol entry type `%s`'')
          else if sym_type cls_entry = Sym_TraitDef then ret (None, None)
          else act (lift_result (runable_find_entry cls_entry method_name trait_name)) (\<lambda>info.
            (case info of
               Some i \<Rightarrow> ret (Some i, Some cls)
             | None \<Rightarrow> report_no_method method_name name_type trait_name))))))"

text \<open>The path \<open>A::B::method\<close> of a call, and \<open><A as T>::method\<close>.\<close>

record DomainNames =
  relative :: bool
  dn_count :: int
  parts :: "int vec"

record DomainAs =
  domain_main :: DomainNames
  domain_trait :: DomainNames
  da_fnname :: int

definition domain_init :: "bool \<Rightarrow> int \<Rightarrow> DomainNames" where
  "domain_init rel name = \<lparr>relative = rel, dn_count = 1, parts = vec_append vec_new (Some name)\<rparr>"

definition domain_append :: "DomainNames \<Rightarrow> int \<Rightarrow> DomainNames" where
  "domain_append names name =
     names\<lparr>parts := vec_append (parts names) (Some name), dn_count := dn_count names + 1\<rparr>"

definition make_domain_as :: "DomainNames \<Rightarrow> DomainNames \<Rightarrow> int \<Rightarrow> DomainAs" where
  "make_domain_as main as_names fn = \<lparr>domain_main = main, domain_trait = as_names, da_fnname = fn\<rparr>"

text \<open>The parts are ids stored as pointers; the null pointer reads as id \<open>0\<close>.\<close>

definition part_at :: "DomainNames \<Rightarrow> int \<Rightarrow> int result" where
  "part_at d i = bind_result (vec_at (parts d) i) (\<lambda>p. Inr (case p of Some x \<Rightarrow> x | None \<Rightarrow> 0))"

definition sym_get_function_entry_for_domainas ::
  "addr \<Rightarrow> DomainAs \<Rightarrow> ('z world, MethodImplInfo option \<times> entry_ptr option) action" where
  "sym_get_function_entry_for_domainas symtable d =
     (if \<not> relative (domain_main d) \<or> dn_count (domain_main d) \<noteq> 1
      then fail (Exit ''Not implemented yet for absolution path for domain as main'')
      else if \<not> relative (domain_trait d) \<or> dn_count (domain_trait d) \<noteq> 1
      then fail (Exit ''Not implemented yet for absolution path for domain as trait'')
      else
        act (lift_result (part_at (domain_main d) 0)) (\<lambda>struct_name.
        act (lift_result (part_at (domain_trait d) 0)) (\<lambda>trait_name.
        get_method_impl_info symtable struct_name (da_fnname d) trait_name)))"

subsection \<open>Trait definitions and association tables\<close>

record TraitFn =
  tf_name :: int
  tf_has_stmts :: bool

record TraitNodeInfo =
  fnnodes :: "TraitFn omap"
  ids_with_def :: "int list"
  ids_no_def :: "int list"

fun add_trait_fns :: "TraitFn list \<Rightarrow> TraitNodeInfo \<Rightarrow> ('z names_scheme, TraitNodeInfo) action" where
  "add_trait_fns [] info = ret info"
| "add_trait_fns (f # fs) info =
     act (catype_struct_impl_id_to_function_name (tf_name f)) (\<lambda>name.
     let info1 = (if tf_has_stmts f
                  then info\<lparr>ids_with_def := List.insert name (ids_with_def info)\<rparr>
                  else info\<lparr>ids_no_def := List.insert name (ids_no_def info)\<rparr>)
     in add_trait_fns fs (info1\<lparr>fnnodes := omap_insert name f (fnnodes info1)\<rparr>))"

definition sym_create_trait_defs_entry :: "TraitFn list \<Rightarrow> ('z names_scheme, TraitNodeInfo) action" where
  "sym_create_trait_defs_entry fns = add_trait_fns fns \<lparr>fnnodes = [], ids_with_def = [], ids_no_def = []\<rparr>"

definition new_SymTableAssoc :: "SymTableAssocType \<Rightarrow> addr \<Rightarrow> SymTableAssoc" where
  "new_SymTableAssoc ty tbl = \<lparr>as_type = ty, assoc_table = tbl, extra_id_list = []\<rparr>"

definition sym_assoc_add_item :: "SymTableAssoc \<Rightarrow> int \<Rightarrow> SymTableAssoc" where
  "sym_assoc_add_item a value = a\<lparr>extra_id_list := List.insert value (extra_id_list a)\<rparr>"

subsection \<open>Which method a call gets\<close>

definition trait_impls :: "'a omap omap \<Rightarrow> int \<Rightarrow> (int \<times> 'a) list" where
  "trait_impls ms fn = List.map_filter (\<lambda>(tr, mm). map_option (Pair tr) (omap_find fn mm)) ms"

lemma trait_impls_simps [simp]:
  "trait_impls [] fn = []"
  "trait_impls ((tr, mm) # ms) fn =
     (case omap_find fn mm of None \<Rightarrow> trait_impls ms fn | Some i \<Rightarrow> (tr, i) # trait_impls ms fn)"
  by (simp_all add: trait_impls_def map_filter_simps split: option.split)

lemma collect_impls_eq:
  "collect_impls ms fn t acc =
     (case map_of (trait_impls ms fn) t of Some r \<Rightarrow> Inl r | None \<Rightarrow> Inr (acc @ trait_impls ms fn))"
  by (induction ms fn t acc rule: collect_impls.induct)
     (auto simp: runable_find_entry_from_map_def split: option.splits)

lemma trait_impls_keys: "x \<in> set (map fst (trait_impls ms fn)) \<Longrightarrow> x \<in> set (map fst ms)"
proof (induction ms)
  case (Cons a ms)
  then show ?case by (cases a) (auto simp del: set_map split: option.splits)
qed simp

lemma trait_impls_find:
  "distinct (map fst ms) \<Longrightarrow>
   map_of (trait_impls ms fn) t = Option.bind (omap_find t ms) (omap_find fn)"
proof (induction ms)
  case (Cons a ms)
  obtain tr mm where a: "a = (tr, mm)" by force
  with Cons.prems have "tr \<notin> set (map fst (trait_impls ms fn))"
    using trait_impls_keys [of tr ms fn] by auto
  then have "map_of (trait_impls ms fn) tr = None" by (simp add: map_of_eq_None_iff)
  with Cons a show ?case by (auto simp: omap_find_def split: option.splits)
qed (simp add: omap_find_def)

lemma omap_ok_distinct: "omap_ok m \<Longrightarrow> distinct (map fst m)"
  unfolding omap_ok_def using strict_sorted_iff by blast

lemma trait_impls_insert_empty: "trait_impls (omap_insert tr [] ms) fn = trait_impls ms fn"
  by (induction tr "[] :: 'a omap" ms rule: omap_insert.induct)
     (auto simp: omap_find_def split: option.split)

lemma trait_impls_update:
  "(\<And>mm. omap_find fn (f mm) = omap_find fn mm) \<Longrightarrow>
   trait_impls (omap_update tr f ms) fn = trait_impls ms fn"
  by (induction ms) (auto simp: omap_update_def split: option.split)

text \<open>A registry is well formed when its maps are, and no trait has the id that means "no trait".\<close>

definition impl_ok :: "StructImplInfo \<Rightarrow> bool" where
  "impl_ok m \<longleftrightarrow> omap_ok (method_in_struct m) \<and> omap_ok (method_in_traits m) \<and>
     list_all (\<lambda>(tr, mm). tr \<noteq> -1 \<and> omap_ok mm) (method_in_traits m)"

definition registered :: "StructImplInfo \<Rightarrow> int \<Rightarrow> int \<Rightarrow> MethodImplInfo option" where
  "registered m tr fn =
     (if tr = -1 then omap_find fn (method_in_struct m)
      else Option.bind (omap_find tr (method_in_traits m)) (omap_find fn))"

text \<open>Claim C13: which method a call gets. A call that names no trait gets the struct's own method
  whatever the traits offer; a call that names a trait gets that trait's; otherwise the only
  trait that has the method decides, and two of them are an error.\<close>

theorem method_resolution:
  assumes "runables_opaque e = Inr (Some m)" "impl_ok m"
  shows "runable_find_entry e fn tr =
    (case registered m tr fn of
       Some i \<Rightarrow> Inr (Some i)
     | None \<Rightarrow>
         (case trait_impls (method_in_traits m) fn of
            [] \<Rightarrow> Inr None
          | [(_, i)] \<Rightarrow> Inr (Some i)
          | _ \<Rightarrow> Inl (Exit ''multiple applicable items in scope'')))"
proof -
  let ?c = "trait_impls (method_in_traits m) fn"
  have d: "distinct (map fst (method_in_traits m))"
    using assms(2) by (simp add: impl_ok_def omap_ok_distinct)
  have "map_of ?c (-1) = None"
    using assms(2) unfolding trait_impls_find [OF d]
    by (auto simp: impl_ok_def list_all_iff omap_find_def dest!: map_of_SomeD split: bind_splits)
  then show ?thesis
    using assms(1) trait_impls_find [OF d, of fn tr]
    by (auto simp: runable_find_entry_def registered_def runable_find_entry_from_map_def
        collect_impls_eq pick_impl_def split: option.splits list.splits prod.splits)
qed

definition ex_method :: "int \<Rightarrow> MethodImplInfo" where
  "ex_method n = \<lparr>fnname = 5, nameentry = (0, n), fnname_manged = n\<rparr>"

text \<open>Struct \<open>A\<close> with method \<open>5\<close> of its own and from the traits \<open>10\<close> and \<open>20\<close>, method \<open>6\<close> from \<open>20\<close>.\<close>

definition ex_impls :: StructImplInfo where
  "ex_impls = \<lparr>method_in_struct = [(5, ex_method 1)],
     method_in_traits = [(10, [(5, ex_method 2)]), (20, [(5, ex_method 3), (6, ex_method 4)])],
     method_in_traits_copied = []\<rparr>"

definition ex_struct :: "StructImplInfo \<Rightarrow> StructImplInfo STEntry" where
  "ex_struct m = \<lparr>sym_name = 0, sym_type = Sym_DataType, sloc = \<lparr>row = 0, col = 0\<rparr>,
     u = U_Data Struct_NamedStruct 0 None 0 (Some m)\<rparr>"

lemma ex_struct_opaque: "runables_opaque (ex_struct m) = Inr (Some m)"
  by (simp add: runables_opaque_def ex_struct_def)

lemma ex_impls_ok: "impl_ok ex_impls"
  by (simp add: impl_ok_def ex_impls_def omap_ok_def)

theorem method_resolution_witness:
  "runable_find_entry (ex_struct ex_impls) 5 (- 1) = Inr (Some (ex_method 1))
   \<and> runable_find_entry (ex_struct ex_impls) 5 20 = Inr (Some (ex_method 3))
   \<and> runable_find_entry (ex_struct ex_impls) 5 30
      = Inl (Exit ''multiple applicable items in scope'')
   \<and> runable_find_entry (ex_struct ex_impls) 6 10 = Inr (Some (ex_method 4))"
  unfolding method_resolution [OF ex_struct_opaque ex_impls_ok]
  by (simp add: registered_def ex_impls_def omap_find_def)

lemma omap_find_insert_other: "h \<noteq> k \<Longrightarrow> omap_find h (omap_insert k x m) = omap_find h m"
  by (induction k x m rule: omap_insert.induct) (auto simp: omap_find_def)

lemma trait_impls_insert_other:
  "h \<noteq> fn \<Longrightarrow> trait_impls (insert_in_trait tr fn x ms) h = trait_impls ms h"
  by (simp add: insert_in_trait_def trait_impls_update trait_impls_insert_empty omap_find_insert_other)

lemma insert_in_trait_found:
  assumes "omap_ok ms" "\<And>mm. omap_find tr ms = Some mm \<Longrightarrow> omap_ok mm"
    and "Option.bind (omap_find tr ms) (omap_find fn) = None"
  shows "map_of (trait_impls (insert_in_trait tr fn x ms) fn) tr = Some x"
proof -
  have "distinct (map fst (insert_in_trait tr fn x ms))"
    using assms(1) by (simp add: insert_in_trait_def omap_ok_distinct omap_insert_ok)
  moreover have "Option.bind (omap_find tr (insert_in_trait tr fn x ms)) (omap_find fn) = Some x"
    using assms by (auto simp: insert_in_trait_def omap_update_find omap_find_insert
        omap_ok_def [of "[]"] omap_find_def [of fn "[(fn, x)]"] split: option.splits)
  ultimately show ?thesis by (simp add: trait_impls_find)
qed

lemma impl_ok_inner:
  "impl_ok m \<Longrightarrow> omap_find t (method_in_traits m) = Some mm \<Longrightarrow> omap_ok mm"
  by (auto simp: impl_ok_def list_all_iff omap_find_def dest!: map_of_SomeD)

lemma get_or_create_cases:
  assumes "runable_get_or_create_impl_info e = Inr m"
  shows "runables_opaque e = Inr (Some m) \<or> runables_opaque e = Inr None \<and> m = empty_impl_info"
proof -
  from assms obtain r where "runables_opaque e = Inr r"
      and "m = (case r of Some m \<Rightarrow> m | None \<Rightarrow> empty_impl_info)"
    by (auto simp: runable_get_or_create_impl_info_def bind_result_Inr_iff)
  then show ?thesis by (cases r) simp_all
qed

text \<open>Claim C23: a method that has been registered for a struct, in its own \<open>impl\<close> or for a trait,
  is found under that trait, and no lookup of another method changes.\<close>

theorem added_method_found:
  assumes "runable_get_or_create_impl_info e = Inr m" "impl_ok m"
    and "registered m (trait_id info) fn = None"
    and "runable_add_entry info e fn mangled ne = Inr e'"
  shows "runable_find_entry e' fn (trait_id info)
      = Inr (Some \<lparr>fnname = fn, nameentry = ne, fnname_manged = mangled\<rparr>)
    \<and> (g \<noteq> fn \<longrightarrow> runable_find_entry e' g tr = runable_find_entry e g tr)"
proof -
  let ?i = "\<lparr>fnname = fn, nameentry = ne, fnname_manged = mangled\<rparr>"
  define m' where "m' = (if trait_id info = -1
     then m\<lparr>method_in_struct := omap_insert fn ?i (method_in_struct m)\<rparr>
     else m\<lparr>method_in_traits := insert_in_trait (trait_id info) fn ?i (method_in_traits m)\<rparr>)"
  have e': "runables_opaque e' = Inr (Some m')"
    using assms(1,4) by (auto simp: runable_add_entry_def m'_def Let_def set_runables_def
        runables_opaque_def split: entry_union.splits)
  note e = get_or_create_cases [OF assms(1)]
  have ok: "omap_ok (method_in_struct m)" "omap_ok (method_in_traits m)"
    using assms(2) by (simp_all add: impl_ok_def)
  have own: "omap_find h (method_in_struct m') = (if h = fn \<and> trait_id info = -1 then Some ?i
      else omap_find h (method_in_struct m))" for h
    using assms(3) ok by (auto simp: m'_def omap.find_ins registered_def)
  have traits: "trait_impls (method_in_traits m') h = trait_impls (method_in_traits m) h"
    if "h \<noteq> fn" for h
    using that by (simp add: m'_def trait_impls_insert_other)
  have "trait_id info \<noteq> -1 \<Longrightarrow>
      map_of (trait_impls (method_in_traits m') fn) (trait_id info) = Some ?i"
    using insert_in_trait_found [OF ok(2) impl_ok_inner [OF assms(2)]] assms(3)
    by (simp add: m'_def registered_def)
  then have "runable_find_entry e' fn (trait_id info) = Inr (Some ?i)"
    using e' own by (auto simp: runable_find_entry_def runable_find_entry_from_map_def
        collect_impls_eq pick_impl_def)
  moreover have "runable_find_entry e' g tr = runable_find_entry e g tr" if "g \<noteq> fn"
  proof -
    have "collect_impls (method_in_traits m') g t [] = collect_impls (method_in_traits m) g t []" for t
      by (simp only: collect_impls_eq traits [OF that])
    then show ?thesis using e e' own [of g] that
      by (auto simp: runable_find_entry_def runable_find_entry_from_map_def
          empty_impl_info_def omap_find_def pick_impl_def split: option.split)
  qed
  ultimately show ?thesis by blast
qed

theorem added_method_found_witness:
  "\<exists>e'. runable_add_entry \<lparr>class_id = 0, trait_id = 10, trait_impl_id = 0, fn_def_recursive_count = 0\<rparr>
      (ex_struct ex_impls) 6 7 (0, 9) = Inr e'
    \<and> runable_find_entry e' 6 10 = Inr (Some \<lparr>fnname = 6, nameentry = (0, 9), fnname_manged = 7\<rparr>)"
proof -
  let ?info = "\<lparr>class_id = 0, trait_id = 10, trait_impl_id = 0, fn_def_recursive_count = 0\<rparr>"
  have g: "runable_get_or_create_impl_info (ex_struct ex_impls) = Inr ex_impls"
    by (simp add: runable_get_or_create_impl_info_def ex_struct_opaque)
  have n: "registered ex_impls (trait_id ?info) 6 = None"
    by (simp add: registered_def ex_impls_def omap_find_def)
  have "\<not> isl (runable_add_entry ?info (ex_struct ex_impls) 6 7 (0, 9))" by code_simp
  then obtain e' where e': "runable_add_entry ?info (ex_struct ex_impls) 6 7 (0, 9) = Inr e'"
    by (rule ran_E)
  from added_method_found [OF g ex_impls_ok n e'] e' show ?thesis by auto
qed

subsection \<open>A call that names a trait\<close>

text \<open>
  The traits of a registry are type ids, the ids of \<open>t:\<close> texts. \<open><A as T>::m\<close> hands the id of the
  bare word \<open>T\<close> to the lookup, which is never one of them.
\<close>

lemma bare_word_not_type:
  assumes "interned t i name" "take 2 name \<noteq> ''t:''" "known_as t k ''t:'' n"
  shows "i \<noteq> k"
proof
  assume "i = k"
  with assms(3) have "interned t i (''t:'' @ n)" "names_ok t" by (simp_all add: known_as_def)
  with assms(1) have "name = ''t:'' @ n" by (metis interned_inj)
  with assms(2) show False by simp
qed

lemma interned_nonneg: "names_ok t \<Longrightarrow> interned t i s \<Longrightarrow> 0 \<le> i"
  using names_ok_stored by (fastforce simp: interned_def stored_at_def)

lemma bare_trait_lookup:
  assumes "names_ok t" "interned t tr name" "take 2 name \<noteq> ''t:''"
    and "runables_opaque e = Inr (Some m)"
    and "\<And>k. k \<in> set (map fst (method_in_traits m)) \<Longrightarrow> \<exists>n. known_as t k ''t:'' n"
  shows "runable_find_entry e fn tr = pick_impl (Inr (trait_impls (method_in_traits m) fn))"
proof -
  have "tr \<notin> set (map fst (method_in_traits m))"
    using assms(5) bare_word_not_type [OF assms(2,3)] by blast
  then have "map_of (trait_impls (method_in_traits m) fn) tr = None"
    using trait_impls_keys by (simp only: map_of_eq_None_iff set_map [symmetric]) blast
  moreover have "tr \<noteq> -1" using interned_nonneg [OF assms(1,2)] by simp
  ultimately show ?thesis using assms(4) by (simp add: runable_find_entry_def collect_impls_eq)
qed

text \<open>Claim C28: \<open><A as T>::m\<close> is rejected as ambiguous whenever two traits give \<open>A\<close> a method \<open>m\<close>,
  even if \<open>T\<close> is one of them: the named trait is compared by the id of its bare name, while the
  registry is keyed by type ids.\<close>

lemma qualified_call_ambiguous:
  assumes ok: "names_ok w" "interned w tr name" "take 2 name \<noteq> ''t:''"
    and parts: "part_at (domain_main d) 0 = Inr s" "part_at (domain_trait d) 0 = Inr tr"
    and rel: "relative (domain_main d)" "dn_count (domain_main d) = 1"
      "relative (domain_trait d)" "dn_count (domain_trait d) = 1"
    and cls: "sym_form_type_id s w = Inr (ty, w)" "sym_getsym_with_symtable st ty True w = Inr (Some p)"
      "get_entry p w = Inr e" "sym_type e = Sym_DataType"
    and impls: "runables_opaque e = Inr (Some m)"
      "\<And>k. k \<in> set (map fst (method_in_traits m)) \<Longrightarrow> \<exists>n. known_as w k ''t:'' n"
    and two: "trait_impls (method_in_traits m) (da_fnname d) = a # b # more_impls"
  shows "sym_get_function_entry_for_domainas st d w = Inl (Exit ''multiple applicable items in scope'')"
proof -
  have "runable_find_entry e (da_fnname d) tr = Inl (Exit ''multiple applicable items in scope'')"
    using bare_trait_lookup [OF ok impls, of "da_fnname d"] two by (cases a) (simp add: pick_impl_def)
  with parts rel cls show ?thesis
    by (simp add: sym_get_function_entry_for_domainas_def get_method_impl_info_def
        act_def lift_result_def)
qed

definition ex_names :: names where
  "ex_names = foldl (\<lambda>t s. snd (symname_check_insert s t)) names_empty
     [''A'', ''T1'', ''m'', ''t:A'', ''t:T1'', ''t:T2'']"

definition ex_two_traits :: StructImplInfo where
  "ex_two_traits = \<lparr>method_in_struct = [], method_in_traits = [(11, [(5, ex_method 2)]), (16, [(5, ex_method 3)])],
     method_in_traits_copied = []\<rparr>"

definition ex_world :: "StructImplInfo symtabs" where
  "ex_world = \<lparr>s_symname_buffer = s_symname_buffer ex_names, s_symname_name2pos = s_symname_name2pos ex_names,
     sym_heap = [0 \<mapsto> \<lparr>opaque = [(7, ex_struct ex_two_traits)], assoc = None, parent = None\<rparr>],
     sym_next = 1, curr_symtable = 0\<rparr>"

lemma ex_names_ok: "names_ok ex_names"
  by (simp add: ex_names_def names_ok_check_insert)

lemma names_ok_cong:
  "s_symname_buffer t = s_symname_buffer t' \<Longrightarrow> s_symname_name2pos t = s_symname_name2pos t' \<Longrightarrow>
   names_ok t = names_ok t'"
  by (simp add: names_ok_def)

lemma qualified_call_ambiguous_witness:
  "sym_get_function_entry_for_domainas 0
     (make_domain_as (domain_init True 0) (domain_init True 2) 5) ex_world
   = Inl (Exit ''multiple applicable items in scope'')"
proof -
  let ?d = "make_domain_as (domain_init True 0) (domain_init True 2) 5"
  have ok: "names_ok ex_world"
    using ex_names_ok by (subst names_ok_cong [of _ ex_names]) (simp_all add: ex_world_def)
  have key: "s_symname_name2pos ex_world s = s_symname_name2pos ex_names s" for s
    by (simp add: ex_world_def)
  have keys: "s_symname_name2pos ex_names ''T1'' = Some 2" "s_symname_name2pos ex_names ''t:T1'' = Some 11"
      "s_symname_name2pos ex_names ''t:T2'' = Some 16" by code_simp+
  have tr: "interned ex_world 2 ''T1''" using keys by (simp add: interned_def key NUL_def)
  have "known_as ex_world 11 ''t:'' ''T1''" "known_as ex_world 16 ''t:'' ''T2''"
    using keys ok by (simp_all add: known_as_def interned_def key NUL_def)
  then have traits: "\<exists>n. known_as ex_world k ''t:'' n"
      if "k \<in> set (map fst (method_in_traits ex_two_traits))" for k
    using that by (auto simp: ex_two_traits_def)
  have ty: "sym_form_type_id 0 ex_world = Inr (7, ex_world)"
  proof -
    have "symname_get 0 ex_world = Inr ''A''" by code_simp
    moreover have "symname_check_insert ''t:A'' ex_world = (7, ex_world)"
    proof -
      have "s_symname_name2pos ex_names ''t:A'' = Some 7" by code_simp
      then have "interned ex_world 7 ''t:A''" by (simp add: interned_def key NUL_def)
      then show ?thesis by simp
    qed
    moreover have "get_inner_type_string_by_str ''A'' = ''A''" by code_simp
    ultimately show ?thesis
      by (simp add: sym_form_type_id_def get_inner_type_string_def name_of_def
          sym_form_type_name_def sprintf_into_def name_buffer_def intern_def act_def)
  qed
  have find: "sym_getsym_with_symtable 0 7 True ex_world = Inr (Some (0, 7))" by code_simp
  have entry: "get_entry (0, 7) ex_world = Inr (ex_struct ex_two_traits)"
    by (simp add: get_entry_def get_table_def ex_world_def)
  show ?thesis
    by (rule qualified_call_ambiguous [OF ok tr _ _ _ _ _ _ _ ty find entry _ ex_struct_opaque traits])
       (simp_all add: make_domain_as_def domain_init_def part_at_def vec_defs ex_struct_def
         ex_two_traits_def omap_find_def)
qed

end
