(* ===== verification/Declarations.thy ===== *)
theory Declarations
  imports Methods
begin

section \<open>Declaring variables, parameters, members and types (\<open>ca_parser.c\<close>, \<open>symtable_cpp.cpp\<close>, \<open>IR_generator.cpp\<close>)\<close>

text \<open>
  The parser declares names in the scope it is in. A \<open>let\<close> that declares a variable again in
  the same scope shadows it: the entry keeps all the variables, the current one apart from the
  earlier ones in order (\<open>CAVariableShielding\<close>). The code generator meets the same
  declarations in the same order and turns the list by one at each of them, so that the
  current variable is the one of the declaration it is at.
\<close>

subsection \<open>Variables\<close>

definition typeid_novalue :: int where
  "typeid_novalue = -1"

text \<open>\<open>glineno\<close>/\<open>gcolno\<close>, the position of the lexer, are the argument \<open>here\<close>.\<close>

definition cavar_create :: "SLoc \<Rightarrow> int \<Rightarrow> int \<Rightarrow> CAVariable" where
  "cavar_create here name ty =
     \<lparr>v_datatype = ty, v_loc = here, v_name = name, v_global = False, v_llvm_value = None\<rparr>"

definition cavar_create_with_loc :: "SLoc \<Rightarrow> int \<Rightarrow> int \<Rightarrow> SLoc \<Rightarrow> CAVariable" where
  "cavar_create_with_loc here name ty loc = (cavar_create here name ty)\<lparr>v_loc := loc\<rparr>"

definition make_pointer_type :: "int \<Rightarrow> ('z names_scheme, int) action" where
  "make_pointer_type type = sym_form_pointer_id type"

definition cavar_create_self ::
  "SLoc \<Rightarrow> TypeImplInfo option \<Rightarrow> int \<Rightarrow> int \<Rightarrow> ('z names_scheme, CAVariable) action" where
  "cavar_create_self here current_type_impl current_trait_id name =
     (if current_type_impl = None \<and> current_trait_id = 0
      then fail (Exit ''self used in non type implemention or trait is not allowed'')
      else act (name_of name) (\<lambda>strname.
        if strname \<noteq> ''self'' then fail (Exit ''for `%s`, please give it a type or using `self`'')
        else act (case current_type_impl of
                    Some i \<Rightarrow> make_pointer_type (class_id i)
                  | None \<Rightarrow> catype_trait_self_ptr_id)
               (\<lambda>ty. ret (cavar_create here name ty))))"

subsection \<open>Parameters and members\<close>

definition argname_entry ::
  "addr \<Rightarrow> int \<Rightarrow> SymType \<Rightarrow> (CAVariableShielding) \<Rightarrow> SLoc option \<Rightarrow> (('r, 'z) symtabs_scheme, unit) action" where
  "argname_entry st name ty sh loc =
     act (sym_insert st name ty) (\<lambda>p.
     act (\<lambda>w. lift_result (get_entry p w) w) (\<lambda>e.
     set_entry p (e\<lparr>u := U_Var sh, sloc := (case loc of Some l \<Rightarrow> l | None \<Rightarrow> sloc e)\<rparr>)))"

definition append_argname :: "int \<Rightarrow> ST_ArgList \<Rightarrow> ST_ArgList" where
  "append_argname name arglist =
     arglist\<lparr>al_ids := al_ids arglist @ [name], al_argc := Suc (al_argc arglist)\<rparr>"

definition add_fn_args ::
  "SLoc \<Rightarrow> ST_ArgList \<Rightarrow> addr \<Rightarrow> CAVariable \<Rightarrow> (('r, 'z) symtabs_scheme, ST_ArgList) action" where
  "add_fn_args here arglist st var =
     (if MAX_ARGS \<le> al_argc arglist then fail (Exit ''too many args `%s`, max args support is %d'')
      else act (\<lambda>w. lift_result (sym_getsym st (v_name var) False w) w) (\<lambda>entry.
        if entry \<noteq> None then fail (Exit ''parameter `%s` already defined on line %d, col %d.'')
        else act (argname_entry st (v_name var) Sym_Variable
                   \<lparr>vs_current = Some (cavar_create here (v_name var) (v_datatype var)), vs_varlist = Some []\<rparr>
                   (Some (v_loc var)))
          (\<lambda>_. ret (append_argname (v_name var) arglist))))"

definition add_struct_member ::
  "SLoc \<Rightarrow> ST_ArgList \<Rightarrow> addr \<Rightarrow> CAVariable \<Rightarrow> (('r, 'z) symtabs_scheme, ST_ArgList) action" where
  "add_struct_member here arglist st var =
     (if MAX_ARGS \<le> al_argc arglist then fail (Exit ''too many struct members `%s`, max member supports are %d'')
      else act (\<lambda>w. lift_result (sym_getsym st (v_name var) False w) w) (\<lambda>entry.
        if entry \<noteq> None then fail (Exit ''member `%s` already defined on line %d, col %d.'')
        else act (argname_entry st (v_name var) Sym_Member
                   \<lparr>vs_current = Some (cavar_create here (v_name var) (v_datatype var)), vs_varlist = None\<rparr>
                   None)
          (\<lambda>_. ret (append_argname (v_name var) arglist))))"

definition add_tuple_member :: "ST_ArgList \<Rightarrow> int \<Rightarrow> ST_ArgList result" where
  "add_tuple_member arglist tid =
     (if MAX_ARGS \<le> al_argc arglist then Inl (Exit ''too many struct members `%d`, max member supports are `%d`'')
      else Inr (append_argname tid arglist))"

definition reset_arglist_with_new_symtable :: "ST_ArgList \<Rightarrow> (('r, 'z) symtabs_scheme, ST_ArgList) action" where
  "reset_arglist_with_new_symtable curr_arglist =
     act push_new_symtable (\<lambda>st.
     ret (curr_arglist\<lparr>al_argc := 0, al_ids := [], al_contain_varg := False, al_symtable := st\<rparr>))"

fun add_fn_args_all ::
  "SLoc \<Rightarrow> ST_ArgList \<Rightarrow> addr \<Rightarrow> CAVariable list \<Rightarrow> (('r, 'z) symtabs_scheme, ST_ArgList) action" where
  "add_fn_args_all here arglist st [] = ret arglist"
| "add_fn_args_all here arglist st (v # vs) =
     act (add_fn_args here arglist st v) (\<lambda>arglist'. add_fn_args_all here arglist' st vs)"

subsection \<open>Variables of a scope, and shadowing\<close>

text \<open>Appending to the null \<open>varlist\<close> of an entry that never got one is a null dereference.\<close>

definition shield :: "CAVariable \<Rightarrow> 'r entry_union \<Rightarrow> 'r entry_union result" where
  "shield cavar eu =
     (case eu of
        U_Var sh \<Rightarrow>
          (case (vs_varlist sh, vs_current sh) of
             (Some vs, Some c) \<Rightarrow> Inr (U_Var \<lparr>vs_current = Some cavar, vs_varlist = Some (vs @ [c])\<rparr>)
           | _ \<Rightarrow> Inl (Undefined ''null variable list''))
      | _ \<Rightarrow> Inl (Undefined ''not a variable entry''))"

definition register_variable :: "CAVariable \<Rightarrow> addr \<Rightarrow> (('r, 'z) symtabs_scheme, unit) action" where
  "register_variable cavar symtable =
     act (\<lambda>w. lift_result (sym_getsym symtable (v_name cavar) False w) w) (\<lambda>entry.
       (case entry of
          Some p \<Rightarrow>
            act (\<lambda>w. lift_result (get_entry p w) w) (\<lambda>e.
            if sym_type e \<noteq> Sym_Variable
            then fail (Exit ''symbol `%s` already defined with a non-variable type `%d` in scope on line %d, col %d.'')
            else act (lift_result (shield cavar (u e))) (\<lambda>u'. set_entry p (e\<lparr>u := u'\<rparr>)))
        | None \<Rightarrow>
            argname_entry symtable (v_name cavar) Sym_Variable
              \<lparr>vs_current = Some cavar, vs_varlist = Some []\<rparr> None))"

text \<open>The body of a \<open>for\<close> loop is a scope of its own inside the scope of its variable.\<close>

definition make_for_var_entry :: "SLoc \<Rightarrow> int \<Rightarrow> (('r, 'z) symtabs_scheme, unit) action" where
  "make_for_var_entry here i =
     act (reads curr_symtable) (\<lambda>cur.
     act (\<lambda>w. lift_result (sym_getsym cur i False w) w) (\<lambda>entry.
       if entry \<noteq> None then fail (Exit ''strange variable `%s` already defined in scope on line %d, col %d.'')
       else argname_entry cur i Sym_Variable
              \<lparr>vs_current = Some (cavar_create here i typeid_novalue), vs_varlist = None\<rparr> None))"

definition varshielding_rotate_variable :: "bool \<Rightarrow> CAVariableShielding \<Rightarrow> CAVariableShielding result" where
  "varshielding_rotate_variable is_back shielding =
     (case vs_varlist shielding of
        None \<Rightarrow> Inr shielding
      | Some [] \<Rightarrow> Inr shielding
      | Some vs \<Rightarrow>
          (case vs_current shielding of
             None \<Rightarrow> Inl (Undefined ''null variable'')
           | Some c \<Rightarrow>
               if is_back
               then Inr \<lparr>vs_current = Some (last (c # vs)), vs_varlist = Some (butlast (c # vs))\<rparr>
               else Inr \<lparr>vs_current = Some (hd (vs @ [c])), vs_varlist = Some (tl (vs @ [c]))\<rparr>))"

definition varshielding_rotate_capattern_variable_single ::
  "bool \<Rightarrow> addr \<Rightarrow> int \<Rightarrow> (('r, 'z) symtabs_scheme, unit) action" where
  "varshielding_rotate_capattern_variable_single is_back symtable name =
     act (\<lambda>w. lift_result (sym_getsym symtable name False w) w) (\<lambda>entry.
     act (\<lambda>w. lift_result (deref_entry entry w) w) (\<lambda>e.
       (case (entry, u e) of
          (Some p, U_Var sh) \<Rightarrow>
            act (lift_result (varshielding_rotate_variable is_back sh)) (\<lambda>sh'.
            set_entry p (e\<lparr>u := U_Var sh'\<rparr>))
        | _ \<Rightarrow> fail (Undefined ''not a variable entry''))))"

subsection \<open>Entries of one scope\<close>

text \<open>\<open>scope_entry w st n e\<close>: the scope \<open>st\<close>, which redirects no name, has entry \<open>e\<close> for \<open>n\<close>.\<close>

definition plain_scope :: "('r, 'z) symtabs_scheme \<Rightarrow> addr \<Rightarrow> (int \<times> 'r STEntry) list \<Rightarrow> bool" where
  "plain_scope w st es \<longleftrightarrow> (\<exists>t. sym_heap w st = Some t \<and> assoc t = None \<and> opaque t = es)"

definition upd_entry :: "int \<Rightarrow> 'a \<Rightarrow> (int \<times> 'a) list \<Rightarrow> (int \<times> 'a) list" where
  "upd_entry n e es = map (\<lambda>(k, v). if k = n then (k, e) else (k, v)) es"

lemma upd_entry_simps [simp]:
  "map fst (upd_entry n e es) = map fst es"
  "map_of (upd_entry n e es) k = (if k = n \<and> map_of es n \<noteq> None then Some e else map_of es k)"
  by (induction es) (auto simp: upd_entry_def)

lemma upd_entry_fresh: "map_of es n = None \<Longrightarrow> upd_entry n e (es @ [(n, e')]) = es @ [(n, e)]"
  by (induction es) (auto simp: upd_entry_def split: if_splits)

lemma getsym_plain:
  "plain_scope w st es \<Longrightarrow>
   sym_getsym st n False w = Inr (if map_of es n = None then None else Some (st, n))"
  by (auto simp: plain_scope_def sym_getsym_def sym_getsym_with_symtable_def
      symtable_get_with_assoc_def get_table_def split: option.split)

lemma get_entry_plain:
  "plain_scope w st es \<Longrightarrow> map_of es n = Some e \<Longrightarrow> get_entry (st, n) w = Inr e"
  by (auto simp: plain_scope_def get_entry_def get_table_def)

lemma set_entry_plain:
  assumes "plain_scope w st es"
  shows "\<exists>w'. set_entry (st, n) e w = Inr ((), w') \<and> plain_scope w' st (upd_entry n e es)"
  using assms
  by (auto simp: plain_scope_def set_entry_def act_def get_table_def upd_entry_def modifies_def)

lemma sym_insert_plain:
  assumes "plain_scope w st es" "map_of es n = None"
  shows "\<exists>w'. sym_insert st n ty w = Inr ((st, n), w') \<and> plain_scope w' st (es @ [(n, fresh_entry n ty)])"
  using assms by (auto simp: plain_scope_def sym_insert_eq map_insert_def)

lemma map_of_snoc: "map_of es n = None \<Longrightarrow>
   map_of (es @ [(n, e)]) k = (if k = n then Some e else map_of es k)"
  by (auto simp: map_add_def split: option.split)

lemma argname_entry_plain:
  fixes w :: "('r, 'z) symtabs_scheme"
  assumes "plain_scope w st es" "map_of es n = None"
  obtains w' e where "argname_entry st n ty sh loc w = Inr ((), w')"
    "plain_scope w' st (es @ [(n, e)])" "sym_type e = ty" "u e = U_Var sh"
proof -
  from sym_insert_plain [OF assms] obtain w1 where
    1: "sym_insert st n ty w = Inr ((st, n), w1)"
       "plain_scope w1 st (es @ [(n, fresh_entry n ty)])" by blast
  let ?e = "(fresh_entry n ty :: 'r STEntry)\<lparr>u := U_Var sh, sloc := (case loc of Some l \<Rightarrow> l | None \<Rightarrow> sloc (fresh_entry n ty :: 'r STEntry))\<rparr>"
  have g: "get_entry (st, n) w1 = Inr (fresh_entry n ty)"
    by (rule get_entry_plain [OF 1(2)]) (simp add: map_add_def assms(2))
  from set_entry_plain [OF 1(2), of n ?e] assms(2) obtain w2 where
    2: "set_entry (st, n) ?e w1 = Inr ((), w2)" "plain_scope w2 st (es @ [(n, ?e)])"
    by (auto simp: upd_entry_fresh)
  have run: "argname_entry st n ty sh loc w = Inr ((), w2)"
    unfolding argname_entry_def using 1(1) g 2(1) by (simp add: act_def)
  show ?thesis by (rule that [OF run 2(2)]) (simp_all add: fresh_entry_def)
qed

subsection \<open>Shadowing is replayed in order\<close>

text \<open>The shielding that holds the variables \<open>vs\<close>, oldest first, and \<open>w\<close> has it for \<open>n\<close>.\<close>

definition shielding_of :: "CAVariable list \<Rightarrow> CAVariableShielding" where
  "shielding_of vs = \<lparr>vs_current = Some (last vs), vs_varlist = Some (butlast vs)\<rparr>"

definition declares :: "('r, 'z) symtabs_scheme \<Rightarrow> addr \<Rightarrow> int \<Rightarrow> CAVariable list \<Rightarrow> bool" where
  "declares w st n vs \<longleftrightarrow> vs \<noteq> [] \<and>
     (\<exists>es e. plain_scope w st es \<and> map_of es n = Some e \<and> sym_type e = Sym_Variable
        \<and> u e = U_Var (shielding_of vs))"

lemma shield_of: "vs \<noteq> [] \<Longrightarrow> shield v (U_Var (shielding_of vs)) = Inr (U_Var (shielding_of (vs @ [v])))"
  by (simp add: shield_def shielding_of_def)

lemma rotate_lists:
  "xs \<noteq> [] \<Longrightarrow> varshielding_rotate_variable True \<lparr>vs_current = Some c, vs_varlist = Some xs\<rparr>
     = Inr \<lparr>vs_current = Some (last xs), vs_varlist = Some (c # butlast xs)\<rparr>"
  "xs \<noteq> [] \<Longrightarrow> varshielding_rotate_variable False \<lparr>vs_current = Some c, vs_varlist = Some xs\<rparr>
     = Inr \<lparr>vs_current = Some (hd xs), vs_varlist = Some (tl xs @ [c])\<rparr>"
  "varshielding_rotate_variable b \<lparr>vs_current = Some c, vs_varlist = Some []\<rparr>
     = Inr \<lparr>vs_current = Some c, vs_varlist = Some []\<rparr>"
  by (simp_all add: varshielding_rotate_variable_def neq_Nil_conv split: list.splits)

lemma rotate_forward:
  "vs \<noteq> [] \<Longrightarrow> varshielding_rotate_variable False (shielding_of vs) = Inr (shielding_of (rotate1 vs))"
proof (cases vs)
  case (Cons a r)
  then show ?thesis
    by (cases r rule: rev_cases) (auto simp: rotate_lists shielding_of_def butlast_append neq_Nil_conv)
qed simp

lemma rotate_back:
  assumes "vs \<noteq> []"
  shows "varshielding_rotate_variable True (shielding_of (rotate1 vs)) = Inr (shielding_of vs)"
proof (cases vs)
  case (Cons a r)
  then show ?thesis
    by (cases r rule: rev_cases) (auto simp: rotate_lists shielding_of_def butlast_append)
qed (use assms in simp)

lemma register_first:
  assumes "plain_scope w st es" "map_of es (v_name v) = None"
  shows "\<exists>w'. register_variable v st w = Inr ((), w') \<and> declares w' st (v_name v) [v]"
proof -
  from argname_entry_plain [OF assms] obtain w' e where
    *: "argname_entry st (v_name v) Sym_Variable \<lparr>vs_current = Some v, vs_varlist = Some []\<rparr> None w = Inr ((), w')"
       "plain_scope w' st (es @ [(v_name v, e)])" "sym_type e = Sym_Variable"
       "u e = U_Var \<lparr>vs_current = Some v, vs_varlist = Some []\<rparr>" by blast
  have "declares w' st (v_name v) [v]"
    unfolding declares_def using * assms(2)
    by (auto simp: shielding_of_def map_add_def intro!: exI [of _ "es @ [(v_name v, e)]"])
  moreover have "register_variable v st w = Inr ((), w')"
    using * assms by (simp add: register_variable_def getsym_plain)
  ultimately show ?thesis by blast
qed

lemma declares_set_entry:
  assumes "plain_scope w st es" "map_of es n = Some e" "sym_type e = Sym_Variable" "vs \<noteq> []"
  shows "\<exists>w'. set_entry (st, n) (e\<lparr>u := U_Var (shielding_of vs)\<rparr>) w = Inr ((), w') \<and> declares w' st n vs"
proof -
  from set_entry_plain [OF assms(1)] obtain w' where
    *: "set_entry (st, n) (e\<lparr>u := U_Var (shielding_of vs)\<rparr>) w = Inr ((), w')"
      "plain_scope w' st (upd_entry n (e\<lparr>u := U_Var (shielding_of vs)\<rparr>) es)" by blast
  then have "declares w' st n vs"
    unfolding declares_def using assms by (intro conjI exI [of _ "upd_entry n (e\<lparr>u := U_Var (shielding_of vs)\<rparr>) es"]
        exI [of _ "e\<lparr>u := U_Var (shielding_of vs)\<rparr>"]) auto
  with * show ?thesis by blast
qed

lemma register_again:
  assumes "declares w st (v_name v) vs"
  shows "\<exists>w'. register_variable v st w = Inr ((), w') \<and> declares w' st (v_name v) (vs @ [v])"
proof -
  from assms obtain es e where e: "vs \<noteq> []" "plain_scope w st es" "map_of es (v_name v) = Some e"
      "sym_type e = Sym_Variable" "u e = U_Var (shielding_of vs)" by (auto simp: declares_def)
  from declares_set_entry [OF e(2,3,4), of "vs @ [v]"] obtain w' where
    *: "set_entry (st, v_name v) (e\<lparr>u := U_Var (shielding_of (vs @ [v]))\<rparr>) w = Inr ((), w')"
       "declares w' st (v_name v) (vs @ [v])" by auto
  have "register_variable v st w = Inr ((), w')"
    using e * by (simp add: register_variable_def getsym_plain get_entry_plain shield_of act_def)
  with * show ?thesis by blast
qed

lemma rotate_single:
  assumes "declares w st n vs"
    and "varshielding_rotate_variable b (shielding_of vs) = Inr (shielding_of vs')" "vs' \<noteq> []"
  shows "\<exists>w'. varshielding_rotate_capattern_variable_single b st n w = Inr ((), w') \<and> declares w' st n vs'"
proof -
  from assms(1) obtain es e where e: "vs \<noteq> []" "plain_scope w st es" "map_of es n = Some e"
      "sym_type e = Sym_Variable" "u e = U_Var (shielding_of vs)" by (auto simp: declares_def)
  from declares_set_entry [OF e(2,3,4) assms(3)] obtain w' where
    *: "set_entry (st, n) (e\<lparr>u := U_Var (shielding_of vs')\<rparr>) w = Inr ((), w')" "declares w' st n vs'" by auto
  have "varshielding_rotate_capattern_variable_single b st n w = Inr ((), w')"
    using e * assms(2)
    by (simp add: varshielding_rotate_capattern_variable_single_def getsym_plain get_entry_plain
        deref_entry_def act_def)
  with * show ?thesis by blast
qed

fun register_all :: "addr \<Rightarrow> CAVariable list \<Rightarrow> (('r, 'z) symtabs_scheme, unit) action" where
  "register_all st [] = ret ()"
| "register_all st (v # vs) = act (register_variable v st) (\<lambda>_. register_all st vs)"

fun rotate_times :: "nat \<Rightarrow> bool \<Rightarrow> addr \<Rightarrow> int \<Rightarrow> (('r, 'z) symtabs_scheme, unit) action" where
  "rotate_times 0 b st n = ret ()"
| "rotate_times (Suc k) b st n =
     act (varshielding_rotate_capattern_variable_single b st n) (\<lambda>_. rotate_times k b st n)"

definition current_variable :: "addr \<Rightarrow> int \<Rightarrow> ('r, 'z) symtabs_scheme \<Rightarrow> CAVariable option" where
  "current_variable st n w =
     (case get_entry (st, n) w of
        Inr e \<Rightarrow> (case u e of U_Var sh \<Rightarrow> vs_current sh | _ \<Rightarrow> None) | Inl _ \<Rightarrow> None)"

lemma declares_current: "declares w st n vs \<Longrightarrow> current_variable st n w = Some (last vs)"
  by (auto simp: declares_def current_variable_def shielding_of_def dest: get_entry_plain)

lemma register_all_again:
  "declares w st n us \<Longrightarrow> \<forall>v\<in>set vs. v_name v = n \<Longrightarrow>
   \<exists>w'. register_all st vs w = Inr ((), w') \<and> declares w' st n (us @ vs)"
proof (induction vs arbitrary: w us)
  case (Cons v vs)
  then obtain w1 where "register_variable v st w = Inr ((), w1)" "declares w1 st n (us @ [v])"
    using register_again [of w st v us] by auto
  with Cons.IH [of w1 "us @ [v]"] Cons.prems show ?case by auto
qed simp

lemma register_all_declares:
  assumes "plain_scope w st es" "map_of es n = None" "vs \<noteq> []" "\<forall>v\<in>set vs. v_name v = n"
  shows "\<exists>w'. register_all st vs w = Inr ((), w') \<and> declares w' st n vs"
proof -
  from assms(3) obtain v r where vs: "vs = v # r" by (cases vs) auto
  with assms register_first [of w st es v] obtain w1 where
    1: "register_variable v st w = Inr ((), w1)" "declares w1 st n [v]" by auto
  from register_all_again [OF 1(2), of r] assms(4) vs obtain w2 where
    "register_all st r w1 = Inr ((), w2)" "declares w2 st n vs" by auto
  with 1 vs show ?thesis by auto
qed

lemma rotate_times_declares:
  "declares w st n vs \<Longrightarrow>
   \<exists>w'. rotate_times k False st n w = Inr ((), w') \<and> declares w' st n (rotate k vs)"
proof (induction k arbitrary: w vs)
  case (Suc k)
  then have "vs \<noteq> []" by (simp add: declares_def)
  with rotate_single [OF Suc.prems rotate_forward] obtain w1 where
    1: "varshielding_rotate_capattern_variable_single False st n w = Inr ((), w1)"
       "declares w1 st n (rotate1 vs)" by auto
  from Suc.IH [OF 1(2)] 1(1) show ?case by (auto simp: rotate1_rotate_swap)
qed simp

lemma last_rotate:
  assumes "vs \<noteq> []"
  shows "last (rotate (Suc k) vs) = vs ! (k mod length vs)"
proof -
  have "last (rotate (Suc k) vs) = hd (rotate k vs)"
    using assms by (cases "rotate k vs") simp_all
  also have "\<dots> = vs ! (k mod length vs)" using assms by (simp add: hd_rotate_conv_nth)
  finally show ?thesis .
qed

text \<open>Claim C6: shadowing is replayed. After one scope has declared a name any number of times,
  the parser's current variable is the last one; when the code generator turns the list at
  each declaration it meets, its current variable at the \<open>k\<close>-th is the \<open>k\<close>-th declared, and
  after the last the entry is as the parser left it.\<close>

theorem shadowed_declarations_replayed:
  assumes "plain_scope w st es" "map_of es n = None" "vs \<noteq> []" "\<forall>v\<in>set vs. v_name v = n"
  shows "\<exists>w1 w2. register_all st vs w = Inr ((), w1) \<and> current_variable st n w1 = Some (last vs)
    \<and> rotate_times (Suc k) False st n w1 = Inr ((), w2)
    \<and> current_variable st n w2 = Some (vs ! (k mod length vs))
    \<and> (Suc k = length vs \<longrightarrow> declares w1 st n vs \<and> declares w2 st n vs)"
proof -
  from register_all_declares [OF assms] obtain w1 where
    1: "register_all st vs w = Inr ((), w1)" "declares w1 st n vs" by blast
  from rotate_times_declares [OF 1(2), of "Suc k"] obtain w2 where
    2: "rotate_times (Suc k) False st n w1 = Inr ((), w2)" "declares w2 st n (rotate (Suc k) vs)" by blast
  have "current_variable st n w2 = Some (vs ! (k mod length vs))"
    unfolding declares_current [OF 2(2)] last_rotate [OF assms(3)] ..
  moreover have "Suc k = length vs \<Longrightarrow> rotate (Suc k) vs = vs" by (rule rotate_id) simp
  ultimately show ?thesis using 1 2 declares_current [OF 1(2)] by metis
qed

definition one_scope :: "unit symtabs" where
  "one_scope = \<lparr>s_symname_buffer = [], s_symname_name2pos = Map.empty,
     sym_heap = [0 \<mapsto> sym_init None], sym_next = 1, curr_symtable = 0\<rparr>"

lemma one_scope_plain: "plain_scope one_scope 0 []"
  by (simp add: plain_scope_def one_scope_def sym_init_def)

definition ex_var :: "int \<Rightarrow> int \<Rightarrow> CAVariable" where
  "ex_var n ty = cavar_create \<lparr>row = 1, col = 1\<rparr> n ty"

theorem shadowed_declarations_replayed_witness:
  "\<exists>w1 w2. register_all 0 [ex_var 4 1, ex_var 4 2] one_scope = Inr ((), w1)
    \<and> current_variable 0 4 w1 = Some (ex_var 4 2)
    \<and> rotate_times 1 False 0 4 w1 = Inr ((), w2) \<and> current_variable 0 4 w2 = Some (ex_var 4 1)"
proof -
  have n: "\<forall>v\<in>set [ex_var 4 1, ex_var 4 2]. v_name v = 4" by (simp add: ex_var_def cavar_create_def)
  show ?thesis
    using shadowed_declarations_replayed [OF one_scope_plain _ _ n, of 0] by fastforce
qed

subsection \<open>Parameter lists\<close>

definition params_state ::
  "SLoc \<Rightarrow> ('r, 'z) symtabs_scheme \<Rightarrow> addr \<Rightarrow> ST_ArgList \<Rightarrow> CAVariable list \<Rightarrow> bool" where
  "params_state here w st al vs \<longleftrightarrow>
     (\<exists>es. plain_scope w st es \<and> map fst es = map v_name vs \<and> al_ids al = map v_name vs \<and>
       al_argc al = length vs \<and> distinct (map v_name vs) \<and> length vs \<le> MAX_ARGS \<and>
       (\<forall>v\<in>set vs. \<exists>e. map_of es (v_name v) = Some e \<and> sym_type e = Sym_Variable \<and>
          u e = U_Var (shielding_of [cavar_create here (v_name v) (v_datatype v)])))"

lemma add_fn_args_step:
  assumes "params_state here w st al vs"
  shows "if v_name v \<in> set (map v_name vs) \<or> length vs = MAX_ARGS
    then \<exists>m. add_fn_args here al st v w = Inl (Exit m)
    else \<exists>al' w'. add_fn_args here al st v w = Inr (al', w') \<and> params_state here w' st al' (vs @ [v])"
proof -
  from assms obtain es where es: "plain_scope w st es" "map fst es = map v_name vs"
      "al_ids al = map v_name vs" "al_argc al = length vs" "distinct (map v_name vs)"
      "length vs \<le> MAX_ARGS"
      "\<forall>v\<in>set vs. \<exists>e. map_of es (v_name v) = Some e \<and> sym_type e = Sym_Variable \<and>
          u e = U_Var (shielding_of [cavar_create here (v_name v) (v_datatype v)])"
    by (auto simp: params_state_def)
  have known: "map_of es k = None \<longleftrightarrow> k \<notin> set (map v_name vs)" for k
    using es(2) by (metis map_of_eq_None_iff set_map)
  show ?thesis
  proof (cases "v_name v \<in> set (map v_name vs) \<or> length vs = MAX_ARGS")
    case True
    then show ?thesis using es known [of "v_name v"] getsym_plain [OF es(1)]
      by (auto simp: add_fn_args_def)
  next
    case False
    then have fresh: "map_of es (v_name v) = None" using known by blast
    let ?sh = "\<lparr>vs_current = Some (cavar_create here (v_name v) (v_datatype v)), vs_varlist = Some []\<rparr>"
    from argname_entry_plain [OF es(1) fresh] obtain w' e where
      *: "argname_entry st (v_name v) Sym_Variable ?sh (Some (v_loc v)) w = Inr ((), w')"
         "plain_scope w' st (es @ [(v_name v, e)])" "sym_type e = Sym_Variable" "u e = U_Var ?sh"
      by blast
    have "add_fn_args here al st v w = Inr (append_argname (v_name v) al, w')"
      using False es * fresh getsym_plain [OF es(1)] by (simp add: add_fn_args_def)
    moreover have "params_state here w' st (append_argname (v_name v) al) (vs @ [v])"
      unfolding params_state_def append_argname_def using False es * fresh
      by (intro exI [of _ "es @ [(v_name v, e)]"]) (auto simp: shielding_of_def map_add_def)
    ultimately show ?thesis using False by auto
  qed
qed

lemma add_fn_args_all_run:
  "params_state here w st al us \<Longrightarrow>
   (if distinct (map v_name (us @ vs)) \<and> length (us @ vs) \<le> MAX_ARGS
    then \<exists>al' w'. add_fn_args_all here al st vs w = Inr (al', w') \<and> params_state here w' st al' (us @ vs)
    else \<exists>m. add_fn_args_all here al st vs w = Inl (Exit m))"
proof (induction vs arbitrary: w al us)
  case Nil
  then show ?case by (auto simp: params_state_def)
next
  case (Cons v vs)
  have bounds: "length us \<le> MAX_ARGS" using Cons.prems by (auto simp: params_state_def)
  show ?case
  proof (cases "v_name v \<in> set (map v_name us) \<or> length us = MAX_ARGS")
    case True
    with add_fn_args_step [OF Cons.prems, of v] obtain m where
      "add_fn_args here al st v w = Inl (Exit m)" by auto
    then show ?thesis using True by auto
  next
    case False
    with add_fn_args_step [OF Cons.prems, of v] obtain al' w' where
      "add_fn_args here al st v w = Inr (al', w')" "params_state here w' st al' (us @ [v])" by auto
    then have run: "add_fn_args_all here al st (v # vs) w = add_fn_args_all here al' st vs w'"
      and IH: "params_state here w' st al' (us @ [v])" by simp_all
    from Cons.IH [OF IH] show ?thesis
      unfolding run by (simp only: append_assoc append.simps)
  qed
qed

lemma params_state_read:
  assumes "params_state here w st al vs"
  shows "al_ids al = map v_name vs" "al_argc al = length vs"
    "v \<in> set vs \<Longrightarrow> current_variable st (v_name v) w = Some (cavar_create here (v_name v) (v_datatype v))"
proof -
  show "al_ids al = map v_name vs" "al_argc al = length vs"
    using assms by (auto simp: params_state_def)
  assume "v \<in> set vs"
  with assms obtain es e where "plain_scope w st es" "map_of es (v_name v) = Some e"
      "u e = U_Var (shielding_of [cavar_create here (v_name v) (v_datatype v)])"
    by (auto simp: params_state_def)
  then show "current_variable st (v_name v) w = Some (cavar_create here (v_name v) (v_datatype v))"
    by (simp add: current_variable_def get_entry_plain shielding_of_def)
qed

definition no_args :: "addr \<Rightarrow> ST_ArgList" where
  "no_args st = \<lparr>al_argc = 0, al_contain_varg = False, al_ids = [], al_symtable = st\<rparr>"

text \<open>Claim C24: a parameter list is accepted exactly when its names are distinct and there are at
  most \<open>MAX_ARGS\<close> of them; then the list holds the names in order and every name is a variable
  of the function's scope with its declared type. Otherwise the compiler reports an error.\<close>

theorem parameter_list_accepted:
  assumes "plain_scope w st []"
  shows "if distinct (map v_name vs) \<and> length vs \<le> MAX_ARGS
    then \<exists>al w'. add_fn_args_all here (no_args st) st vs w = Inr (al, w') \<and> al_ids al = map v_name vs
      \<and> al_argc al = length vs
      \<and> (\<forall>v\<in>set vs. current_variable st (v_name v) w' = Some (cavar_create here (v_name v) (v_datatype v)))
    else \<exists>m. add_fn_args_all here (no_args st) st vs w = Inl (Exit m)"
proof -
  have "params_state here w st (no_args st) []"
    using assms by (auto simp: params_state_def no_args_def)
  note run = add_fn_args_all_run [OF this, of vs]
  show ?thesis
  proof (cases "distinct (map v_name vs) \<and> length vs \<le> MAX_ARGS")
    case True
    with run obtain al' w' where
      "add_fn_args_all here (no_args st) st vs w = Inr (al', w')" "params_state here w' st al' vs"
      by auto
    with True show ?thesis using params_state_read by (auto simp del: length_map)
  qed (use run in \<open>auto split: if_splits\<close>)
qed

theorem parameter_list_accepted_witness:
  "(\<exists>al w'. add_fn_args_all \<lparr>row = 1, col = 1\<rparr> (no_args 0) 0 [ex_var 4 1, ex_var 5 2] one_scope = Inr (al, w')
      \<and> al_ids al = [4, 5])
   \<and> (\<exists>m. add_fn_args_all \<lparr>row = 1, col = 1\<rparr> (no_args 0) 0 [ex_var 4 1, ex_var 4 2] one_scope = Inl (Exit m))"
  using parameter_list_accepted [OF one_scope_plain, of "[ex_var 4 1, ex_var 5 2]" "\<lparr>row = 1, col = 1\<rparr>"]
    parameter_list_accepted [OF one_scope_plain, of "[ex_var 4 1, ex_var 4 2]" "\<lparr>row = 1, col = 1\<rparr>"]
  by (auto simp: ex_var_def cavar_create_def MAX_ARGS_def)

subsection \<open>The scopes of function definitions\<close>

text \<open>
  The parser opens a function's scope at its name (\<open>fn_proto_name\<close> in \<open>ca.y\<close>) and closes it after
  its body. With the option \<open>-main\<close> the statements of the file are the body of a generated
  main function, whose scope \<open>g_main_symtable\<close> lies inside the global one; a function defined
  at that level must be declared in the global scope, so the main scope is left before the
  function and entered again after it.
\<close>

definition fn_proto_name ::
  "bool \<Rightarrow> bool \<Rightarrow> ST_ArgList \<Rightarrow> (('r, 'z) symtabs_scheme, ST_ArgList \<times> addr option) action" where
  "fn_proto_name emit_main extern_flag curr_arglist =
     act (if emit_main then act pop_symtable (\<lambda>_. ret ()) else ret ()) (\<lambda>_.
     act push_new_symtable (\<lambda>st.
     ret (curr_arglist\<lparr>al_argc := 0, al_ids := [], al_symtable := st\<rparr>,
          if extern_flag then None else Some st)))"

definition make_fn_def :: "bool \<Rightarrow> addr \<Rightarrow> (('r, 'z) symtabs_scheme, addr option) action" where
  "make_fn_def emit_main g_main_symtable =
     act pop_symtable (\<lambda>_.
     if emit_main then act (push_symtable g_main_symtable) (\<lambda>_. ret (Some g_main_symtable))
     else ret None)"

definition make_fn_decl :: "bool \<Rightarrow> addr \<Rightarrow> (('r, 'z) symtabs_scheme, addr option) action" where
  "make_fn_decl emit_main g_main_symtable = make_fn_def emit_main g_main_symtable"

lemma pop_symtable_parent:
  "curr_symtable w \<noteq> g_root_symtable \<Longrightarrow> sym_heap w (curr_symtable w) = Some t \<Longrightarrow> parent t = Some p \<Longrightarrow>
   pop_symtable w = Inr (p, w\<lparr>curr_symtable := p\<rparr>)"
  by (simp add: pop_symtable_def act_def get_table_def)

lemma push_symtable_run:
  "sym_heap w st = Some t \<Longrightarrow>
   push_symtable st w = Inr (st, (put_table st (t\<lparr>parent := Some (curr_symtable w)\<rparr>) w)\<lparr>curr_symtable := st\<rparr>)"
  by (simp add: push_symtable_def act_def get_table_def modifies_def)

lemma pop_after_push_new:
  "sym_next w \<noteq> g_root_symtable \<Longrightarrow> push_new_symtable w = Inr (st, w1) \<Longrightarrow>
   pop_symtable w1 = Inr (curr_symtable w, w1\<lparr>curr_symtable := curr_symtable w\<rparr>)"
  by (auto simp: push_new_symtable_eq sym_init_def intro!: pop_symtable_parent)

text \<open>What the parser does around a function at top level with \<open>-main\<close>, and around one in a block.\<close>

definition define_function :: "bool \<Rightarrow> addr \<Rightarrow> ST_ArgList \<Rightarrow> (('r, 'z) symtabs_scheme, addr option) action" where
  "define_function emit_main main al =
     act (fn_proto_name emit_main False al) (\<lambda>_. make_fn_def emit_main main)"

definition define_function_in_block ::
  "bool \<Rightarrow> addr \<Rightarrow> ST_ArgList \<Rightarrow> (('r, 'z) symtabs_scheme, addr option) action" where
  "define_function_in_block emit_main main al =
     act push_new_symtable (\<lambda>_. define_function emit_main main al)"


definition main_scope :: "unit symtabs" where
  "main_scope = \<lparr>s_symname_buffer = [], s_symname_name2pos = Map.empty,
     sym_heap = [0 \<mapsto> sym_init None, 1 \<mapsto> sym_init (Some 0)], sym_next = 2, curr_symtable = 1\<rparr>"

lemma main_scope_ok: "scopes_ok main_scope"
  by (auto simp: scopes_ok_def table_ok_def main_scope_def sym_init_def)


lemma self_parent_search:
  "h st = Some t \<Longrightarrow> parent t = Some st \<Longrightarrow> map_of (opaque t) idx = None \<Longrightarrow>
   sym_search k h (Some st) idx True = Inl Out_of_fuel"
  by (induction k) simp_all

text \<open>Claim C30: with \<open>-main\<close>, a function defined inside a block of the main function makes the main
  scope its own parent: from then on, looking up a name that scope does not declare never
  ends, whatever the bound on the steps.\<close>

theorem nested_function_loops_lookup:
  assumes "scopes_ok w" "main \<noteq> g_root_symtable" "0 < sym_next w" "curr_symtable w = main"
    and "sym_heap w main = Some t"
  shows "\<exists>w' t'. define_function_in_block True main al w = Inr (Some main, w')
    \<and> curr_symtable w' = main \<and> sym_heap w' main = Some t' \<and> parent t' = Some main \<and> opaque t' = opaque t
    \<and> (map_of (opaque t) idx = None \<longrightarrow>
        (\<forall>k. sym_search k (sym_heap w') (Some main) idx True = Inl Out_of_fuel))"
proof -
  obtain b w1 where p: "push_new_symtable w = Inr (b, w1)" by (simp add: push_new_symtable_eq)
  have n: "sym_next w \<noteq> g_root_symtable" using assms(3) by (simp add: g_root_symtable_def)
  let ?w1 = "w1\<lparr>curr_symtable := main\<rparr>"
  have pop: "pop_symtable w1 = Inr (main, ?w1)" using pop_after_push_new [OF n p] assms(4) by simp
  obtain f w2 where p2: "push_new_symtable ?w1 = Inr (f, w2)" by (simp add: push_new_symtable_eq)
  let ?w2 = "w2\<lparr>curr_symtable := main\<rparr>"
  have "sym_next ?w1 \<noteq> g_root_symtable" using p by (auto simp: push_new_symtable_eq g_root_symtable_def)
  from pop_after_push_new [OF this p2] have pop2: "pop_symtable w2 = Inr (main, ?w2)" by simp
  have "main < sym_next w" using scopes_okD(1) [OF assms(1)] assms(5) by simp
  with p p2 assms(5) have heap: "sym_heap ?w2 main = Some t" by (auto simp: push_new_symtable_eq)
  let ?t = "t\<lparr>parent := Some main\<rparr>" and ?w3 = "(put_table main (t\<lparr>parent := Some main\<rparr>) ?w2)\<lparr>curr_symtable := main\<rparr>"
  have "define_function_in_block True main al w = Inr (Some main, ?w3)"
    using push_symtable_run [OF heap] p pop p2 pop2
    by (simp add: define_function_in_block_def define_function_def fn_proto_name_def make_fn_def_def act_def)
  moreover have "sym_heap ?w3 main = Some ?t" by simp
  moreover have "sym_search k (sym_heap ?w3) (Some main) idx True = Inl Out_of_fuel"
    if "map_of (opaque t) idx = None" for k
    by (rule self_parent_search [where t = ?t]) (use that in simp_all)
  ultimately show ?thesis by (intro exI [of _ ?w3] exI [of _ ?t]) simp
qed

theorem nested_function_loops_lookup_witness:
  "\<exists>w'. define_function_in_block True 1 (no_args 0) main_scope = Inr (Some 1, w')
    \<and> (\<forall>k. sym_search k (sym_heap w') (Some 1) 7 True = Inl Out_of_fuel)"
proof -
  have h: "(1::nat) \<noteq> g_root_symtable" "0 < sym_next main_scope" "curr_symtable main_scope = 1"
      "sym_heap main_scope 1 = Some (sym_init (Some 0))"
    by (simp_all add: main_scope_def g_root_symtable_def)
  have "map_of (opaque (sym_init (Some 0))) 7 = None" by (simp add: sym_init_def)
  then show ?thesis
    using nested_function_loops_lookup [OF main_scope_ok h, of "no_args 0" 7] by blast
qed

end
