(* ===== verification/Patterns.thy ===== *)
theory Patterns
  imports Declarations
begin

section \<open>Patterns of \<open>let\<close> bindings and ranges (\<open>symtable_cpp.cpp\<close>, \<open>ca_parser.c\<close>, \<open>IR_generator.cpp\<close>)\<close>

text \<open>
  A pattern is a tree: variables, tuples, structs and arrays of patterns, \<open>_\<close> and \<open>..\<close>. The
  children are in a \<open>PatternGroup\<close>, an array that is grown by hand. A slot past \<open>size\<close> holds
  whatever \<open>realloc\<close> left there (\<open>None\<close>).
\<close>

datatype PatternType =
    PT_Var | PT_Array | PT_Tuple | PT_GenTuple | PT_Struct | PT_IgnoreOne | PT_IgnoreRange

datatype 'p PatternGroup =
  PatternGroup (pg_size: int) (pg_capacity: int) (pg_patterns: "'p option list")

text \<open>\<open>cap_name\<close> and \<open>cap_items\<close> are \<open>None\<close> where the constructor leaves the field uninitialised.\<close>

datatype CAPattern =
  CAPattern (cap_type: PatternType) (cap_datatype: int) (cap_fieldname: int) (morebind: "int list")
    (cap_loc: SLoc) (cap_name: "int option") (cap_items: "CAPattern PatternGroup option")

subsection \<open>Pattern groups\<close>

definition patterngroup_new :: "'p PatternGroup" where
  "patterngroup_new = PatternGroup 0 0 []"

definition patterngroup_reinit :: "'p PatternGroup \<Rightarrow> 'p PatternGroup" where
  "patterngroup_reinit pg = PatternGroup 0 0 []"

definition realloc :: "int \<Rightarrow> 'p option list \<Rightarrow> 'p option list" where
  "realloc n xs = take (nat n) xs @ replicate (nat n - length xs) None"

definition patterngroup_push :: "'p \<Rightarrow> 'p PatternGroup \<Rightarrow> 'p PatternGroup result" where
  "patterngroup_push cap pg =
     (let size = pg_size pg;
          newsize = (size + 1) * 2;
          (capacity, patterns) =
            (if pg_capacity pg \<le> size then (newsize, realloc newsize (pg_patterns pg))
             else (pg_capacity pg, pg_patterns pg))
      in if 0 \<le> size \<and> size < int (length patterns)
         then Inr (PatternGroup (size + 1) capacity (patterns[nat size := Some cap]))
         else Inl (Undefined ''pattern group index''))"

definition patterngroup_pop :: "'p PatternGroup \<Rightarrow> 'p PatternGroup" where
  "patterngroup_pop pg = PatternGroup (pg_size pg - 1) (pg_capacity pg) (pg_patterns pg)"

definition group_slot :: "'p PatternGroup \<Rightarrow> int \<Rightarrow> 'p result" where
  "group_slot pg i =
     (if 0 \<le> i \<and> i < int (length (pg_patterns pg))
      then (case pg_patterns pg ! nat i of
              Some p \<Rightarrow> Inr p | None \<Rightarrow> Inl (Undefined ''uninitialised pattern''))
      else Inl (Undefined ''pattern group index''))"

definition patterngroup_top :: "'p PatternGroup \<Rightarrow> 'p result" where
  "patterngroup_top pg = group_slot pg (pg_size pg - 1)"

definition patterngroup_at :: "'p PatternGroup \<Rightarrow> int \<Rightarrow> 'p option result" where
  "patterngroup_at pg i =
     (if pg_size pg \<le> i \<or> i < 0 then Inr None
      else bind_result (group_slot pg i) (\<lambda>p. Inr (Some p)))"

definition capattern_new ::
  "SLoc \<Rightarrow> int \<Rightarrow> PatternType \<Rightarrow> CAPattern PatternGroup \<Rightarrow> CAPattern" where
  "capattern_new here name type pg =
     (case type of
        PT_Var \<Rightarrow> CAPattern type typeid_novalue (- 1) [] here (Some name) None
      | PT_IgnoreOne \<Rightarrow> CAPattern type typeid_novalue (- 1) [] here None None
      | PT_IgnoreRange \<Rightarrow> CAPattern type typeid_novalue (- 1) [] here None None
      | _ \<Rightarrow> CAPattern type typeid_novalue (- 1) [] here (Some name) (Some pg))"

text \<open>What a well formed group holds.\<close>

definition group_ok :: "'p PatternGroup \<Rightarrow> bool" where
  "group_ok pg \<longleftrightarrow> 0 \<le> pg_size pg \<and> pg_size pg \<le> pg_capacity pg \<and>
     pg_capacity pg = int (length (pg_patterns pg)) \<and>
     (\<forall>p\<in>set (take (nat (pg_size pg)) (pg_patterns pg)). p \<noteq> None)"

definition group_items :: "'p PatternGroup \<Rightarrow> 'p list" where
  "group_items pg = map the (take (nat (pg_size pg)) (pg_patterns pg))"

text \<open>The contract of a container that only grows at its end.\<close>

locale growing_list =
  fixes items :: "'s \<Rightarrow> 'a list"
    and app :: "'a \<Rightarrow> 's \<Rightarrow> 's result"
    and ok :: "'s \<Rightarrow> bool"
  assumes app_run: "ok s \<Longrightarrow> \<exists>s'. app x s = Inr s' \<and> ok s' \<and> items s' = items s @ [x]"
begin

fun app_all :: "'a list \<Rightarrow> 's \<Rightarrow> 's result" where
  "app_all [] s = Inr s"
| "app_all (x # xs) s = bind_result (app x s) (app_all xs)"

lemma app_all_run: "ok s \<Longrightarrow> \<exists>s'. app_all xs s = Inr s' \<and> ok s' \<and> items s' = items s @ xs"
proof (induction xs arbitrary: s)
  case (Cons x xs)
  from app_run [OF Cons.prems, of x] obtain s1 where
    1: "app x s = Inr s1" "ok s1" "items s1 = items s @ [x]" by blast
  with Cons.IH [OF 1(2)] show ?case by auto
qed simp

end

lemma group_push_run:
  assumes "group_ok pg"
  shows "\<exists>pg'. patterngroup_push x pg = Inr pg' \<and> group_ok pg' \<and> group_items pg' = group_items pg @ [x]"
proof -
  obtain n c ps where pg: "pg = PatternGroup n c ps" by (cases pg)
  define qs where "qs = (if c \<le> n then realloc ((n + 1) * 2) ps else ps)"
  from assms pg have n: "0 \<le> n" "n \<le> c" "c = int (length ps)" "\<forall>p\<in>set (take (nat n) ps). p \<noteq> None"
    by (simp_all add: group_ok_def)
  then have len: "nat n < length qs" and pre: "take (nat n) qs = take (nat n) ps"
    and cap: "int (length qs) = (if c \<le> n then (n + 1) * 2 else c)"
    by (auto simp: qs_def realloc_def)
  from len have t: "take (Suc (nat n)) (qs[nat n := Some x]) = take (nat n) ps @ [Some x]"
    by (simp add: take_Suc_conv_app_nth pre)
  have s: "nat (n + 1) = Suc (nat n)" using n by simp
  have run: "patterngroup_push x pg = Inr (PatternGroup (n + 1) (int (length qs)) (qs[nat n := Some x]))"
    using n len cap by (auto simp: patterngroup_push_def pg qs_def Let_def)
  show ?thesis
    unfolding run using n len t by (intro exI conjI, simp) (auto simp: group_ok_def group_items_def s pg)
qed

interpretation group: growing_list group_items patterngroup_push group_ok
  by unfold_locales (rule group_push_run)

interpretation array_exprs: growing_list ae_data "\<lambda>x obj. Inr (arrayexpr_append obj x)" "\<lambda>_. True"
  by unfold_locales (simp add: arrayexpr_append_def)

lemma group_slot_items:
  "group_ok pg \<Longrightarrow> 0 \<le> i \<Longrightarrow> i < pg_size pg \<Longrightarrow> group_slot pg i = Inr (group_items pg ! nat i)"
proof -
  assume *: "group_ok pg" "0 \<le> i" "i < pg_size pg"
  then have "nat i < length (take (nat (pg_size pg)) (pg_patterns pg))"
    by (auto simp: group_ok_def)
  moreover from this have "take (nat (pg_size pg)) (pg_patterns pg) ! nat i \<noteq> None"
    using * unfolding group_ok_def by (metis nth_mem)
  ultimately show ?thesis
    using * by (auto simp: group_slot_def group_items_def group_ok_def)
qed

lemma group_length: "group_ok pg \<Longrightarrow> int (length (group_items pg)) = pg_size pg"
  by (auto simp: group_ok_def group_items_def)

text \<open>The hand-grown pattern group is a list: pushing a series of patterns keeps every
  one in order (with no write outside the array), the top is the last pushed, and reading any
  index gives the element or, outside the range, null.\<close>

lemma pattern_group_is_a_list:
  assumes "group_ok pg"
  shows "\<exists>pg'. group.app_all xs pg = Inr pg' \<and> group_ok pg' \<and> group_items pg' = group_items pg @ xs
    \<and> (xs \<noteq> [] \<longrightarrow> patterngroup_top pg' = Inr (last xs))
    \<and> patterngroup_at pg' i = Inr (if 0 \<le> i \<and> i < pg_size pg'
        then Some (group_items pg' ! nat i) else None)"
proof -
  from group.app_all_run [OF assms, of xs] obtain pg' where
    *: "group.app_all xs pg = Inr pg'" "group_ok pg'" "group_items pg' = group_items pg @ xs" by blast
  have "patterngroup_top pg' = Inr (last xs)" if "xs \<noteq> []"
  proof -
    have l: "int (length (group_items pg')) = pg_size pg'" using group_length [OF *(2)] .
    have ne: "group_items pg' \<noteq> []" using that *(3) by simp
    then have "0 < pg_size pg'" using l by (metis length_greater_0_conv of_nat_0_less_iff)
    moreover from l this have "nat (pg_size pg' - 1) = length (group_items pg') - 1" by linarith
    ultimately have "patterngroup_top pg' = Inr (last (group_items pg'))"
      using group_slot_items [OF *(2), of "pg_size pg' - 1"] ne
      by (simp add: patterngroup_top_def last_conv_nth)
    then show ?thesis using that *(3) by simp
  qed
  moreover have "patterngroup_at pg' i = Inr (if 0 \<le> i \<and> i < pg_size pg'
        then Some (group_items pg' ! nat i) else None)"
    using group_slot_items [OF *(2)] by (auto simp: patterngroup_at_def)
  ultimately show ?thesis using * by blast
qed

lemma pattern_group_is_a_list_witness:
  "\<exists>pg'. group.app_all [7, 8, 9 :: int] patterngroup_new = Inr pg' \<and> patterngroup_top pg' = Inr 9"
proof -
  have "group_ok (patterngroup_new :: int PatternGroup)" by (simp add: group_ok_def patterngroup_new_def)
  from pattern_group_is_a_list [OF this, of "[7, 8, 9]"] show ?thesis by auto
qed

subsection \<open>Where \<open>..\<close> may stand\<close>

text \<open>\<open>check_ignore_items n ps count\<close> is the loop over the first \<open>n\<close> slots; it ends early with an
  error text, or counts the \<open>..\<close> of the group.\<close>

fun capattern_check_ignore :: "CAPattern \<Rightarrow> string option result"
  and check_ignore_items :: "int \<Rightarrow> CAPattern option list \<Rightarrow> nat \<Rightarrow> (string + nat) result" where
  "capattern_check_ignore (CAPattern PT_Var dt fld mb loc nm items) = Inr None"
| "capattern_check_ignore (CAPattern PT_IgnoreOne dt fld mb loc nm items) = Inr None"
| "capattern_check_ignore (CAPattern PT_IgnoreRange dt fld mb loc nm items) =
     Inr (Some ''capattern: the ignore range must be in tuple or struct'')"
| "capattern_check_ignore (CAPattern type dt fld mb loc nm None) = Inl (Undefined ''uninitialised pattern group'')"
| "capattern_check_ignore (CAPattern type dt fld mb loc nm (Some (PatternGroup n c ps))) =
     bind_result (check_ignore_items n ps 0) (\<lambda>r.
       (case r of
          Inl error \<Rightarrow> Inr (Some error)
        | Inr count \<Rightarrow>
            if count = 0 then Inr None
            else if 1 < count then Inr (Some ''capattern: can only have one ignore range field'')
            else if type = PT_Struct then
              bind_result (group_slot (PatternGroup n c ps) (n - 1)) (\<lambda>p.
                Inr (if cap_type p \<noteq> PT_IgnoreRange
                     then Some ''capattern: can only have one ignore range field and must be in last field for a struct style pattern matching''
                     else None))
            else Inr None))"
| "check_ignore_items n [] count =
     (if n \<le> 0 then Inr (Inr count) else Inl (Undefined ''pattern group index''))"
| "check_ignore_items n (None # ps) count =
     (if n \<le> 0 then Inr (Inr count) else Inl (Undefined ''uninitialised pattern''))"
| "check_ignore_items n (Some p # ps) count =
     (if n \<le> 0 then Inr (Inr count)
      else if cap_type p = PT_IgnoreRange then check_ignore_items (n - 1) ps (count + 1)
      else bind_result (capattern_check_ignore p) (\<lambda>e.
        (case e of Some error \<Rightarrow> Inr (Inl error) | None \<Rightarrow> check_ignore_items (n - 1) ps count)))"

definition capattern_ignorerange_pos :: "CAPattern \<Rightarrow> int result" where
  "capattern_ignorerange_pos cap =
     (case cap_items cap of
        None \<Rightarrow> Inl (Undefined ''uninitialised pattern group'')
      | Some pg \<Rightarrow>
          Inr (case find (\<lambda>i. case pg_patterns pg ! i of
                             Some p \<Rightarrow> cap_type p = PT_IgnoreRange | None \<Rightarrow> False)
                      [0..<nat (pg_size pg)] of
                 Some i \<Rightarrow> int i | None \<Rightarrow> - 1))"

text \<open>A tree the parser builds: every group is well formed and every inner node has one.\<close>

fun pattern_ok :: "CAPattern \<Rightarrow> bool" where
  "pattern_ok (CAPattern type dt fld mb loc nm items) \<longleftrightarrow>
     (if type \<in> {PT_Var, PT_IgnoreOne, PT_IgnoreRange} then True
      else case items of
        None \<Rightarrow> False
      | Some (PatternGroup n c ps) \<Rightarrow>
          group_ok (PatternGroup n c ps) \<and> (\<forall>p\<in>set ps. case p of None \<Rightarrow> True | Some q \<Rightarrow> pattern_ok q))"

text \<open>The rule the check implements: \<open>..\<close> only inside a group, at most once, last in a struct.\<close>

definition ranges :: "CAPattern list \<Rightarrow> nat" where
  "ranges ps = length (filter (\<lambda>p. cap_type p = PT_IgnoreRange) ps)"

lemma ranges_simps [simp]:
  "ranges [] = 0" "ranges (p # ps) = (if cap_type p = PT_IgnoreRange then Suc (ranges ps) else ranges ps)"
  by (simp_all add: ranges_def)

inductive ranges_allowed :: "CAPattern \<Rightarrow> bool" where
  var: "ranges_allowed (CAPattern PT_Var dt fld mb loc nm items)"
| one: "ranges_allowed (CAPattern PT_IgnoreOne dt fld mb loc nm items)"
| group: "type \<in> {PT_Array, PT_Tuple, PT_GenTuple, PT_Struct} \<Longrightarrow>
    \<forall>p\<in>set (group_items pg). cap_type p = PT_IgnoreRange \<or> ranges_allowed p \<Longrightarrow>
    ranges (group_items pg) \<le> 1 \<Longrightarrow>
    type = PT_Struct \<longrightarrow> ranges (group_items pg) = 1 \<longrightarrow>
      cap_type (last (group_items pg)) = PT_IgnoreRange \<Longrightarrow>
    ranges_allowed (CAPattern type dt fld mb loc nm (Some pg))"

inductive_simps ranges_allowed_simps [simp]: "ranges_allowed (CAPattern type dt fld mb loc nm items)"

lemma check_ignore_items_spec:
  assumes "\<And>p. Some p \<in> set ps \<Longrightarrow> pattern_ok p \<Longrightarrow>
      \<exists>r. capattern_check_ignore p = Inr r \<and> (r = None \<longleftrightarrow> ranges_allowed p)"
    and "\<And>p. Some p \<in> set ps \<Longrightarrow> pattern_ok p"
    and "\<forall>p\<in>set (take (nat n) ps). p \<noteq> None" "n \<le> int (length ps)"
  shows "\<exists>r. check_ignore_items n ps k = Inr r \<and>
    (if \<forall>p\<in>set (map the (take (nat n) ps)). cap_type p = PT_IgnoreRange \<or> ranges_allowed p
     then r = Inr (k + ranges (map the (take (nat n) ps)))
     else isl r)"
  using assms
proof (induction ps arbitrary: n k)
  case (Cons a ps)
  show ?case
  proof (cases "n \<le> 0")
    case False
    then have n: "nat n = Suc (nat (n - 1))" by simp
    with Cons.prems(3) obtain p where a: "a = Some p" by auto
    have rest: "\<forall>q\<in>set (take (nat (n - 1)) ps). q \<noteq> None" "n - 1 \<le> int (length ps)"
      using Cons.prems(3,4) n by auto
    define R where "R = map the (take (nat (n - 1)) ps)"
    have list: "map the (take (nat n) (a # ps)) = p # R" using n a by (simp add: R_def)
    let ?all = "\<forall>q\<in>set R. cap_type q = PT_IgnoreRange \<or> ranges_allowed q"
    have IH: "\<exists>r. check_ignore_items (n - 1) ps k = Inr r \<and>
        (if ?all then r = Inr (k + ranges R) else isl r)" for k
      using Cons.IH [OF Cons.prems(1) Cons.prems(2) rest, of k] unfolding R_def by simp
    from Cons.prems(1,2) a obtain r where
      r: "capattern_check_ignore p = Inr r" "r = None \<longleftrightarrow> ranges_allowed p" by auto
    show ?thesis
    proof (cases "cap_type p = PT_IgnoreRange")
      case True
      have "check_ignore_items n (a # ps) k = check_ignore_items (n - 1) ps (k + 1)"
        using False True a by simp
      with IH [of "k + 1"] True show ?thesis unfolding list by (cases ?all) auto
    next
      case no_range: False
      show ?thesis
      proof (cases r)
        case None
        then have "check_ignore_items n (a # ps) k = check_ignore_items (n - 1) ps k"
          using False no_range a r by simp
        with IH [of k] no_range r(2) None show ?thesis unfolding list by (cases ?all) auto
      next
        case (Some e)
        then show ?thesis unfolding list using False no_range a r by simp
      qed
    qed
  qed (cases a; simp)
qed simp

lemma group_slot_last:
  assumes "group_ok pg" "group_items pg \<noteq> []"
  shows "group_slot pg (pg_size pg - 1) = Inr (last (group_items pg))"
proof -
  have "0 < pg_size pg" using group_length [OF assms(1)] assms(2)
    by (metis length_greater_0_conv of_nat_0_less_iff)
  moreover have "nat (pg_size pg - 1) = length (group_items pg) - 1"
    using group_length [OF assms(1)] by linarith
  ultimately show ?thesis
    using group_slot_items [OF assms(1), of "pg_size pg - 1"] assms(2) by (simp add: last_conv_nth)
qed

lemma check_ignore_group:
  assumes "check_ignore_items n ps 0 = Inr r" "group_ok (PatternGroup n c ps)"
    and "if \<forall>p\<in>set (group_items (PatternGroup n c ps)). cap_type p = PT_IgnoreRange \<or> ranges_allowed p
      then r = Inr (ranges (group_items (PatternGroup n c ps))) else isl r"
    and "type \<in> {PT_Array, PT_Tuple, PT_GenTuple, PT_Struct}"
  shows "\<exists>e. capattern_check_ignore (CAPattern type dt fld mb loc nm (Some (PatternGroup n c ps))) = Inr e \<and>
    (e = None \<longleftrightarrow> ranges_allowed (CAPattern type dt fld mb loc nm (Some (PatternGroup n c ps))))"
proof -
  let ?pg = "PatternGroup n c ps"
  have eq: "capattern_check_ignore (CAPattern type dt fld mb loc nm (Some ?pg)) =
     (case r of
        Inl error \<Rightarrow> Inr (Some error)
      | Inr count \<Rightarrow>
          if count = 0 then Inr None
          else if 1 < count then Inr (Some ''capattern: can only have one ignore range field'')
          else if type = PT_Struct then
            bind_result (group_slot ?pg (n - 1)) (\<lambda>p.
              Inr (if cap_type p \<noteq> PT_IgnoreRange
                   then Some ''capattern: can only have one ignore range field and must be in last field for a struct style pattern matching''
                   else None))
          else Inr None)"
    using assms(1,4) by auto
  have sz: "pg_size ?pg = n" by simp
  show ?thesis
  proof (cases "\<forall>p\<in>set (group_items ?pg). cap_type p = PT_IgnoreRange \<or> ranges_allowed p")
    case True
    with assms(3) have r: "r = Inr (ranges (group_items ?pg))" by simp
    show ?thesis
    proof (cases "group_items ?pg = []")
      case empty: True
      then show ?thesis unfolding eq r using assms(4) by auto
    next
      case False
      note l = group_slot_last [OF assms(2) False, unfolded sz]
      show ?thesis unfolding eq r using l True assms(4) by auto
    qed
  next
    case False
    with assms(3) obtain e where "r = Inl e" by (cases r) auto
    then show ?thesis unfolding eq using False assms(4) by auto
  qed
qed

text \<open>Claim C26: the check of a \<open>let\<close> pattern accepts exactly the patterns in which \<open>..\<close> stands only
  directly inside a tuple, array or struct, at most once in each, and last in a struct; on
  every other pattern it reports an error, and it never reads outside a group.\<close>

theorem ignore_check_exact:
  assumes "pattern_ok cap"
  shows "\<exists>e. capattern_check_ignore cap = Inr e \<and> (e = None \<longleftrightarrow> ranges_allowed cap)"
  using assms
proof (induction cap)
  case (CAPattern type dt fld mb loc nm items)
  show ?case
  proof (cases "type \<in> {PT_Var, PT_IgnoreOne, PT_IgnoreRange}")
    case True
    then show ?thesis by auto
  next
    case False
    with CAPattern.prems obtain pg where pg: "items = Some pg" by (cases items) auto
    obtain n c ps where "pg = PatternGroup n c ps" by (cases pg)
    with pg have items: "items = Some (PatternGroup n c ps)" by simp
    with CAPattern.prems False have ok: "group_ok (PatternGroup n c ps)"
        and all: "\<forall>p\<in>set ps. case p of None \<Rightarrow> True | Some q \<Rightarrow> pattern_ok q" by auto
    from all have sub: "\<And>p. Some p \<in> set ps \<Longrightarrow> pattern_ok p" by fastforce
    have IH: "\<exists>e. capattern_check_ignore p = Inr e \<and> (e = None \<longleftrightarrow> ranges_allowed p)"
      if "Some p \<in> set ps" "pattern_ok p" for p
      by (rule CAPattern.IH [of "PatternGroup n c ps" p]) (use items that in force)+
    have full: "\<forall>p\<in>set (take (nat n) ps). p \<noteq> None" "n \<le> int (length ps)"
      using ok by (auto simp: group_ok_def)
    from check_ignore_items_spec [OF IH sub full, of 0] obtain r where
      r: "check_ignore_items n ps 0 = Inr r"
         "if \<forall>p\<in>set (group_items (PatternGroup n c ps)). cap_type p = PT_IgnoreRange \<or> ranges_allowed p
          then r = Inr (ranges (group_items (PatternGroup n c ps))) else isl r"
      unfolding group_items_def by auto
    from False have "type \<in> {PT_Array, PT_Tuple, PT_GenTuple, PT_Struct}" by (cases type) auto
    from check_ignore_group [OF r(1) ok r(2) this] show ?thesis unfolding items .
  qed
qed

definition leaf :: "PatternType \<Rightarrow> CAPattern" where
  "leaf type = CAPattern type typeid_novalue (- 1) [] \<lparr>row = 1, col = 1\<rparr> None None"

definition pair :: "PatternType \<Rightarrow> PatternType \<Rightarrow> PatternType \<Rightarrow> CAPattern" where
  "pair type p q = CAPattern type typeid_novalue (- 1) [] \<lparr>row = 1, col = 1\<rparr> (Some 0)
     (Some (PatternGroup 2 6 [Some (leaf p), Some (leaf q), None, None, None, None]))"

theorem ignore_check_exact_witness:
  "ranges_allowed (pair PT_Tuple PT_IgnoreRange PT_Var)
   \<and> capattern_check_ignore (pair PT_Struct PT_IgnoreRange PT_Var) \<noteq> Inr None"
proof -
  have ok: "pattern_ok (pair t PT_IgnoreRange PT_Var)" for t
    by (simp add: pair_def leaf_def group_ok_def eval_nat_numeral)
  have "capattern_check_ignore (pair PT_Tuple PT_IgnoreRange PT_Var) = Inr None" by code_simp
  moreover have "\<not> ranges_allowed (pair PT_Struct PT_IgnoreRange PT_Var)"
    by (simp add: pair_def leaf_def group_items_def eval_nat_numeral)
  ultimately show ?thesis using ignore_check_exact [OF ok, of PT_Tuple] ignore_check_exact [OF ok, of PT_Struct]
    by auto
qed

subsection \<open>The variables a pattern declares\<close>

definition capattern_register_variable ::
  "int \<Rightarrow> int \<Rightarrow> SLoc \<Rightarrow> int list \<Rightarrow> (('r, 'z) symtabs_scheme, int list) action" where
  "capattern_register_variable name datatype loc sethandler =
     (if set_exists sethandler name then fail (Exit ''the variable `%s` already exists in the same binding'')
      else act (reads curr_symtable) (\<lambda>cur.
        act (register_variable (cavar_create_with_loc loc name datatype loc) cur) (\<lambda>_.
        ret (set_insert sethandler name))))"

fun register_names ::
  "int list \<Rightarrow> int \<Rightarrow> SLoc \<Rightarrow> int list \<Rightarrow> (('r, 'z) symtabs_scheme, int list) action" where
  "register_names [] datatype loc sethandler = ret sethandler"
| "register_names (n # ns) datatype loc sethandler =
     act (capattern_register_variable n datatype loc sethandler) (register_names ns datatype loc)"

text \<open>The element patterns of an array must all be declared with one type.\<close>

fun array_types_agree :: "CAPattern list \<Rightarrow> bool" where
  "array_types_agree (p # q # ps) \<longleftrightarrow> cap_datatype p = cap_datatype q \<and> array_types_agree (q # ps)"
| "array_types_agree _ \<longleftrightarrow> True"

definition pattern_type_id :: "CAPattern \<Rightarrow> bool \<Rightarrow> ('z names_scheme, int) action" where
  "pattern_type_id cap withname =
     (if \<not> withname then ret (cap_datatype cap)
      else (case cap_name cap of
        None \<Rightarrow> fail (Undefined ''uninitialised pattern name'')
      | Some n \<Rightarrow>
          act (sym_form_type_id n) (\<lambda>type.
          if cap_datatype cap \<noteq> typeid_novalue \<and> cap_datatype cap \<noteq> type
          then fail (Exit ''left `%s` type not match right `%s`'') else ret type)))"

fun register_capattern_symtable ::
    "CAPattern \<Rightarrow> SLoc \<Rightarrow> int list \<Rightarrow> (('r, 'z) symtabs_scheme, int list) action"
  and register_subpatterns ::
    "int \<Rightarrow> CAPattern option list \<Rightarrow> SLoc \<Rightarrow> int list \<Rightarrow> (('r, 'z) symtabs_scheme, int list) action" where
  "register_capattern_symtable (CAPattern PT_IgnoreOne dt fld mb l nm items) loc sethandler = ret sethandler"
| "register_capattern_symtable (CAPattern PT_IgnoreRange dt fld mb l nm items) loc sethandler = ret sethandler"
| "register_capattern_symtable (CAPattern PT_Var dt fld mb l nm items) loc sethandler =
     (case nm of
        None \<Rightarrow> fail (Undefined ''uninitialised pattern name'')
      | Some n \<Rightarrow>
          act (capattern_register_variable n dt loc sethandler) (register_names mb dt loc))"
| "register_capattern_symtable (CAPattern type dt fld mb l nm None) loc sethandler =
     fail (Undefined ''uninitialised pattern group'')"
| "register_capattern_symtable (CAPattern type dt fld mb l nm (Some (PatternGroup n c ps))) loc sethandler =
     act (pattern_type_id (CAPattern type dt fld mb l nm (Some (PatternGroup n c ps)))
            (type = PT_Tuple \<or> type = PT_Struct)) (\<lambda>ty.
     act (register_names mb ty loc sethandler) (\<lambda>set1.
     if type = PT_Array \<and> \<not> array_types_agree (group_items (PatternGroup n c ps))
     then fail (Exit ''Array pattern expected `%s` on `%d`, but found `%s`'')
     else register_subpatterns n ps loc set1))"
| "register_subpatterns n [] loc sethandler =
     (if n \<le> 0 then ret sethandler else fail (Undefined ''pattern group index''))"
| "register_subpatterns n (None # ps) loc sethandler =
     (if n \<le> 0 then ret sethandler else fail (Undefined ''uninitialised pattern''))"
| "register_subpatterns n (Some p # ps) loc sethandler =
     (if n \<le> 0 then ret sethandler
      else act (register_capattern_symtable p loc sethandler) (register_subpatterns (n - 1) ps loc))"

text \<open>\<open>make_let_stmt\<close>: check the pattern, then declare its variables in the current scope.\<close>

definition make_let_stmt :: "CAPattern \<Rightarrow> SLoc \<Rightarrow> (('r, 'z) symtabs_scheme, unit) action" where
  "make_let_stmt cap endloc =
     act (lift_result (capattern_check_ignore cap)) (\<lambda>error.
     (case error of
        Some msg \<Rightarrow> fail (Exit msg)
      | None \<Rightarrow>
          act (reads curr_symtable) (\<lambda>cur.
          if cur = g_root_symtable \<and> cap_type cap \<noteq> PT_Var
          then fail (Exit ''left `%s` cannot do pattern match for `%s` globally'')
          else act (register_capattern_symtable cap endloc set_new) (\<lambda>_. ret ()))))"

subsection \<open>Turning the shadowed variables of a pattern\<close>

fun varshielding_rotate_capattern_variable_bind ::
  "bool \<Rightarrow> addr \<Rightarrow> int list \<Rightarrow> (('r, 'z) symtabs_scheme, unit) action" where
  "varshielding_rotate_capattern_variable_bind is_back symtable [] = ret ()"
| "varshielding_rotate_capattern_variable_bind is_back symtable (n # ns) =
     act (varshielding_rotate_capattern_variable_single is_back symtable n)
       (\<lambda>_. varshielding_rotate_capattern_variable_bind is_back symtable ns)"

fun varshielding_rotate_capattern ::
    "bool \<Rightarrow> addr \<Rightarrow> CAPattern \<Rightarrow> (('r, 'z) symtabs_scheme, unit) action"
  and varshielding_rotate_capattern_struct ::
    "bool \<Rightarrow> addr \<Rightarrow> int \<Rightarrow> CAPattern option list \<Rightarrow> (('r, 'z) symtabs_scheme, unit) action" where
  "varshielding_rotate_capattern b st (CAPattern PT_IgnoreOne dt fld mb l nm items) = ret ()"
| "varshielding_rotate_capattern b st (CAPattern PT_IgnoreRange dt fld mb l nm items) = ret ()"
| "varshielding_rotate_capattern b st (CAPattern PT_Var dt fld mb l nm items) =
     (case nm of
        None \<Rightarrow> fail (Undefined ''uninitialised pattern name'')
      | Some n \<Rightarrow>
          act (varshielding_rotate_capattern_variable_single b st n)
            (\<lambda>_. varshielding_rotate_capattern_variable_bind b st mb))"
| "varshielding_rotate_capattern b st (CAPattern type dt fld mb l nm None) =
     fail (Undefined ''uninitialised pattern group'')"
| "varshielding_rotate_capattern b st (CAPattern type dt fld mb l nm (Some (PatternGroup n c ps))) =
     act (varshielding_rotate_capattern_variable_bind b st mb)
       (\<lambda>_. varshielding_rotate_capattern_struct b st n ps)"
| "varshielding_rotate_capattern_struct b st n [] =
     (if n \<le> 0 then ret () else fail (Undefined ''pattern group index''))"
| "varshielding_rotate_capattern_struct b st n (None # ps) =
     (if n \<le> 0 then ret () else fail (Undefined ''uninitialised pattern''))"
| "varshielding_rotate_capattern_struct b st n (Some p # ps) =
     (if n \<le> 0 then ret ()
      else act (varshielding_rotate_capattern b st p) (\<lambda>_. varshielding_rotate_capattern_struct b st (n - 1) ps))"

subsection \<open>Ranges\<close>

datatype GeneralRangeType =
    FullRange | InclusiveRange | InclusiveRangeTo | RightExclusiveRange | RightExclusiveRangeTo | RangeFrom

record 'node GeneralRange =
  gr_type :: GeneralRangeType
  inclusive :: bool
  gr_start :: "'node option"
  gr_end :: "'node option"

definition general_range_init :: "bool \<Rightarrow> 'node option \<Rightarrow> 'node option \<Rightarrow> 'node GeneralRange" where
  "general_range_init incl s e =
     \<lparr>gr_type =
        (if s = None \<and> e = None then FullRange
         else if s \<noteq> None \<and> e \<noteq> None then (if incl then InclusiveRange else RightExclusiveRange)
         else if s \<noteq> None then RangeFrom
         else (if incl then InclusiveRangeTo else RightExclusiveRangeTo)),
      inclusive = incl, gr_start = s, gr_end = e\<rparr>"

subsection \<open>A pattern binds every name once\<close>

fun pattern_names :: "CAPattern \<Rightarrow> int list"
  and subpattern_names :: "int \<Rightarrow> CAPattern option list \<Rightarrow> int list" where
  "pattern_names (CAPattern PT_Var dt fld mb l nm items) = the nm # mb"
| "pattern_names (CAPattern PT_IgnoreOne dt fld mb l nm items) = []"
| "pattern_names (CAPattern PT_IgnoreRange dt fld mb l nm items) = []"
| "pattern_names (CAPattern type dt fld mb l nm None) = mb"
| "pattern_names (CAPattern type dt fld mb l nm (Some (PatternGroup n c ps))) = mb @ subpattern_names n ps"
| "subpattern_names n [] = []"
| "subpattern_names n (p # ps) =
     (if n \<le> 0 then [] else (case p of Some q \<Rightarrow> pattern_names q | None \<Rightarrow> []) @ subpattern_names (n - 1) ps)"

definition once :: "int list \<Rightarrow> int list \<Rightarrow> int list \<Rightarrow> bool" where
  "once seen names seen' \<longleftrightarrow>
     distinct names \<and> set seen \<inter> set names = {} \<and> set seen' = set seen \<union> set names"

lemma once_trans: "once a xs b \<Longrightarrow> once b ys c \<Longrightarrow> once a (xs @ ys) c"
  by (auto simp: once_def)

lemma once_nil [simp]: "once a [] b \<longleftrightarrow> set b = set a"
  by (auto simp: once_def)

lemma register_one_once:
  "capattern_register_variable n dt loc seen w = Inr (seen', w') \<Longrightarrow> once seen [n] seen'"
  by (auto simp: capattern_register_variable_def act_Inr_iff once_def set_exists_def set_insert_def
      split: if_splits)

lemma register_names_once:
  "register_names ns dt loc seen w = Inr (seen', w') \<Longrightarrow> once seen ns seen'"
proof (induction ns arbitrary: seen w)
  case (Cons n ns)
  then obtain s1 w1 where "capattern_register_variable n dt loc seen w = Inr (s1, w1)"
      "register_names ns dt loc s1 w1 = Inr (seen', w')"
    by (auto simp: act_Inr_iff)
  with Cons.IH register_one_once have "once seen [n] s1" "once s1 ns seen'" by blast+
  from once_trans [OF this] show ?case by simp
qed simp

lemma register_pattern_once:
  fixes w w' :: "('r, 'z) symtabs_scheme"
  shows "register_capattern_symtable cap loc seen w = Inr (seen', w') \<Longrightarrow> once seen (pattern_names cap) seen'"
    and "register_subpatterns n ps loc seen w = Inr (seen', w') \<Longrightarrow> once seen (subpattern_names n ps) seen'"
proof (induction cap and n ps arbitrary: seen seen' w w' and seen seen' w w'
    rule: pattern_names_subpattern_names.induct)
  case (1 dt fld mb l nm items)
  then obtain n s1 w1 where "nm = Some n" "capattern_register_variable n dt loc seen w = Inr (s1, w1)"
      "register_names mb dt loc s1 w1 = Inr (seen', w')"
    by (auto simp: act_Inr_iff split: option.splits)
  then have "nm = Some n" "once seen [n] s1" "once s1 mb seen'"
    using register_one_once register_names_once by blast+
  with once_trans [OF this(2,3)] show ?case by simp
next
  case (7 n p ps)
  show ?case
  proof (cases "n \<le> 0")
    case True
    with 7 show ?thesis by (cases p) simp_all
  next
    case False
    with 7 obtain q s1 w1 where p: "p = Some q" "register_capattern_symtable q loc seen w = Inr (s1, w1)"
        "register_subpatterns (n - 1) ps loc s1 w1 = Inr (seen', w')"
      by (cases p) (auto simp: act_Inr_iff)
    with 7 False have "once seen (pattern_names q) s1" "once s1 (subpattern_names (n - 1) ps) seen'" by blast+
    from once_trans [OF this] p False show ?thesis by simp
  qed
qed (auto simp: act_Inr_iff split: if_splits dest!: register_names_once intro: once_trans)


definition pair_of :: "int \<Rightarrow> int \<Rightarrow> CAPattern" where
  "pair_of a b = CAPattern PT_GenTuple typeid_novalue (- 1) [] \<lparr>row = 1, col = 1\<rparr> (Some 0)
     (Some (PatternGroup 2 2 [Some (capattern_new \<lparr>row = 1, col = 1\<rparr> a PT_Var patterngroup_new),
       Some (capattern_new \<lparr>row = 1, col = 1\<rparr> b PT_Var patterngroup_new)]))"


end
