(* ===== verification/Catype.thy ===== *)
theory Catype
  imports Patterns
begin

section \<open>Type objects and their table (\<open>symtable.h\<close>, \<open>type_system.cpp\<close>)\<close>

text \<open>
  A type is a \<open>CADataType\<close> on the heap, shared by pointer; types may be recursive through
  pointers, so the model has a heap of type objects and one of struct layouts (which
  \<open>catype_clone_thin\<close> shares). The pointer and array layouts belong to one object each and are
  kept inside it. \<open>s_type_map\<close> maps a type id to its object; equality of types is equality of
  ids (\<open>signature\<close>).
\<close>

datatype CADTStatus = CADT_None | CADT_Orig | CADT_Expand | CADT_Compact

datatype CAPointerAllocPos = PP_Stack | PP_Heap

datatype CALayout =
    Layout_None
  | Layout_Struct (struct_layout: addr)
  | Layout_Array (array_type: addr) (array_dimension: nat) (dimarray: "int list")
  | Layout_Pointer (pointer_type: addr) (pointer_dimension: nat) (allocpos: CAPointerAllocPos)
  | Layout_Range (range_kind: GeneralRangeType) (range_inclusive: bool) (range_start: "addr option")
      (range_end: "addr option") (range_range: "addr option")

record CADataType =
  dt_type :: tokenid
  formalname :: int
  dt_size :: int
  signature :: int
  status :: CADTStatus
  layout :: CALayout

record CAStructField =
  f_name :: int
  f_offset :: nat
  f_type :: addr

text \<open>\<open>fields\<close> has \<open>capacity\<close> slots; \<open>None\<close> is a slot never written.\<close>

record CAStruct =
  cs_type :: CAStructType
  cs_name :: int
  fieldnum :: nat
  capacity :: nat
  fieldmaxalign :: int
  cs_fields :: "CAStructField option list"

record types = "StructImplInfo symtabs" +
  dt_heap :: "addr \<Rightarrow> CADataType option"
  dt_next :: addr
  cs_heap :: "addr \<Rightarrow> CAStruct option"
  cs_next :: addr
  s_type_map :: "int \<Rightarrow> addr option"
  s_symtable_type_map :: "int \<Rightarrow> addr option"
  g_catype_void_ptr :: "addr option"

subsection \<open>The heaps\<close>

definition get_dt :: "addr \<Rightarrow> 'z types_scheme \<Rightarrow> CADataType result" where
  "get_dt p w = (case dt_heap w p of Some d \<Rightarrow> Inr d | None \<Rightarrow> Inl (Undefined ''no type object at this address''))"

definition get_cs :: "addr \<Rightarrow> 'z types_scheme \<Rightarrow> CAStruct result" where
  "get_cs p w = (case cs_heap w p of Some s \<Rightarrow> Inr s | None \<Rightarrow> Inl (Undefined ''no struct layout at this address''))"

definition dt_of :: "addr \<Rightarrow> ('z types_scheme, CADataType) action" where
  "dt_of p = (\<lambda>w. lift_result (get_dt p w) w)"

definition cs_of :: "addr \<Rightarrow> ('z types_scheme, CAStruct) action" where
  "cs_of p = (\<lambda>w. lift_result (get_cs p w) w)"

definition put_dt :: "addr \<Rightarrow> CADataType \<Rightarrow> ('z types_scheme, unit) action" where
  "put_dt p d = modifies (\<lambda>w. w\<lparr>dt_heap := (dt_heap w)(p \<mapsto> d)\<rparr>)"

definition put_cs :: "addr \<Rightarrow> CAStruct \<Rightarrow> ('z types_scheme, unit) action" where
  "put_cs p s = modifies (\<lambda>w. w\<lparr>cs_heap := (cs_heap w)(p \<mapsto> s)\<rparr>)"

definition new_dt :: "CADataType \<Rightarrow> ('z types_scheme, addr) action" where
  "new_dt d = (\<lambda>w. Inr (dt_next w, w\<lparr>dt_heap := (dt_heap w)(dt_next w \<mapsto> d), dt_next := Suc (dt_next w)\<rparr>))"

definition new_cs :: "CAStruct \<Rightarrow> ('z types_scheme, addr) action" where
  "new_cs s = (\<lambda>w. Inr (cs_next w, w\<lparr>cs_heap := (cs_heap w)(cs_next w \<mapsto> s), cs_next := Suc (cs_next w)\<rparr>))"

subsection \<open>The type table\<close>

definition catype_put_primitive_by_name :: "int \<Rightarrow> addr \<Rightarrow> ('z types_scheme, unit) action" where
  "catype_put_primitive_by_name name dt =
     modifies (\<lambda>w. case s_type_map w name of
        None \<Rightarrow> w\<lparr>s_type_map := (s_type_map w)(name \<mapsto> dt)\<rparr> | Some _ \<Rightarrow> w)"

definition catype_get_primitive_by_name :: "int \<Rightarrow> ('z types_scheme, addr option) action" where
  "catype_get_primitive_by_name name = reads (\<lambda>w. s_type_map w name)"

text \<open>A name of 16 bytes; the longest token name is \<open>void\<close>.\<close>

definition sym_form_type_id_from_token :: "tokenid \<Rightarrow> ('z names_scheme, int) action" where
  "sym_form_type_id_from_token tok =
     act (lift_result (get_type_string_for_signature tok)) (\<lambda>name.
     act (lift_result (sprintf_into 16 (''t:'' @ name))) intern)"

definition catype_put_primitive_by_token :: "tokenid \<Rightarrow> addr \<Rightarrow> ('z types_scheme, unit) action" where
  "catype_put_primitive_by_token token dt =
     act (sym_form_type_id_from_token token) (\<lambda>name. catype_put_primitive_by_name name dt)"

definition catype_get_primitive_by_token :: "tokenid \<Rightarrow> ('z types_scheme, addr option) action" where
  "catype_get_primitive_by_token token =
     act (sym_form_type_id_from_token token) catype_get_primitive_by_name"

definition sym_primitive_token_from_id :: "int \<Rightarrow> ('z names_scheme, tokenid) action" where
  "sym_primitive_token_from_id i = act (name_of i) (\<lambda>name. lift_result (primitive_token_of_name name))"

subsection \<open>Making types\<close>

definition catype_make_type_symname :: "int \<Rightarrow> tokenid \<Rightarrow> int \<Rightarrow> ('z types_scheme, addr) action" where
  "catype_make_type_symname name type sz =
     new_dt \<lparr>dt_type = type, formalname = name, dt_size = sz mod 2 ^ 64, signature = name,
       status = CADT_None, layout = Layout_None\<rparr>"

definition catype_make_type :: "string \<Rightarrow> tokenid \<Rightarrow> int \<Rightarrow> ('z types_scheme, addr) action" where
  "catype_make_type name type sz =
     act (intern name) (\<lambda>fname.
     act (new_dt \<lparr>dt_type = type, formalname = fname, dt_size = sz mod 2 ^ 64, signature = fname,
            status = CADT_Orig, layout = Layout_None\<rparr>) (\<lambda>p.
     act (catype_put_primitive_by_name fname p) (\<lambda>_. ret p)))"

text \<open>A pointer or array layout is copied, a struct layout shared, any other dropped.\<close>

definition catype_clone_thin :: "addr \<Rightarrow> ('z types_scheme, addr) action" where
  "catype_clone_thin p =
     act (dt_of p) (\<lambda>d.
       (case dt_type d of
          POINTER \<Rightarrow>
            (case layout d of
               Layout_Pointer t ndim _ \<Rightarrow> new_dt (d\<lparr>layout := Layout_Pointer t ndim PP_Stack\<rparr>)
             | _ \<Rightarrow> fail (Undefined ''no pointer layout''))
        | ARRAY \<Rightarrow>
            (case layout d of
               Layout_Array t ndim dims \<Rightarrow> new_dt (d\<lparr>layout := Layout_Array t ndim (take ndim dims)\<rparr>)
             | _ \<Rightarrow> fail (Undefined ''no array layout''))
        | STRUCT \<Rightarrow> new_dt d
        | SLICE \<Rightarrow> new_dt d
        | _ \<Rightarrow> new_dt (d\<lparr>layout := Layout_None\<rparr>)))"

definition form_datatype_signature :: "addr \<Rightarrow> char \<Rightarrow> nat \<Rightarrow> ('z types_scheme, int) action" where
  "form_datatype_signature p plus_ch len =
     act (dt_of p) (\<lambda>d.
     act (catype_get_type_name (signature d)) (\<lambda>name.
     act (if plus_ch = CHR ''*'' then lift_result (sprintf_into name_buffer (''t:*'' @ name))
          else if plus_ch = CHR ''['' then
            lift_result (sprintf_into name_buffer (''t:['' @ name @ '';'' @ nat_text len @ '']''))
          else if plus_ch = CHR ''c'' then
            lift_result (sprintf_into name_buffer (''t:<slice;;'' @ name @ '',i64>''))
          else fail (Exit ''bad signature input'')) intern))"

definition pointer_size :: nat where
  "pointer_size = 8"

definition catype_make_pointer_type :: "addr \<Rightarrow> ('z types_scheme, addr) action" where
  "catype_make_pointer_type p =
     act (form_datatype_signature p CHR ''*'' 0) (\<lambda>sig.
     act (catype_get_primitive_by_name sig) (\<lambda>found.
     (case found of
        Some t \<Rightarrow> ret t
      | None \<Rightarrow>
          act (dt_of p) (\<lambda>d.
          act (if dt_type d = POINTER
               then act (catype_clone_thin p) (\<lambda>t. act (dt_of t) (\<lambda>c.
                      act (put_dt t (c\<lparr>formalname := sig, signature := sig, status := CADT_Expand,
                             layout := Layout_Pointer p 1 PP_Stack\<rparr>)) (\<lambda>_. ret t)))
               else act (catype_make_type_symname sig POINTER (int pointer_size)) (\<lambda>t. act (dt_of t) (\<lambda>c.
                      act (put_dt t (c\<lparr>status := CADT_Expand, layout := Layout_Pointer p 1 PP_Stack\<rparr>))
                        (\<lambda>_. ret t))))
            (\<lambda>t. act (catype_put_primitive_by_name sig t) (\<lambda>_. ret t))))))"

text \<open>The compact form appends to \<open>dimarray\<close>, which has \<open>MAX_DIM\<close> slots of \<open>int\<close>.\<close>

definition MAX_DIM :: nat where
  "MAX_DIM = 16"

definition catype_make_array_type :: "addr \<Rightarrow> nat \<Rightarrow> bool \<Rightarrow> ('z types_scheme, addr) action" where
  "catype_make_array_type p len compacted =
     act (form_datatype_signature p CHR ''['' len) (\<lambda>sig.
     act (catype_get_primitive_by_name sig) (\<lambda>found.
     (case found of
        Some t \<Rightarrow> ret t
      | None \<Rightarrow>
          act (dt_of p) (\<lambda>d.
          act (if dt_type d = ARRAY
               then act (catype_clone_thin p) (\<lambda>t. act (dt_of t) (\<lambda>c.
                      (case layout c of
                         Layout_Array el ndim dims \<Rightarrow>
                           if compacted \<and> MAX_DIM \<le> ndim then fail (Undefined ''dimarray overrun'')
                           else act (put_dt t (c\<lparr>dt_size := (int len * dt_size d) mod 2 ^ 64, formalname := sig,
                                  signature := sig, status := CADT_Expand,
                                  layout := (if compacted
                                    then Layout_Array el (Suc ndim) (dims @ [i32_of_int (int len)])
                                    else Layout_Array p 1 [i32_of_int (int len)])\<rparr>)) (\<lambda>_. ret t)
                       | _ \<Rightarrow> fail (Undefined ''no array layout''))))
               else act (catype_make_type_symname sig ARRAY
                           (i32_of_int ((int len * dt_size d) mod 2 ^ 64))) (\<lambda>t. act (dt_of t) (\<lambda>c.
                      act (put_dt t (c\<lparr>status := CADT_Expand,
                             layout := Layout_Array p 1 [i32_of_int (int len)]\<rparr>)) (\<lambda>_. ret t))))
            (\<lambda>t. act (catype_put_primitive_by_name sig t) (\<lambda>_. ret t))))))"

definition catype_make_struct_type ::
  "int \<Rightarrow> int \<Rightarrow> CAStructType \<Rightarrow> nat \<Rightarrow> ('z types_scheme, addr) action" where
  "catype_make_struct_type nameid typesize struct_type init_capacity =
     act (new_cs \<lparr>cs_type = struct_type, cs_name = nameid, fieldnum = 0, capacity = init_capacity,
            fieldmaxalign = 1, cs_fields = replicate init_capacity None\<rparr>) (\<lambda>s.
     act (catype_make_type_symname nameid STRUCT typesize) (\<lambda>t. act (dt_of t) (\<lambda>c.
     act (put_dt t (c\<lparr>layout := Layout_Struct s\<rparr>)) (\<lambda>_. ret t))))"

text \<open>The array doubles when it is full; doubling an empty one leaves no room.\<close>

definition castruct_add_field :: "CAStructField \<Rightarrow> CAStruct \<Rightarrow> CAStruct result" where
  "castruct_add_field f s =
     (let (cap, fs) = (if capacity s \<le> fieldnum s
                       then (2 * capacity s, cs_fields s @ replicate (capacity s) None)
                       else (capacity s, cs_fields s))
      in if fieldnum s < length fs
         then Inr (s\<lparr>capacity := cap, cs_fields := fs[fieldnum s := Some f], fieldnum := Suc (fieldnum s)\<rparr>)
         else Inl (Undefined ''struct field index''))"

definition castruct_add_member :: "addr \<Rightarrow> int \<Rightarrow> addr \<Rightarrow> nat \<Rightarrow> ('z types_scheme, unit) action" where
  "castruct_add_member s name dt off =
     act (cs_of s) (\<lambda>cs.
     act (lift_result (castruct_add_field \<lparr>f_name = name, f_offset = off, f_type = dt\<rparr> cs)) (put_cs s))"

definition struct_layout_of :: "addr \<Rightarrow> ('z types_scheme, addr) action" where
  "struct_layout_of p =
     act (dt_of p) (\<lambda>d.
     (case layout d of Layout_Struct s \<Rightarrow> ret s | _ \<Rightarrow> fail (Undefined ''no struct layout'')))"

text \<open>\<open>catype_get_primitive_by_token\<close> may give null, which a field then holds.\<close>

definition non_null :: "addr option \<Rightarrow> ('z types_scheme, addr) action" where
  "non_null p = (case p of Some a \<Rightarrow> ret a | None \<Rightarrow> fail (Undefined ''null type''))"

definition slice_create_catype :: "addr \<Rightarrow> ('z types_scheme, addr) action" where
  "slice_create_catype item =
     act (catype_make_struct_type 0 (2 * int pointer_size) Struct_GeneralTuple 2) (\<lambda>t.
     act (struct_layout_of t) (\<lambda>s.
     act (catype_make_pointer_type item) (\<lambda>ip.
     act (castruct_add_member s 0 ip 0) (\<lambda>_.
     act (act (catype_get_primitive_by_token I64) non_null) (\<lambda>sz.
     act (castruct_add_member s 0 sz pointer_size) (\<lambda>_.
     act (form_datatype_signature ip CHR ''c'' 0) (\<lambda>sig.
     act (dt_of t) (\<lambda>d.
     act (put_dt t (d\<lparr>status := CADT_Expand, dt_type := SLICE, signature := sig\<rparr>)) (\<lambda>_. ret t)))))))))"

subsection \<open>The primitive types\<close>

definition make_primitive ::
  "string \<Rightarrow> tokenid \<Rightarrow> int \<Rightarrow> string option \<Rightarrow> ('z types_scheme, addr) action" where
  "make_primitive name tok sz alias =
     act (catype_make_type name tok sz) (\<lambda>datatype.
     (case alias of
        None \<Rightarrow> ret datatype
      | Some a \<Rightarrow> act (intern a) (\<lambda>i. act (catype_put_primitive_by_name i datatype) (\<lambda>_. ret datatype))))"

text \<open>\<open>datatype_void_ptr\<close> is assigned and not used: the pointer is made of the last \<open>datatype\<close>.\<close>

definition catype_init :: "('z types_scheme, unit) action" where
  "catype_init =
     act (make_primitive ''t:void'' VOID 0 None) (\<lambda>datatype_void_ptr.
     act (make_primitive ''t:i16'' I16 2 (Some ''t:short'')) (\<lambda>_.
     act (make_primitive ''t:i32'' I32 4 (Some ''t:int'')) (\<lambda>_.
     act (make_primitive ''t:i64'' I64 8 None) (\<lambda>_.
     act (make_primitive ''t:u16'' U16 2 (Some ''t:ushort'')) (\<lambda>_.
     act (make_primitive ''t:u32'' U32 4 (Some ''t:uint'')) (\<lambda>_.
     act (make_primitive ''t:u64'' U64 8 None) (\<lambda>_.
     act (make_primitive ''t:f32'' F32 4 (Some ''t:float'')) (\<lambda>_.
     act (make_primitive ''t:f64'' F64 8 (Some ''t:double'')) (\<lambda>_.
     act (make_primitive ''t:bool'' BOOL 1 None) (\<lambda>_.
     act (make_primitive ''t:i8'' I8 1 (Some ''t:char'')) (\<lambda>_.
     act (make_primitive ''t:u8'' U8 1 (Some ''t:uchar'')) (\<lambda>datatype.
     act (catype_make_pointer_type datatype) (\<lambda>p.
     modifies (\<lambda>w. w\<lparr>g_catype_void_ptr := Some p\<rparr>))))))))))))))"

text \<open>The recursion follows \<open>range\<close>; one unit of fuel for every type object is enough when it ends.\<close>

fun catype_is_complex_type :: "nat \<Rightarrow> addr \<Rightarrow> ('z types_scheme, bool) action" where
  "catype_is_complex_type 0 p = fail Out_of_fuel"
| "catype_is_complex_type (Suc n) p =
     act (dt_of p) (\<lambda>d.
     if dt_type d = RANGE then
       (case layout d of
          Layout_Range _ _ _ _ (Some r) \<Rightarrow> catype_is_complex_type n r
        | Layout_Range _ _ _ _ None \<Rightarrow> ret True
        | _ \<Rightarrow> fail (Undefined ''no range layout''))
     else ret (dt_type d = ARRAY \<or> dt_type d = SLICE \<or> dt_type d = STRUCT))"

definition catype_is_integer_range :: "addr \<Rightarrow> ('z types_scheme, bool) action" where
  "catype_is_integer_range p =
     act (dt_of p) (\<lambda>d.
     if dt_type d \<noteq> RANGE then ret False
     else (case layout d of
       Layout_Range kind _ s e _ \<Rightarrow>
         (case kind of
            FullRange \<Rightarrow> ret True
          | InclusiveRangeTo \<Rightarrow> act (non_null e) (\<lambda>q. act (dt_of q) (\<lambda>c. ret (catype_is_integer (dt_type c))))
          | RightExclusiveRangeTo \<Rightarrow> act (non_null e) (\<lambda>q. act (dt_of q) (\<lambda>c. ret (catype_is_integer (dt_type c))))
          | _ \<Rightarrow> act (non_null s) (\<lambda>q. act (dt_of q) (\<lambda>c. ret (catype_is_integer (dt_type c)))))
     | _ \<Rightarrow> fail (Undefined ''no range layout'')))"

definition catype_check_identical :: "addr \<Rightarrow> addr \<Rightarrow> ('z types_scheme, bool) action" where
  "catype_check_identical p q =
     act (dt_of p) (\<lambda>d. act (dt_of q) (\<lambda>e. ret (signature d = signature e)))"

subsection \<open>After initialisation\<close>

definition types_start :: types where
  "types_start = \<lparr>s_symname_buffer = [], s_symname_name2pos = Map.empty,
     sym_heap = [0 \<mapsto> sym_init None], sym_next = 1, curr_symtable = 0,
     dt_heap = Map.empty, dt_next = 0, cs_heap = Map.empty, cs_next = 0,
     s_type_map = Map.empty, s_symtable_type_map = Map.empty, g_catype_void_ptr = None\<rparr>"

definition types_init :: types where
  "types_init = (case catype_init types_start of Inr (_, w) \<Rightarrow> w | Inl _ \<Rightarrow> types_start)"

definition primitive_info :: "tokenid \<Rightarrow> 'z types_scheme \<Rightarrow> (tokenid \<times> int \<times> CADTStatus) option" where
  "primitive_info tok w =
     (case catype_get_primitive_by_token tok w of
        Inr (Some p, w') \<Rightarrow>
          (case get_dt p w' of Inr d \<Rightarrow> Some (dt_type d, dt_size d, status d) | Inl _ \<Rightarrow> None)
      | _ \<Rightarrow> None)"

text \<open>After \<open>catype_init\<close> the table has every primitive type under its token's name, with
  that token as its type and its size in bytes.\<close>

lemma primitives_registered:
  "map (\<lambda>tok. primitive_info tok types_init)
     [VOID, I16, I32, I64, U16, U32, U64, F32, F64, BOOL, I8, U8]
   = [Some (VOID, 0, CADT_Orig), Some (I16, 2, CADT_Orig), Some (I32, 4, CADT_Orig),
      Some (I64, 8, CADT_Orig), Some (U16, 2, CADT_Orig), Some (U32, 4, CADT_Orig),
      Some (U64, 8, CADT_Orig), Some (F32, 4, CADT_Orig), Some (F64, 8, CADT_Orig),
      Some (BOOL, 1, CADT_Orig), Some (I8, 1, CADT_Orig), Some (U8, 1, CADT_Orig)]"
  by code_simp

text \<open>The type the compiler keeps as "pointer to void" is a pointer to \<open>u8\<close>.\<close>

lemma void_pointer_is_u8:
  "(case g_catype_void_ptr types_init of
      Some p \<Rightarrow> (case get_dt p types_init of
        Inr d \<Rightarrow> (case layout d of
          Layout_Pointer q _ _ \<Rightarrow> (case get_dt q types_init of Inr e \<Rightarrow> Some (dt_type d, dt_type e) | Inl _ \<Rightarrow> None)
        | _ \<Rightarrow> None)
      | Inl _ \<Rightarrow> None)
    | None \<Rightarrow> None) = Some (POINTER, U8)"
  by code_simp

subsection \<open>The field array\<close>

definition struct_ok :: "CAStruct \<Rightarrow> bool" where
  "struct_ok s \<longleftrightarrow> 0 < capacity s \<and> fieldnum s \<le> capacity s \<and> capacity s = length (cs_fields s) \<and>
     (\<forall>f\<in>set (take (fieldnum s) (cs_fields s)). f \<noteq> None)"

definition struct_fields :: "CAStruct \<Rightarrow> CAStructField list" where
  "struct_fields s = map the (take (fieldnum s) (cs_fields s))"

lemma add_field_run:
  assumes "struct_ok s"
  shows "\<exists>s'. castruct_add_field f s = Inr s' \<and> struct_ok s' \<and> struct_fields s' = struct_fields s @ [f]"
proof -
  define fs where "fs = (if capacity s \<le> fieldnum s
      then cs_fields s @ replicate (capacity s) None else cs_fields s)"
  define cap where "cap = (if capacity s \<le> fieldnum s then 2 * capacity s else capacity s)"
  from assms have s: "0 < capacity s" "fieldnum s \<le> capacity s" "capacity s = length (cs_fields s)"
      "\<forall>f\<in>set (take (fieldnum s) (cs_fields s)). f \<noteq> None" unfolding struct_ok_def by blast+
  then have len: "fieldnum s < length fs" and cap: "cap = length fs"
    and pre: "take (fieldnum s) fs = take (fieldnum s) (cs_fields s)"
    by (auto simp: fs_def cap_def simp del: length_greater_0_conv)
  from len have t: "take (Suc (fieldnum s)) (fs[fieldnum s := Some f])
      = take (fieldnum s) (cs_fields s) @ [Some f]"
    by (simp add: take_Suc_conv_app_nth pre)
  have run: "castruct_add_field f s = Inr (s\<lparr>capacity := cap, cs_fields := fs[fieldnum s := Some f],
      fieldnum := Suc (fieldnum s)\<rparr>)"
    using len by (cases "capacity s \<le> fieldnum s") (simp_all add: castruct_add_field_def fs_def cap_def)
  show ?thesis
    unfolding run using s len cap t
    by (intro exI conjI, simp) (auto simp: struct_ok_def struct_fields_def)
qed

interpretation fields: growing_list struct_fields castruct_add_field struct_ok
  by unfold_locales (rule add_field_run)

lemma new_struct_ok:
  "0 < n \<Longrightarrow> struct_ok \<lparr>cs_type = ty, cs_name = nm, fieldnum = 0, capacity = n, fieldmaxalign = 1,
     cs_fields = replicate n None\<rparr>"
  by (simp add: struct_ok_def)

text \<open>A struct layout made with room for at least one field takes any number of fields: the
  array grows when it is full, no write leaves it, and the fields are the added ones in order.\<close>

lemma struct_fields_in_order:
  assumes "0 < init_capacity"
  shows "\<exists>s. fields.app_all fs \<lparr>cs_type = ty, cs_name = nm, fieldnum = 0, capacity = init_capacity,
      fieldmaxalign = 1, cs_fields = replicate init_capacity None\<rparr> = Inr s
    \<and> struct_fields s = fs \<and> fieldnum s = length fs \<and> length fs \<le> capacity s"
proof -
  let ?s = "\<lparr>cs_type = ty, cs_name = nm, fieldnum = 0, capacity = init_capacity,
      fieldmaxalign = 1, cs_fields = replicate init_capacity None\<rparr>"
  have e: "struct_fields ?s = []" by (simp add: struct_fields_def)
  from fields.app_all_run [OF new_struct_ok [OF assms], of fs ty nm] e obtain s where
    *: "fields.app_all fs ?s = Inr s" "struct_ok s" "struct_fields s = fs" by auto
  then have "length fs = fieldnum s" by (auto simp: struct_ok_def struct_fields_def)
  with * show ?thesis by (auto simp: struct_ok_def)
qed

lemma struct_fields_in_order_witness:
  "\<exists>s. fields.app_all [\<lparr>f_name = 1, f_offset = 0, f_type = 4\<rparr>, \<lparr>f_name = 2, f_offset = 0, f_type = 5\<rparr>]
      \<lparr>cs_type = Struct_NamedStruct, cs_name = 3, fieldnum = 0, capacity = 1, fieldmaxalign = 1,
       cs_fields = replicate 1 None\<rparr> = Inr s \<and> fieldnum s = 2"
  using struct_fields_in_order [of 1 "[\<lparr>f_name = 1, f_offset = 0, f_type = 4\<rparr>, \<lparr>f_name = 2, f_offset = 0, f_type = 5\<rparr>]"
      Struct_NamedStruct 3]
  by auto

subsection \<open>One object for every pointer type\<close>

lemma form_signature_run:
  assumes "get_dt p w = Inr d" "known_as w (signature d) ''t:'' name" "length name < 1021"
  shows "\<exists>i w'. form_datatype_signature p CHR ''*'' 0 w = Inr (i, w') \<and> known_as w' i ''t:'' (CHR ''*'' # name)
    \<and> dt_heap w' = dt_heap w \<and> s_type_map w' = s_type_map w \<and> dt_next w' = dt_next w
    \<and> (\<forall>q pre v. known_as w q pre v \<longrightarrow> known_as w' q pre v)"
proof -
  let ?s = "''t:'' @ CHR ''*'' # name"
  have ok: "names_ok w" using assms(2) by (simp add: known_as_def)
  have nf: "nul_free ?s" using known_as_nul_free [OF assms(2)] by (simp add: NUL_def)
  obtain i w' where "symname_check_insert ?s w = (i, w')" by (metis surj_pair)
  then have run: "intern ?s w = Inr (i, w')" by (simp add: intern_def)
  have form: "form_datatype_signature p CHR ''*'' 0 w = Inr (i, w')"
    using assms run get_type_name_known(1) [OF assms(2)]
    by (simp add: form_datatype_signature_def dt_of_def name_buffer_def)
  have "act (lift_result (sprintf_into name_buffer ?s)) intern w = Inr (i, w')"
    using run assms(3) by (simp add: name_buffer_def)
  from intern_known_as [OF ok nf _ this] have k: "known_as w' i ''t:'' (CHR ''*'' # name)"
    "\<And>q pre v. known_as w q pre v \<Longrightarrow> known_as w' q pre v" by auto
  have "dt_heap w' = dt_heap w \<and> s_type_map w' = s_type_map w \<and> dt_next w' = dt_next w"
    using run by (auto simp: intern_def symname_check_insert_def symname_insert_def Let_def split: option.splits)
  with form k show ?thesis by blast
qed

lemma form_signature_again:
  assumes "get_dt p w = Inr d" "known_as w (signature d) ''t:'' name" "length name < 1021"
    and "known_as w i ''t:'' (CHR ''*'' # name)"
  shows "form_datatype_signature p CHR ''*'' 0 w = Inr (i, w)"
proof -
  have "symname_check_insert (''t:'' @ CHR ''*'' # name) w = (i, w)"
    using known_as_interned [OF assms(4)] by (rule check_insert_interned)
  then show ?thesis
    using assms(1,3) get_type_name_known(1) [OF assms(2)]
    by (simp add: form_datatype_signature_def dt_of_def name_buffer_def intern_def)
qed

lemma clone_pointer:
  assumes "get_dt p w = Inr d" "dt_type d = POINTER" "layout d = Layout_Pointer q n ap"
  shows "catype_clone_thin p w = new_dt (d\<lparr>layout := Layout_Pointer q n PP_Stack\<rparr>) w"
  using assms by (simp add: catype_clone_thin_def dt_of_def)

text \<open>The object a pointer type gets.\<close>

definition pointer_object :: "addr \<Rightarrow> CADataType \<Rightarrow> int \<Rightarrow> CADataType" where
  "pointer_object p d sig =
     \<lparr>dt_type = POINTER, formalname = sig, dt_size = (if dt_type d = POINTER then dt_size d else int pointer_size),
      signature = sig, status = CADT_Expand, layout = Layout_Pointer p 1 PP_Stack\<rparr>"

lemma make_pointer_new:
  assumes "form_datatype_signature p CHR ''*'' 0 w = Inr (i, w1)" "s_type_map w1 i = None"
    and "get_dt p w1 = Inr d" "dt_type d = POINTER \<longrightarrow> (\<exists>q n ap. layout d = Layout_Pointer q n ap)"
  shows "\<exists>w2. catype_make_pointer_type p w = Inr (dt_next w1, w2) \<and> s_type_map w2 = (s_type_map w1)(i \<mapsto> dt_next w1)
    \<and> dt_heap w2 = (dt_heap w1)(dt_next w1 \<mapsto> pointer_object p d i)
    \<and> s_symname_buffer w2 = s_symname_buffer w1 \<and> s_symname_name2pos w2 = s_symname_name2pos w1"
proof (cases "dt_type d = POINTER")
  case True
  with assms(4) obtain q n ap where l: "layout d = Layout_Pointer q n ap" by blast
  have "d\<lparr>formalname := i, signature := i, status := CADT_Expand, layout := Layout_Pointer p 1 PP_Stack\<rparr>
      = pointer_object p d i"
    using True by (cases d) (simp add: pointer_object_def)
  then show ?thesis
    using assms True clone_pointer [OF assms(3) True l]
    by (simp add: catype_make_pointer_type_def act_def catype_get_primitive_by_name_def dt_of_def new_dt_def
        get_dt_def put_dt_def catype_put_primitive_by_name_def)
next
  case False
  then show ?thesis using assms
    by (simp add: catype_make_pointer_type_def act_def catype_get_primitive_by_name_def dt_of_def new_dt_def
        get_dt_def put_dt_def catype_put_primitive_by_name_def pointer_object_def catype_make_type_symname_def
        pointer_size_def)
qed

subsubsection \<open>The name table during all this\<close>

lemma names_ok_fields [simp]:
  "names_ok (w\<lparr>dt_heap := a\<rparr>) = names_ok w" "names_ok (w\<lparr>dt_next := b\<rparr>) = names_ok w"
  "names_ok (w\<lparr>cs_heap := c\<rparr>) = names_ok w" "names_ok (w\<lparr>cs_next := e\<rparr>) = names_ok w"
  "names_ok (w\<lparr>s_type_map := f\<rparr>) = names_ok w" "names_ok (w\<lparr>s_symtable_type_map := g\<rparr>) = names_ok w"
  "names_ok (w\<lparr>g_catype_void_ptr := h\<rparr>) = names_ok w"
  by (simp_all add: names_ok_def)

lemma keeps_names_primitives [keeps_intro]:
  "keeps names_ok (intern s)" "keeps names_ok (name_of i)" "keeps names_ok (catype_get_type_name i)"
  "keeps names_ok (dt_of p)" "keeps names_ok (cs_of p)" "keeps names_ok (put_dt p d)"
  "keeps names_ok (put_cs p s')" "keeps names_ok (new_dt d)" "keeps names_ok (new_cs s')"
  "keeps names_ok (catype_put_primitive_by_name i p)" "keeps names_ok (catype_get_primitive_by_name i)"
  by (auto simp: keeps_def intern_def names_ok_check_insert name_of_def catype_get_type_name_def
      lift_result_Inr_iff dt_of_def cs_of_def put_dt_def put_cs_def new_dt_def new_cs_def
      catype_put_primitive_by_name_def catype_get_primitive_by_name_def split: option.splits)
     (metis names_ok_check_insert snd_conv)

lemma keeps_names_clone [keeps_intro]: "keeps names_ok (catype_clone_thin p)"
  unfolding catype_clone_thin_def
  by (intro keeps_intro) (auto split: tokenid.split CALayout.split intro: keeps_intro)

lemma keeps_names_make [keeps_intro]:
  "keeps names_ok (form_datatype_signature p ch n)" "keeps names_ok (catype_make_type_symname i tok sz)"
  "keeps names_ok (catype_make_type s tok sz)" "keeps names_ok (catype_make_pointer_type p)"
  "keeps names_ok (make_primitive s tok sz al)"
  unfolding form_datatype_signature_def catype_make_type_symname_def catype_make_type_def
    catype_make_pointer_type_def make_primitive_def
  by (intro keeps_intro; simp)+

lemma types_init_ok: "names_ok types_init"
proof -
  have "keeps names_ok (catype_init :: (types, unit) action)"
    unfolding catype_init_def by (intro keeps_intro keeps_modifies) simp
  moreover have "names_ok types_start"
    by (simp add: types_start_def names_ok_def)
  ultimately show ?thesis
    unfolding types_init_def by (auto split: sum.split dest: keepsD)
qed

text \<open>Claim C28: pointer types are shared. Making the pointer type of a type whose pointer type is not
  in the table yet gives a new \<open>POINTER\<close> object of pointer size that points to the type, under
  the id of \<open>*name\<close>; making it again gives the same object and changes nothing, so pointer
  types are equal exactly when their objects are.\<close>

theorem pointer_types_shared:
  assumes "get_dt p w = Inr d" "known_as w (signature d) ''t:'' name" "length name < 1021"
    and "dt_type d = POINTER \<longrightarrow> (\<exists>q n ap. layout d = Layout_Pointer q n ap) \<and> dt_size d = int pointer_size"
    and "dt_next w \<noteq> p" "\<And>i w1. form_datatype_signature p CHR ''*'' 0 w = Inr (i, w1) \<Longrightarrow> s_type_map w i = None"
  shows "\<exists>t i w2. catype_make_pointer_type p w = Inr (t, w2) \<and> known_as w2 i ''t:'' (CHR ''*'' # name)
    \<and> get_dt t w2 = Inr \<lparr>dt_type = POINTER, formalname = i, dt_size = int pointer_size, signature = i,
        status = CADT_Expand, layout = Layout_Pointer p 1 PP_Stack\<rparr>
    \<and> (\<forall>a. a \<noteq> t \<longrightarrow> dt_heap w2 a = dt_heap w a)
    \<and> catype_make_pointer_type p w2 = Inr (t, w2)"
proof -
  from form_signature_run [OF assms(1,2,3)] obtain i w1 where
    f: "form_datatype_signature p CHR ''*'' 0 w = Inr (i, w1)" "known_as w1 i ''t:'' (CHR ''*'' # name)"
      "dt_heap w1 = dt_heap w" "s_type_map w1 = s_type_map w" "dt_next w1 = dt_next w"
      "\<forall>q pre v. known_as w q pre v \<longrightarrow> known_as w1 q pre v" by blast
  have free: "s_type_map w1 i = None" using assms(6) [OF f(1)] f(4) by simp
  have d1: "get_dt p w1 = Inr d" using assms(1) f(3) by (simp add: get_dt_def)
  have "dt_type d = POINTER \<longrightarrow> (\<exists>q n ap. layout d = Layout_Pointer q n ap)" using assms(4) by blast
  from make_pointer_new [OF f(1) free d1 this] obtain w2 where
    m: "catype_make_pointer_type p w = Inr (dt_next w1, w2)" "s_type_map w2 = (s_type_map w1)(i \<mapsto> dt_next w1)"
      "dt_heap w2 = (dt_heap w1)(dt_next w1 \<mapsto> pointer_object p d i)"
      "s_symname_buffer w2 = s_symname_buffer w1" "s_symname_name2pos w2 = s_symname_name2pos w1" by blast
  have keep: "known_as w1 q pre v \<Longrightarrow> known_as w2 q pre v" for q pre v
    using m(4,5) by (simp add: known_as_def interned_def names_ok_def)
  have k: "known_as w2 i ''t:'' (CHR ''*'' # name)" "known_as w2 (signature d) ''t:'' name"
    using keep f(2,6) assms(2) by blast+
  have obj: "pointer_object p d i = \<lparr>dt_type = POINTER, formalname = i, dt_size = int pointer_size, signature = i,
      status = CADT_Expand, layout = Layout_Pointer p 1 PP_Stack\<rparr>"
    using assms(4) by (simp add: pointer_object_def)
  have d2: "get_dt p w2 = Inr d" using d1 m(3) f(5) assms(5) by (simp add: get_dt_def)
  have "catype_make_pointer_type p w2 = Inr (dt_next w1, w2)"
    using form_signature_again [OF d2 k(2) assms(3) k(1)] m(2)
    by (simp add: catype_make_pointer_type_def catype_get_primitive_by_name_def)
  with m(1,3) k(1) f(3) show ?thesis
    by (intro exI [of _ "dt_next w1"] exI [of _ i] exI [of _ w2]) (simp add: get_dt_def obj)
qed

theorem pointer_types_shared_witness:
  "\<exists>t w2. catype_make_pointer_type 1 types_init = Inr (t, w2) \<and> catype_make_pointer_type 1 w2 = Inr (t, w2)"
proof -
  let ?d = "\<lparr>dt_type = I16, formalname = 7, dt_size = 2, signature = 7, status = CADT_Orig, layout = Layout_None\<rparr>"
  have d: "get_dt 1 types_init = Inr ?d" by code_simp
  have "s_symname_name2pos types_init ''t:i16'' = Some 7" by code_simp
  then have k: "known_as types_init (signature ?d) ''t:'' ''i16''"
    using types_init_ok by (simp add: known_as_def interned_def NUL_def)
  have n: "dt_next types_init \<noteq> 1" by code_simp
  have "(case form_datatype_signature 1 CHR ''*'' 0 types_init of
      Inr (i, w1) \<Rightarrow> s_type_map types_init i = None | Inl _ \<Rightarrow> True)" by code_simp
  then have f: "\<And>i w1. form_datatype_signature 1 CHR ''*'' 0 types_init = Inr (i, w1) \<Longrightarrow> s_type_map types_init i = None"
    by simp
  have t: "dt_type ?d = POINTER \<longrightarrow> (\<exists>q n ap. layout ?d = Layout_Pointer q n ap) \<and> dt_size ?d = int pointer_size"
    by simp
  have l: "length ''i16'' < 1021" by simp
  show ?thesis using pointer_types_shared [OF d k l t n] f by metis
qed

end
