(* ===== verification/Layout.thy ===== *)
theory Layout
  imports Catype
begin

section \<open>Memory layout of types (\<open>type_system.cpp\<close>)\<close>

text \<open>
  \<open>catype_formalize_type_layout\<close> walks a type object and fills in the offset of every struct
  field, the alignment of every struct, and the sizes of structs and arrays. \<open>rcheck\<close> holds the
  objects on the way down, which ends the walk of a recursive type.
\<close>

text \<open>The walk down arrays ends at any other type; \<open>int align = type->size\<close> narrows the size.\<close>

fun catype_get_field_align :: "nat \<Rightarrow> addr \<Rightarrow> 'z types_scheme \<Rightarrow> int result" where
  "catype_get_field_align 0 p w = Inl Out_of_fuel"
| "catype_get_field_align (Suc n) p w =
     bind_result (get_dt p w) (\<lambda>d.
       if dt_type d = POINTER then Inr (int pointer_size)
       else if dt_type d = ARRAY then
         (case layout d of
            Layout_Array el _ _ \<Rightarrow> catype_get_field_align n el w
          | _ \<Rightarrow> Inl (Undefined ''no array layout''))
       else if dt_type d = SLICE \<or> dt_type d = STRUCT then
         (case layout d of
            Layout_Struct c \<Rightarrow> bind_result (get_cs c w) (\<lambda>cs. Inr (fieldmaxalign cs))
          | _ \<Rightarrow> Inl (Undefined ''no struct layout''))
       else Inr (i32_of_int (dt_size d)))"

text \<open>\<open>offset % align\<close> with \<open>align\<close> converted to \<open>size_t\<close>; a zero alignment divides by zero.\<close>

definition align_up :: "nat \<Rightarrow> int \<Rightarrow> nat result" where
  "align_up offset align =
     (let a = u64_of_int align
      in if a = 0 then Inl (Undefined ''division by zero'')
         else Inr (if offset mod a \<noteq> 0 then u64 (offset + (a - offset mod a)) else offset))"

definition field_at :: "addr \<Rightarrow> nat \<Rightarrow> 'z types_scheme \<Rightarrow> CAStructField result" where
  "field_at c i w =
     bind_result (get_cs c w) (\<lambda>cs.
       if i < length (cs_fields cs)
       then (case cs_fields cs ! i of Some f \<Rightarrow> Inr f | None \<Rightarrow> Inl (Undefined ''uninitialised field''))
       else Inl (Undefined ''struct field index''))"

definition set_field_offset :: "addr \<Rightarrow> nat \<Rightarrow> nat \<Rightarrow> ('z types_scheme, unit) action" where
  "set_field_offset c i off =
     act (cs_of c) (\<lambda>cs. act (\<lambda>w. lift_result (field_at c i w) w) (\<lambda>f.
       put_cs c (cs\<lparr>cs_fields := (cs_fields cs)[i := Some (f\<lparr>f_offset := off\<rparr>)]\<rparr>)))"

definition set_dt_size :: "addr \<Rightarrow> nat \<Rightarrow> ('z types_scheme, unit) action" where
  "set_dt_size p n = act (dt_of p) (\<lambda>d. put_dt p (d\<lparr>dt_size := int n\<rparr>))"

text \<open>
  The loop over the fields \<open>i, i + 1, ...\<close> (\<open>k\<close> of them) of the layout \<open>c\<close>; \<open>rec\<close> is the walk of a
  field's type, \<open>fuel\<close> bounds the alignment query.
\<close>

fun layout_fields ::
  "(addr \<Rightarrow> addr list \<Rightarrow> ('z types_scheme, unit) action) \<Rightarrow> nat \<Rightarrow> addr \<Rightarrow> addr list \<Rightarrow>
   nat \<Rightarrow> nat \<Rightarrow> nat \<Rightarrow> int \<Rightarrow> ('z types_scheme, nat \<times> int) action" where
  "layout_fields rec fuel c rcheck i 0 offset maxalign = ret (offset, maxalign)"
| "layout_fields rec fuel c rcheck i (Suc k) offset maxalign =
     act (\<lambda>w. lift_result (field_at c i w) w) (\<lambda>f.
     if f_type f \<in> set rcheck then layout_fields rec fuel c rcheck (Suc i) k offset maxalign
     else
       act (rec (f_type f) (f_type f # rcheck)) (\<lambda>_.
       act (\<lambda>w. lift_result (catype_get_field_align fuel (f_type f) w) w) (\<lambda>align.
       act (lift_result (align_up offset align)) (\<lambda>off.
       act (set_field_offset c i off) (\<lambda>_.
       act (dt_of (f_type f)) (\<lambda>ft.
       layout_fields rec fuel c rcheck (Suc i) k (u64 (off + nat (dt_size ft))) (max maxalign align)))))))"

fun catype_formalize_type_layout :: "nat \<Rightarrow> addr \<Rightarrow> addr list \<Rightarrow> ('z types_scheme, unit) action" where
  "catype_formalize_type_layout 0 p rcheck = fail Out_of_fuel"
| "catype_formalize_type_layout (Suc n) p rcheck =
     act (dt_of p) (\<lambda>d.
     if dt_type d = POINTER then
       (case layout d of
          Layout_Pointer t _ _ \<Rightarrow> catype_formalize_type_layout n t rcheck
        | _ \<Rightarrow> fail (Undefined ''no pointer layout''))
     else if dt_type d = ARRAY then
       (case layout d of
          Layout_Array t _ (dim0 # _) \<Rightarrow>
            act (catype_formalize_type_layout n t rcheck) (\<lambda>_.
            act (dt_of t) (\<lambda>e. set_dt_size p (u64 (u64_of_int dim0 * nat (dt_size e)))))
        | _ \<Rightarrow> fail (Undefined ''no array layout''))
     else if dt_type d = STRUCT then
       (case layout d of
          Layout_Struct c \<Rightarrow>
            act (cs_of c) (\<lambda>cs.
            act (layout_fields (catype_formalize_type_layout n) n c rcheck 0 (fieldnum cs) 0 1) (\<lambda>(offset, maxalign).
            act (cs_of c) (\<lambda>cs'.
            act (put_cs c (cs'\<lparr>fieldmaxalign := maxalign\<rparr>)) (\<lambda>_.
            act (lift_result (align_up offset maxalign)) (set_dt_size p)))))
        | _ \<Rightarrow> fail (Undefined ''no struct layout''))
     else ret ())"

definition catype_formalize_layout :: "nat \<Rightarrow> addr \<Rightarrow> ('z types_scheme, unit) action" where
  "catype_formalize_layout fuel p = catype_formalize_type_layout fuel p [p]"

subsection \<open>The layout a type should have\<close>

text \<open>
  The specification is the C layout of a type without recursion: \<open>pad\<close> rounds an offset up to
  an alignment, \<open>al\<close> and \<open>sz\<close> are the alignment and size of a type, \<open>offs\<close> the offsets of the
  fields of a struct and \<open>end_off\<close> the end of the last one.
\<close>

datatype shape = Prim nat | Ptr shape | Arr nat shape | Str "shape list"

primrec maxl :: "nat list \<Rightarrow> nat" where
  "maxl [] = 0"
| "maxl (x # xs) = max x (maxl xs)"

lemma maxl_upper: "x \<in> set xs \<Longrightarrow> x \<le> maxl xs"
  by (induction xs) (auto simp: max_def)

lemma maxl_le: "(\<And>x. x \<in> set xs \<Longrightarrow> x \<le> n) \<Longrightarrow> maxl xs \<le> n"
  by (induction xs) auto

lemma maxl_append [simp]: "maxl (xs @ ys) = max (maxl xs) (maxl ys)"
  by (induction xs) auto

fun depth :: "shape \<Rightarrow> nat" where
  "depth (Prim n) = 1"
| "depth (Ptr s) = Suc (depth s)"
| "depth (Arr n s) = Suc (depth s)"
| "depth (Str ss) = Suc (maxl (map depth ss))"

lemma depth_field: "s \<in> set ss \<Longrightarrow> depth s < depth (Str ss)"
  by (auto intro!: le_imp_less_Suc maxl_upper)

fun al :: "shape \<Rightarrow> nat" where
  "al (Prim n) = n"
| "al (Ptr s) = pointer_size"
| "al (Arr n s) = al s"
| "al (Str ss) = max 1 (maxl (map al ss))"

definition pad :: "nat \<Rightarrow> nat \<Rightarrow> nat" where
  "pad off a = (if off mod a \<noteq> 0 then off + (a - off mod a) else off)"

fun sz :: "shape \<Rightarrow> nat" and end_off :: "nat \<Rightarrow> shape list \<Rightarrow> nat" where
  "sz (Prim n) = n"
| "sz (Ptr s) = pointer_size"
| "sz (Arr n s) = n * sz s"
| "sz (Str ss) = pad (end_off 0 ss) (al (Str ss))"
| "end_off off [] = off"
| "end_off off (s # ss) = end_off (pad off (al s) + sz s) ss"

fun offs :: "nat \<Rightarrow> shape list \<Rightarrow> nat list" where
  "offs off [] = []"
| "offs off (s # ss) = pad off (al s) # offs (pad off (al s) + sz s) ss"

fun fits :: "shape \<Rightarrow> bool" where
  "fits (Prim n) \<longleftrightarrow> 0 < n \<and> n \<le> 8"
| "fits (Ptr s) \<longleftrightarrow> fits s"
| "fits (Arr n s) \<longleftrightarrow> fits s \<and> n < 2 ^ 31 \<and> n * sz s < 2 ^ 64"
| "fits (Str ss) \<longleftrightarrow> (\<forall>s\<in>set ss. fits s) \<and> sz (Str ss) < 2 ^ 64"

lemma pad_ge: "off \<le> pad off a"
  by (simp add: pad_def)

lemma pad_dvd: "0 < a \<Longrightarrow> pad off a mod a = 0"
proof -
  assume "0 < a"
  have "off + (a - off mod a) = a * (off div a) + a"
    using mult_div_mod_eq [of a off] mod_less_divisor [OF \<open>0 < a\<close>, of off] by linarith
  then show ?thesis by (simp add: pad_def)
qed

lemma al_range: "fits s \<Longrightarrow> 0 < al s \<and> al s \<le> 8"
proof (induction s)
  case (Str ss)
  then have "\<forall>s\<in>set ss. al s \<le> 8" by auto
  then have "maxl (map al ss) \<le> 8" by (intro maxl_le) auto
  then show ?case by simp
qed (simp_all add: pointer_size_def)

lemma end_off_ge: "off \<le> end_off off ss"
proof (induction ss arbitrary: off)
  case (Cons s ss)
  show ?case using pad_ge [of off "al s"] Cons [of "pad off (al s) + sz s"] by simp
qed simp

lemma end_off_append: "end_off off (xs @ ys) = end_off (end_off off xs) ys"
  by (induction xs arbitrary: off) simp_all

lemma offs_append: "offs off (xs @ ys) = offs off xs @ offs (end_off off xs) ys"
  by (induction xs arbitrary: off) simp_all

lemma length_offs [simp]: "length (offs off ss) = length ss"
  by (induction ss arbitrary: off) simp_all

lemma offs_nth: "offs 0 (pre @ s # post) ! length pre = pad (end_off 0 pre) (al s)"
  by (simp add: offs_append nth_append)

text \<open>What the offsets promise: every field aligned, after the one before it, within the struct.\<close>

lemma offs_aligned:
  assumes "i < length ss" "fits (Str ss)"
  shows "offs 0 ss ! i mod al (ss ! i) = 0"
proof -
  from assms(1) have "ss = take i ss @ ss ! i # drop (Suc i) ss" by (simp add: id_take_nth_drop)
  then have "offs 0 ss ! i = pad (end_off 0 (take i ss)) (al (ss ! i))"
    using offs_nth [of "take i ss" "ss ! i" "drop (Suc i) ss"] assms(1) by simp
  moreover have "0 < al (ss ! i)" using assms al_range by auto
  ultimately show ?thesis by (simp add: pad_dvd)
qed

lemma offs_disjoint:
  assumes "i < length ss"
  shows "offs 0 ss ! i + sz (ss ! i) \<le> (if Suc i < length ss then offs 0 ss ! Suc i else sz (Str ss))"
proof -
  from assms have ss: "ss = take i ss @ ss ! i # drop (Suc i) ss" by (simp add: id_take_nth_drop)
  have o: "offs 0 ss ! i = pad (end_off 0 (take i ss)) (al (ss ! i))"
    using offs_nth [of "take i ss" "ss ! i" "drop (Suc i) ss"] assms ss by simp
  have e: "end_off 0 (take (Suc i) ss) = offs 0 ss ! i + sz (ss ! i)"
    unfolding take_Suc_conv_app_nth [OF assms] end_off_append by (simp add: o)
  show ?thesis
  proof (cases "Suc i < length ss")
    case True
    then have "ss = take (Suc i) ss @ ss ! Suc i # drop (Suc (Suc i)) ss" by (simp add: id_take_nth_drop)
    then have "offs 0 ss ! Suc i = pad (end_off 0 (take (Suc i) ss)) (al (ss ! Suc i))"
      using offs_nth [of "take (Suc i) ss" "ss ! Suc i" "drop (Suc (Suc i)) ss"] True by simp
    then show ?thesis
      using True e pad_ge [of "end_off 0 (take (Suc i) ss)" "al (ss ! Suc i)"] by simp
  next
    case False
    with assms have "take (Suc i) ss = ss" by simp
    then show ?thesis using False e pad_ge [of "end_off 0 ss" "al (Str ss)"] by simp
  qed
qed

subsection \<open>Type objects of a shape\<close>

lemma shape_size_nth [termination_simp]:
  "i < length (ss :: shape list) \<Longrightarrow> size (ss ! i) < Suc (size_list size ss)"
  using size_list_estimation' [of "ss ! i" ss "size (ss ! i)" size] by simp

fun rep :: "shape \<Rightarrow> addr \<Rightarrow> 'z types_scheme \<Rightarrow> bool" where
  "rep (Prim n) p w \<longleftrightarrow>
     (\<exists>d. dt_heap w p = Some d \<and> dt_type d \<notin> {POINTER, ARRAY, STRUCT, SLICE} \<and> dt_size d = int n)"
| "rep (Ptr s) p w \<longleftrightarrow>
     (\<exists>d t k ap. dt_heap w p = Some d \<and> dt_type d = POINTER \<and> dt_size d = int pointer_size \<and>
        layout d = Layout_Pointer t k ap \<and> rep s t w)"
| "rep (Arr n s) p w \<longleftrightarrow>
     (\<exists>d t k ds. dt_heap w p = Some d \<and> dt_type d = ARRAY \<and> layout d = Layout_Array t k (int n # ds) \<and> rep s t w)"
| "rep (Str ss) p w \<longleftrightarrow>
     (\<exists>d c cs. dt_heap w p = Some d \<and> dt_type d = STRUCT \<and> layout d = Layout_Struct c \<and>
        cs_heap w c = Some cs \<and> fieldnum cs = length ss \<and> length ss \<le> length (cs_fields cs) \<and>
        (\<forall>i<length ss. \<exists>f. cs_fields cs ! i = Some f \<and> rep (ss ! i) (f_type f) w))"

text \<open>The walk changes only sizes of arrays and structs, alignments and offsets.\<close>

definition dt_skel :: "CADataType \<Rightarrow> tokenid \<times> CALayout \<times> int" where
  "dt_skel d = (dt_type d, layout d, if dt_type d = ARRAY \<or> dt_type d = STRUCT then 0 else dt_size d)"

definition cs_skel :: "CAStruct \<Rightarrow> nat \<times> addr option list" where
  "cs_skel c = (fieldnum c, map (map_option f_type) (cs_fields c))"

definition same_skel :: "'z types_scheme \<Rightarrow> 'z types_scheme \<Rightarrow> bool" where
  "same_skel w w' \<longleftrightarrow>
     (\<forall>p. map_option dt_skel (dt_heap w' p) = map_option dt_skel (dt_heap w p)) \<and>
     (\<forall>c. map_option cs_skel (cs_heap w' c) = map_option cs_skel (cs_heap w c))"

lemma same_skel_dt:
  "same_skel w w' \<Longrightarrow> dt_heap w p = Some d \<Longrightarrow>
   \<exists>d'. dt_heap w' p = Some d' \<and> dt_type d' = dt_type d \<and> layout d' = layout d \<and>
     (dt_type d = ARRAY \<or> dt_type d = STRUCT \<or> dt_size d' = dt_size d)"
proof -
  assume "same_skel w w'" "dt_heap w p = Some d"
  then have "map_option dt_skel (dt_heap w' p) = Some (dt_skel d)" by (simp add: same_skel_def)
  then show ?thesis by (cases "dt_heap w' p") (auto simp: dt_skel_def split: if_splits)
qed

lemma same_skel_cs:
  "same_skel w w' \<Longrightarrow> cs_heap w c = Some cs \<Longrightarrow>
   \<exists>cs'. cs_heap w' c = Some cs' \<and> fieldnum cs' = fieldnum cs \<and> length (cs_fields cs') = length (cs_fields cs) \<and>
     (\<forall>i f. i < length (cs_fields cs) \<longrightarrow> cs_fields cs ! i = Some f \<longrightarrow>
        (\<exists>f'. cs_fields cs' ! i = Some f' \<and> f_type f' = f_type f))"
proof -
  assume "same_skel w w'" "cs_heap w c = Some cs"
  then have "map_option cs_skel (cs_heap w' c) = Some (cs_skel cs)" by (simp add: same_skel_def)
  then obtain cs' where cs': "cs_heap w' c = Some cs'" "cs_skel cs' = cs_skel cs"
    by (cases "cs_heap w' c") auto
  then have m: "map (map_option f_type) (cs_fields cs') = map (map_option f_type) (cs_fields cs)"
      and n: "fieldnum cs' = fieldnum cs" by (simp_all add: cs_skel_def)
  from m have len: "length (cs_fields cs') = length (cs_fields cs)" by (rule map_eq_imp_length_eq)
  have "\<exists>f'. cs_fields cs' ! i = Some f' \<and> f_type f' = f_type f"
    if "i < length (cs_fields cs)" "cs_fields cs ! i = Some f" for i f
  proof -
    from m that len have "map_option f_type (cs_fields cs' ! i) = Some (f_type f)"
      by (metis nth_map option.simps(9))
    then show ?thesis by auto
  qed
  with cs'(1) n len show ?thesis by blast
qed

lemma same_skel_refl [simp]: "same_skel w w"
  by (simp add: same_skel_def)

lemma same_skel_sym: "same_skel w w' \<Longrightarrow> same_skel w' w"
  by (simp add: same_skel_def)

lemma same_skel_trans: "same_skel a b \<Longrightarrow> same_skel b c \<Longrightarrow> same_skel a c"
  by (simp add: same_skel_def)

lemma rep_same_skel: "same_skel w w' \<Longrightarrow> rep s p w \<Longrightarrow> rep s p w'"
proof (induction s arbitrary: p)
  case (Prim n)
  then show ?case using same_skel_dt [OF Prim.prems(1)] by fastforce
next
  case (Ptr s)
  then show ?case using same_skel_dt [OF Ptr.prems(1)] by fastforce
next
  case (Arr n s)
  then show ?case using same_skel_dt [OF Arr.prems(1)] by fastforce
next
  case (Str ss)
  from Str.prems(2) obtain d c cs where
    d: "dt_heap w p = Some d" "dt_type d = STRUCT" "layout d = Layout_Struct c"
      "cs_heap w c = Some cs" "fieldnum cs = length ss" "length ss \<le> length (cs_fields cs)"
      "\<forall>i<length ss. \<exists>f. cs_fields cs ! i = Some f \<and> rep (ss ! i) (f_type f) w" by auto
  from same_skel_dt [OF Str.prems(1) d(1)] d obtain d' where
    d': "dt_heap w' p = Some d'" "dt_type d' = STRUCT" "layout d' = Layout_Struct c" by auto
  from same_skel_cs [OF Str.prems(1) d(4)] obtain cs' where
    cs': "cs_heap w' c = Some cs'" "fieldnum cs' = fieldnum cs" "length (cs_fields cs') = length (cs_fields cs)"
      "\<And>i f. i < length (cs_fields cs) \<Longrightarrow> cs_fields cs ! i = Some f \<Longrightarrow>
        \<exists>f'. cs_fields cs' ! i = Some f' \<and> f_type f' = f_type f" by blast
  have "\<exists>f. cs_fields cs' ! i = Some f \<and> rep (ss ! i) (f_type f) w'" if "i < length ss" for i
  proof -
    from d(7) that obtain f where f: "cs_fields cs ! i = Some f" "rep (ss ! i) (f_type f) w" by blast
    with cs'(4) [of i f] that d(6) obtain f' where "cs_fields cs' ! i = Some f'" "f_type f' = f_type f" by auto
    with Str.IH [OF nth_mem [OF that] Str.prems(1) f(2)] show ?thesis by auto
  qed
  with d' cs' d(5,6) show ?case by auto
qed

lemma rep_unique: "rep s p w \<Longrightarrow> rep t p w \<Longrightarrow> s = t"
proof (induction s arbitrary: p t)
  case (Str ss)
  from Str.prems obtain ts where t: "t = Str ts" by (cases t) auto
  from Str.prems t have len: "length ss = length ts" by auto
  have "ss ! i = ts ! i" if "i < length ss" for i
  proof -
    from Str.prems(1) obtain d c cs where d: "dt_heap w p = Some d" "layout d = Layout_Struct c"
        "cs_heap w c = Some cs" "\<forall>i<length ss. \<exists>f. cs_fields cs ! i = Some f \<and> rep (ss ! i) (f_type f) w"
      by auto
    from d(4) that obtain f where f: "cs_fields cs ! i = Some f" "rep (ss ! i) (f_type f) w" by blast
    from Str.prems(2) d(1,2,3) have "\<forall>i<length ts. \<exists>f. cs_fields cs ! i = Some f \<and> rep (ts ! i) (f_type f) w"
      unfolding t by auto
    with that len f(1) have "rep (ts ! i) (f_type f) w" by auto
    with Str.IH [OF nth_mem [OF that] f(2)] show ?thesis .
  qed
  with len t show ?case by (simp add: list_eq_iff_nth_eq)
next
  case (Ptr s)
  then show ?case by (cases t) auto
next
  case (Arr n s)
  then show ?case by (cases t) auto
next
  case (Prim n)
  then show ?case by (cases t) auto
qed

declare rep.simps(4) [simp del] al.simps(4) [simp del] sz.simps(4) [simp del]

subsection \<open>Computed facts are never undone\<close>

text \<open>A fact is the size of an object, the alignment of a layout or the offset of a field; \<open>right w F\<close>
  says that \<open>F\<close> is what the specification asks of the objects of \<open>w\<close>.\<close>

datatype fact = Size_Is addr nat | Align_Is addr nat | Off_Is addr nat nat

fun holds :: "fact \<Rightarrow> 'z types_scheme \<Rightarrow> bool" where
  "holds (Size_Is p n) w \<longleftrightarrow> (\<exists>d. dt_heap w p = Some d \<and> dt_size d = int n)"
| "holds (Align_Is c n) w \<longleftrightarrow> (\<exists>cs. cs_heap w c = Some cs \<and> fieldmaxalign cs = int n)"
| "holds (Off_Is c i n) w \<longleftrightarrow>
     (\<exists>cs f. cs_heap w c = Some cs \<and> cs_fields cs ! i = Some f \<and> f_offset f = n)"

definition layout_at :: "addr \<Rightarrow> 'z types_scheme \<Rightarrow> CALayout option" where
  "layout_at p w = map_option layout (dt_heap w p)"

fun right :: "'z types_scheme \<Rightarrow> fact \<Rightarrow> bool" where
  "right w (Size_Is p n) \<longleftrightarrow> (\<exists>s. rep s p w \<and> n = sz s)"
| "right w (Align_Is c n) \<longleftrightarrow>
     (\<exists>ss p. rep (Str ss) p w \<and> layout_at p w = Some (Layout_Struct c) \<and> n = al (Str ss))"
| "right w (Off_Is c i n) \<longleftrightarrow>
     (\<exists>ss p. rep (Str ss) p w \<and> layout_at p w = Some (Layout_Struct c) \<and> i < length ss \<and> n = offs 0 ss ! i)"

definition ext :: "'z types_scheme \<Rightarrow> 'z types_scheme \<Rightarrow> bool" where
  "ext w w' \<longleftrightarrow> same_skel w w' \<and> (\<forall>F. right w F \<longrightarrow> holds F w \<longrightarrow> holds F w')"

lemma rep_iff: "same_skel w w' \<Longrightarrow> rep s p w' = rep s p w"
  using rep_same_skel same_skel_sym by blast

lemma layout_at_iff: "same_skel w w' \<Longrightarrow> layout_at p w' = layout_at p w"
proof -
  assume "same_skel w w'"
  then have "map_option dt_skel (dt_heap w' p) = map_option dt_skel (dt_heap w p)" by (simp add: same_skel_def)
  then have "map_option (fst \<circ> snd \<circ> dt_skel) (dt_heap w' p) = map_option (fst \<circ> snd \<circ> dt_skel) (dt_heap w p)"
    by (metis option.map_comp)
  then show ?thesis by (simp add: layout_at_def dt_skel_def comp_def)
qed

lemma right_iff: "same_skel w w' \<Longrightarrow> right w' F = right w F"
  by (cases F) (simp_all add: rep_iff layout_at_iff)

lemma ext_refl [simp]: "ext w w"
  by (simp add: ext_def)

lemma ext_trans: "ext a b \<Longrightarrow> ext b c \<Longrightarrow> ext a c"
  unfolding ext_def using same_skel_trans right_iff by blast

lemma ext_skel: "ext w w' \<Longrightarrow> same_skel w w'"
  by (simp add: ext_def)

lemma ext_rep: "ext w w' \<Longrightarrow> rep s p w' = rep s p w"
  by (rule rep_iff) (rule ext_skel)

lemma struct_of:
  assumes "rep (Str ss) p w" "layout_at p w = Some (Layout_Struct c)"
  obtains d cs where "dt_heap w p = Some d" "dt_type d = STRUCT" "layout d = Layout_Struct c"
    "cs_heap w c = Some cs" "fieldnum cs = length ss" "length ss \<le> length (cs_fields cs)"
    "\<And>i. i < length ss \<Longrightarrow> \<exists>f. cs_fields cs ! i = Some f \<and> rep (ss ! i) (f_type f) w"
  using assms by (auto simp: layout_at_def rep.simps(4))

lemma rep_StrI:
  "dt_heap w p = Some d \<Longrightarrow> dt_type d = STRUCT \<Longrightarrow> layout d = Layout_Struct c \<Longrightarrow> cs_heap w c = Some cs \<Longrightarrow>
   fieldnum cs = length ss \<Longrightarrow> length ss \<le> length (cs_fields cs) \<Longrightarrow>
   (\<And>i. i < length ss \<Longrightarrow> \<exists>f. cs_fields cs ! i = Some f \<and> rep (ss ! i) (f_type f) w) \<Longrightarrow> rep (Str ss) p w"
  by (auto simp: rep.simps(4))

lemma same_struct:
  assumes "rep (Str ss) p w" "layout_at p w = Some (Layout_Struct c)"
    and "rep (Str ts) q w" "layout_at q w = Some (Layout_Struct c)"
  shows "ss = ts"
proof -
  from struct_of [OF assms(1,2)] obtain cs where s: "cs_heap w c = Some cs" "fieldnum cs = length ss"
    "\<And>i. i < length ss \<Longrightarrow> \<exists>f. cs_fields cs ! i = Some f \<and> rep (ss ! i) (f_type f) w" by metis
  from struct_of [OF assms(3,4)] s(1) have t: "fieldnum cs = length ts"
    "\<And>i. i < length ts \<Longrightarrow> \<exists>f. cs_fields cs ! i = Some f \<and> rep (ts ! i) (f_type f) w"
    by (metis option.inject)+
  show ?thesis
  proof (rule nth_equalityI)
    show "length ss = length ts" using s(2) t(1) by simp
    fix i assume "i < length ss"
    with s t obtain f g where "cs_fields cs ! i = Some f" "rep (ss ! i) (f_type f) w"
      "cs_fields cs ! i = Some g" "rep (ts ! i) (f_type g) w" by metis
    then show "ss ! i = ts ! i" by (metis option.inject rep_unique)
  qed
qed

text \<open>Each of the three writes of the walk writes what the specification asks.\<close>

lemma write_size:
  assumes "rep s p w" "dt_heap w p = Some d" "dt_type d = ARRAY \<or> dt_type d = STRUCT"
  shows "\<exists>w'. set_dt_size p (sz s) w = Inr ((), w') \<and> ext w w' \<and> holds (Size_Is p (sz s)) w' \<and> cs_heap w' = cs_heap w"
proof -
  let ?w' = "w\<lparr>dt_heap := (dt_heap w)(p \<mapsto> d\<lparr>dt_size := int (sz s)\<rparr>)\<rparr>"
  have "set_dt_size p (sz s) w = Inr ((), ?w')"
    using assms(2) by (simp add: set_dt_size_def dt_of_def get_dt_def put_dt_def act_def)
  moreover have "same_skel w ?w'" using assms(2,3) by (auto simp: same_skel_def dt_skel_def)
  moreover have "holds F ?w'" if "right w F" "holds F w" for F
    using that rep_unique [OF assms(1)] by (cases F) auto
  ultimately show ?thesis by (auto simp: ext_def)
qed

lemma write_align:
  assumes "rep (Str ss) p w" "layout_at p w = Some (Layout_Struct c)" "cs_heap w c = Some cs"
  shows "\<exists>w'. put_cs c (cs\<lparr>fieldmaxalign := int (al (Str ss))\<rparr>) w = Inr ((), w') \<and> ext w w'
    \<and> holds (Align_Is c (al (Str ss))) w' \<and> dt_heap w' = dt_heap w"
proof -
  let ?w' = "w\<lparr>cs_heap := (cs_heap w)(c \<mapsto> cs\<lparr>fieldmaxalign := int (al (Str ss))\<rparr>)\<rparr>"
  have "put_cs c (cs\<lparr>fieldmaxalign := int (al (Str ss))\<rparr>) w = Inr ((), ?w')" by (simp add: put_cs_def)
  moreover have "same_skel w ?w'" using assms(3) by (auto simp: same_skel_def cs_skel_def)
  moreover have "holds F ?w'" if "right w F" "holds F w" for F
    using that same_struct [OF assms(1,2)] assms(3) by (cases F) auto
  ultimately show ?thesis by (auto simp: ext_def)
qed

lemma write_offset:
  assumes "rep (Str ss) p w" "layout_at p w = Some (Layout_Struct c)" "i < length ss"
  shows "\<exists>w'. set_field_offset c i (offs 0 ss ! i) w = Inr ((), w') \<and> ext w w'
    \<and> holds (Off_Is c i (offs 0 ss ! i)) w' \<and> dt_heap w' = dt_heap w"
proof -
  let ?n = "offs 0 ss ! i"
  from struct_of [OF assms(1,2)] assms(3) obtain cs f where
    c: "cs_heap w c = Some cs" "length ss \<le> length (cs_fields cs)" "cs_fields cs ! i = Some f" by metis
  let ?cs = "cs\<lparr>cs_fields := (cs_fields cs)[i := Some (f\<lparr>f_offset := ?n\<rparr>)]\<rparr>"
  let ?w' = "w\<lparr>cs_heap := (cs_heap w)(c \<mapsto> ?cs)\<rparr>"
  have i: "i < length (cs_fields cs)" using c(2) assms(3) by simp
  have "set_field_offset c i ?n w = Inr ((), ?w')"
    using c i by (simp add: set_field_offset_def cs_of_def field_at_def get_cs_def put_cs_def act_def)
  moreover have "map (map_option f_type) (cs_fields ?cs) = map (map_option f_type) (cs_fields cs)"
    using i c(3) by (auto simp: list_eq_iff_nth_eq nth_list_update)
  then have "same_skel w ?w'" using c(1) by (auto simp: same_skel_def cs_skel_def)
  moreover have "holds F ?w'" if "right w F" "holds F w" for F
  proof (cases F)
    case (Off_Is c' i' n)
    with that i show ?thesis using same_struct [OF assms(1,2)] c
      by (cases "c' = c \<and> i' = i") (auto simp: nth_list_update)
  qed (use that c in auto)
  moreover have "holds (Off_Is c i ?n) ?w'" using i by simp
  ultimately show ?thesis by (auto simp: ext_def)
qed

subsection \<open>Types that have been laid out\<close>

fun laid :: "shape \<Rightarrow> addr \<Rightarrow> 'z types_scheme \<Rightarrow> bool" where
  "laid (Prim n) p w \<longleftrightarrow> True"
| "laid (Ptr s) p w \<longleftrightarrow> (\<exists>t k ap. layout_at p w = Some (Layout_Pointer t k ap) \<and> laid s t w)"
| "laid (Arr n s) p w \<longleftrightarrow>
     holds (Size_Is p (sz (Arr n s))) w \<and> (\<exists>t k ds. layout_at p w = Some (Layout_Array t k ds) \<and> laid s t w)"
| "laid (Str ss) p w \<longleftrightarrow>
     holds (Size_Is p (sz (Str ss))) w \<and>
     (\<exists>c cs. layout_at p w = Some (Layout_Struct c) \<and> cs_heap w c = Some cs \<and> holds (Align_Is c (al (Str ss))) w \<and>
        (\<forall>i<length ss. holds (Off_Is c i (offs 0 ss ! i)) w \<and>
           (\<exists>f. cs_fields cs ! i = Some f \<and> laid (ss ! i) (f_type f) w)))"

declare laid.simps(4) [simp del]

lemma ext_holds: "ext w w' \<Longrightarrow> right w F \<Longrightarrow> holds F w \<Longrightarrow> holds F w'"
  by (simp add: ext_def)

lemma struct_same_fields:
  assumes "same_skel w w'" "rep (Str ss) p w" "layout_at p w = Some (Layout_Struct c)"
    and "cs_heap w c = Some cs" "cs_heap w' c = Some cs'" "i < length ss"
    and "cs_fields cs ! i = Some f" "cs_fields cs' ! i = Some f'"
  shows "f_type f' = f_type f"
proof -
  obtain cs0 where "cs_heap w c = Some cs0" "length ss \<le> length (cs_fields cs0)"
    using assms(2,3) by (rule struct_of)
  with assms(4) have "length ss \<le> length (cs_fields cs)" by simp
  with assms(6) have "i < length (cs_fields cs)" by simp
  with same_skel_cs [OF assms(1,4)] assms(5,7,8) show ?thesis by (metis option.inject)
qed

lemma laid_ext: "ext w w' \<Longrightarrow> rep s p w \<Longrightarrow> laid s p w \<Longrightarrow> laid s p w'"
proof (induction s arbitrary: p)
  case (Ptr s)
  then show ?case
    by (auto simp: layout_at_iff [OF ext_skel [OF Ptr.prems(1)]]) (auto simp: layout_at_def)
next
  case (Arr n s)
  then obtain t k ds where t: "layout_at p w = Some (Layout_Array t k ds)" "laid s t w" "rep s t w"
    by (auto simp: layout_at_def)
  have "right w (Size_Is p (sz (Arr n s)))" unfolding right.simps using Arr.prems(2) by blast
  moreover have "holds (Size_Is p (sz (Arr n s))) w" using Arr.prems(3) by simp
  ultimately have "holds (Size_Is p (sz (Arr n s))) w'" by (rule ext_holds [OF Arr.prems(1)])
  with Arr.IH [OF Arr.prems(1) t(3,2)] t(1) show ?case
    by (simp add: layout_at_iff [OF ext_skel [OF Arr.prems(1)]])
next
  case (Str ss)
  note k = ext_skel [OF Str.prems(1)] and h = ext_holds [OF Str.prems(1)]
  from Str.prems(3) obtain c cs where c: "holds (Size_Is p (sz (Str ss))) w"
      "layout_at p w = Some (Layout_Struct c)" "cs_heap w c = Some cs" "holds (Align_Is c (al (Str ss))) w"
      "\<And>i. i < length ss \<Longrightarrow> holds (Off_Is c i (offs 0 ss ! i)) w \<and>
        (\<exists>f. cs_fields cs ! i = Some f \<and> laid (ss ! i) (f_type f) w)"
    by (auto simp: laid.simps(4))
  note rw = Str.prems(2)
  have r: "right w (Size_Is p (sz (Str ss)))" "right w (Align_Is c (al (Str ss)))"
      "\<And>i. i < length ss \<Longrightarrow> right w (Off_Is c i (offs 0 ss ! i))"
    using rw c(2) by auto
  have rw': "rep (Str ss) p w'" using rw k by (simp add: rep_iff)
  have lw': "layout_at p w' = Some (Layout_Struct c)" using c(2) k by (simp add: layout_at_iff)
  from struct_of [OF rw' lw'] obtain cs' where c': "cs_heap w' c = Some cs'"
      "\<And>i. i < length ss \<Longrightarrow> \<exists>f. cs_fields cs' ! i = Some f \<and> rep (ss ! i) (f_type f) w'" by metis
  have "\<exists>f. cs_fields cs' ! i = Some f \<and> laid (ss ! i) (f_type f) w'" if i: "i < length ss" for i
  proof -
    from c(5) [OF i] c'(2) [OF i] obtain f f' where f: "cs_fields cs ! i = Some f" "laid (ss ! i) (f_type f) w"
      "cs_fields cs' ! i = Some f'" "rep (ss ! i) (f_type f') w'" by blast
    have t: "f_type f' = f_type f" by (rule struct_same_fields [OF k rw c(2,3) c'(1) i f(1,3)])
    have "rep (ss ! i) (f_type f) w" using f(4) k unfolding t by (simp add: rep_iff)
    with Str.IH [OF nth_mem [OF i] Str.prems(1)] f t show ?thesis by metis
  qed
  with lw' c'(1) h r c(1,4,5) show ?case unfolding laid.simps(4) by metis
qed simp

lemma laid_size: "rep s p w \<Longrightarrow> laid s p w \<Longrightarrow> \<exists>d. dt_heap w p = Some d \<and> dt_size d = int (sz s)"
  by (cases s) (auto simp: laid.simps(4))

lemma i32_small: "0 \<le> i \<Longrightarrow> i < 2 ^ 31 \<Longrightarrow> i32_of_int i = i"
  by (simp add: i32_of_int_def)

lemma laid_align:
  "rep s p w \<Longrightarrow> laid s p w \<Longrightarrow> fits s \<Longrightarrow> depth s \<le> n \<Longrightarrow>
   catype_get_field_align n p w = Inr (int (al s))"
proof (induction s arbitrary: p n)
  case (Prim m)
  then obtain n' where "n = Suc n'" by (cases n) auto
  with Prim show ?case by (auto simp: get_dt_def i32_small)
next
  case (Ptr s)
  then obtain n' where "n = Suc n'" by (cases n) auto
  with Ptr show ?case by (auto simp: get_dt_def)
next
  case (Arr m s)
  then obtain n' where "n = Suc n'" "depth s \<le> n'" by (cases n) auto
  with Arr show ?case by (auto simp: get_dt_def layout_at_def)
next
  case (Str ss)
  then obtain n' where n: "n = Suc n'" by (cases n) auto
  from Str.prems(2) obtain c where c: "layout_at p w = Some (Layout_Struct c)"
      "holds (Align_Is c (al (Str ss))) w" by (auto simp: laid.simps(4))
  from struct_of [OF Str.prems(1) c(1)] obtain d where
    "dt_heap w p = Some d" "dt_type d = STRUCT" "layout d = Layout_Struct c" by metis
  with c n show ?case by (auto simp: get_dt_def get_cs_def)
qed

lemma align_up_pad:
  "0 < a \<Longrightarrow> a \<le> 8 \<Longrightarrow> pad off a < 2 ^ 64 \<Longrightarrow> align_up off (int a) = Inr (pad off a)"
  by (auto simp: align_up_def u64_of_int_def pad_def Let_def u64_id)

lemma end_off_bound:
  "end_off off pre \<le> end_off off (pre @ post)"
  by (simp add: end_off_append end_off_ge)

definition fields_done :: "addr \<Rightarrow> shape list \<Rightarrow> nat \<Rightarrow> 'z types_scheme \<Rightarrow> bool" where
  "fields_done c ss k w \<longleftrightarrow>
     (\<forall>j<k. holds (Off_Is c j (offs 0 ss ! j)) w \<and>
        (\<exists>cs f. cs_heap w c = Some cs \<and> cs_fields cs ! j = Some f \<and> laid (ss ! j) (f_type f) w))"

lemma fields_done_ext:
  assumes "ext w w'" "rep (Str ss) p w" "layout_at p w = Some (Layout_Struct c)" "k \<le> length ss"
    and "fields_done c ss k w"
  shows "fields_done c ss k w'"
  unfolding fields_done_def
proof (intro allI impI)
  fix j assume j: "j < k"
  with assms(5) obtain cs f where f: "holds (Off_Is c j (offs 0 ss ! j)) w" "cs_heap w c = Some cs"
    "cs_fields cs ! j = Some f" "laid (ss ! j) (f_type f) w" unfolding fields_done_def by blast
  have jj: "j < length ss" using j assms(4) by simp
  have "right w (Off_Is c j (offs 0 ss ! j))" using assms(2,3) jj by auto
  from ext_holds [OF assms(1) this f(1)] have h: "holds (Off_Is c j (offs 0 ss ! j)) w'" .
  note k = ext_skel [OF assms(1)]
  have "rep (Str ss) p w'" "layout_at p w' = Some (Layout_Struct c)"
    using assms(2,3) k by (simp_all add: rep_iff layout_at_iff)
  from struct_of [OF this] jj obtain cs' f' where f': "cs_heap w' c = Some cs'" "cs_fields cs' ! j = Some f'"
    "rep (ss ! j) (f_type f') w'" by metis
  have t: "f_type f' = f_type f" by (rule struct_same_fields [OF k assms(2,3) f(2) f'(1) jj f(3) f'(2)])
  have "rep (ss ! j) (f_type f) w" using f'(3) k unfolding t by (simp add: rep_iff)
  from laid_ext [OF assms(1) this f(4)] h f' t show
    "holds (Off_Is c j (offs 0 ss ! j)) w' \<and>
     (\<exists>cs f. cs_heap w' c = Some cs \<and> cs_fields cs ! j = Some f \<and> laid (ss ! j) (f_type f) w')"
    by auto
qed

definition deeper :: "shape \<Rightarrow> addr list \<Rightarrow> 'z types_scheme \<Rightarrow> bool" where
  "deeper s rc w \<longleftrightarrow> (\<forall>q\<in>set rc. \<forall>t. rep t q w \<longrightarrow> depth s \<le> depth t)"

lemma deeper_ext: "ext w w' \<Longrightarrow> deeper s rc w' = deeper s rc w"
  by (simp add: deeper_def ext_rep)

lemma deeper_down: "deeper s rc w \<Longrightarrow> depth t \<le> depth s \<Longrightarrow> deeper t rc w"
  unfolding deeper_def by (meson order_trans)

lemma deeper_cons: "deeper s rc w \<Longrightarrow> rep s p w \<Longrightarrow> deeper s (p # rc) w"
  unfolding deeper_def by (metis order_refl rep_unique set_ConsD)

text \<open>One turn of the loop.\<close>

lemma layout_field_step:
  assumes "rep (Str ss) p w" "layout_at p w = Some (Layout_Struct c)" "fits (Str ss)" "depth (Str ss) \<le> Suc n"
    and "ss = pre @ s # post" "fields_done c ss (length pre) w" "deeper (Str ss) rc w"
    and rec: "\<And>t w rc. rep s t w \<Longrightarrow> deeper s rc w \<Longrightarrow> \<exists>w'. rec t rc w = Inr ((), w') \<and> ext w w' \<and> laid s t w'"
  shows "\<exists>w'. layout_fields rec n c rc (length pre) (Suc k) (end_off 0 pre) m w
      = layout_fields rec n c rc (Suc (length pre)) k (end_off 0 (pre @ [s])) (max m (int (al s))) w'
    \<and> ext w w' \<and> fields_done c ss (Suc (length pre)) w'"
proof -
  let ?i = "length pre" and ?o = "pad (end_off 0 pre) (al s)"
  have i: "?i < length ss" "ss ! ?i = s" "s \<in> set ss" using assms(5) by simp_all
  have o: "offs 0 ss ! ?i = ?o" using assms(5) offs_nth by simp
  have s: "fits s" "depth s \<le> n" "depth s \<le> depth (Str ss)" "depth s < depth (Str ss)"
    using assms(3,4) i(3) depth_field [OF i(3)] by auto
  from struct_of [OF assms(1,2)] i obtain cs f where c: "cs_heap w c = Some cs" "length ss \<le> length (cs_fields cs)"
    "cs_fields cs ! ?i = Some f" "rep s (f_type f) w" by metis
  have field: "field_at c ?i w = Inr f" using c i by (simp add: field_at_def get_cs_def)
  have notin: "f_type f \<notin> set rc" using assms(7) c(4) s(4) unfolding deeper_def by fastforce
  have "deeper s rc w" using deeper_down [OF assms(7) s(3)] .
  from rec [OF c(4) deeper_cons [OF this c(4)]] obtain w1 where
    w1: "rec (f_type f) (f_type f # rc) w = Inr ((), w1)" "ext w w1" "laid s (f_type f) w1" by blast
  have k1: "rep (Str ss) p w1" "rep s (f_type f) w1" using assms(1) c(4) ext_rep [OF w1(2)] by blast+
  have l1: "layout_at p w1 = Some (Layout_Struct c)" using assms(2) layout_at_iff [OF ext_skel [OF w1(2)]] by simp
  have a: "catype_get_field_align n (f_type f) w1 = Inr (int (al s))" by (rule laid_align [OF k1(2) w1(3) s(1,2)])
  have e: "end_off 0 (pre @ [s]) = ?o + sz s" by (simp add: end_off_append)
  have "end_off 0 (pre @ [s]) \<le> end_off 0 ss" using end_off_bound [of 0 "pre @ [s]" post] assms(5) by simp
  then have small: "?o + sz s < 2 ^ 64" using assms(3) e pad_ge [of "end_off 0 ss" "al (Str ss)"] by (simp add: sz.simps(4))
  have u: "align_up (end_off 0 pre) (int (al s)) = Inr ?o"
    using al_range [OF s(1)] small by (intro align_up_pad) simp_all
  from write_offset [OF k1(1) l1 i(1)] obtain w2 where
    w2: "set_field_offset c ?i ?o w1 = Inr ((), w2)" "ext w1 w2" "holds (Off_Is c ?i ?o) w2" unfolding o by blast
  have k2: "rep (Str ss) p w2" "rep s (f_type f) w2" using k1 ext_rep [OF w2(2)] by blast+
  have l2: "layout_at p w2 = Some (Layout_Struct c)" using l1 layout_at_iff [OF ext_skel [OF w2(2)]] by simp
  have laid2: "laid s (f_type f) w2" by (rule laid_ext [OF w2(2) k1(2) w1(3)])
  from laid_size [OF k2(2) laid2] obtain d where d: "dt_heap w2 (f_type f) = Some d" "dt_size d = int (sz s)" by blast
  have run: "layout_fields rec n c rc ?i (Suc k) (end_off 0 pre) m w
      = layout_fields rec n c rc (Suc ?i) k (end_off 0 (pre @ [s])) (max m (int (al s))) w2"
    using field notin w1(1) a u w2(1) d small
    by (simp add: act_def dt_of_def get_dt_def e u64_id)
  have x: "ext w w2" using w1(2) w2(2) by (rule ext_trans)
  have fd: "fields_done c ss ?i w2" using fields_done_ext [OF x assms(1,2) _ assms(6)] i(1) by simp
  from struct_of [OF k2(1) l2] i obtain cs2 f2 where c2: "cs_heap w2 c = Some cs2" "cs_fields cs2 ! ?i = Some f2" by metis
  have "f_type f2 = f_type f"
    by (rule struct_same_fields [OF ext_skel [OF x] assms(1,2) c(1) c2(1) i(1) c(3) c2(2)])
  then have "fields_done c ss (Suc ?i) w2"
    using fd w2(3) c2 laid2 o i(2) unfolding fields_done_def by (auto simp: less_Suc_eq)
  with run x show ?thesis by blast
qed

lemma layout_fields_run:
  assumes "rep (Str ss) p w" "layout_at p w = Some (Layout_Struct c)" "fits (Str ss)" "depth (Str ss) \<le> Suc n"
    and "ss = pre @ post" "fields_done c ss (length pre) w" "deeper (Str ss) rc w"
    and rec: "\<And>s t w rc. s \<in> set ss \<Longrightarrow> rep s t w \<Longrightarrow> deeper s rc w \<Longrightarrow>
      \<exists>w'. rec t rc w = Inr ((), w') \<and> ext w w' \<and> laid s t w'"
  shows "\<exists>w'. layout_fields rec n c rc (length pre) (length post) (end_off 0 pre) (int (max 1 (maxl (map al pre)))) w
      = Inr ((end_off 0 ss, int (al (Str ss))), w') \<and> ext w w' \<and> fields_done c ss (length ss) w'"
  using assms(1,2,5,6,7)
proof (induction post arbitrary: pre w)
  case Nil
  then show ?case using ext_refl by (auto simp: al.simps(4))
next
  case (Cons s post)
  have "s \<in> set ss" using Cons.prems(3) by simp
  then have r: "\<exists>w'. rec t rc w = Inr ((), w') \<and> ext w w' \<and> laid s t w'"
    if "rep s t w" "deeper s rc w" for t rc and w :: "'a types_scheme"
    using rec that by blast
  obtain w1 where w1: "layout_fields rec n c rc (length pre) (Suc (length post)) (end_off 0 pre)
        (int (max 1 (maxl (map al pre)))) w
      = layout_fields rec n c rc (Suc (length pre)) (length post) (end_off 0 (pre @ [s]))
          (max (int (max 1 (maxl (map al pre)))) (int (al s))) w1"
    "ext w w1" "fields_done c ss (Suc (length pre)) w1"
    using layout_field_step [OF Cons.prems(1,2) assms(3,4) Cons.prems(3,4,5), of rec] r by blast
  have m: "max (int (max 1 (maxl (map al pre)))) (int (al s)) = int (max 1 (maxl (map al (pre @ [s]))))"
    by (simp add: max_def)
  have "rep (Str ss) p w1" "layout_at p w1 = Some (Layout_Struct c)" "ss = (pre @ [s]) @ post"
    "fields_done c ss (length (pre @ [s])) w1" "deeper (Str ss) rc w1"
    using Cons.prems w1 by (simp_all add: ext_rep layout_at_iff [OF ext_skel] deeper_ext)
  from Cons.IH [OF this] w1(1,2) m show ?case
    using ext_trans by (metis length_Cons length_append_singleton)
qed

text \<open>The walk ends, and lays out the type and everything below it.\<close>

lemma layout_run:
  "rep s p w \<Longrightarrow> fits s \<Longrightarrow> deeper s rc w \<Longrightarrow> depth s \<le> n \<Longrightarrow>
   \<exists>w'. catype_formalize_type_layout n p rc w = Inr ((), w') \<and> ext w w' \<and> laid s p w'"
proof (induction n arbitrary: s p w rc)
  case 0
  then show ?case by (cases s) auto
next
  case (Suc n)
  show ?case
  proof (cases s)
    case (Prim m)
    with Suc.prems(1) obtain d where "dt_heap w p = Some d" "dt_type d \<notin> {POINTER, ARRAY, STRUCT, SLICE}" by auto
    then show ?thesis using Prim by (intro exI [of _ w]) (simp add: act_def dt_of_def get_dt_def)
  next
    case (Ptr t)
    with Suc.prems(1) obtain d q k ap where d: "dt_heap w p = Some d" "dt_type d = POINTER"
      "layout d = Layout_Pointer q k ap" "rep t q w" by auto
    have "deeper t rc w" using deeper_down [OF Suc.prems(3)] Ptr by simp
    from Suc.IH [OF d(4) _ this] Suc.prems(2,4) Ptr obtain w1 where
      w1: "catype_formalize_type_layout n q rc w = Inr ((), w1)" "ext w w1" "laid t q w1" by auto
    have "layout_at p w1 = Some (Layout_Pointer q k ap)"
      using d layout_at_iff [OF ext_skel [OF w1(2)], of p] by (simp add: layout_at_def)
    then show ?thesis using d w1 Ptr by (intro exI [of _ w1]) (simp add: act_def dt_of_def get_dt_def)
  next
    case (Arr m t)
    with Suc.prems(1) obtain d q k ds where d: "dt_heap w p = Some d" "dt_type d = ARRAY"
      "layout d = Layout_Array q k (int m # ds)" "rep t q w" by auto
    have "deeper t rc w" using deeper_down [OF Suc.prems(3)] Arr by simp
    from Suc.IH [OF d(4) _ this] Suc.prems(2,4) Arr obtain w1 where
      w1: "catype_formalize_type_layout n q rc w = Inr ((), w1)" "ext w w1" "laid t q w1" by auto
    note k1 = ext_skel [OF w1(2)]
    have rq: "rep t q w1" using d(4) ext_rep [OF w1(2)] by blast
    from laid_size [OF rq w1(3)] obtain e where e: "dt_heap w1 q = Some e" "dt_size e = int (sz t)" by blast
    from same_skel_dt [OF k1 d(1)] d(2) obtain d1 where d1: "dt_heap w1 p = Some d1" "dt_type d1 = ARRAY" by auto
    have rp: "rep (Arr m t) p w1" using Suc.prems(1) Arr ext_rep [OF w1(2)] by blast
    from write_size [OF rp d1(1)] d1(2) obtain w2 where
      w2: "set_dt_size p (sz (Arr m t)) w1 = Inr ((), w2)" "ext w1 w2" "holds (Size_Is p (sz (Arr m t))) w2" by blast
    have lay: "layout_at p w2 = Some (Layout_Array q k (int m # ds))"
      using d layout_at_iff [OF ext_skel [OF ext_trans [OF w1(2) w2(2)]], of p] by (simp add: layout_at_def)
    have "u64 (u64_of_int (int m) * nat (dt_size e)) = sz (Arr m t)"
      using Suc.prems(2) Arr e by (simp add: u64_id u64_of_int_def)
    with w1(1) w2(1) e d have "catype_formalize_type_layout (Suc n) p rc w = Inr ((), w2)"
      by (simp add: act_def dt_of_def get_dt_def)
    moreover have "laid (Arr m t) p w2"
      using w2(3) lay laid_ext [OF w2(2) rq w1(3)] by simp
    ultimately show ?thesis using Arr ext_trans [OF w1(2) w2(2)] by blast
  next
    case (Str ss)
    with Suc.prems(1) obtain d c cs where d: "dt_heap w p = Some d" "dt_type d = STRUCT"
      "layout d = Layout_Struct c" "cs_heap w c = Some cs" "fieldnum cs = length ss" by (auto simp: rep.simps(4))
    have rp: "rep (Str ss) p w" "fits (Str ss)" "depth (Str ss) \<le> Suc n" "deeper (Str ss) rc w"
      using Suc.prems Str by simp_all
    have lay: "layout_at p w = Some (Layout_Struct c)" using d by (simp add: layout_at_def)
    have rec: "\<exists>w'. catype_formalize_type_layout n t rc w = Inr ((), w') \<and> ext w w' \<and> laid s t w'"
      if "s \<in> set ss" "rep s t w" "deeper s rc w" for s t rc and w :: "'a types_scheme"
      using Suc.IH [OF that(2) _ that(3)] that(1) rp(2,3) depth_field [OF that(1)] by auto
    have "fields_done c ss (length []) w" by (simp add: fields_done_def)
    from layout_fields_run [OF rp(1) lay rp(2,3) _ this rp(4), of ss "catype_formalize_type_layout n"] rec
    obtain w1 where w1: "layout_fields (catype_formalize_type_layout n) n c rc 0 (length ss) 0 1 w
        = Inr ((end_off 0 ss, int (al (Str ss))), w1)" "ext w w1" "fields_done c ss (length ss) w1" by auto
    have r1: "rep (Str ss) p w1" using rp(1) ext_rep [OF w1(2)] by blast
    have l1: "layout_at p w1 = Some (Layout_Struct c)" using lay layout_at_iff [OF ext_skel [OF w1(2)]] by simp
    from struct_of [OF r1 l1] obtain cs1 where c1: "cs_heap w1 c = Some cs1" by metis
    from write_align [OF r1 l1 c1] obtain w2 where
      w2: "put_cs c (cs1\<lparr>fieldmaxalign := int (al (Str ss))\<rparr>) w1 = Inr ((), w2)" "ext w1 w2"
        "holds (Align_Is c (al (Str ss))) w2" by blast
    have r2: "rep (Str ss) p w2" using r1 ext_rep [OF w2(2)] by blast
    have l2: "layout_at p w2 = Some (Layout_Struct c)" using l1 layout_at_iff [OF ext_skel [OF w2(2)]] by simp
    from struct_of [OF r2 l2] obtain d2 where d2: "dt_heap w2 p = Some d2" "dt_type d2 = STRUCT" by metis
    from write_size [OF r2 d2(1)] d2(2) obtain w3 where
      w3: "set_dt_size p (sz (Str ss)) w2 = Inr ((), w3)" "ext w2 w3" "holds (Size_Is p (sz (Str ss))) w3" by blast
    have up: "align_up (end_off 0 ss) (int (al (Str ss))) = Inr (sz (Str ss))"
      using al_range [OF rp(2)] rp(2) align_up_pad [of "al (Str ss)" "end_off 0 ss"] by (simp add: sz.simps(4))
    have run: "catype_formalize_type_layout (Suc n) p rc w = Inr ((), w3)"
      using d w1(1) c1 w2(1) w3(1) up by (simp add: act_def dt_of_def get_dt_def cs_of_def get_cs_def)
    have x: "ext w1 w3" using w2(2) w3(2) by (rule ext_trans)
    have l3: "layout_at p w3 = Some (Layout_Struct c)" using l2 layout_at_iff [OF ext_skel [OF w3(2)]] by simp
    have "right w2 (Align_Is c (al (Str ss)))" using r2 l2 by auto
    from ext_holds [OF w3(2) this w2(3)] have a3: "holds (Align_Is c (al (Str ss))) w3" .
    then obtain cs3 where c3: "cs_heap w3 c = Some cs3" by auto
    have "fields_done c ss (length ss) w3" by (rule fields_done_ext [OF x r1 l1 _ w1(3)]) simp
    then have "\<forall>i<length ss. holds (Off_Is c i (offs 0 ss ! i)) w3 \<and>
        (\<exists>f. cs_fields cs3 ! i = Some f \<and> laid (ss ! i) (f_type f) w3)"
      using c3 unfolding fields_done_def by fastforce
    with w3(3) l3 c3 a3 have "laid (Str ss) p w3" unfolding laid.simps(4) by blast
    with run ext_trans [OF w1(2) x] Str show ?thesis by blast
  qed
qed

subsection \<open>Properties\<close>

text \<open>Claim C2: laying out a struct type that is not recursive ends, with fuel for its depth, and gives the
  C layout: every field starts at a multiple of its alignment, not before the end of the field
  before it, the last field ends within the struct, and the size of the struct is a multiple of
  its alignment (so that it can be an array element). No type but arrays and structs changes.\<close>

theorem struct_layout_is_c_layout:
  assumes "rep (Str ss) p w" "fits (Str ss)" "depth (Str ss) \<le> fuel"
  shows "\<exists>w' d c cs. catype_formalize_layout fuel p w = Inr ((), w') \<and> same_skel w w'
    \<and> get_dt p w' = Inr d \<and> layout d = Layout_Struct c \<and> get_cs c w' = Inr cs
    \<and> dt_size d = int (sz (Str ss)) \<and> fieldmaxalign cs = int (al (Str ss)) \<and> sz (Str ss) mod al (Str ss) = 0
    \<and> (\<forall>i<length ss. \<exists>f ft. cs_fields cs ! i = Some f \<and> get_dt (f_type f) w' = Inr ft
        \<and> f_offset f mod al (ss ! i) = 0 \<and> dt_size ft = int (sz (ss ! i))
        \<and> int (f_offset f) + dt_size ft \<le>
           (if Suc i < length ss then int (f_offset (the (cs_fields cs ! Suc i))) else dt_size d))"
proof -
  have "deeper (Str ss) [p] w" using rep_unique [OF assms(1)] by (auto simp: deeper_def)
  from layout_run [OF assms(1,2) this assms(3)] obtain w' where
    run: "catype_formalize_type_layout fuel p [p] w = Inr ((), w')" "ext w w'" "laid (Str ss) p w'" by blast
  have r: "rep (Str ss) p w'" using assms(1) ext_rep [OF run(2)] by blast
  from run(3) obtain c where l: "layout_at p w' = Some (Layout_Struct c)" by (auto simp: laid.simps(4))
  from struct_of [OF r l] obtain d cs where d: "dt_heap w' p = Some d" "layout d = Layout_Struct c"
    "cs_heap w' c = Some cs" "\<And>i. i < length ss \<Longrightarrow> \<exists>f. cs_fields cs ! i = Some f \<and> rep (ss ! i) (f_type f) w'"
    by metis
  have a: "dt_size d = int (sz (Str ss))" "fieldmaxalign cs = int (al (Str ss))"
    "\<And>i. i < length ss \<Longrightarrow> \<exists>f. cs_fields cs ! i = Some f \<and> f_offset f = offs 0 ss ! i
       \<and> laid (ss ! i) (f_type f) w'"
    using run(3) l d by (auto simp: laid.simps(4))
  have m: "sz (Str ss) mod al (Str ss) = 0"
    using al_range [OF assms(2)] by (simp add: sz.simps(4) pad_dvd)
  have f: "\<exists>f ft. cs_fields cs ! i = Some f \<and> get_dt (f_type f) w' = Inr ft
      \<and> f_offset f mod al (ss ! i) = 0 \<and> dt_size ft = int (sz (ss ! i))
      \<and> int (f_offset f) + dt_size ft \<le>
         (if Suc i < length ss then int (f_offset (the (cs_fields cs ! Suc i))) else dt_size d)"
    if i: "i < length ss" for i
  proof -
    from a(3) [OF i] d(4) [OF i] obtain f where f: "cs_fields cs ! i = Some f" "f_offset f = offs 0 ss ! i"
      "laid (ss ! i) (f_type f) w'" "rep (ss ! i) (f_type f) w'" by auto
    from laid_size [OF f(4,3)] obtain ft where ft: "dt_heap w' (f_type f) = Some ft" "dt_size ft = int (sz (ss ! i))" by blast
    have n: "Suc i < length ss \<Longrightarrow> f_offset (the (cs_fields cs ! Suc i)) = offs 0 ss ! Suc i"
      using a(3) [of "Suc i"] by auto
    show ?thesis using f ft n a(1) offs_aligned [OF i assms(2)] offs_disjoint [OF i]
      by (auto simp: get_dt_def split: if_splits)
  qed
  have "get_dt p w' = Inr d" "get_cs c w' = Inr cs" using d by (simp_all add: get_dt_def get_cs_def)
  with run(1) ext_skel [OF run(2)] d(2) a(1,2) m f show ?thesis unfolding catype_formalize_layout_def
    by (intro exI [of _ w'] exI [of _ d] exI [of _ c] exI [of _ cs] conjI) simp_all
qed

text \<open>\<open>struct { a: i8, b: i64, c: [i16; 3], d: *i8 }\<close>.\<close>

definition plain :: "tokenid \<Rightarrow> nat \<Rightarrow> CALayout \<Rightarrow> CADataType" where
  "plain t n l = \<lparr>dt_type = t, formalname = 0, dt_size = int n, signature = 0, status = CADT_Expand, layout = l\<rparr>"

definition struct_of_types :: "addr list \<Rightarrow> CAStruct" where
  "struct_of_types ts = \<lparr>cs_type = Struct_NamedStruct, cs_name = 0, fieldnum = length ts, capacity = length ts,
     fieldmaxalign = 1, cs_fields = map (\<lambda>t. Some \<lparr>f_name = 0, f_offset = 0, f_type = t\<rparr>) ts\<rparr>"

definition world_of :: "CADataType list \<Rightarrow> CAStruct list \<Rightarrow> types" where
  "world_of ds cs = types_start\<lparr>
     dt_heap := (\<lambda>p. if p < length ds then Some (ds ! p) else None),
     cs_heap := (\<lambda>p. if p < length cs then Some (cs ! p) else None)\<rparr>"

definition mixed_struct :: types where
  "mixed_struct = world_of
     [plain I8 1 Layout_None, plain I64 8 Layout_None, plain I16 2 Layout_None,
      plain ARRAY 0 (Layout_Array 2 1 [3]), plain POINTER 8 (Layout_Pointer 0 1 PP_Stack),
      plain STRUCT 0 (Layout_Struct 0)]
     [struct_of_types [0, 1, 3, 4]]"

definition offsets_of :: "addr \<Rightarrow> 'z types_scheme \<Rightarrow> (nat list \<times> int) option" where
  "offsets_of p w =
     (case dt_heap w p of
        Some d \<Rightarrow> (case layout d of
            Layout_Struct c \<Rightarrow> map_option (\<lambda>cs. (map (\<lambda>f. f_offset (the f)) (cs_fields cs), dt_size d)) (cs_heap w c)
          | _ \<Rightarrow> None)
      | None \<Rightarrow> None)"

theorem struct_layout_is_c_layout_witness:
  "\<exists>w'. catype_formalize_layout 3 5 mixed_struct = Inr ((), w') \<and> offsets_of 5 w' = Some ([0, 8, 16, 24], 32)"
proof -
  let ?ss = "[Prim 1, Prim 8, Arr 3 (Prim 2), Ptr (Prim 1)]"
  have h: "dt_heap mixed_struct 5 = Some (plain STRUCT 0 (Layout_Struct 0))"
    "dt_heap mixed_struct 0 = Some (plain I8 1 Layout_None)" "dt_heap mixed_struct (Suc 0) = Some (plain I64 8 Layout_None)"
    "dt_heap mixed_struct 2 = Some (plain I16 2 Layout_None)"
    "dt_heap mixed_struct 3 = Some (plain ARRAY 0 (Layout_Array 2 1 [3]))"
    "dt_heap mixed_struct 4 = Some (plain POINTER 8 (Layout_Pointer 0 1 PP_Stack))"
    "cs_heap mixed_struct 0 = Some (struct_of_types [0, 1, 3, 4])"
    by code_simp+
  have r: "rep (Str ?ss) 5 mixed_struct"
  proof (rule rep_StrI [OF h(1) _ _ h(7)])
    fix i assume "i < length ?ss"
    then consider "i = 0" | "i = 1" | "i = 2" | "i = 3" by fastforce
    then show "\<exists>f. cs_fields (struct_of_types [0, 1, 3, 4]) ! i = Some f \<and> rep (?ss ! i) (f_type f) mixed_struct"
      by cases (simp_all add: struct_of_types_def h plain_def pointer_size_def)
  qed (simp_all add: plain_def struct_of_types_def)
  have f: "fits (Str ?ss)" "depth (Str ?ss) \<le> 3"
    by (simp_all add: sz.simps(4) al.simps(4) pad_def pointer_size_def)
  have "\<exists>w'. catype_formalize_layout 3 5 mixed_struct = Inr ((), w')"
    using struct_layout_is_c_layout [OF r f] by blast
  moreover have "(case catype_formalize_layout 3 5 mixed_struct of
      Inr (_, w') \<Rightarrow> offsets_of 5 w' | Inl _ \<Rightarrow> None) = Some ([0, 8, 16, 24], 32)"
    by code_simp
  ultimately show ?thesis by auto
qed

text \<open>
  Of two structs that contain each other, \<open>struct A { p: *B, n: i32 }\<close> and
  \<open>struct B { a: A, z: i64 }\<close>, type 3 is \<open>A\<close> and type 4 is \<open>B\<close>.
\<close>

definition mutual_structs :: types where
  "mutual_structs = world_of
     [plain I32 4 Layout_None, plain I64 8 Layout_None, plain POINTER 8 (Layout_Pointer 4 1 PP_Stack),
      plain STRUCT 0 (Layout_Struct 0), plain STRUCT 0 (Layout_Struct 1)]
     [struct_of_types [2, 0], struct_of_types [3, 1]]"


text \<open>A field of type \<open>void\<close> has alignment 0, and the walk divides by it.\<close>

lemma void_field_divides_by_zero:
  "(case catype_formalize_layout 9 1 (world_of [plain VOID 0 Layout_None, plain STRUCT 0 (Layout_Struct 0)]
     [struct_of_types [0]]) of Inl e \<Rightarrow> Some e | Inr _ \<Rightarrow> None) = Some (Undefined ''division by zero'')"
  by code_simp

end
