(* ===== verification/Casts.thy ===== *)
theory Casts
  imports Layout Literal_Scopes "HOL-Library.Signed_Division"
begin

section \<open>LLVM types, conversions and operators (\<open>type_system_llvm.cpp\<close>, \<open>llvm/ir1.cpp\<close>)\<close>

text \<open>
  The compiler calls the LLVM builder. The model keeps LLVM's types as a datatype, with a named
  struct as its number in the table \<open>struct_bodies\<close>, and a value as the tree of the builder
  calls that made it (\<open>V_Given\<close> is a value from elsewhere). What the instructions compute
  is LLVM's: theorems that need it take it as a parameter with LLVM's documented rules.
\<close>

datatype LType =
    LT_Void | LT_Int nat | LT_Float | LT_Double
  | LT_Pointer LType | LT_Array LType int | LT_Struct nat

datatype CastOps =
    No_Cast | Bad_Cast
  | Trunc | ZExt | SExt | FPToUI | FPToSI | UIToFP | SIToFP | FPTrunc | FPExt
  | PtrToInt | IntToPtr | BitCast

datatype Predicate =
    FCMP_FALSE | FCMP_OLT | FCMP_OGT | FCMP_OGE | FCMP_OLE | FCMP_ONE | FCMP_OEQ
  | ICMP_SLT | ICMP_SGT | ICMP_SGE | ICMP_SLE | ICMP_ULT | ICMP_UGT | ICMP_UGE | ICMP_ULE
  | ICMP_NE | ICMP_EQ

datatype binary_instr =
    FAdd | FSub | FMul | FDiv | FRem | Add | Sub | Mul | SDiv | SRem | BAnd | BOr | BXor | Shl | AShr | LShr

datatype lvalue =
    V_Given nat LType
  | V_Const_Int nat int
  | V_Binary binary_instr lvalue lvalue
  | V_Cmp Predicate lvalue lvalue
  | V_Cast CastOps lvalue LType
  | V_ZExtOrTrunc lvalue LType
  | V_GEP LType lvalue lvalue
  | V_Alloca LType lvalue

fun vtype :: "lvalue \<Rightarrow> LType" where
  "vtype (V_Given n t) = t"
| "vtype (V_Const_Int b i) = LT_Int b"
| "vtype (V_Binary f a b) = vtype a"
| "vtype (V_Cmp p a b) = LT_Int 1"
| "vtype (V_Cast c a t) = t"
| "vtype (V_ZExtOrTrunc a t) = t"
| "vtype (V_GEP t a b) = vtype a"
| "vtype (V_Alloca t a) = LT_Pointer t"

subsection \<open>The LLVM type of a type\<close>

fun llvmtype_from_token :: "tokenid \<Rightarrow> LType option" where
  "llvmtype_from_token VOID = Some LT_Void"
| "llvmtype_from_token I16 = Some (LT_Int 16)"
| "llvmtype_from_token I32 = Some (LT_Int 32)"
| "llvmtype_from_token I64 = Some (LT_Int 64)"
| "llvmtype_from_token U16 = Some (LT_Int 16)"
| "llvmtype_from_token U32 = Some (LT_Int 32)"
| "llvmtype_from_token U64 = Some (LT_Int 64)"
| "llvmtype_from_token F32 = Some LT_Float"
| "llvmtype_from_token F64 = Some LT_Double"
| "llvmtype_from_token BOOL = Some (LT_Int 1)"
| "llvmtype_from_token I8 = Some (LT_Int 8)"
| "llvmtype_from_token U8 = Some (LT_Int 8)"
| "llvmtype_from_token _ = None"

text \<open>\<open>g_llvmtype_map\<close> gives the struct of a signature, \<open>struct_bodies\<close> the fields set last.\<close>

record llvm = types +
  g_llvmtype_map :: "int \<Rightarrow> nat option"
  struct_bodies :: "nat \<Rightarrow> LType list option"
  struct_next :: nat

definition struct_for_signature :: "int \<Rightarrow> ('z llvm_scheme, nat) action" where
  "struct_for_signature sig = (\<lambda>w.
     case g_llvmtype_map w sig of
       Some s \<Rightarrow> Inr (s, w)
     | None \<Rightarrow> Inr (struct_next w, w\<lparr>g_llvmtype_map := (g_llvmtype_map w)(sig \<mapsto> struct_next w),
         struct_next := Suc (struct_next w)\<rparr>))"

text \<open>The loop over the fields; a null field type is a crash of \<open>setBody\<close>.\<close>

fun field_llvmtypes ::
  "(addr \<Rightarrow> (addr \<times> LType) list \<Rightarrow> ('z llvm_scheme, LType option \<times> (addr \<times> LType) list) action) \<Rightarrow>
   addr \<Rightarrow> nat \<Rightarrow> nat \<Rightarrow> (addr \<times> LType) list \<Rightarrow> ('z llvm_scheme, LType list \<times> (addr \<times> LType) list) action" where
  "field_llvmtypes walk c i 0 rcheck = ret ([], rcheck)"
| "field_llvmtypes walk c i (Suc k) rcheck =
     act (\<lambda>w. lift_result (field_at c i w) w) (\<lambda>f.
     act (walk (f_type f) rcheck) (\<lambda>(t, rcheck').
     (case t of
        None \<Rightarrow> fail (Undefined ''null field type'')
      | Some t \<Rightarrow> act (field_llvmtypes walk c (Suc i) k rcheck') (\<lambda>(ts, rcheck''). ret (t # ts, rcheck'')))))"

definition point_to :: "nat \<Rightarrow> LType \<Rightarrow> LType" where
  "point_to n t = (LT_Pointer ^^ n) t"

definition array_of :: "int list \<Rightarrow> LType \<Rightarrow> LType" where
  "array_of dims t = foldr (\<lambda>d u. LT_Array u d) dims t"

text \<open>
  \<open>rcheck\<close> is a map, changed by the walk below; inserting keeps an entry that is there, and an
  entry is erased after the fields whoever inserted it. A failed \<open>assert\<close> aborts.
\<close>

fun llvmtype_from_catype_inner ::
  "nat \<Rightarrow> addr \<Rightarrow> (addr \<times> LType) list \<Rightarrow> ('z llvm_scheme, LType option \<times> (addr \<times> LType) list) action" where
  "llvmtype_from_catype_inner 0 p rcheck = fail Out_of_fuel"
| "llvmtype_from_catype_inner (Suc n) p rcheck =
     act (dt_of p) (\<lambda>d.
     if dt_type d = POINTER then
       (case layout d of
          Layout_Pointer t ndim _ \<Rightarrow>
            act (case map_of rcheck t of
                   Some k \<Rightarrow> ret (Some k, rcheck)
                 | None \<Rightarrow> llvmtype_from_catype_inner n t rcheck)
                (\<lambda>(k, rcheck'). ret (map_option (point_to ndim) k, rcheck'))
        | _ \<Rightarrow> fail (Undefined ''no pointer layout''))
     else if dt_type d = ARRAY then
       (case layout d of
          Layout_Array t ndim dims \<Rightarrow>
            if t \<in> fst ` set rcheck then fail (Exit ''Assertion failed'')
            else act (llvmtype_from_catype_inner n t rcheck)
                (\<lambda>(k, rcheck'). ret (map_option (array_of (take ndim dims)) k, rcheck'))
        | _ \<Rightarrow> fail (Undefined ''no array layout''))
     else if dt_type d = SLICE \<or> dt_type d = STRUCT then
       (case layout d of
          Layout_Struct c \<Rightarrow>
            act (struct_for_signature (signature d)) (\<lambda>s.
            act (cs_of c) (\<lambda>cs.
            act (field_llvmtypes (llvmtype_from_catype_inner n) c 0 (fieldnum cs)
                   (if p \<in> fst ` set rcheck then rcheck else (p, LT_Struct s) # rcheck)) (\<lambda>(ts, rcheck').
            act (modifies (\<lambda>w. w\<lparr>struct_bodies := (struct_bodies w)(s \<mapsto> ts)\<rparr>)) (\<lambda>_.
            ret (Some (LT_Struct s), filter (\<lambda>e. fst e \<noteq> p) rcheck')))))
        | _ \<Rightarrow> fail (Undefined ''no struct layout''))
     else if dt_type d = RANGE then
       (case layout d of
          Layout_Range k _ _ _ r \<Rightarrow>
            if k = FullRange then ret (Some (LT_Int 32), rcheck)
            else (case r of
                    Some q \<Rightarrow> llvmtype_from_catype_inner n q rcheck
                  | None \<Rightarrow> fail (Undefined ''null range type''))
        | _ \<Rightarrow> fail (Undefined ''no range layout''))
     else ret (llvmtype_from_token (dt_type d), rcheck))"

definition llvmtype_from_catype :: "nat \<Rightarrow> addr \<Rightarrow> ('z llvm_scheme, LType option) action" where
  "llvmtype_from_catype fuel p = act (llvmtype_from_catype_inner fuel p []) (\<lambda>(t, _). ret t)"

subsection \<open>The conversion table\<close>

definition cast_row_VOID :: "CastOps list" where
  "cast_row_VOID =
     [No_Cast, Bad_Cast, Bad_Cast, Bad_Cast, Bad_Cast, Bad_Cast, Bad_Cast, Bad_Cast, Bad_Cast,
      Bad_Cast, Bad_Cast, Bad_Cast, Bad_Cast, Bad_Cast, Bad_Cast, Bad_Cast, Bad_Cast]"

definition cast_row_I16 :: "CastOps list" where
  "cast_row_I16 =
     [Bad_Cast, No_Cast, SExt, SExt, BitCast, SExt, SExt, SIToFP, SIToFP,
      Bad_Cast, Trunc, Trunc, Bad_Cast, Bad_Cast, Bad_Cast, IntToPtr, Bad_Cast]"

definition cast_row_I32 :: "CastOps list" where
  "cast_row_I32 =
     [Bad_Cast, Trunc, No_Cast, SExt, Trunc, BitCast, SExt, SIToFP, SIToFP,
      Bad_Cast, Trunc, Trunc, Bad_Cast, Bad_Cast, Bad_Cast, IntToPtr, Bad_Cast]"

definition cast_row_I64 :: "CastOps list" where
  "cast_row_I64 =
     [Bad_Cast, Trunc, Trunc, No_Cast, Trunc, Trunc, BitCast, SIToFP, SIToFP,
      Bad_Cast, Trunc, Trunc, Bad_Cast, Bad_Cast, Bad_Cast, IntToPtr, Bad_Cast]"

definition cast_row_U16 :: "CastOps list" where
  "cast_row_U16 =
     [Bad_Cast, BitCast, ZExt, ZExt, No_Cast, ZExt, ZExt, UIToFP, UIToFP,
      Bad_Cast, Trunc, Trunc, Bad_Cast, Bad_Cast, Bad_Cast, IntToPtr, Bad_Cast]"

definition cast_row_U32 :: "CastOps list" where
  "cast_row_U32 =
     [Bad_Cast, Trunc, BitCast, ZExt, Trunc, No_Cast, ZExt, UIToFP, UIToFP,
      Bad_Cast, Trunc, Trunc, Bad_Cast, Bad_Cast, Bad_Cast, IntToPtr, Bad_Cast]"

definition cast_row_U64 :: "CastOps list" where
  "cast_row_U64 =
     [Bad_Cast, Trunc, Trunc, BitCast, Trunc, Trunc, No_Cast, UIToFP, UIToFP,
      Bad_Cast, Trunc, Trunc, Bad_Cast, Bad_Cast, Bad_Cast, IntToPtr, Bad_Cast]"

definition cast_row_F32 :: "CastOps list" where
  "cast_row_F32 =
     [Bad_Cast, FPToSI, FPToSI, FPToSI, FPToUI, FPToUI, FPToUI, No_Cast, FPExt,
      Bad_Cast, FPToSI, FPToUI, Bad_Cast, Bad_Cast, Bad_Cast, Bad_Cast, Bad_Cast]"

definition cast_row_F64 :: "CastOps list" where
  "cast_row_F64 =
     [Bad_Cast, FPToSI, FPToSI, FPToSI, FPToUI, FPToUI, FPToUI, FPTrunc, No_Cast,
      Bad_Cast, FPToSI, FPToUI, Bad_Cast, Bad_Cast, Bad_Cast, Bad_Cast, Bad_Cast]"

definition cast_row_BOOL :: "CastOps list" where
  "cast_row_BOOL =
     [Bad_Cast, ZExt, ZExt, ZExt, ZExt, ZExt, ZExt, Bad_Cast, Bad_Cast,
      No_Cast, ZExt, ZExt, Bad_Cast, Bad_Cast, Bad_Cast, Bad_Cast, Bad_Cast]"

definition cast_row_I8 :: "CastOps list" where
  "cast_row_I8 =
     [Bad_Cast, SExt, SExt, SExt, SExt, SExt, SExt, SIToFP, SIToFP,
      Bad_Cast, No_Cast, BitCast, Bad_Cast, Bad_Cast, Bad_Cast, Bad_Cast, Bad_Cast]"

definition cast_row_U8 :: "CastOps list" where
  "cast_row_U8 =
     [Bad_Cast, ZExt, ZExt, ZExt, ZExt, ZExt, ZExt, UIToFP, UIToFP,
      Bad_Cast, BitCast, No_Cast, Bad_Cast, Bad_Cast, Bad_Cast, Bad_Cast, Bad_Cast]"

definition cast_row_ATOMTYPE_END :: "CastOps list" where
  "cast_row_ATOMTYPE_END =
     [Bad_Cast, Bad_Cast, Bad_Cast, Bad_Cast, Bad_Cast, Bad_Cast, Bad_Cast, Bad_Cast, Bad_Cast,
      Bad_Cast, Bad_Cast, Bad_Cast, Bad_Cast, Bad_Cast, Bad_Cast, Bad_Cast, Bad_Cast]"

definition cast_row_STRUCT :: "CastOps list" where
  "cast_row_STRUCT =
     [Bad_Cast, Bad_Cast, Bad_Cast, Bad_Cast, Bad_Cast, Bad_Cast, Bad_Cast, Bad_Cast, Bad_Cast,
      Bad_Cast, Bad_Cast, Bad_Cast, Bad_Cast, Bad_Cast, Bad_Cast, Bad_Cast, Bad_Cast]"

definition cast_row_ARRAY :: "CastOps list" where
  "cast_row_ARRAY =
     [Bad_Cast, Bad_Cast, Bad_Cast, Bad_Cast, Bad_Cast, Bad_Cast, Bad_Cast, Bad_Cast, Bad_Cast,
      Bad_Cast, Bad_Cast, Bad_Cast, Bad_Cast, Bad_Cast, Bad_Cast, No_Cast, No_Cast]"

definition cast_row_POINTER :: "CastOps list" where
  "cast_row_POINTER =
     [Bad_Cast, PtrToInt, PtrToInt, PtrToInt, PtrToInt, PtrToInt, PtrToInt, Bad_Cast, Bad_Cast,
      Bad_Cast, Bad_Cast, Bad_Cast, Bad_Cast, Bad_Cast, Bad_Cast, BitCast, BitCast]"

definition cast_row_CSTRING :: "CastOps list" where
  "cast_row_CSTRING =
     [Bad_Cast, Bad_Cast, Bad_Cast, Bad_Cast, Bad_Cast, Bad_Cast, Bad_Cast, Bad_Cast, Bad_Cast,
      Bad_Cast, Bad_Cast, Bad_Cast, Bad_Cast, Bad_Cast, Bad_Cast, BitCast, BitCast]"

definition llvmtype_cast_table :: "CastOps list list" where
  "llvmtype_cast_table =
     [cast_row_VOID, cast_row_I16, cast_row_I32, cast_row_I64, cast_row_U16,
      cast_row_U32, cast_row_U64, cast_row_F32, cast_row_F64, cast_row_BOOL,
      cast_row_I8, cast_row_U8, cast_row_ATOMTYPE_END, cast_row_STRUCT, cast_row_ARRAY,
      cast_row_POINTER, cast_row_CSTRING]"

definition gen_cast_ops_token :: "tokenid \<Rightarrow> tokenid \<Rightarrow> CastOps result" where
  "gen_cast_ops_token fromtok totok = table_at llvmtype_cast_table fromtok totok"

definition gen_cast_ops :: "CADataType \<Rightarrow> CADataType \<Rightarrow> CastOps result" where
  "gen_cast_ops fromtype totype =
     (if signature fromtype = signature totype then Inr No_Cast
      else table_at llvmtype_cast_table (dt_type fromtype) (dt_type totype))"

subsection \<open>Comparisons\<close>

definition no_cmp :: "Predicate list" where
  "no_cmp = [FCMP_FALSE, FCMP_FALSE, FCMP_FALSE, FCMP_FALSE, FCMP_FALSE, FCMP_FALSE]"

definition signed_cmp :: "Predicate list" where
  "signed_cmp = [ICMP_SLT, ICMP_SGT, ICMP_SGE, ICMP_SLE, ICMP_NE, ICMP_EQ]"

definition unsigned_cmp :: "Predicate list" where
  "unsigned_cmp = [ICMP_ULT, ICMP_UGT, ICMP_UGE, ICMP_ULE, ICMP_NE, ICMP_EQ]"

definition float_cmp :: "Predicate list" where
  "float_cmp = [FCMP_OLT, FCMP_OGT, FCMP_OGE, FCMP_OLE, FCMP_ONE, FCMP_OEQ]"

definition s_cmp_predicate :: "Predicate list list" where
  "s_cmp_predicate =
    [no_cmp,        \<comment> \<open>VOID\<close>
     signed_cmp,    \<comment> \<open>I16\<close>
     signed_cmp,    \<comment> \<open>I32\<close>
     signed_cmp,    \<comment> \<open>I64\<close>
     unsigned_cmp,  \<comment> \<open>U16\<close>
     unsigned_cmp,  \<comment> \<open>U32\<close>
     unsigned_cmp,  \<comment> \<open>U64\<close>
     float_cmp,     \<comment> \<open>F32\<close>
     float_cmp,     \<comment> \<open>F64\<close>
     unsigned_cmp,  \<comment> \<open>BOOL\<close>
     signed_cmp,    \<comment> \<open>I8\<close>
     unsigned_cmp]  \<comment> \<open>U8\<close>"

definition cmp_op_index :: "other_token \<Rightarrow> nat" where
  "cmp_op_index op =
     (case op of
        LESS \<Rightarrow> 0 | GREATER \<Rightarrow> 1 | GE \<Rightarrow> 2 | LE \<Rightarrow> 3 | NE \<Rightarrow> 4 | EQ \<Rightarrow> 5
      | _ \<Rightarrow> 0x7fffffff)"

definition generate_cmp_op :: "tokenid \<Rightarrow> lvalue \<Rightarrow> lvalue \<Rightarrow> other_token \<Rightarrow> lvalue result" where
  "generate_cmp_op typetok v1 v2 op =
     (case tok_index typetok of
        None \<Rightarrow> Inl (Undefined ''table index out of range'')
      | Some i \<Rightarrow>
          if i < length s_cmp_predicate \<and> cmp_op_index op < 6
          then Inr (V_Cmp (s_cmp_predicate ! i ! cmp_op_index op) v1 v2)
          else Inl (Undefined ''table index out of range''))"

subsection \<open>Arithmetic\<close>

text \<open>\<open>None\<close> is \<open>nullptr\<close>; the switch is on the type of the first operand.\<close>

definition gen_two_ops_value :: "lvalue \<Rightarrow> lvalue \<Rightarrow> binary_instr \<Rightarrow> binary_instr \<Rightarrow> lvalue option" where
  "gen_two_ops_value a b floatfn intfn =
     (case vtype a of
        LT_Float \<Rightarrow> Some (V_Binary floatfn a b)
      | LT_Double \<Rightarrow> Some (V_Binary floatfn a b)
      | LT_Int _ \<Rightarrow> Some (V_Binary intfn a b)
      | _ \<Rightarrow> None)"

definition gen_add :: "lvalue \<Rightarrow> lvalue \<Rightarrow> lvalue option" where
  "gen_add a b = gen_two_ops_value a b FAdd Add"

definition gen_sub :: "lvalue \<Rightarrow> lvalue \<Rightarrow> lvalue option" where
  "gen_sub a b = gen_two_ops_value a b FSub Sub"

definition gen_mul :: "lvalue \<Rightarrow> lvalue \<Rightarrow> lvalue option" where
  "gen_mul a b = gen_two_ops_value a b FMul Mul"

definition gen_div :: "lvalue \<Rightarrow> lvalue \<Rightarrow> lvalue option" where
  "gen_div a b =
     (case vtype a of
        LT_Float \<Rightarrow> Some (V_Binary FDiv a b)
      | LT_Double \<Rightarrow> Some (V_Binary FDiv a b)
      | LT_Int _ \<Rightarrow> Some (V_Binary SDiv a b)
      | _ \<Rightarrow> None)"

definition gen_mod :: "lvalue \<Rightarrow> lvalue \<Rightarrow> lvalue option" where
  "gen_mod a b =
     (case vtype a of
        LT_Float \<Rightarrow> Some (V_Binary FRem a b)
      | LT_Double \<Rightarrow> Some (V_Binary FRem a b)
      | LT_Int _ \<Rightarrow> Some (V_Binary SRem a b)
      | _ \<Rightarrow> None)"

text \<open>\<open>gen_int<I>(value)\<close>: the bits of the value in the width of \<open>I\<close>.\<close>

definition gen_int :: "nat \<Rightarrow> int \<Rightarrow> lvalue" where
  "gen_int bits v = V_Const_Int bits (v mod 2 ^ bits)"

definition gen_bool :: "bool \<Rightarrow> lvalue" where
  "gen_bool b = V_Const_Int 1 (if b then 1 else 0)"

fun create_default_integer_value :: "tokenid \<Rightarrow> int \<Rightarrow> lvalue option result" where
  "create_default_integer_value I16 defv = Inr (Some (gen_int 16 defv))"
| "create_default_integer_value I32 defv = Inr (Some (gen_int 32 defv))"
| "create_default_integer_value I64 defv = Inr (Some (gen_int 64 defv))"
| "create_default_integer_value U16 defv = Inr (Some (gen_int 16 defv))"
| "create_default_integer_value U32 defv = Inr (Some (gen_int 32 defv))"
| "create_default_integer_value U64 defv = Inr (Some (gen_int 64 defv))"
| "create_default_integer_value I8 defv = Inr (Some (gen_int 8 defv))"
| "create_default_integer_value U8 defv = Inr (Some (gen_int 8 defv))"
| "create_default_integer_value BOOL defv = Inr (Some (gen_bool (defv = 0)))"
| "create_default_integer_value VOID defv = Inr None"
| "create_default_integer_value typetok defv =
     bind_result (get_type_string typetok) (\<lambda>_. Inl (Exit ''(internal) return type `%s` not implemented''))"

definition tidy_value_with_arith :: "lvalue \<Rightarrow> tokenid \<Rightarrow> lvalue" where
  "tidy_value_with_arith v typetok =
     (let v = (if typetok = F32 then V_Cast FPExt v LT_Double else v)
      in if typetok = BOOL then V_Cast ZExt v (LT_Int 32) else v)"

subsection \<open>Operators and conversions of expressions (\<open>llvm/IR_generator.cpp\<close>)\<close>

datatype expr_op =
    Op_Plus | Op_Minus | Op_Times | Op_Div | Op_Mod | Op_Compare other_token
  | Op_BAND | Op_BOR | Op_BXOR | Op_SHIFTL | Op_SHIFTR | Op_Other

text \<open>\<open>case '-'\<close> falls through to \<open>case '+'\<close>.\<close>

definition handle_pointer_op :: "expr_op \<Rightarrow> LType \<Rightarrow> lvalue \<Rightarrow> lvalue \<Rightarrow> lvalue option result" where
  "handle_pointer_op op pointee v1 v2 =
     (case op of
        Op_Minus \<Rightarrow>
          (case gen_sub (gen_int 64 0) (V_Cast SExt v2 (LT_Int 64)) of
             Some m \<Rightarrow> Inr (Some (V_GEP pointee v1 m))
           | None \<Rightarrow> Inl (Undefined ''null value''))
      | Op_Plus \<Rightarrow> Inr (Some (V_GEP pointee v1 v2))
      | _ \<Rightarrow> Inl (Exit ''pointer operation only support `+` and `-`, but find `%c`''))"

text \<open>
  The value and whether its type is \<open>BOOL\<close> instead of the type of the first operand;
  \<open>identical\<close> is the answer of \<open>catype_check_identical_in_symtable\<close>.
\<close>

definition walk_expr_op2_value ::
  "expr_op \<Rightarrow> bool \<Rightarrow> tokenid \<Rightarrow> tokenid \<Rightarrow> LType \<Rightarrow> lvalue \<Rightarrow> lvalue \<Rightarrow> (lvalue option \<times> bool) result" where
  "walk_expr_op2_value op identical tok1 tok2 pointee v1 v2 =
     (if tok1 = POINTER \<and> catype_is_integer tok2
      then bind_result (handle_pointer_op op pointee v1 v2) (\<lambda>v. Inr (v, False))
      else if op \<noteq> Op_SHIFTL \<and> op \<noteq> Op_SHIFTR \<and> \<not> identical
      then Inl (Exit ''operation have 2 different types: %s, %s'')
      else (case op of
          Op_Plus \<Rightarrow> Inr (gen_add v1 v2, False)
        | Op_Minus \<Rightarrow> Inr (gen_sub v1 v2, False)
        | Op_Times \<Rightarrow> Inr (gen_mul v1 v2, False)
        | Op_Div \<Rightarrow> Inr (gen_div v1 v2, False)
        | Op_Mod \<Rightarrow> Inr (gen_mod v1 v2, False)
        | Op_Compare c \<Rightarrow> bind_result (generate_cmp_op tok1 v1 v2 c) (\<lambda>v. Inr (Some v, True))
        | Op_BAND \<Rightarrow> Inr (Some (V_Binary BAnd v1 v2), False)
        | Op_BOR \<Rightarrow> Inr (Some (V_Binary BOr v1 v2), False)
        | Op_BXOR \<Rightarrow> Inr (Some (V_Binary BXor v1 v2), False)
        | Op_SHIFTL \<Rightarrow> Inr (Some (V_Binary Shl v1 (V_ZExtOrTrunc v2 (vtype v1))), False)
        | Op_SHIFTR \<Rightarrow>
            Inr (Some (V_Binary (if catype_is_signed tok1 then AShr else LShr) v1
              (V_ZExtOrTrunc v2 (vtype v1))), False)
        | Op_Other \<Rightarrow> Inl (Exit ''unknown expression operands: %d'')))"

text \<open>\<open>stype\<close> is the LLVM type of \<open>astype\<close>; the flag says that the result is a stack slot.\<close>

definition walk_expr_as_value ::
  "CADataType \<Rightarrow> CADataType \<Rightarrow> LType \<Rightarrow> lvalue \<Rightarrow> (lvalue \<times> bool) result" where
  "walk_expr_as_value exprcatype astype stype v =
     bind_result (gen_cast_ops exprcatype astype) (\<lambda>castopt.
       if castopt = Bad_Cast then Inl (Exit ''cannot convert `%s` into `%s`'')
       else if dt_type exprcatype = ARRAY \<and> dt_type astype = POINTER
       then Inr (V_Alloca stype (V_Cast BitCast v stype), True)
       else Inr (if castopt \<noteq> No_Cast then V_Cast castopt v stype else v, False))"

subsection \<open>What the conversions compute\<close>

text \<open>The value of the low bits of a word: \<open>sval\<close> as a signed number, \<open>int_value\<close> in a type.\<close>

definition sval :: "nat \<Rightarrow> nat \<Rightarrow> int" where
  "sval w x = (if x < 2 ^ (w - 1) then int x else int x - 2 ^ w)"

definition int_value :: "tokenid \<Rightarrow> nat \<Rightarrow> nat \<Rightarrow> int" where
  "int_value t w x = (if catype_is_signed t then sval w x else int x)"

text \<open>
  LLVM's documented rules: which conversions are well typed (\<open>valid\<close>), and what the integer ones
  compute on \<open>w\<close>-bit words (\<open>run\<close>).
\<close>

definition llvm_cast_types :: "(CastOps \<Rightarrow> LType \<Rightarrow> LType \<Rightarrow> bool) \<Rightarrow> bool" where
  "llvm_cast_types valid \<longleftrightarrow>
     (\<forall>w w'. w' < w \<longrightarrow> valid Trunc (LT_Int w) (LT_Int w')) \<and>
     (\<forall>w w'. w < w' \<longrightarrow> valid ZExt (LT_Int w) (LT_Int w') \<and> valid SExt (LT_Int w) (LT_Int w')) \<and>
     (\<forall>f w. f \<in> {LT_Float, LT_Double} \<longrightarrow>
        valid FPToUI f (LT_Int w) \<and> valid FPToSI f (LT_Int w) \<and>
        valid UIToFP (LT_Int w) f \<and> valid SIToFP (LT_Int w) f) \<and>
     valid FPTrunc LT_Double LT_Float \<and> valid FPExt LT_Float LT_Double \<and>
     (\<forall>t w. valid PtrToInt (LT_Pointer t) (LT_Int w) \<and> valid IntToPtr (LT_Int w) (LT_Pointer t)) \<and>
     (\<forall>w. valid BitCast (LT_Int w) (LT_Int w)) \<and> (\<forall>t u. valid BitCast (LT_Pointer t) (LT_Pointer u))"

definition llvm_int_casts :: "(CastOps \<Rightarrow> nat \<Rightarrow> nat \<Rightarrow> nat \<Rightarrow> nat) \<Rightarrow> bool" where
  "llvm_int_casts run \<longleftrightarrow>
     (\<forall>w w' x. x < 2 ^ w \<longrightarrow>
        (w' < w \<longrightarrow> run Trunc w w' x = x mod 2 ^ w') \<and>
        (w < w' \<longrightarrow> run ZExt w w' x = x) \<and>
        (w < w' \<longrightarrow> run SExt w w' x = (if x < 2 ^ (w - 1) then x else x + (2 ^ w' - 2 ^ w))) \<and>
        run BitCast w w x = x)"

definition number_types :: "tokenid set" where
  "number_types = {I16, I32, I64, U16, U32, U64, F32, F64, I8, U8}"

lemmas cast_table_defs = gen_cast_ops_token_def table_at_def llvmtype_cast_table_def
  cast_row_VOID_def cast_row_I16_def cast_row_I32_def cast_row_I64_def cast_row_U16_def cast_row_U32_def
  cast_row_U64_def cast_row_F32_def cast_row_F64_def cast_row_BOOL_def cast_row_I8_def cast_row_U8_def
  cast_row_ATOMTYPE_END_def cast_row_STRUCT_def cast_row_ARRAY_def cast_row_POINTER_def cast_row_CSTRING_def

lemma cast_table_rows: "length llvmtype_cast_table = 17" "\<forall>r\<in>set llvmtype_cast_table. length r = 17"
  by (simp_all add: cast_table_defs)

text \<open>The operation between two integer types, as a rule.\<close>

definition int_cast_rule :: "tokenid \<Rightarrow> nat \<Rightarrow> tokenid \<Rightarrow> nat \<Rightarrow> CastOps" where
  "int_cast_rule s w t w' =
     (if s = t then No_Cast else if w' = w then BitCast else if w' < w then Trunc
      else if catype_is_signed s then SExt else ZExt)"

lemma int_cast_table:
  assumes "int_type_bits s = Some w" "int_type_bits t = Some w'"
  shows "gen_cast_ops_token s t = Inr (int_cast_rule s w t w')"
  using assms by (cases s; cases t; simp add: cast_table_defs int_cast_rule_def catype_is_signed_def)

lemma int_type_bits_pos: "int_type_bits t = Some w \<Longrightarrow> 0 < w"
  by (cases t) auto

lemma int_value_mod:
  assumes "0 < w"
  shows "int_value t w x mod 2 ^ w = int x mod 2 ^ w"
  by (simp add: int_value_def sval_def)

lemma sext_mod:
  assumes "w < w'" "x < 2 ^ w" "0 < w"
  defines "y \<equiv> (if x < 2 ^ (w - 1) then x else x + (2 ^ w' - 2 ^ w))"
  shows "y < 2 ^ w'" "int y mod 2 ^ w' = sval w x mod 2 ^ w'"
proof -
  have p: "(2::nat) ^ w \<le> 2 ^ w'" using assms(1) by (simp add: power_increasing)
  have "a + (c - b) < c" if "a < b" "b \<le> c" for a b c :: nat using that by linarith
  from this [OF assms(2) p] show "y < 2 ^ w'"
    using less_le_trans [OF assms(2) p] unfolding y_def by (simp split: if_splits)
  have "int y = sval w x + (if x < 2 ^ (w - 1) then 0 else 2 ^ w')"
    unfolding y_def sval_def using of_nat_diff [OF p, where 'a = int] by (simp only: of_nat_add split: if_split) simp
  then show "int y mod 2 ^ w' = sval w x mod 2 ^ w'" by simp
qed

lemma run_int_cast:
  assumes "llvm_int_casts run" "int_type_bits s = Some w" "int_type_bits t = Some w'" "x < 2 ^ w"
    and "y = (if int_cast_rule s w t w' = No_Cast then x else run (int_cast_rule s w t w') w w' x)"
  shows "y < 2 ^ w'" "int y mod 2 ^ w' = int_value s w x mod 2 ^ w'"
proof -
  have pos: "0 < w" "0 < w'" using assms(2,3) int_type_bits_pos by auto
  note run = assms(1) [unfolded llvm_int_casts_def, rule_format, OF assms(4)]
  consider "s = t" "w' = w" | "s \<noteq> t" "w' = w" | "s \<noteq> t" "w' < w" | "s \<noteq> t" "w < w'" "catype_is_signed s"
    | "s \<noteq> t" "w < w'" "\<not> catype_is_signed s"
    using assms(2,3) by fastforce
  then have "y < 2 ^ w' \<and> int y mod 2 ^ w' = int_value s w x mod 2 ^ w'"
  proof cases
    case 3
    then have "y = x mod 2 ^ w'" using assms(5) run by (simp add: int_cast_rule_def)
    moreover have "(2::int) ^ w' dvd 2 ^ w" using 3 by (simp add: le_imp_power_dvd)
    then have "int_value s w x mod 2 ^ w mod 2 ^ w' = int_value s w x mod 2 ^ w'" by (simp add: mod_mod_cancel)
    then have "int_value s w x mod 2 ^ w' = int x mod 2 ^ w'"
      using assms(4) int_value_mod [OF pos(1), of s x] by simp
    ultimately show ?thesis by (simp add: zmod_int)
  next
    case 4
    then have "y = (if x < 2 ^ (w - 1) then x else x + (2 ^ w' - 2 ^ w))"
      using assms(5) run by (simp add: int_cast_rule_def)
    with 4 sext_mod [OF 4(2) assms(4) pos(1)] show ?thesis by (simp add: int_value_def)
  next
    case 5
    have "(2::nat) ^ w < 2 ^ w'" using 5 by simp
    with assms(4) have "x < 2 ^ w'" by (rule less_trans)
    with 5 run assms(5) show ?thesis by (simp add: int_cast_rule_def int_value_def)
  qed (use assms(4,5) run int_value_mod [OF pos(1), of s x] in \<open>auto simp: int_cast_rule_def\<close>)
  then show "y < 2 ^ w'" "int y mod 2 ^ w' = int_value s w x mod 2 ^ w'" by auto
qed

lemma int_value_range:
  assumes "int_type_bits t = Some w" "x < 2 ^ w"
  shows "in_type_range t (int_value t w x)"
proof -
  have "0 < w" using assms(1) by (rule int_type_bits_pos)
  then have p: "(2::int) ^ w = 2 * 2 ^ (w - 1)" by (cases w) simp_all
  have "int x < 2 ^ w" using assms(2) by (metis of_nat_less_iff of_nat_numeral of_nat_power)
  moreover have "x < 2 ^ (w - 1) \<longleftrightarrow> int x < 2 ^ (w - 1)" by (metis of_nat_less_iff of_nat_numeral of_nat_power)
  ultimately show ?thesis using assms(1) p by (auto simp: in_type_range_def int_value_def sval_def)
qed

text \<open>Claim C11: \<open>e as t\<close> between integer types is C's conversion: the bits the chosen instruction gives
  stand for the value of \<open>t\<close> that is congruent to the value of \<open>e\<close> modulo two to the width of
  \<open>t\<close>, so for the value itself whenever \<open>t\<close> can hold it.\<close>

theorem int_cast_value:
  assumes "llvm_int_casts run" "int_type_bits s = Some w" "int_type_bits t = Some w'" "x < 2 ^ w"
  shows "\<exists>op. gen_cast_ops_token s t = Inr op \<and> op \<noteq> Bad_Cast \<and>
    (let y = if op = No_Cast then x else run op w w' x
     in in_type_range t (int_value t w' y) \<and> int_value t w' y mod 2 ^ w' = int_value s w x mod 2 ^ w'
      \<and> (in_type_range t (int_value s w x) \<longrightarrow> int_value t w' y = int_value s w x))"
proof -
  define y where "y = (if int_cast_rule s w t w' = No_Cast then x else run (int_cast_rule s w t w') w w' x)"
  note y = run_int_cast [OF assms y_def]
  have r: "in_type_range t (int_value t w' y)" using assms(3) y(1) by (rule int_value_range)
  have pos: "0 < w'" using assms(3) by (rule int_type_bits_pos)
  have c: "int_value t w' y mod 2 ^ w' = int_value s w x mod 2 ^ w'"
    using y(2) int_value_mod [OF pos, of t y] by simp
  have "int_value t w' y = int_value s w x" if i: "in_type_range t (int_value s w x)"
  proof -
    have p: "(2::int) ^ w' = 2 * 2 ^ (w' - 1)" using pos by (cases w') simp_all
    define e where "e = (if catype_is_signed t then (2::int) ^ (w' - 1) else 0)"
    have "(int_value t w' y + e) mod 2 ^ w' = (int_value s w x + e) mod 2 ^ w'" using c by (metis mod_add_left_eq)
    moreover have "0 \<le> int_value t w' y + e \<and> int_value t w' y + e < 2 ^ w'"
      "0 \<le> int_value s w x + e \<and> int_value s w x + e < 2 ^ w'"
      using r i p assms(3) by (auto simp: in_type_range_def e_def split: if_splits)
    ultimately show ?thesis by (metis add_right_cancel mod_pos_pos_trivial)
  qed
  then show ?thesis using int_cast_table [OF assms(2,3)] r c
    by (auto simp: int_cast_rule_def Let_def y_def)
qed

definition sample_casts :: "CastOps \<Rightarrow> nat \<Rightarrow> nat \<Rightarrow> nat \<Rightarrow> nat" where
  "sample_casts op w w' x =
     (if op = Trunc then x mod 2 ^ w'
      else if op = SExt \<and> 2 ^ (w - 1) \<le> x then x + (2 ^ w' - 2 ^ w) else x)"

lemma sample_casts_ok: "llvm_int_casts sample_casts"
  by (simp add: llvm_int_casts_def sample_casts_def)

theorem int_cast_value_witness:
  "\<exists>op. gen_cast_ops_token I8 U32 = Inr op \<and> int_value U32 32 (sample_casts op 8 32 255) = 4294967295"
proof -
  have "int_type_bits I8 = Some 8" "int_type_bits U32 = Some 32" "(255::nat) < 2 ^ 8" by simp_all
  from int_cast_value [OF sample_casts_ok this] show ?thesis
    by (auto simp: cast_table_defs Let_def int_value_def sample_casts_def catype_is_signed_def)
qed


definition sample_valid :: "CastOps \<Rightarrow> LType \<Rightarrow> LType \<Rightarrow> bool" where
  "sample_valid op a b =
     (case (a, b) of
        (LT_Int w, LT_Int w') \<Rightarrow> op = Trunc \<and> w' < w \<or> op \<in> {ZExt, SExt} \<and> w < w' \<or> op = BitCast \<and> w = w'
      | (LT_Int _, LT_Pointer _) \<Rightarrow> op = IntToPtr
      | (LT_Pointer _, LT_Int _) \<Rightarrow> op = PtrToInt
      | (LT_Pointer _, LT_Pointer _) \<Rightarrow> op = BitCast
      | (LT_Int _, _) \<Rightarrow> op \<in> {UIToFP, SIToFP} \<and> b \<in> {LT_Float, LT_Double}
      | (_, LT_Int _) \<Rightarrow> op \<in> {FPToUI, FPToSI} \<and> a \<in> {LT_Float, LT_Double}
      | _ \<Rightarrow> op = FPTrunc \<and> a = LT_Double \<and> b = LT_Float \<or> op = FPExt \<and> a = LT_Float \<and> b = LT_Double)"




subsection \<open>What the operators compute\<close>

fun compare_ints :: "other_token \<Rightarrow> int \<Rightarrow> int \<Rightarrow> bool" where
  "compare_ints LESS a b = (a < b)"
| "compare_ints GREATER a b = (b < a)"
| "compare_ints GE a b = (b \<le> a)"
| "compare_ints LE a b = (a \<le> b)"
| "compare_ints NE a b = (a \<noteq> b)"
| "compare_ints EQ a b = (a = b)"
| "compare_ints _ a b = False"

definition comparison_tokens :: "other_token set" where
  "comparison_tokens = {LESS, GREATER, GE, LE, NE, EQ}"

text \<open>LLVM's documented integer comparisons on \<open>w\<close>-bit words.\<close>

definition llvm_int_compare :: "(Predicate \<Rightarrow> nat \<Rightarrow> nat \<Rightarrow> nat \<Rightarrow> bool) \<Rightarrow> bool" where
  "llvm_int_compare holds_p \<longleftrightarrow>
     (\<forall>w a b. (holds_p ICMP_EQ w a b \<longleftrightarrow> a = b) \<and> (holds_p ICMP_NE w a b \<longleftrightarrow> a \<noteq> b) \<and>
        (holds_p ICMP_ULT w a b \<longleftrightarrow> a < b) \<and> (holds_p ICMP_UGT w a b \<longleftrightarrow> b < a) \<and>
        (holds_p ICMP_ULE w a b \<longleftrightarrow> a \<le> b) \<and> (holds_p ICMP_UGE w a b \<longleftrightarrow> b \<le> a) \<and>
        (holds_p ICMP_SLT w a b \<longleftrightarrow> sval w a < sval w b) \<and> (holds_p ICMP_SGT w a b \<longleftrightarrow> sval w b < sval w a) \<and>
        (holds_p ICMP_SLE w a b \<longleftrightarrow> sval w a \<le> sval w b) \<and> (holds_p ICMP_SGE w a b \<longleftrightarrow> sval w b \<le> sval w a))"

lemma sval_eq_iff: "a < 2 ^ w \<Longrightarrow> b < 2 ^ w \<Longrightarrow> sval w a = sval w b \<longleftrightarrow> a = b"
proof -
  assume "a < 2 ^ w" "b < 2 ^ w"
  then have "int a < 2 ^ w" "int b < 2 ^ w" by (metis of_nat_less_iff of_nat_numeral of_nat_power)+
  then have "sval w a = sval w b \<Longrightarrow> int a = int b"
    unfolding sval_def by (simp only: split: if_splits)
  then show ?thesis by auto
qed

text \<open>Claim C33: a comparison of two integers, or of two \<open>bool\<close>s, compares their values: signed types
  as signed and unsigned ones as unsigned numbers, with every operator.\<close>

theorem comparison_by_value:
  assumes "llvm_int_compare holds_p" "int_type_bits t = Some w \<or> t = BOOL \<and> w = 1" "op \<in> comparison_tokens"
    and "a < 2 ^ w" "b < 2 ^ w"
  shows "\<exists>p. walk_expr_op2_value (Op_Compare op) True t t c v1 v2 = Inr (Some (V_Cmp p v1 v2), True)
    \<and> (holds_p p w a b \<longleftrightarrow> compare_ints op (int_value t w a) (int_value t w b))"
proof -
  note r = assms(1) [unfolded llvm_int_compare_def, rule_format, of w a b]
  have e: "sval w a = sval w b \<longleftrightarrow> a = b" using assms(4,5) by (rule sval_eq_iff)
  have "t \<noteq> POINTER" using assms(2) by auto
  moreover obtain i where "tok_index t = Some i" "i < length s_cmp_predicate"
      "s_cmp_predicate ! i = (if catype_is_signed t then signed_cmp else unsigned_cmp)"
    using assms(2) by (cases t) (auto simp: s_cmp_predicate_def catype_is_signed_def)
  moreover have "cmp_op_index op < 6" using assms(3) by (auto simp: comparison_tokens_def cmp_op_index_def)
  ultimately have "walk_expr_op2_value (Op_Compare op) True t t c v1 v2 =
      Inr (Some (V_Cmp ((if catype_is_signed t then signed_cmp else unsigned_cmp) ! cmp_op_index op) v1 v2), True)"
    by (simp add: walk_expr_op2_value_def generate_cmp_op_def)
  moreover have "holds_p ((if catype_is_signed t then signed_cmp else unsigned_cmp) ! cmp_op_index op) w a b
      \<longleftrightarrow> compare_ints op (int_value t w a) (int_value t w b)"
    using assms(3) e unfolding comparison_tokens_def
    by (cases "catype_is_signed t"; elim insertE emptyE)
       (simp_all add: signed_cmp_def unsigned_cmp_def cmp_op_index_def int_value_def r)
  ultimately show ?thesis by blast
qed

definition sample_compare :: "Predicate \<Rightarrow> nat \<Rightarrow> nat \<Rightarrow> nat \<Rightarrow> bool" where
  "sample_compare p w a b =
     (case p of
        ICMP_EQ \<Rightarrow> a = b | ICMP_NE \<Rightarrow> a \<noteq> b | ICMP_ULT \<Rightarrow> a < b | ICMP_UGT \<Rightarrow> b < a | ICMP_ULE \<Rightarrow> a \<le> b
      | ICMP_UGE \<Rightarrow> b \<le> a | ICMP_SLT \<Rightarrow> sval w a < sval w b | ICMP_SGT \<Rightarrow> sval w b < sval w a
      | ICMP_SLE \<Rightarrow> sval w a \<le> sval w b | ICMP_SGE \<Rightarrow> sval w b \<le> sval w a | _ \<Rightarrow> False)"

theorem comparison_by_value_witness:
  "\<exists>p. walk_expr_op2_value (Op_Compare LESS) True I8 I8 LT_Void (V_Given 1 (LT_Int 8)) (V_Given 2 (LT_Int 8))
      = Inr (Some (V_Cmp p (V_Given 1 (LT_Int 8)) (V_Given 2 (LT_Int 8))), True)
    \<and> sample_compare p 8 255 1"
proof -
  have "llvm_int_compare sample_compare" by (simp add: llvm_int_compare_def sample_compare_def)
  from comparison_by_value [OF this, of I8 8 LESS 255 1] show ?thesis
    by (auto simp: comparison_tokens_def int_value_def catype_is_signed_def sval_def)
qed

text \<open>LLVM's documented integer arithmetic; what it leaves undefined is left open.\<close>

definition llvm_int_arith :: "(binary_instr \<Rightarrow> nat \<Rightarrow> nat \<Rightarrow> nat \<Rightarrow> nat option) \<Rightarrow> bool" where
  "llvm_int_arith exec \<longleftrightarrow>
     (\<forall>w a b. a < 2 ^ w \<longrightarrow> b < 2 ^ w \<longrightarrow>
        exec Add w a b = Some (nat ((int a + int b) mod 2 ^ w)) \<and>
        exec Sub w a b = Some (nat ((int a - int b) mod 2 ^ w)) \<and>
        exec Mul w a b = Some (nat ((int a * int b) mod 2 ^ w)) \<and>
        (b \<noteq> 0 \<and> \<not> (sval w a = - (2 ^ (w - 1)) \<and> sval w b = - 1) \<longrightarrow>
           exec SDiv w a b = Some (nat ((sval w a sdiv sval w b) mod 2 ^ w)) \<and>
           exec SRem w a b = Some (nat ((sval w a smod sval w b) mod 2 ^ w))) \<and>
        (b < w \<longrightarrow>
           exec Shl w a b = Some (nat ((int a * 2 ^ b) mod 2 ^ w)) \<and>
           exec LShr w a b = Some (nat ((int a div 2 ^ b) mod 2 ^ w)) \<and>
           exec AShr w a b = Some (nat ((sval w a div 2 ^ b) mod 2 ^ w))))"

text \<open>The operators on the values.\<close>

definition int_op :: "expr_op \<Rightarrow> int \<Rightarrow> int \<Rightarrow> int option" where
  "int_op op x y =
     (case op of
        Op_Plus \<Rightarrow> Some (x + y) | Op_Minus \<Rightarrow> Some (x - y) | Op_Times \<Rightarrow> Some (x * y)
      | Op_Div \<Rightarrow> if y = 0 then None else Some (x sdiv y)
      | Op_Mod \<Rightarrow> if y = 0 then None else Some (x smod y)
      | Op_SHIFTL \<Rightarrow> Some (x * 2 ^ nat y) | Op_SHIFTR \<Rightarrow> Some (x div 2 ^ nat y)
      | _ \<Rightarrow> None)"

text \<open>Where the two agree: no signed overflow of a division, and shifts by less than the width.\<close>

definition op_defined :: "expr_op \<Rightarrow> tokenid \<Rightarrow> nat \<Rightarrow> nat \<Rightarrow> nat \<Rightarrow> bool" where
  "op_defined op t w a b \<longleftrightarrow>
     (op = Op_Div \<or> op = Op_Mod \<longrightarrow>
        catype_is_signed t \<and> \<not> (sval w a = - (2 ^ (w - 1)) \<and> sval w b = - 1)) \<and>
     (op = Op_SHIFTL \<or> op = Op_SHIFTR \<longrightarrow> b < w)"

lemma nat_mod_bits: "nat (z mod 2 ^ w) < 2 ^ w" "int (nat (z mod 2 ^ w)) mod 2 ^ w = z mod 2 ^ w"
proof -
  have "z mod 2 ^ w < (2::int) ^ w" by simp
  then have "nat (z mod 2 ^ w) < nat (2 ^ w)" by (simp only: nat_less_eq_zless pos_mod_sign zero_less_power)
  then show "nat (z mod 2 ^ w) < 2 ^ w" by (simp add: nat_power_eq)
qed simp

lemma shift_count: "int_type_bits t = Some w \<Longrightarrow> b < w \<Longrightarrow> nat (int_value t w b) = b"
proof -
  assume t: "int_type_bits t = Some w" and b: "b < w"
  then have "w \<in> {8, 16, 32, 64}" by (cases t) auto
  with b have "b < 2 ^ (w - 1)" by auto
  then show ?thesis by (simp add: int_value_def sval_def)
qed

lemma int_value_zero: "int_type_bits t = Some w \<Longrightarrow> b < 2 ^ w \<Longrightarrow> sval w b = 0 \<longleftrightarrow> b = 0"
  using sval_eq_iff [of b w 0] by (simp add: sval_def)

text \<open>Claim C34: the integer operators compute, in the width of the type, the result on the values of
  the operands: addition, subtraction, multiplication and shifts modulo two to the width for
  every integer type, division and remainder rounded to zero for signed types.\<close>

theorem integer_operators:
  assumes "llvm_int_arith exec" "int_type_bits t = Some w" "vtype v1 = LT_Int w" "a < 2 ^ w" "b < 2 ^ w"
    and "int_op op (int_value t w a) (int_value t w b) = Some z" "op_defined op t w a b"
  shows "\<exists>f v2' c. walk_expr_op2_value op True t t p v1 v2 = Inr (Some (V_Binary f v1 v2'), False)
    \<and> v2' \<in> {v2, V_ZExtOrTrunc v2 (LT_Int w)} \<and> exec f w a b = Some c
    \<and> c < 2 ^ w \<and> int_value t w c mod 2 ^ w = z mod 2 ^ w"
proof -
  have pos: "0 < w" using assms(2) by (rule int_type_bits_pos)
  have t: "t \<noteq> POINTER" using assms(2) by auto
  note r = assms(1) [unfolded llvm_int_arith_def, rule_format, OF assms(4,5)]
  note mods = int_value_mod [OF pos, of t]
  have ring: "(int_value t w a + int_value t w b) mod 2 ^ w = (int a + int b) mod 2 ^ w"
    "(int_value t w a - int_value t w b) mod 2 ^ w = (int a - int b) mod 2 ^ w"
    "(int_value t w a * int_value t w b) mod 2 ^ w = (int a * int b) mod 2 ^ w"
    "(int_value t w a * 2 ^ b) mod 2 ^ w = (int a * 2 ^ b) mod 2 ^ w"
    using mods by (metis mod_add_cong) (metis mods mod_diff_cong, metis mods mod_mult_cong, metis mods mod_mult_cong)
  have fin: ?thesis
    if "walk_expr_op2_value op True t t p v1 v2 = Inr (Some (V_Binary f v1 v2'), False)"
      "v2' \<in> {v2, V_ZExtOrTrunc v2 (LT_Int w)}" "exec f w a b = Some (nat (y mod 2 ^ w))" "z mod 2 ^ w = y mod 2 ^ w"
    for f v2' y
    using that nat_mod_bits [of y w] mods [of "nat (y mod 2 ^ w)"] by metis
  note w2 = walk_expr_op2_value_def gen_add_def gen_sub_def gen_mul_def gen_div_def gen_mod_def gen_two_ops_value_def
  show ?thesis
  proof (cases op)
    case Op_Plus
    show ?thesis by (rule fin [of Add v2 "int a + int b"]) (use Op_Plus assms t r ring in \<open>simp_all add: w2 int_op_def\<close>)
  next
    case Op_Minus
    show ?thesis by (rule fin [of Sub v2 "int a - int b"]) (use Op_Minus assms t r ring in \<open>simp_all add: w2 int_op_def\<close>)
  next
    case Op_Times
    show ?thesis by (rule fin [of Mul v2 "int a * int b"]) (use Op_Times assms t r ring in \<open>simp_all add: w2 int_op_def\<close>)
  next
    case Op_Div
    then have d: "catype_is_signed t" "\<not> (sval w a = - (2 ^ (w - 1)) \<and> sval w b = - 1)"
      using assms(7) by (auto simp: op_defined_def)
    then have "b \<noteq> 0" "z = sval w a sdiv sval w b"
      using Op_Div assms(6) int_value_zero [OF assms(2,5)] by (auto simp: int_op_def int_value_def split: if_splits)
    with d Op_Div t r assms(3) show ?thesis by (intro fin [of SDiv v2 z]) (simp_all add: w2)
  next
    case Op_Mod
    then have d: "catype_is_signed t" "\<not> (sval w a = - (2 ^ (w - 1)) \<and> sval w b = - 1)"
      using assms(7) by (auto simp: op_defined_def)
    then have "b \<noteq> 0" "z = sval w a smod sval w b"
      using Op_Mod assms(6) int_value_zero [OF assms(2,5)] by (auto simp: int_op_def int_value_def split: if_splits)
    with d Op_Mod t r assms(3) show ?thesis by (intro fin [of SRem v2 z]) (simp_all add: w2)
  next
    case Op_SHIFTL
    then have b: "b < w" using assms(7) by (auto simp: op_defined_def)
    with Op_SHIFTL assms(6) shift_count [OF assms(2)] have "z = int_value t w a * 2 ^ b" by (simp add: int_op_def)
    with b Op_SHIFTL t r ring assms(3) show ?thesis
      by (intro fin [of Shl "V_ZExtOrTrunc v2 (LT_Int w)" "int a * 2 ^ b"]) (simp_all add: w2)
  next
    case Op_SHIFTR
    then have b: "b < w" using assms(7) by (auto simp: op_defined_def)
    with Op_SHIFTR assms(6) shift_count [OF assms(2)] have z: "z = int_value t w a div 2 ^ b" by (simp add: int_op_def)
    show ?thesis
    proof (cases "catype_is_signed t")
      case True
      with b Op_SHIFTR t r z assms(3) show ?thesis
        by (intro fin [of AShr "V_ZExtOrTrunc v2 (LT_Int w)" z]) (simp_all add: w2 int_value_def)
    next
      case False
      with b Op_SHIFTR t r z assms(3) show ?thesis
        by (intro fin [of LShr "V_ZExtOrTrunc v2 (LT_Int w)" z]) (simp_all add: w2 int_value_def)
    qed
  qed (use assms(6) in \<open>simp_all add: int_op_def\<close>)
qed

definition sample_arith :: "binary_instr \<Rightarrow> nat \<Rightarrow> nat \<Rightarrow> nat \<Rightarrow> nat option" where
  "sample_arith f w a b =
     map_option (\<lambda>z. nat (z mod 2 ^ w))
      (case f of
         Add \<Rightarrow> Some (int a + int b) | Sub \<Rightarrow> Some (int a - int b) | Mul \<Rightarrow> Some (int a * int b)
       | SDiv \<Rightarrow> Some (sval w a sdiv sval w b) | SRem \<Rightarrow> Some (sval w a smod sval w b)
       | Shl \<Rightarrow> Some (int a * 2 ^ b) | LShr \<Rightarrow> Some (int a div 2 ^ b) | AShr \<Rightarrow> Some (sval w a div 2 ^ b)
       | _ \<Rightarrow> None)"

lemma sample_arith_ok: "llvm_int_arith sample_arith"
  by (simp add: llvm_int_arith_def sample_arith_def)

theorem integer_operators_witness:
  "\<exists>f v2' c. walk_expr_op2_value Op_Div True I8 I8 LT_Void (V_Given 1 (LT_Int 8)) (V_Given 2 (LT_Int 8))
      = Inr (Some (V_Binary f (V_Given 1 (LT_Int 8)) v2'), False)
    \<and> sample_arith f 8 249 2 = Some c \<and> int_value I8 8 c mod 256 = - 3 mod 256"
proof -
  have v: "vtype (V_Given 1 (LT_Int 8)) = LT_Int 8" "int_type_bits I8 = Some 8" by simp_all
  have o: "int_op Op_Div (int_value I8 8 249) (int_value I8 8 2) = Some (- 3)" "op_defined Op_Div I8 8 249 2"
    by (simp_all add: int_op_def int_value_def sval_def catype_is_signed_def op_defined_def signed_divide_int_def)
  have "(249::nat) < 2 ^ 8" "(2::nat) < 2 ^ 8" by simp_all
  from integer_operators [OF sample_arith_ok v(2,1) this o, of LT_Void "V_Given 2 (LT_Int 8)"] show ?thesis by simp blast
qed



subsection \<open>Outside the tables\<close>

text \<open>Comparing two pointers reads the table of comparisons outside its twelve rows,
  whatever the operator.\<close>

lemma pointer_comparison_out_of_table:
  "walk_expr_op2_value (Op_Compare op) True POINTER POINTER c v1 v2 = Inl (Undefined ''table index out of range'')"
  by (simp add: walk_expr_op2_value_def generate_cmp_op_def s_cmp_predicate_def)

text \<open>Converting a range or a slice to another type, or a value to one, reads outside the table.\<close>

lemma range_cast_out_of_table:
  assumes "signature e \<noteq> signature a" "dt_type a \<in> {RANGE, SLICE} \<or> dt_type e \<in> {RANGE, SLICE}"
  shows "walk_expr_as_value e a s v = Inl (Undefined ''table index out of range'')"
  using assms by (auto simp: walk_expr_as_value_def gen_cast_ops_def table_at_def split: option.splits)

text \<open>The default of \<open>bool\<close> is inverted: the default 0 of every other type is 0.\<close>

lemma default_bool_is_true:
  "create_default_integer_value BOOL 0 = Inr (Some (V_Const_Int 1 1))"
  "create_default_integer_value I8 0 = Inr (Some (V_Const_Int 8 0))"
  by (simp_all add: gen_bool_def gen_int_def)

text \<open>\<open>struct A { p: *[A; 3] }\<close>, a pointer to an array of the struct itself, has a size and a layout.\<close>

definition array_of_self :: llvm where
  "array_of_self = types.extend (world_of
     [plain POINTER 8 (Layout_Pointer 1 1 PP_Stack), plain ARRAY 24 (Layout_Array 2 1 [3]),
      plain STRUCT 8 (Layout_Struct 0)] [struct_of_types [0]]) (llvm.fields Map.empty Map.empty 0)"

text \<open>A struct that holds a pointer to an array of itself, \<open>struct A { p: *[A; 3] }\<close>, is laid out
  like any other struct, but making its LLVM type fails an assertion, which ends the compiler.\<close>

lemma array_of_self_asserts:
  "(case catype_formalize_layout 9 2 array_of_self of Inr (_, w') \<Rightarrow> offsets_of 2 w' | Inl _ \<Rightarrow> None) = Some ([0], 8)
   \<and> (case llvmtype_from_catype 9 2 array_of_self of Inl e \<Rightarrow> Some e | Inr _ \<Rightarrow> None)
     = Some (Exit ''Assertion failed'')"
  by code_simp

end
