(* ===== verification/Typedefs.thy ===== *)
theory Typedefs
  imports Catype
begin

section \<open>Type definitions (\<open>ca_parser.c\<close>)\<close>

text \<open>
  \<open>type A = T;\<close>, \<open>struct A {...}\<close> and \<open>struct A (...);\<close> enter the name \<open>A\<close>, as the type id \<open>t:A\<close>, into
  the current scope. The members of a struct were collected in a scope of their own, which
  \<open>make_struct_type\<close> closes; a tuple opened none.
\<close>

definition put_data_entry ::
  "addr \<Rightarrow> int \<Rightarrow> StructImplInfo entry_union \<Rightarrow> SLoc \<Rightarrow> ('z types_scheme, entry_ptr) action" where
  "put_data_entry st ident un here =
     act (sym_insert st ident Sym_DataType) (\<lambda>p.
     act (\<lambda>w. lift_result (get_entry p w) w) (\<lambda>e.
     act (set_entry p (e\<lparr>u := un, sloc := here\<rparr>)) (\<lambda>_. ret p)))"

definition make_type_def_entry :: "int \<Rightarrow> int \<Rightarrow> addr \<Rightarrow> SLoc \<Rightarrow> ('z types_scheme, entry_ptr) action" where
  "make_type_def_entry ident type symtable beg =
     act (sym_form_type_id ident) (\<lambda>newtype.
     act (catype_get_primitive_by_name newtype) (\<lambda>primtype.
     if primtype \<noteq> None then fail (Exit ''type alias id `%s` cannot be primitive type'')
     else
       act (\<lambda>w. lift_result (sym_getsym symtable newtype False w) w) (\<lambda>entry.
       if entry \<noteq> None then fail (Exit ''type `%s` defined multiple times'')
       else put_data_entry symtable newtype (U_Data Struct_NamedStruct type None symtable None) beg)))"

definition check_function_name :: "int \<Rightarrow> ('z types_scheme, entry_ptr option) action" where
  "check_function_name ident =
     act (sym_form_function_id ident) (\<lambda>fnname.
     act (reads curr_symtable) (\<lambda>cur. (\<lambda>w. lift_result (sym_getsym cur fnname False w) w)))"

definition make_struct_type ::
  "int \<Rightarrow> ST_ArgList \<Rightarrow> CAStructType \<Rightarrow> SLoc \<Rightarrow> ('z types_scheme, entry_ptr) action" where
  "make_struct_type ident arglist tuple here =
     act (reads curr_symtable) (\<lambda>inner.
     act (if tuple = Struct_NamedStruct then pop_symtable else ret inner) (\<lambda>cur.
     act (check_function_name ident) (\<lambda>fn.
     if fn \<noteq> None then fail (Exit ''tuple `%s` already defined as function in previous'')
     else
       act (sym_form_type_id ident) (\<lambda>structtype.
       act (\<lambda>w. lift_result (sym_getsym cur structtype False w) w) (\<lambda>entry.
       if entry \<noteq> None then fail (Exit ''type `%s` already defined'')
       else
         act (catype_get_primitive_by_name structtype) (\<lambda>primtype.
         if primtype \<noteq> None then fail (Exit ''struct type id `%s` cannot be primitive type'')
         else put_data_entry cur structtype
                (U_Data tuple structtype (Some (arglist\<lparr>al_symtable := inner\<rparr>)) cur None) here))))))"

text \<open>The actions of the grammar for a whole struct: the scope of the members, the members, the type.\<close>

fun add_struct_members :: "SLoc \<Rightarrow> (string \<times> string) list \<Rightarrow> ST_ArgList \<Rightarrow> ('z types_scheme, ST_ArgList) action" where
  "add_struct_members here [] al = ret al"
| "add_struct_members here ((f, t) # fs) al =
     act (intern f) (\<lambda>name.
     act (sym_form_type_id_by_str t) (\<lambda>ty.
     act (add_struct_member here al (al_symtable al) (cavar_create here name ty)) (add_struct_members here fs)))"

definition define_struct :: "SLoc \<Rightarrow> string \<Rightarrow> (string \<times> string) list \<Rightarrow> ('z types_scheme, entry_ptr) action" where
  "define_struct here name fs =
     act (intern name) (\<lambda>ident.
     act (reset_arglist_with_new_symtable (no_args 0)) (\<lambda>al.
     act (add_struct_members here fs al) (\<lambda>al.
     make_struct_type ident al Struct_NamedStruct here)))"

definition define_alias :: "SLoc \<Rightarrow> string \<Rightarrow> string \<Rightarrow> ('z types_scheme, entry_ptr) action" where
  "define_alias here name t =
     act (intern name) (\<lambda>ident.
     act (sym_form_type_id_by_str t) (\<lambda>ty.
     act (reads curr_symtable) (\<lambda>cur. make_type_def_entry ident ty cur here)))"

subsection \<open>Definitions keep the name table well formed\<close>

lemma keeps_names_scopes [keeps_intro]:
  "keeps (names_ok :: 'z types_scheme \<Rightarrow> bool) (sym_insert st ident ty)"
  "keeps (names_ok :: 'z types_scheme \<Rightarrow> bool) (set_entry p e)"
  "keeps (names_ok :: 'z types_scheme \<Rightarrow> bool) (sym_form_type_id i)"
  "keeps (names_ok :: 'z types_scheme \<Rightarrow> bool) (sym_form_type_id_by_str s)"
  unfolding sym_insert_def set_entry_def sym_form_type_id_def get_inner_type_string_def sym_form_type_id_by_str_def
  by (intro keeps_intro keeps_modifies; simp add: names_ok_def put_table_def)+

lemma keeps_names_alias: "keeps (names_ok :: 'z types_scheme \<Rightarrow> bool) (define_alias here name t)"
  unfolding define_alias_def make_type_def_entry_def put_data_entry_def by (intro keeps_intro)

end
