(* ===== verification/Unwind.thy ===== *)
theory Unwind
  imports Typedefs CText
begin

section \<open>Unwinding type names (\<open>type_system.cpp\<close>)\<close>

text \<open>
  A type id names a type by a text such as \<open>*[A;3]\<close>. Unwinding replaces every struct name by its
  definition, \<open>{A;p:*A,n:i32}\<close>, so that equal types get equal texts, and builds the type object
  on the way. \<open>prenamemap\<close> holds the structs being unwound further up (a second occurrence is
  left as a name), \<open>rcheckset\<close> those reached without a pointer in between (a second occurrence
  is a type of infinite size).

  \<open>sigbuf\<close> is the text written so far after \<open>t:\<close>; the 4094 bytes for it are zero when nothing has
  been written, so the text at a position is what was written from there on. Both callers'
  pointers \<open>typesize\<close> and \<open>retdt\<close> are results. \<open>None\<close> is the \<open>-1\<close> of a failure that is not yet
  reported. The type of \<open>typeof(e)\<close> comes from type inference, the parameter \<open>infer\<close>.
\<close>

definition sigbuf_size :: nat where
  "sigbuf_size = 4094"

text \<open>Single characters need a byte, \<open>strcpy\<close> and \<open>sprintf\<close> one more for the NUL.\<close>

definition put_chars :: "string \<Rightarrow> string \<Rightarrow> string result" where
  "put_chars s sigbuf =
     (if length sigbuf + length s \<le> sigbuf_size then Inr (sigbuf @ s) else Inl (Undefined ''buffer overrun''))"

definition put_text :: "string \<Rightarrow> string \<Rightarrow> string result" where
  "put_text s sigbuf =
     (if length sigbuf + length s < sigbuf_size then Inr (sigbuf @ s) else Inl (Undefined ''buffer overrun''))"

text \<open>Compared as integers, they run faster.\<close>

lemma put_code [code]:
  "put_chars s sb = (if int (length sb) + int (length s) \<le> 4094 then Inr (sb @ s) else Inl (Undefined ''buffer overrun''))"
  "put_text s sb = (if int (length sb) + int (length s) < 4094 then Inr (sb @ s) else Inl (Undefined ''buffer overrun''))"
  by (simp_all add: put_chars_def put_text_def sigbuf_size_def)

text \<open>Sizes are C \<open>int\<close>s; -1 is an endless type, -2 one that depends on a struct further up.\<close>

definition checked_int :: "int \<Rightarrow> int result" where
  "checked_int i = (if - (2 ^ 31) \<le> i \<and> i < 2 ^ 31 then Inr i else Inl (Undefined ''signed overflow''))"

record unwound =
  used :: nat
  sigbuf :: string
  typesize :: int
  retdt :: addr

definition str_assign_while :: "string \<Rightarrow> char \<Rightarrow> nat" where
  "str_assign_while pch ch = length (takeWhile (\<lambda>c. c = ch) pch)"

definition signature_extract_name :: "string \<Rightarrow> string \<Rightarrow> (string \<times> string) result" where
  "signature_extract_name pch sb =
     (let name = takeWhile is_ident_char pch
      in if 128 \<le> length name then Inl (Undefined ''buffer overrun'')
         else bind_result (put_chars name sb) (\<lambda>sb'. Inr (name, sb')))"

definition is_general_struct_type :: "CAStructType \<Rightarrow> bool" where
  "is_general_struct_type t \<longleftrightarrow> t = Struct_Slice \<or> t = Struct_Enum \<or> t = Struct_Union"

definition is_tuple_type :: "CAStructType \<Rightarrow> bool" where
  "is_tuple_type t \<longleftrightarrow> t = Struct_NamedTuple \<or> t = Struct_GeneralTuple"

definition is_named_field_struct_type :: "CAStructType \<Rightarrow> bool" where
  "is_named_field_struct_type t \<longleftrightarrow> t = Struct_NamedStruct \<or> t = Struct_Union"

definition is_named_struct_type :: "CAStructType \<Rightarrow> bool" where
  "is_named_struct_type t \<longleftrightarrow>
     t = Struct_NamedStruct \<or> t = Struct_NamedTuple \<or> t = Struct_Union \<or> t = Struct_Enum"

type_synonym 'z unwinder =
  "addr \<Rightarrow> string \<Rightarrow> (string \<times> addr option) list \<Rightarrow> string list \<Rightarrow> string \<Rightarrow>
   ('z types_scheme, unwound option) action"

definition head_is :: "char \<Rightarrow> string \<Rightarrow> bool" where
  "head_is c s \<longleftrightarrow> (case s of [] \<Rightarrow> False | d # _ \<Rightarrow> d = c)"

text \<open>\<open>std::map::insert\<close> keeps an entry that is there.\<close>

definition name_insert :: "string \<Rightarrow> addr option \<Rightarrow> (string \<times> addr option) list \<Rightarrow> (string \<times> addr option) list" where
  "name_insert k v m = (case map_of m k of None \<Rightarrow> (k, v) # m | Some _ \<Rightarrow> m)"

text \<open>The sum of the member sizes, and whether one of them was -1 or -2.\<close>

record size_sum =
  ss_size :: int
  ss_error :: bool
  ss_calcing :: bool

definition add_member_size :: "int \<Rightarrow> size_sum \<Rightarrow> size_sum result" where
  "add_member_size tsize s =
     (if tsize = - 1 then Inr (s\<lparr>ss_error := True\<rparr>)
      else if tsize = - 2 then Inr (s\<lparr>ss_calcing := True\<rparr>)
      else bind_result (checked_int (ss_size s + tsize)) (\<lambda>n. Inr (s\<lparr>ss_size := n\<rparr>)))"

definition no_members :: size_sum where
  "no_members = \<lparr>ss_size = 0, ss_error = False, ss_calcing = False\<rparr>"

definition struct_size :: "size_sum \<Rightarrow> int" where
  "struct_size s = (if ss_error s then - 1 else if ss_calcing s then - 2 else ss_size s)"

definition set_size :: "addr \<Rightarrow> int \<Rightarrow> ('z types_scheme, unit) action" where
  "set_size p n = act (dt_of p) (\<lambda>d. put_dt p (d\<lparr>dt_size := n mod 2 ^ 64\<rparr>))"

subsection \<open>Structs written out: \<open>{Name;f:T,...}\<close>, \<open>(Name;T,...)\<close>, \<open><slice;;T,T>\<close>\<close>

definition struct_goes_on :: "CAStructType \<Rightarrow> string \<Rightarrow> bool" where
  "struct_goes_on t pch \<longleftrightarrow>
     t = Struct_NamedStruct \<and> \<not> head_is CHR ''}'' pch \<or>
     is_tuple_type t \<and> \<not> head_is CHR '')'' pch \<or>
     is_general_struct_type t \<and> \<not> head_is CHR ''>'' pch"

text \<open>The name and colon before the type of a struct member.\<close>

definition unwind_member_name :: "CAStructType \<Rightarrow> string \<Rightarrow> string \<Rightarrow> (string \<times> string \<times> string) result" where
  "unwind_member_name ty pch sb =
     (if is_named_field_struct_type ty
      then bind_result (signature_extract_name pch sb) (\<lambda>(name, sb).
           let rest = drop (length name) pch
           in if name = [] then Inl (Exit ''(internal) this struct type `%d` member have no name `%s`'')
              else if \<not> head_is CHR '':'' rest
              then Inl (Exit ''(internal) bad format of struct `%s` != `:` with type `%d`'')
              else bind_result (put_chars '':'' sb) (\<lambda>sb. Inr (name, drop 1 rest, sb)))
      else Inr ([], pch, sb))"

fun unwind_members ::
  "'z unwinder \<Rightarrow> addr \<Rightarrow> CAStructType \<Rightarrow> addr \<Rightarrow> (string \<times> addr option) list \<Rightarrow> string list \<Rightarrow>
   nat \<Rightarrow> string \<Rightarrow> string \<Rightarrow> size_sum \<Rightarrow> ('z types_scheme, string \<times> string \<times> size_sum) action" where
  "unwind_members rec st ty c names check 0 pch sb sizes = fail Out_of_fuel"
| "unwind_members rec st ty c names check (Suc k) pch sb sizes =
     (if \<not> struct_goes_on ty pch then ret (pch, sb, sizes)
      else
        act (lift_result (unwind_member_name ty pch sb)) (\<lambda>(name, pch, sb).
        act (rec st pch names check sb) (\<lambda>r.
        (case r of
           None \<Rightarrow> fail (Exit ''(internal) unwind type `%s` failed'')
         | Some r \<Rightarrow>
             (let pch = drop (used r) pch; comma = head_is CHR '','' pch
              in act (lift_result (if comma then put_chars '','' (sigbuf r) else Inr (sigbuf r))) (\<lambda>sb.
                 act (lift_result (add_member_size (typesize r) sizes)) (\<lambda>sizes.
                 act (if is_named_field_struct_type ty then intern name else ret (- 1)) (\<lambda>id.
                 act (castruct_add_member c id (retdt r) 0) (\<lambda>_.
                 unwind_members rec st ty c names check k (if comma then drop 1 pch else pch) sb sizes)))))))))"

text \<open>The head of a struct: its kind and name, and what is left to read.\<close>

definition unwind_struct_head ::
  "CAStructType \<Rightarrow> string \<Rightarrow> string \<Rightarrow> (CAStructType \<times> string \<times> string \<times> string) result" where
  "unwind_struct_head struct_type pch sb =
     bind_result (put_chars (take 1 pch) sb) (\<lambda>sb.
     let pch = drop 1 pch
     in bind_result (signature_extract_name pch sb) (\<lambda>(name, sb).
        let pch = drop (length name) pch
        in bind_result
          (if struct_type = Struct_General then
             if name = ''slice'' then
               if \<not> head_is CHR '';'' pch then Inl (Exit ''(internal) bad format of `%s` style `%s` != `;`'')
               else bind_result (put_chars '';'' sb) (\<lambda>sb.
                    bind_result (signature_extract_name (drop 1 pch) sb) (\<lambda>(name, sb).
                    Inr (Struct_Slice, name, drop (Suc (length name)) pch, sb)))
             else if name = ''union'' then Inl (Exit ''not implemented for the `union` unwinding'')
             else if name = ''enum'' then Inl (Exit ''not implemented for the `enum` unwinding'')
             else if name \<noteq> [] then Inl (Exit ''not implemented for the unknown `%s` unwinding'')
             else Inl (Exit ''(internal) general struct have no name `%s`'')
           else Inr (struct_type, name, pch, sb)) (\<lambda>(ty, name, pch, sb).
        bind_result
          (if name \<noteq> [] then Inr ty
           else if ty = Struct_NamedTuple then Inr Struct_GeneralTuple
           else if ty = Struct_Slice then Inr ty
           else Inl (Exit ''(internal) this struct type `%s` have no name `%s`'')) (\<lambda>ty.
        if struct_goes_on ty pch
        then if \<not> head_is CHR '';'' pch then Inl (Exit ''(internal) bad format of struct style'')
             else bind_result (put_chars '';'' sb) (\<lambda>sb. Inr (ty, name, drop 1 pch, sb))
        else Inr (ty, name, pch, sb)))))"

definition catype_unwind_type_struct ::
  "'z unwinder \<Rightarrow> addr \<Rightarrow> CAStructType \<Rightarrow> string \<Rightarrow> (string \<times> addr option) list \<Rightarrow> string list \<Rightarrow> string \<Rightarrow>
   ('z types_scheme, unwound option) action" where
  "catype_unwind_type_struct rec st struct_type pchbegin prenamemap rcheckset sb =
     act (lift_result (unwind_struct_head struct_type pchbegin sb)) (\<lambda>(ty, name, pch, sb).
     act (if is_named_struct_type ty then intern name else ret (- 1)) (\<lambda>nameid.
     act (catype_make_struct_type nameid (- 1) ty 10) (\<lambda>addrdt.
     act (struct_layout_of addrdt) (\<lambda>c.
     act (unwind_members rec st ty c
            (if is_named_struct_type ty then name_insert name (Some addrdt) prenamemap else prenamemap)
            (if is_named_struct_type ty then name # rcheckset else rcheckset)
            (Suc (length pch)) pch sb no_members) (\<lambda>(pch, sb, sizes).
     act (lift_result (put_chars (take 1 pch) sb)) (\<lambda>sb.
     act (set_size addrdt (struct_size sizes)) (\<lambda>_.
     ret (Some \<lparr>used = length pchbegin - length (drop 1 pch), sigbuf = sb,
            typesize = struct_size sizes, retdt = addrdt\<rparr>))))))))"

subsection \<open>Arrays: \<open>[T;n]\<close>\<close>

definition catype_unwind_type_array ::
  "'z unwinder \<Rightarrow> addr \<Rightarrow> string \<Rightarrow> (string \<times> addr option) list \<Rightarrow> string list \<Rightarrow> string \<Rightarrow>
   ('z types_scheme, unwound option) action" where
  "catype_unwind_type_array rec st pchbegin prenamemap rcheckset sb =
     act (lift_result (put_chars (take 1 pchbegin) sb)) (\<lambda>sb.
     act (rec st (drop 1 pchbegin) prenamemap rcheckset sb) (\<lambda>r.
     (case r of
        None \<Rightarrow> fail (Exit ''(internal) unwind type `%s` failed'')
      | Some r \<Rightarrow>
          (let pch = drop (Suc (used r)) pchbegin; num = takeWhile is_digit (drop 1 pch);
               rest = drop (Suc (length num)) pch
           in if \<not> head_is CHR '';'' pch then fail (Exit ''(internal) `;` is expected but found `%c`'')
              else if 16 \<le> length num then fail (Undefined ''buffer overrun'')
              else act (lift_result (put_chars ('';'' @ num) (sigbuf r))) (\<lambda>sb.
              if num = [] then fail (Exit ''(internal) numeric value expected but not found'')
              else if \<not> head_is CHR '']'' rest then fail (Exit ''(internal) `]` is expected but found `%c`'')
              else
                act (lift_result (checked_int (atoi num))) (\<lambda>elesize.
                act (lift_result (if typesize r < 0 then Inr (typesize r)
                                  else checked_int (typesize r * elesize))) (\<lambda>size.
                act (lift_result (put_chars '']'' sb)) (\<lambda>sb.
                act (catype_make_type_symname typeid_novalue ARRAY size) (\<lambda>addrdt.
                act (dt_of addrdt) (\<lambda>d.
                act (put_dt addrdt (d\<lparr>layout := Layout_Array (retdt r) 1 [elesize]\<rparr>)) (\<lambda>_.
                ret (Some \<lparr>used = Suc (length pchbegin - length rest), sigbuf = sb, typesize = size,
                       retdt = addrdt\<rparr>))))))))))))"

subsection \<open>Names\<close>

definition sym_gettypesym_by_name :: "addr \<Rightarrow> string \<Rightarrow> bool \<Rightarrow> ('z types_scheme, entry_ptr) action" where
  "sym_gettypesym_by_name st name par =
     act (sym_form_type_id_by_str name) (\<lambda>id.
     act (\<lambda>w. lift_result (sym_getsym st id par w) w) (\<lambda>p.
     (case p of
        None \<Rightarrow> fail (Exit ''the symbol name `%s` is not a type'')
      | Some p \<Rightarrow>
          act (\<lambda>w. lift_result (get_entry p w) w) (\<lambda>e.
          if sym_type e \<noteq> Sym_DataType then fail (Exit ''the symbol name `%s` is not a type'')
          else ret p))))"

text \<open>The type id of the member \<open>j\<close> of a struct or tuple, and the text written before its type.\<close>

definition member_type :: "CAStructType \<Rightarrow> ST_ArgList \<Rightarrow> int \<Rightarrow> string \<Rightarrow> ('z types_scheme, int \<times> string) action" where
  "member_type tuple members a sb =
     (if tuple \<noteq> Struct_NamedStruct then ret (a, sb)
      else
        act (name_of a) (\<lambda>argname.
        act (\<lambda>w. lift_result (sym_getsym (al_symtable members) a False w) w) (\<lambda>p.
        act (\<lambda>w. lift_result (deref_entry p w) w) (\<lambda>e.
        if sym_type e \<noteq> Sym_Member
        then fail (Exit ''(internal) symbol type is not struct member for argument: `%s`'')
        else
          act (lift_result (put_text (argname @ '':'') sb)) (\<lambda>sb.
          (case u e of
             U_Var s \<Rightarrow> (case vs_current s of Some v \<Rightarrow> ret (v_datatype v, sb) | None \<Rightarrow> fail (Undefined ''null current''))
           | _ \<Rightarrow> fail (Undefined ''no variable entry'')))))))"

fun unwind_defined_members ::
  "'z unwinder \<Rightarrow> CAStructType \<Rightarrow> ST_ArgList \<Rightarrow> addr \<Rightarrow> (string \<times> addr option) list \<Rightarrow> string list \<Rightarrow>
   int list \<Rightarrow> string \<Rightarrow> size_sum \<Rightarrow> ('z types_scheme, string \<times> size_sum) action" where
  "unwind_defined_members rec tuple members c names check [] sb sizes = ret (sb, sizes)"
| "unwind_defined_members rec tuple members c names check (a # as) sb sizes =
     act (member_type tuple members a sb) (\<lambda>(membertype, sb).
     act (catype_get_type_name membertype) (\<lambda>mtypename.
     act (rec (al_symtable members) mtypename names check sb) (\<lambda>r.
     (case r of
        None \<Rightarrow> fail (Exit ''(internal) unwind type `%s` failed'')
      | Some r \<Rightarrow>
          act (lift_result (put_chars '','' (sigbuf r))) (\<lambda>sb.
          act (lift_result (add_member_size (typesize r) sizes)) (\<lambda>sizes.
          act (castruct_add_member c a (retdt r) 0) (\<lambda>_.
          unwind_defined_members rec tuple members c names check as sb sizes)))))))"

text \<open>A name that is defined as another type, or as a struct with the given members.\<close>

definition unwind_alias ::
  "'z unwinder \<Rightarrow> addr \<Rightarrow> string \<Rightarrow> (string \<times> addr option) list \<Rightarrow> string list \<Rightarrow> string \<Rightarrow> nat \<Rightarrow>
   ('z types_scheme, unwound option) action" where
  "unwind_alias rec idtable caname names check sb i =
     act (rec idtable caname names check sb) (\<lambda>r.
     (case r of
        None \<Rightarrow> fail (Exit ''(internal) unwind type name `%s` failed'')
      | Some r \<Rightarrow>
          if drop (used r) caname \<noteq> [] then fail (Exit ''(internal) type contains extra text when unwind type `%s`'')
          else ret (Some (r\<lparr>used := i\<rparr>))))"

definition unwind_defined_struct ::
  "'z unwinder \<Rightarrow> string \<Rightarrow> string \<Rightarrow> CAStructType \<Rightarrow> ST_ArgList \<Rightarrow> (string \<times> addr option) list \<Rightarrow> string list \<Rightarrow>
   string \<Rightarrow> nat \<Rightarrow> ('z types_scheme, unwound option) action" where
  "unwind_defined_struct rec namebuf caname tuple members prenamemap check sb0 i =
     act (intern namebuf) (\<lambda>nameid.
     act (catype_make_struct_type nameid (- 1) tuple 10) (\<lambda>addrdt.
     act (struct_layout_of addrdt) (\<lambda>c.
     act (lift_result (put_text ((if tuple \<noteq> Struct_NamedStruct then ''('' else ''{'') @ caname @ '';'') sb0)) (\<lambda>sb.
     act (unwind_defined_members rec tuple members c (name_insert namebuf (Some addrdt) prenamemap) check
            (take (al_argc members) (al_ids members)) sb no_members) (\<lambda>(sb, sizes).
     act (lift_result (put_text (if tuple \<noteq> Struct_NamedStruct then '')'' else ''}'') (butlast sb))) (\<lambda>sb.
     act (set_size addrdt (struct_size sizes)) (\<lambda>_.
     ret (Some \<lparr>used = i, sigbuf = sb, typesize = struct_size sizes, retdt = addrdt\<rparr>))))))))"

definition catype_unwind_type_name ::
  "(nat \<Rightarrow> ('z types_scheme, int) action) \<Rightarrow> 'z unwinder \<Rightarrow> 'z unwinder" where
  "catype_unwind_type_name infer rec st pch prenamemap rcheckset sb =
     (if take 2 pch = ''+:'' then
        (let (expr, len) = astnode_unwind_from_addr pch
         in act (infer expr) (\<lambda>name.
            act (catype_get_type_name name) (\<lambda>text.
            act (rec st text prenamemap rcheckset sb) (\<lambda>r.
            (case r of
               None \<Rightarrow> fail (Undefined ''type object not set'')
             | Some r \<Rightarrow> ret (Some (r\<lparr>used := len\<rparr>)))))))
      else
        (let (i, namebuf) = strutil_parse_ident_str pch
         in if i = 0 then ret None
            else if 128 \<le> i then fail (Undefined ''buffer overrun'')
            else
              act (sym_form_type_id_by_str namebuf) (\<lambda>id.
              act (catype_get_primitive_by_name id) (\<lambda>prim.
              (case prim of
                 Some dt \<Rightarrow>
                   act (lift_result (put_text namebuf sb)) (\<lambda>sb.
                   act (dt_of dt) (\<lambda>d.
                   ret (Some \<lparr>used = i, sigbuf = sb, typesize = i32_of_int (dt_size d), retdt = dt\<rparr>)))
               | None \<Rightarrow>
                   act (sym_gettypesym_by_name st namebuf True) (\<lambda>p.
                   act (\<lambda>w. lift_result (get_entry p w) w) (\<lambda>entry.
                   if namebuf \<in> set rcheckset then ret None
                   else (case map_of prenamemap namebuf of
                       Some r \<Rightarrow>
                         act (lift_result (put_text namebuf sb)) (\<lambda>sb.
                         (case r of
                            None \<Rightarrow> fail (Exit ''type `%s` should recursive defining'')
                          | Some dt \<Rightarrow> ret (Some \<lparr>used = i, sigbuf = sb, typesize = - 2, retdt = dt\<rparr>)))
                     | None \<Rightarrow>
                         (case u entry of
                            U_Data tuple dataid members idtable _ \<Rightarrow>
                              act (catype_get_type_name dataid) (\<lambda>caname.
                              (case members of
                                 None \<Rightarrow>
                                   unwind_alias rec idtable caname (name_insert namebuf None prenamemap)
                                     (namebuf # rcheckset) sb i
                               | Some members \<Rightarrow>
                                   unwind_defined_struct rec namebuf caname tuple members prenamemap
                                     (namebuf # rcheckset) sb i))
                          | _ \<Rightarrow> fail (Undefined ''no type entry''))))))))))"

subsection \<open>A type\<close>

text \<open>
  The prefix of \<open>*\<close>s and \<open>&\<close>s: what is left, whether the size is that of a pointer, the pointer
  object with its number of \<open>*\<close>s. The object's layout is written once the type below is known.
\<close>

function unwind_prefix ::
  "string \<Rightarrow> bool \<Rightarrow> (addr \<times> nat) option \<Rightarrow> string \<Rightarrow>
   ('z types_scheme, (string \<times> bool \<times> (addr \<times> nat) option \<times> string)) action" where
  "unwind_prefix pch sizefin addrdt sb =
     (if head_is CHR ''*'' pch then
        (let n = str_assign_while pch CHR ''*''
         in act (lift_result (put_chars (take n pch) sb)) (\<lambda>sb.
            act (catype_make_type_symname typeid_novalue POINTER (int pointer_size)) (\<lambda>p.
            unwind_prefix (drop n pch) True (Some (p, n)) sb)))
      else if head_is CHR ''&'' pch then
        (let n = str_assign_while pch CHR ''&''
         in act (lift_result (put_chars (take n pch) sb)) (\<lambda>sb. unwind_prefix (drop n pch) True addrdt sb))
      else ret (pch, sizefin, addrdt, sb))"
  by pat_completeness auto

lemma assign_while_pos: "head_is c pch \<Longrightarrow> 0 < str_assign_while pch c \<and> 0 < length pch"
  by (cases pch) (auto simp: head_is_def str_assign_while_def)

termination unwind_prefix
  by (relation "measure (\<lambda>(pch, _). length pch)") (auto dest!: assign_while_pos)

declare unwind_prefix.simps [simp del]

text \<open>The form of the type after the prefix.\<close>

definition unwind_form ::
  "(nat \<Rightarrow> ('z types_scheme, int) action) \<Rightarrow> 'z unwinder \<Rightarrow> 'z unwinder" where
  "unwind_form infer rec st pch prenamemap check sb =
     (if head_is CHR ''['' pch then catype_unwind_type_array rec st pch prenamemap check sb
      else if head_is CHR ''{'' pch
      then catype_unwind_type_struct rec st Struct_NamedStruct pch prenamemap check sb
      else if head_is CHR ''('' pch
      then catype_unwind_type_struct rec st Struct_NamedTuple pch prenamemap check sb
      else if head_is CHR ''<'' pch
      then catype_unwind_type_struct rec st Struct_General pch prenamemap check sb
      else if head_is CHR ''#'' pch then ret None
      else catype_unwind_type_name infer rec st pch prenamemap check sb)"

text \<open>The end of a type: the pointer object gets its layout, and the text written becomes the
  signature of the object.\<close>

definition finish_type ::
  "string \<Rightarrow> string \<Rightarrow> string \<Rightarrow> bool \<Rightarrow> (addr \<times> nat) option \<Rightarrow> unwound option \<Rightarrow>
   ('z types_scheme, unwound option) action" where
  "finish_type sb0 caname pch sizefin addrdt r =
     (case r of
        None \<Rightarrow> fail (Exit ''unwind type name `%s` failed'')
      | Some r \<Rightarrow>
          act (case addrdt of
                 None \<Rightarrow> ret (retdt r)
               | Some (p, dims) \<Rightarrow>
                   act (dt_of p) (\<lambda>d.
                   act (put_dt p (d\<lparr>layout := Layout_Pointer (retdt r) dims PP_Stack\<rparr>)) (\<lambda>_. ret p))) (\<lambda>dt.
          act (sym_form_type_id_by_str (drop (length sb0) (sigbuf r))) (\<lambda>sig.
          act (dt_of dt) (\<lambda>d.
          act (put_dt dt (d\<lparr>signature := sig\<rparr>)) (\<lambda>_.
          ret (Some \<lparr>used = length caname - length pch + used r, sigbuf = sigbuf r,
                 typesize = (if \<not> sizefin \<or> typesize r = - 1 then typesize r else int pointer_size),
                 retdt = dt\<rparr>))))))"

fun catype_unwind_type_signature_inner ::
  "(nat \<Rightarrow> ('z types_scheme, int) action) \<Rightarrow> nat \<Rightarrow> 'z unwinder" where
  "catype_unwind_type_signature_inner infer 0 st caname prenamemap rcheckset sb0 = fail Out_of_fuel"
| "catype_unwind_type_signature_inner infer (Suc n) st caname prenamemap rcheckset sb0 =
     act (unwind_prefix caname False None sb0) (\<lambda>(pch, sizefin, addrdt, sb).
     if pch = [] then ret None
     else act (unwind_form infer (catype_unwind_type_signature_inner infer n) st pch prenamemap
                 (if sizefin then [] else rcheckset) sb)
            (finish_type sb0 caname pch sizefin addrdt))"

definition catype_unwind_type_signature ::
  "(nat \<Rightarrow> ('z types_scheme, int) action) \<Rightarrow> nat \<Rightarrow> addr \<Rightarrow> int \<Rightarrow> ('z types_scheme, int \<times> int \<times> addr) action" where
  "catype_unwind_type_signature infer fuel st name =
     act (catype_get_type_name name) (\<lambda>caname.
     act (catype_unwind_type_signature_inner infer fuel st caname [] [] []) (\<lambda>r.
     (case r of
        None \<Rightarrow> fail (Exit ''(internal) unwind type signature `%s` failed'')
      | Some r \<Rightarrow>
          act (lift_result (put_text [] (sigbuf r))) (\<lambda>sb.
          act (intern (''t:'' @ sb)) (\<lambda>sig.
          act (dt_of (retdt r)) (\<lambda>d.
          act (put_dt (retdt r) (d\<lparr>signature := sig, status := CADT_Expand\<rparr>)) (\<lambda>_.
          ret (sig, typesize r, retdt r))))))))"

end
