(* ===== verification/Unwind_Cases.thy ===== *)
theory Unwind_Cases
  imports Unwind
begin

section \<open>Unwinding struct definitions\<close>

text \<open>
  A run is evaluated only once its state is known: the equations the simplifier uses for actions
  are applied to a state, so that what comes after a step is not expanded before the step.
\<close>

lemmas run_code [code] =
  act_def [THEN fun_cong] ret_def [THEN fun_cong] fail_def [THEN fun_cong] lift_result_def [THEN fun_cong]
  reads_def [THEN fun_cong] modifies_def [THEN fun_cong] intern_def [THEN fun_cong] name_of_def [THEN fun_cong]
  sym_insert_def [THEN fun_cong] set_entry_def [THEN fun_cong] push_new_symtable_with_parent_def [THEN fun_cong]
  push_new_symtable_def [THEN fun_cong] pop_symtable_def [THEN fun_cong]
  catype_get_type_name_def [THEN fun_cong] catype_get_function_name_def [THEN fun_cong]
  get_inner_type_string_def [THEN fun_cong] sym_form_type_id_def [THEN fun_cong]
  sym_form_type_id_by_str_def [THEN fun_cong] sym_form_function_id_def [THEN fun_cong]
  sym_form_pointer_id_def [THEN fun_cong] dt_of_def [THEN fun_cong] cs_of_def [THEN fun_cong]
  put_dt_def [THEN fun_cong] put_cs_def [THEN fun_cong] new_dt_def [THEN fun_cong] new_cs_def [THEN fun_cong]
  catype_put_primitive_by_name_def [THEN fun_cong] catype_get_primitive_by_name_def [THEN fun_cong]
  sym_form_type_id_from_token_def [THEN fun_cong] catype_put_primitive_by_token_def [THEN fun_cong]
  catype_get_primitive_by_token_def [THEN fun_cong] sym_primitive_token_from_id_def [THEN fun_cong]
  catype_make_type_symname_def [THEN fun_cong] catype_make_type_def [THEN fun_cong]
  catype_clone_thin_def [THEN fun_cong] form_datatype_signature_def [THEN fun_cong]
  catype_make_pointer_type_def [THEN fun_cong] catype_make_array_type_def [THEN fun_cong]
  catype_make_struct_type_def [THEN fun_cong] castruct_add_member_def [THEN fun_cong]
  struct_layout_of_def [THEN fun_cong] make_primitive_def [THEN fun_cong] make_pointer_type_def [THEN fun_cong]
  argname_entry_def [THEN fun_cong] add_struct_member_def [THEN fun_cong]
  reset_arglist_with_new_symtable_def [THEN fun_cong] put_data_entry_def [THEN fun_cong]
  make_type_def_entry_def [THEN fun_cong] check_function_name_def [THEN fun_cong]
  make_struct_type_def [THEN fun_cong] define_struct_def [THEN fun_cong] define_alias_def [THEN fun_cong]
  set_size_def [THEN fun_cong] catype_unwind_type_struct_def [THEN fun_cong]
  catype_unwind_type_array_def [THEN fun_cong] sym_gettypesym_by_name_def [THEN fun_cong]
  member_type_def [THEN fun_cong] unwind_alias_def [THEN fun_cong] unwind_defined_struct_def [THEN fun_cong]
  catype_unwind_type_name_def [THEN fun_cong] unwind_form_def [THEN fun_cong] finish_type_def [THEN fun_cong]
  catype_unwind_type_signature_def [THEN fun_cong] add_struct_members.simps [THEN fun_cong]
  unwind_members.simps [THEN fun_cong] unwind_defined_members.simps [THEN fun_cong]
  unwind_prefix.simps [THEN fun_cong] catype_unwind_type_signature_inner.simps [THEN fun_cong]

text \<open>The front end with \<open>i32\<close> as its only primitive type runs the given definitions in order, then
  unwinds a type named in the innermost scope: its signature and size. No expression types are
  involved.\<close>

definition unwound_text :: "(types, 'a) action \<Rightarrow> string \<Rightarrow> (string \<times> int) result" where
  "unwound_text defs name =
     bind_result
       (act (make_primitive ''t:i32'' I32 4 None) (\<lambda>_.
        act defs (\<lambda>_.
        act (reads curr_symtable) (\<lambda>st.
        act (sym_form_type_id_by_str name) (\<lambda>i.
        act (catype_unwind_type_signature (\<lambda>_. fail Out_of_fuel) 8 st i) (\<lambda>(sig, size, _).
        act (catype_get_type_name sig) (\<lambda>text. ret (text, size))))))) types_start) (\<lambda>(r, _). Inr r)"

abbreviation here :: SLoc where
  "here \<equiv> \<lparr>row = 1, col = 1\<rparr>"

text \<open>Mutually recursive structs unwind when a pointer closes the cycle: the struct further
  up stays a name inside, every other name is replaced by its definition, and the size is the sum
  of the members, a pointer counting 8.\<close>

lemma mutual_structs_unwind:
  "unwound_text (act (define_struct here ''A'' [(''p'', ''*B''), (''n'', ''i32'')]) (\<lambda>_.
      define_struct here ''B'' [(''a'', ''A''), (''z'', ''i32'')])) ''A''
    = Inr (''{A;p:*{B;a:A,z:i32},n:i32}'', 12)"
  by code_simp


text \<open>Unwinding tells structs apart by name alone, whatever scope they are in. An inner
  struct \<open>A\<close> whose member is a struct \<open>B\<close> over the outer \<open>A\<close> takes the outer one for itself: the
  outer \<open>A\<close> is left as a name below it, and when both are by value the inner struct is refused as
  infinite, although its members are finite.\<close>

lemma shadowed_struct_confused:
  "unwound_text (act (define_struct here ''A'' [(''x'', ''i32'')]) (\<lambda>_. act (define_struct here ''B'' [(''a'', ''*A'')]) (\<lambda>_.
      act push_new_symtable (\<lambda>_. define_struct here ''A'' [(''b'', ''*B'')])))) ''A''
    = Inr (''{A;b:*{B;a:*A}}'', 8)
   \<and> unwound_text (act (define_struct here ''A'' [(''x'', ''i32'')]) (\<lambda>_. act (define_struct here ''B'' [(''a'', ''A'')]) (\<lambda>_.
      act push_new_symtable (\<lambda>_. define_struct here ''A'' [(''b'', ''B'')])))) ''A''
    = Inl (Exit ''unwind type name `%s` failed'')"
  by (intro conjI; code_simp)

end
