(* ===== verification/Canonical.thy ===== *)
theory Canonical
  imports Unwind
begin

section \<open>Types written out in full are unwound to themselves\<close>

text \<open>
  The texts unwinding produces form a small language. This theory gives its abstract syntax and
  its printer, and shows that unwinding reads a printed type back: it consumes the text, writes
  the same text and computes the size of the type. A recursive occurrence of a struct, which
  stays a name, is not part of it.
\<close>

text \<open>\<open>T_Rec st n fs\<close> is a struct (\<open>st\<close>) or a tuple, whose members have no names.\<close>

datatype ty =
    T_Prim string
  | T_Ptr nat ty
  | T_Arr ty nat
  | T_Rec bool string "(string \<times> ty) list"

fun sig_text :: "ty \<Rightarrow> string" and fields_text :: "bool \<Rightarrow> (string \<times> ty) list \<Rightarrow> string" where
  "sig_text (T_Prim n) = n"
| "sig_text (T_Ptr k t) = replicate (Suc k) CHR ''*'' @ sig_text t"
| "sig_text (T_Arr t n) = ''['' @ sig_text t @ '';'' @ nat_text n @ '']''"
| "sig_text (T_Rec st n fs) =
     (if st then ''{'' else ''('') @ n @ (if fs = [] then [] else '';'' @ fields_text st fs) @ (if st then ''}'' else '')'')"
| "fields_text st [] = []"
| "fields_text st ((f, t) # xs) =
     (if st then f @ '':'' else []) @ sig_text t @ (if xs = [] then [] else '','' @ fields_text st xs)"

fun tsize :: "(string \<Rightarrow> int) \<Rightarrow> ty \<Rightarrow> int" and tsizes :: "(string \<Rightarrow> int) \<Rightarrow> (string \<times> ty) list \<Rightarrow> int" where
  "tsize ps (T_Prim n) = ps n"
| "tsize ps (T_Ptr k t) = int pointer_size"
| "tsize ps (T_Arr t n) = tsize ps t * int n"
| "tsize ps (T_Rec st n fs) = tsizes ps fs"
| "tsizes ps [] = 0"
| "tsizes ps ((f, t) # xs) = tsize ps t + tsizes ps xs"

fun tdepth :: "ty \<Rightarrow> nat" and tdepths :: "(string \<times> ty) list \<Rightarrow> nat" where
  "tdepth (T_Prim n) = 1"
| "tdepth (T_Ptr k t) = tdepth t"
| "tdepth (T_Arr t n) = Suc (tdepth t)"
| "tdepth (T_Rec st n fs) = Suc (tdepths fs)"
| "tdepths [] = 0"
| "tdepths ((f, t) # xs) = max (tdepth t) (tdepths xs)"

definition field_name :: "string \<Rightarrow> bool" where
  "field_name n \<longleftrightarrow> list_all is_ident_char n \<and> length n < 128"

text \<open>A primitive type of the table, with the size \<open>ps\<close> gives it.\<close>

definition prim_ok :: "(string \<Rightarrow> int) \<Rightarrow> 'z types_scheme \<Rightarrow> string \<Rightarrow> bool" where
  "prim_ok ps w n \<longleftrightarrow> is_ident n \<and> length n < 128 \<and> 0 \<le> ps n \<and> ps n < 2 ^ 31 \<and>
     (\<exists>i p d. interned w i (''t:'' @ n) \<and> s_type_map w i = Some p \<and> p < dt_next w \<and>
        dt_heap w p = Some d \<and> i32_of_int (dt_size d) = ps n)"

fun ty_ok :: "(string \<Rightarrow> int) \<Rightarrow> 'z types_scheme \<Rightarrow> ty \<Rightarrow> bool"
  and fields_ok :: "(string \<Rightarrow> int) \<Rightarrow> 'z types_scheme \<Rightarrow> bool \<Rightarrow> (string \<times> ty) list \<Rightarrow> bool" where
  "ty_ok ps w (T_Prim n) \<longleftrightarrow> prim_ok ps w n"
| "ty_ok ps w (T_Ptr k t) \<longleftrightarrow> ty_ok ps w t \<and> (case t of T_Ptr _ _ \<Rightarrow> False | _ \<Rightarrow> True)"
| "ty_ok ps w (T_Arr t n) \<longleftrightarrow> ty_ok ps w t \<and> n < 2 ^ 31 \<and> length (nat_text n) < 16 \<and> tsize ps t * int n < 2 ^ 31"
| "ty_ok ps w (T_Rec st n fs) \<longleftrightarrow> field_name n \<and> (st \<longrightarrow> n \<noteq> []) \<and> fields_ok ps w st fs \<and> tsizes ps fs < 2 ^ 31"
| "fields_ok ps w st [] \<longleftrightarrow> True"
| "fields_ok ps w st ((f, t) # xs) \<longleftrightarrow>
     field_name f \<and> (st \<longrightarrow> f \<noteq> []) \<and> ty_ok ps w t \<and> fields_ok ps w st xs"

subsection \<open>What a run may change\<close>

text \<open>
  Names are added, objects are allocated, and of the objects that were there only the signature
  may be written.
\<close>

definition same_but_signature :: "CADataType option \<Rightarrow> CADataType option \<Rightarrow> bool" where
  "same_but_signature a b \<longleftrightarrow>
     map_option (signature_update (\<lambda>_. 0)) a = map_option (signature_update (\<lambda>_. 0)) b"

definition keeps_types :: "'z types_scheme \<Rightarrow> 'z types_scheme \<Rightarrow> bool" where
  "keeps_types w w' \<longleftrightarrow> (\<forall>i s. interned w i s \<longrightarrow> interned w' i s) \<and> s_type_map w' = s_type_map w \<and>
     dt_next w \<le> dt_next w' \<and> (\<forall>q<dt_next w. same_but_signature (dt_heap w q) (dt_heap w' q))"

definition grows :: "'z types_scheme \<Rightarrow> 'z types_scheme \<Rightarrow> bool" where
  "grows w w' \<longleftrightarrow> names_ok w' \<and> keeps_types w w' \<and> cs_next w \<le> cs_next w' \<and>
     (\<forall>c<cs_next w. cs_heap w' c = cs_heap w c)"

lemmas grows_defs = grows_def keeps_types_def

lemma grows_refl [simp]: "names_ok w \<Longrightarrow> grows w w"
  by (simp add: grows_defs same_but_signature_def)

lemma grows_types: "grows w w' \<Longrightarrow> keeps_types w w'"
  by (simp add: grows_def)

lemma keeps_types_trans: "keeps_types a b \<Longrightarrow> keeps_types b c \<Longrightarrow> keeps_types a c"
  by (auto simp: keeps_types_def same_but_signature_def)

lemma grows_trans: "grows a b \<Longrightarrow> grows b c \<Longrightarrow> grows a c"
  by (auto simp: grows_def intro: keeps_types_trans)

lemma grows_names: "grows w w' \<Longrightarrow> names_ok w'"
  by (simp add: grows_def)

lemma grows_object:
  assumes "keeps_types w w'" "q < dt_next w" "dt_heap w q = Some d"
  shows "\<exists>d'. dt_heap w' q = Some d' \<and> dt_size d' = dt_size d"
proof -
  have "same_but_signature (dt_heap w q) (dt_heap w' q)" using assms(1,2) by (simp add: keeps_types_def)
  then have "map_option (signature_update (\<lambda>_. 0)) (dt_heap w' q) = Some (d\<lparr>signature := 0\<rparr>)"
    using assms(3) by (simp add: same_but_signature_def)
  then obtain d' where "dt_heap w' q = Some d'" "d'\<lparr>signature := 0\<rparr> = d\<lparr>signature := 0\<rparr>" by auto
  moreover from arg_cong [where f = dt_size, OF this(2)] have "dt_size d' = dt_size d" by simp
  ultimately show ?thesis by blast
qed

lemma prim_ok_grows:
  assumes g: "keeps_types w w'" and "prim_ok ps w n"
  shows "prim_ok ps w' n"
proof -
  from assms(2) obtain i p d where *: "interned w i (''t:'' @ n)" "s_type_map w i = Some p" "p < dt_next w"
    "dt_heap w p = Some d" "i32_of_int (dt_size d) = ps n" "is_ident n" "length n < 128" "0 \<le> ps n" "ps n < 2 ^ 31"
    unfolding prim_ok_def by blast
  from grows_object [OF g *(3,4)] obtain d' where "dt_heap w' p = Some d'" "dt_size d' = dt_size d" by blast
  moreover have "interned w' i (''t:'' @ n)" "s_type_map w' i = Some p" "p < dt_next w'"
    using g *(1,2,3) by (auto simp: keeps_types_def)
  ultimately show ?thesis using *(5-9) unfolding prim_ok_def by auto
qed

lemma ty_ok_grows:
  "keeps_types w w' \<Longrightarrow> ty_ok ps w t \<Longrightarrow> ty_ok ps w' t"
  "keeps_types w w' \<Longrightarrow> fields_ok ps w st xs \<Longrightarrow> fields_ok ps w' st xs"
  by (induction t and xs arbitrary: and st rule: tdepth_tdepths.induct) (auto simp: prim_ok_grows)

subsection \<open>The steps\<close>

lemma intern_grows:
  assumes "names_ok w" "nul_free s"
  shows "\<exists>i w'. intern s w = Inr (i, w') \<and> grows w w' \<and> dt_heap w' = dt_heap w \<and> cs_heap w' = cs_heap w
    \<and> dt_next w' = dt_next w \<and> cs_next w' = cs_next w"
proof -
  obtain i w' where run: "intern s w = Inr (i, w')" by (metis intern_def surj_pair)
  from intern_run [OF assms run] have "names_ok w'" "\<And>p v. interned w p v \<Longrightarrow> interned w' p v" by auto
  moreover have "dt_heap w' = dt_heap w \<and> cs_heap w' = cs_heap w \<and> dt_next w' = dt_next w \<and> cs_next w' = cs_next w
      \<and> s_type_map w' = s_type_map w"
    using run by (auto simp: intern_def symname_check_insert_def symname_insert_def Let_def split: option.splits)
  ultimately show ?thesis using run by (auto simp: grows_defs same_but_signature_def)
qed

lemma type_id_grows:
  assumes "names_ok w" "nul_free s" "length s < 1000"
  shows "\<exists>i w'. sym_form_type_id_by_str s w = Inr (i, w') \<and> grows w w' \<and> dt_heap w' = dt_heap w"
proof -
  have "nul_free (''t:'' @ s)" using assms(2) by (simp add: NUL_def)
  from intern_grows [OF assms(1) this] show ?thesis
    using assms(3) by (auto simp: sym_form_type_id_by_str_def sym_form_type_name_def name_buffer_def)
qed

lemma new_dt_grows:
  assumes "grows w0 w"
  shows "new_dt d w = Inr (dt_next w, w\<lparr>dt_heap := (dt_heap w)(dt_next w \<mapsto> d), dt_next := Suc (dt_next w)\<rparr>)"
    and "grows w0 (w\<lparr>dt_heap := (dt_heap w)(dt_next w \<mapsto> d), dt_next := Suc (dt_next w)\<rparr>)"
  using assms by (auto simp: new_dt_def grows_defs interned_def)

lemma put_new_grows:
  assumes "grows w0 w" "dt_next w0 \<le> p"
  shows "put_dt p d w = Inr ((), w\<lparr>dt_heap := (dt_heap w)(p \<mapsto> d)\<rparr>)" and "grows w0 (w\<lparr>dt_heap := (dt_heap w)(p \<mapsto> d)\<rparr>)"
  using assms by (auto simp: put_dt_def grows_defs interned_def)

lemma put_signature_grows:
  assumes "grows w0 w" "dt_heap w p = Some d"
  shows "grows w0 (w\<lparr>dt_heap := (dt_heap w)(p \<mapsto> d\<lparr>signature := s\<rparr>)\<rparr>)"
  using assms by (auto simp: grows_defs interned_def same_but_signature_def)

lemma add_member_grows:
  assumes "grows w0 w" "cs_next w0 \<le> c" "cs_heap w c = Some cs" "struct_ok cs"
  shows "\<exists>cs' w'. castruct_add_member c nm t off w = Inr ((), w') \<and> grows w0 w' \<and> cs_heap w' c = Some cs'
    \<and> struct_ok cs' \<and> dt_heap w' = dt_heap w \<and> dt_next w' = dt_next w \<and> cs_next w' = cs_next w"
proof -
  from add_field_run [OF assms(4)] obtain cs' where
    "castruct_add_field \<lparr>f_name = nm, f_offset = off, f_type = t\<rparr> cs = Inr cs'" "struct_ok cs'" by blast
  then show ?thesis using assms
    by (auto simp: castruct_add_member_def cs_of_def get_cs_def put_cs_def act_def grows_defs interned_def)
qed

lemma name_chars:
  assumes "field_name n" "stops is_ident_char rest"
  shows "signature_extract_name (n @ rest) sb =
    (if length sb + length n \<le> sigbuf_size then Inr (n, sb @ n) else Inl (Undefined ''buffer overrun''))"
  using assms by (simp add: signature_extract_name_def field_name_def takeWhile_stops put_chars_def)

lemma field_name_nul_free: "field_name n \<Longrightarrow> nul_free n"
  by (auto simp: field_name_def nul_free_def list_all_iff)

lemma stops_simps [simp]:
  "stops is_ident_char []" "stops is_ident_char (CHR '';'' # r)" "stops is_ident_char (CHR '':'' # r)"
  "stops is_ident_char (CHR '','' # r)" "stops is_ident_char (CHR ''}'' # r)" "stops is_ident_char (CHR '')'' # r)"
  "stops is_ident_char (CHR '']'' # r)" "stops is_digit (CHR '']'' # r)"
  by (simp_all add: stops_def char_classes)

lemma sig_nul_free:
  "ty_ok ps w t \<Longrightarrow> nul_free (sig_text t)"
  "fields_ok ps w st xs \<Longrightarrow> nul_free (fields_text st xs)"
proof (induction t and xs arbitrary: and st rule: tdepth_tdepths.induct)
  case (2 k t)
  moreover have "nul_free (replicate m CHR ''*'')" for m by (induction m) (simp_all add: NUL_def)
  ultimately show ?case by (simp add: NUL_def)
qed (auto simp: prim_ok_def is_ident_nul_free field_name_nul_free NUL_def)

lemma sig_head:
  assumes "ty_ok ps w t"
  shows "\<exists>c s. sig_text t = c # s \<and> (case t of
      T_Prim _ \<Rightarrow> is_alpha c | T_Ptr _ _ \<Rightarrow> c = CHR ''*'' | T_Arr _ _ \<Rightarrow> c = CHR ''[''
    | T_Rec st _ _ \<Rightarrow> c = (if st then CHR ''{'' else CHR ''(''))"
proof (cases t)
  case (T_Prim n)
  with assms show ?thesis by (cases n) (auto simp: prim_ok_def is_ident_def)
qed auto

lemma alpha_not_special:
  "is_alpha c \<Longrightarrow> c \<noteq> CHR ''*'' \<and> c \<noteq> CHR ''&'' \<and> c \<noteq> CHR ''['' \<and> c \<noteq> CHR ''{'' \<and> c \<noteq> CHR ''('' \<and> c \<noteq> CHR ''<''
    \<and> c \<noteq> CHR ''#'' \<and> c \<noteq> CHR ''+'' \<and> c \<noteq> CHR '')'' \<and> c \<noteq> CHR ''}''"
  by (auto simp: char_classes)

lemma tsize_range:
  "ty_ok ps w t \<Longrightarrow> 0 \<le> tsize ps t \<and> tsize ps t < 2 ^ 31"
  "fields_ok ps w st xs \<Longrightarrow> 0 \<le> tsizes ps xs"
  by (induction t and xs arbitrary: and st rule: tdepth_tdepths.induct) (auto simp: prim_ok_def pointer_size_def)

lemma put_chars_fits: "length sb + length s \<le> sigbuf_size \<Longrightarrow> put_chars s sb = Inr (sb @ s)"
  by (simp add: put_chars_def)

lemma put_text_fits: "length sb + length s < sigbuf_size \<Longrightarrow> put_text s sb = Inr (sb @ s)"
  by (simp add: put_text_def)

definition unwinds :: "'z unwinder \<Rightarrow> (string \<Rightarrow> int) \<Rightarrow> ty \<Rightarrow> bool" where
  "unwinds rec ps t \<longleftrightarrow>
     (\<forall>w st pre rc sb rest. ty_ok ps w t \<longrightarrow> names_ok w \<longrightarrow> length sb + length (sig_text t) < sigbuf_size \<longrightarrow>
        length (sig_text t) < 1000 \<longrightarrow> stops is_ident_char rest \<longrightarrow>
        (\<exists>dt d w'. rec st (sig_text t @ rest) pre rc sb w =
           Inr (Some \<lparr>used = length (sig_text t), sigbuf = sb @ sig_text t, typesize = tsize ps t, retdt = dt\<rparr>, w')
           \<and> grows w w' \<and> dt_heap w' dt = Some d))"

lemma unwindsE:
  assumes "unwinds rec ps t" "ty_ok ps w t" "names_ok w" "length sb + length (sig_text t) < sigbuf_size"
    "length (sig_text t) < 1000" "stops is_ident_char rest"
  obtains dt d w' where "rec st (sig_text t @ rest) pre rc sb w =
      Inr (Some \<lparr>used = length (sig_text t), sigbuf = sb @ sig_text t, typesize = tsize ps t, retdt = dt\<rparr>, w')"
    "grows w w'" "dt_heap w' dt = Some d"
  using assms unfolding unwinds_def by blast

text \<open>The kinds of struct the language has, with their closing bracket.\<close>

definition kind_closes :: "CAStructType \<Rightarrow> bool \<Rightarrow> char \<Rightarrow> bool" where
  "kind_closes k stf close \<longleftrightarrow>
     k = Struct_NamedStruct \<and> stf \<and> close = CHR ''}'' \<or>
     (k = Struct_NamedTuple \<or> k = Struct_GeneralTuple) \<and> \<not> stf \<and> close = CHR '')''"

lemma kind_goes_on:
  "kind_closes k stf close \<Longrightarrow> struct_goes_on k pch \<longleftrightarrow> \<not> head_is close pch"
  "kind_closes k stf close \<Longrightarrow> is_named_field_struct_type k \<longleftrightarrow> stf"
  by (auto simp: kind_closes_def struct_goes_on_def is_tuple_type_def is_general_struct_type_def
      is_named_field_struct_type_def)

lemma kind_close_stops: "kind_closes k stf close \<Longrightarrow> stops is_ident_char (close # rest) \<and> close \<noteq> CHR '','' \<and> close \<noteq> NUL"
  by (auto simp: kind_closes_def NUL_def)

text \<open>The part of a member before its type.\<close>

lemma member_name_run:
  assumes "field_name f" "stf \<longrightarrow> f \<noteq> []" "stf \<longrightarrow> length sb + length f < sigbuf_size" "kind_closes kind stf close"
  shows "unwind_member_name kind ((if stf then f @ '':'' else []) @ rest) sb
    = Inr (if stf then f else [], rest, sb @ (if stf then f @ '':'' else []))"
  using assms kind_goes_on(2) [OF assms(4)]
  by (cases stf) (simp_all add: unwind_member_name_def name_chars head_is_def put_chars_fits)

lemma head_not_close:
  assumes "ty_ok ps w t" "kind_closes k stf close" "stf \<longrightarrow> field_name f \<and> f \<noteq> []"
  shows "\<not> head_is close ((if stf then f @ '':'' else []) @ sig_text t @ rest)"
proof (cases stf)
  case True
  with assms(3) obtain c s where "f = c # s" "is_ident_char c" by (cases f) (auto simp: field_name_def)
  with True assms(2) show ?thesis by (auto simp: kind_closes_def head_is_def char_classes)
next
  case False
  from sig_head [OF assms(1)] obtain c s where c: "sig_text t = c # s" and h: "case t of
      T_Prim _ \<Rightarrow> is_alpha c | T_Ptr _ _ \<Rightarrow> c = CHR ''*'' | T_Arr _ _ \<Rightarrow> c = CHR ''[''
    | T_Rec st _ _ \<Rightarrow> c = (if st then CHR ''{'' else CHR ''('')" by blast
  from h have "c \<noteq> CHR '')''" using alpha_not_special [of c] by (cases t) auto
  with False assms(2) c show ?thesis by (auto simp: kind_closes_def head_is_def)
qed

lemma members_step:
  assumes u: "unwinds rec ps t" "ty_ok ps w t" and f: "field_name f" "stf \<longrightarrow> f \<noteq> []"
    and k: "kind_closes kind stf close"
    and g: "grows w0 w" "cs_next w0 \<le> c" "c < cs_next w" "cs_heap w c = Some cs" "struct_ok cs"
    and len: "length sb + length ((if stf then f @ '':'' else []) @ sig_text t) + 1 < sigbuf_size"
      "length (sig_text t) < 1000"
    and size: "0 \<le> ss_size sizes" "ss_size sizes + tsize ps t < 2 ^ 31"
    and tail: "tail = (if final then close # rest else '','' @ rest)"
  shows "\<exists>w' cs'. unwind_members rec st kind c names check (Suc j)
        ((if stf then f @ '':'' else []) @ sig_text t @ tail) sb sizes w
      = unwind_members rec st kind c names check j (if final then tail else rest)
          (sb @ (if stf then f @ '':'' else []) @ sig_text t @ (if final then [] else '',''))
          (sizes\<lparr>ss_size := ss_size sizes + tsize ps t\<rparr>) w'
    \<and> grows w0 w' \<and> keeps_types w w' \<and> cs_heap w' c = Some cs' \<and> struct_ok cs' \<and> c < cs_next w'"
proof -
  let ?pre = "if stf then f @ '':'' else []"
  note kind = kind_goes_on [OF k] and close = kind_close_stops [OF k]
  have goes: "struct_goes_on kind (?pre @ sig_text t @ tail)"
    using head_not_close [OF u(2) k] f kind(1) by simp
  have names: "names_ok w" using g(1) by (rule grows_names)
  have stop: "stops is_ident_char tail" using tail close by simp
  have fits: "length (sb @ ?pre) + length (sig_text t) < sigbuf_size" using len by simp
  from unwindsE [OF u names fits len(2) stop] obtain dt d w1 where
    r: "rec st (sig_text t @ tail) names check (sb @ ?pre) w =
      Inr (Some \<lparr>used = length (sig_text t), sigbuf = (sb @ ?pre) @ sig_text t, typesize = tsize ps t, retdt = dt\<rparr>, w1)"
    and g1: "grows w w1" by metis
  have "0 \<le> tsize ps t" using tsize_range(1) [OF u(2)] by simp
  then have size': "add_member_size (tsize ps t) sizes = Inr (sizes\<lparr>ss_size := ss_size sizes + tsize ps t\<rparr>)"
    using size by (simp add: add_member_size_def checked_int_def)
  have n1: "names_ok w1" using g1 by (rule grows_names)
  have "\<exists>i w2. (if stf then intern f else ret (- 1)) w1 = Inr (i, w2) \<and> grows w1 w2 \<and> cs_heap w2 = cs_heap w1
      \<and> cs_next w2 = cs_next w1"
    using intern_grows [OF n1 field_name_nul_free [OF f(1)]] n1 by (cases stf) auto
  then obtain i w2 where w2: "(if stf then intern f else ret (- 1)) w1 = Inr (i, w2)" "grows w1 w2"
    "cs_heap w2 = cs_heap w1" "cs_next w2 = cs_next w1" by blast
  have g2: "grows w w2" "grows w0 w2" using grows_trans [OF g1 w2(2)] grows_trans [OF g(1)] by blast+
  have c2: "cs_heap w2 c = Some cs" "c < cs_next w2" using g1 g(3,4) w2(3,4) by (auto simp: grows_def)
  from add_member_grows [OF g2(2) g(2) c2(1) g(5)] obtain cs' w3 where
    w3: "castruct_add_member c i dt 0 w2 = Inr ((), w3)" "grows w0 w3" "cs_heap w3 c = Some cs'" "struct_ok cs'"
      "dt_heap w3 = dt_heap w2" "dt_next w3 = dt_next w2" "cs_next w3 = cs_next w2" by blast
  have same: "keeps_types w2 w3"
    using w3(1,5,6) by (auto simp: castruct_add_member_def act_Inr_iff cs_of_def lift_result_Inr_iff put_cs_def
        keeps_types_def interned_def same_but_signature_def)
  have head: "unwind_member_name kind (?pre @ sig_text t @ tail) sb
      = Inr (if stf then f else [], sig_text t @ tail, sb @ ?pre)"
    using member_name_run [OF f _ k] len(1) by (cases stf) simp_all
  have comma: "head_is CHR '','' tail \<longleftrightarrow> \<not> final" using tail close by (simp add: head_is_def)
  have put: "put_chars '','' (sb @ ?pre @ sig_text t) = Inr (sb @ ?pre @ sig_text t @ '','')"
    using len(1) by (simp add: put_chars_def)
  have "unwind_members rec st kind c names check (Suc j) (?pre @ sig_text t @ tail) sb sizes w
      = unwind_members rec st kind c names check j (if final then tail else rest)
          (sb @ ?pre @ sig_text t @ (if final then [] else '',''))
          (sizes\<lparr>ss_size := ss_size sizes + tsize ps t\<rparr>) w3"
    using goes r size' w2(1) w3(1) comma put tail kind(2) head
    by (cases stf; cases final) (simp_all add: Let_def)
  moreover have "keeps_types w w3" using keeps_types_trans [OF grows_types [OF g2(1)] same] .
  ultimately show ?thesis using w3 c2(2) by auto
qed

lemma members_run:
  assumes "\<forall>x\<in>set fs. unwinds rec ps (snd x)" "kind_closes kind stf close"
  shows "fields_ok ps w stf fs \<Longrightarrow> grows w0 w \<Longrightarrow> cs_next w0 \<le> c \<Longrightarrow> c < cs_next w \<Longrightarrow>
    cs_heap w c = Some cs \<Longrightarrow> struct_ok cs \<Longrightarrow> length sb + length (fields_text stf fs) + 1 < sigbuf_size \<Longrightarrow>
    length (fields_text stf fs) < 1000 \<Longrightarrow> 0 \<le> ss_size sizes \<Longrightarrow> ss_size sizes + tsizes ps fs < 2 ^ 31 \<Longrightarrow> length fs < k \<Longrightarrow>
    \<exists>w'. unwind_members rec st kind c names check k (fields_text stf fs @ close # rest) sb sizes w
      = Inr ((close # rest, sb @ fields_text stf fs, sizes\<lparr>ss_size := ss_size sizes + tsizes ps fs\<rparr>), w')
    \<and> grows w0 w' \<and> keeps_types w w'"
  using assms(1)
proof (induction fs arbitrary: sb w sizes k cs)
  case Nil
  then obtain j where "k = Suc j" by (cases k) auto
  then show ?case using kind_goes_on(1) [OF assms(2)] Nil.prems(2)
    by (intro exI [of _ w]) (simp add: head_is_def keeps_types_def same_but_signature_def)
next
  case (Cons x fs)
  obtain f t where x: "x = (f, t)" by (metis surj_pair)
  obtain j where k: "k = Suc j" "length fs < j" using Cons.prems(11) by (cases k) auto
  have ok: "field_name f" "stf \<longrightarrow> f \<noteq> []" "ty_ok ps w t" "fields_ok ps w stf fs"
    using Cons.prems(1) x by auto
  have u: "unwinds rec ps t" using Cons.prems(12) x by auto
  have pos: "0 \<le> tsize ps t" "0 \<le> tsizes ps fs"
    using tsize_range(1) [OF ok(3)] tsize_range(2) [OF ok(4)] by auto
  let ?final = "fs = []" and ?rest = "if fs = [] then rest else fields_text stf fs @ close # rest"
  let ?tail = "if ?final then close # ?rest else '','' @ ?rest"
  have len: "length sb + length ((if stf then f @ '':'' else []) @ sig_text t) + 1 < sigbuf_size"
    "length (sig_text t) < 1000" using Cons.prems(7,8) x by auto
  have size: "ss_size sizes + tsize ps t < 2 ^ 31" using Cons.prems(10) x pos by simp
  from members_step [OF u ok(3,1,2) assms(2) Cons.prems(2-6) len Cons.prems(9) size, of ?tail ?final ?rest st names check j]
  obtain w1 cs1 where step: "unwind_members rec st kind c names check (Suc j)
        ((if stf then f @ '':'' else []) @ sig_text t @ ?tail) sb sizes w
      = unwind_members rec st kind c names check j (if ?final then ?tail else ?rest)
          (sb @ (if stf then f @ '':'' else []) @ sig_text t @ (if ?final then [] else '',''))
          (sizes\<lparr>ss_size := ss_size sizes + tsize ps t\<rparr>) w1"
    "grows w0 w1" "keeps_types w w1" "cs_heap w1 c = Some cs1" "struct_ok cs1" "c < cs_next w1" by blast
  have "fields_ok ps w1 stf fs" using ty_ok_grows(2) [OF step(3) ok(4)] .
  from Cons.IH [OF this step(2) Cons.prems(3) step(6,4,5), of
      "sb @ (if stf then f @ '':'' else []) @ sig_text t @ (if ?final then [] else '','')"
      "sizes\<lparr>ss_size := ss_size sizes + tsize ps t\<rparr>" j]
  obtain w2 where w2: "unwind_members rec st kind c names check j (fields_text stf fs @ close # rest)
        (sb @ (if stf then f @ '':'' else []) @ sig_text t @ (if ?final then [] else '',''))
        (sizes\<lparr>ss_size := ss_size sizes + tsize ps t\<rparr>) w1
      = Inr ((close # rest, (sb @ (if stf then f @ '':'' else []) @ sig_text t @ (if ?final then [] else '','')) @ fields_text stf fs,
          sizes\<lparr>ss_size := ss_size sizes + tsize ps t + tsizes ps fs\<rparr>), w2)"
    "grows w0 w2" "keeps_types w1 w2"
    using Cons.prems(7-10,12) k(2) x pos by (cases "fs = []"; auto)
  have "unwind_members rec st kind c names check k (fields_text stf (x # fs) @ close # rest) sb sizes w
      = Inr ((close # rest, sb @ fields_text stf (x # fs), sizes\<lparr>ss_size := ss_size sizes + tsizes ps (x # fs)\<rparr>), w2)"
    using step(1) w2(1) x k(1) by (cases "fs = []") (simp_all add: add.assoc)
  with w2(2) keeps_types_trans [OF step(3) w2(3)] show ?case by blast
qed

lemma fields_text_length: "fields_ok ps w stf fs \<Longrightarrow> length fs \<le> length (fields_text stf fs)"
proof (induction fs)
  case (Cons x fs)
  obtain f t where x: "x = (f, t)" by (metis surj_pair)
  with Cons.prems have "ty_ok ps w t" by simp
  from sig_head [OF this] have "0 < length (sig_text t)" by auto
  then have "1 \<le> length (sig_text t)" by linarith
  with Cons x show ?case by (cases "fs = []") auto
qed simp

text \<open>The head of a struct or tuple.\<close>

lemma struct_head_run:
  assumes "field_name n" "stf \<longrightarrow> n \<noteq> []" "length sb + length n + 2 \<le> sigbuf_size"
  defines "close \<equiv> if stf then CHR ''}'' else CHR '')''"
    and "kind \<equiv> if stf then Struct_NamedStruct else if n = [] then Struct_GeneralTuple else Struct_NamedTuple"
  shows "unwind_struct_head (if stf then Struct_NamedStruct else Struct_NamedTuple)
      ((if stf then CHR ''{'' else CHR ''('') # n @ (if body = [] then [] else '';'' @ body) @ close # rest) sb
    = Inr (kind, n, body @ close # rest,
        sb @ (if stf then ''{'' else ''('') @ n @ (if body = [] then [] else '';''))"
  and "kind_closes kind stf close" "is_named_struct_type kind \<longleftrightarrow> n \<noteq> []"
proof -
  show k: "kind_closes kind stf close" by (auto simp: kind_closes_def kind_def close_def)
  have stop: "stops is_ident_char ((if body = [] then [] else '';'' @ body) @ close # rest)"
    by (simp add: close_def)
  have n: "length sb + length n < sigbuf_size" using assms(3) by simp
  show "is_named_struct_type kind \<longleftrightarrow> n \<noteq> []" using assms(2) by (auto simp: kind_def is_named_struct_type_def)
  note goes = kind_goes_on(1) [OF k]
  show "unwind_struct_head (if stf then Struct_NamedStruct else Struct_NamedTuple)
      ((if stf then CHR ''{'' else CHR ''('') # n @ (if body = [] then [] else '';'' @ body) @ close # rest) sb
    = Inr (kind, n, body @ close # rest,
        sb @ (if stf then ''{'' else ''('') @ n @ (if body = [] then [] else '';''))"
    using assms(2,3) n name_chars [OF assms(1) stop] goes
    by (cases stf; cases "n = []"; cases "body = []")
       (auto simp: unwind_struct_head_def put_chars_fits Let_def head_is_def kind_def close_def)
qed

text \<open>Each form of a type.\<close>

definition unwound_as :: "(string \<Rightarrow> int) \<Rightarrow> ty \<Rightarrow> string \<Rightarrow> 'z types_scheme \<Rightarrow> (unwound option \<times> 'z types_scheme) result \<Rightarrow> bool" where
  "unwound_as ps t sb w res \<longleftrightarrow>
     (\<exists>dt d w'. res = Inr (Some \<lparr>used = length (sig_text t), sigbuf = sb @ sig_text t, typesize = tsize ps t, retdt = dt\<rparr>, w')
        \<and> grows w w' \<and> dt_heap w' dt = Some d)"

lemma make_symname_run:
  assumes "names_ok w"
  shows "catype_make_type_symname nm ty n w = Inr (dt_next w,
      w\<lparr>dt_heap := (dt_heap w)(dt_next w \<mapsto> \<lparr>dt_type = ty, formalname = nm, dt_size = n mod 2 ^ 64, signature = nm,
        status = CADT_None, layout = Layout_None\<rparr>), dt_next := Suc (dt_next w)\<rparr>)"
  by (simp add: catype_make_type_symname_def new_dt_def)

lemma array_run:
  assumes "unwinds rec ps t" "ty_ok ps w (T_Arr t n)" "names_ok w" "length (sig_text (T_Arr t n)) < 1000"
    and "length sb + length (sig_text (T_Arr t n)) < sigbuf_size"
  shows "unwound_as ps (T_Arr t n) sb w
    (catype_unwind_type_array rec st (sig_text (T_Arr t n) @ rest) pre rc sb w)"
proof -
  have ok: "ty_ok ps w t" "n < 2 ^ 31" "tsize ps t * int n < 2 ^ 31" "length (nat_text n) < 16" using assms(2) by simp_all
  have pos: "0 \<le> tsize ps t" using tsize_range(1) [OF ok(1)] by simp
  have len: "length (sb @ ''['') + length (sig_text t) < sigbuf_size" "length (sig_text t) < 1000"
    using assms(4,5) by simp_all
  have stop: "stops is_ident_char (CHR '';'' # nat_text n @ CHR '']'' # rest)" by simp
  from unwindsE [OF assms(1) ok(1) assms(3) len stop] obtain dt d w1 where
    r: "rec st (sig_text t @ CHR '';'' # nat_text n @ CHR '']'' # rest) pre rc (sb @ ''['') w =
      Inr (Some \<lparr>used = length (sig_text t), sigbuf = (sb @ ''['') @ sig_text t, typesize = tsize ps t, retdt = dt\<rparr>, w1)"
    "grows w w1" by metis
  have digits: "takeWhile is_digit (nat_text n @ CHR '']'' # rest) = nat_text n"
    by (rule takeWhile_stops) simp_all
  have num: "atoi (nat_text n) = int n" using atoi_nat_text [of "[]" n] by (simp add: stops_def)
  have "0 \<le> tsize ps t * int n" using pos by simp
  with ok have sizes: "checked_int (int n) = Inr (int n)" "checked_int (tsize ps t * int n) = Inr (tsize ps t * int n)"
    by (auto simp: checked_int_def)
  let ?o = "\<lparr>dt_type = ARRAY, formalname = - 1, dt_size = (tsize ps t * int n) mod 2 ^ 64, signature = - 1,
      status = CADT_None, layout = Layout_Array dt 1 [int n]\<rparr>"
  let ?w2 = "w1\<lparr>dt_heap := (dt_heap w1)(dt_next w1 \<mapsto> ?o), dt_next := Suc (dt_next w1)\<rparr>"
  have "catype_unwind_type_array rec st (sig_text (T_Arr t n) @ rest) pre rc sb w =
    Inr (Some \<lparr>used = length (sig_text (T_Arr t n)), sigbuf = sb @ sig_text (T_Arr t n),
      typesize = tsize ps (T_Arr t n), retdt = dt_next w1\<rparr>, ?w2)"
    using assms(5) ok(4) pos len r(1) digits num sizes
    by (simp add: catype_unwind_type_array_def put_chars_fits head_is_def Let_def make_symname_run [OF grows_names [OF r(2)]]
        dt_of_def get_dt_def put_dt_def typeid_novalue_def)
  moreover have "grows w ?w2" by (rule new_dt_grows(2) [OF r(2)])
  ultimately show ?thesis by (auto simp: unwound_as_def)
qed

lemma struct_run:
  assumes "\<forall>x\<in>set fs. unwinds rec ps (snd x)" "ty_ok ps w (T_Rec stf n fs)" "names_ok w"
    and "length (sig_text (T_Rec stf n fs)) < 1000" "length sb + length (sig_text (T_Rec stf n fs)) < sigbuf_size"
  shows "unwound_as ps (T_Rec stf n fs) sb w
    (catype_unwind_type_struct rec st (if stf then Struct_NamedStruct else Struct_NamedTuple)
       (sig_text (T_Rec stf n fs) @ rest) pre rc sb w)"
proof -
  have ok: "field_name n" "stf \<longrightarrow> n \<noteq> []" "fields_ok ps w stf fs" "tsizes ps fs < 2 ^ 31" using assms(2) by simp_all
  define close where "close = (if stf then CHR ''}'' else CHR '')'')"
  define kind where "kind = (if stf then Struct_NamedStruct else if n = [] then Struct_GeneralTuple else Struct_NamedTuple)"
  define body where "body = fields_text stf fs"
  define sb1 where "sb1 = sb @ (if stf then ''{'' else ''('') @ n @ (if fs = [] then [] else '';'')"
  have "fs \<noteq> [] \<Longrightarrow> body \<noteq> []" using fields_text_length [OF ok(3)] by (cases fs) (auto simp: body_def)
  then have body: "body = [] \<longleftrightarrow> fs = []" by (auto simp: body_def)
  have sigeq: "sig_text (T_Rec stf n fs) @ rest =
      (if stf then CHR ''{'' else CHR ''('') # n @ (if body = [] then [] else '';'' @ body) @ close # rest"
    using body by (simp add: close_def body_def)
  have out: "sb @ sig_text (T_Rec stf n fs) = sb1 @ body @ [close]"
    using body by (simp add: close_def body_def sb1_def)
  have "length body \<le> length (sig_text (T_Rec stf n fs))" by (simp add: body_def)
  then have len: "length sb1 + length body + 1 < sigbuf_size" "length body < 1000"
    using arg_cong [where f = length, OF out] assms(4,5) by simp_all
  have "length sb + length n + 2 \<le> sigbuf_size" using assms(5) by (cases stf) simp_all
  note head1 = struct_head_run(1) [OF ok(1,2) this, where body = body and rest = rest, folded close_def kind_def]
    and head2 = struct_head_run(2) [OF ok(1,2) this, folded close_def kind_def]
  have "\<exists>i w1. (if is_named_struct_type kind then intern n else ret (- 1)) w = Inr (i, w1) \<and> grows w w1"
    using intern_grows [OF assms(3) field_name_nul_free [OF ok(1)]] assms(3) by (cases "is_named_struct_type kind") auto
  then obtain i w1 where w1: "(if is_named_struct_type kind then intern n else ret (- 1)) w = Inr (i, w1)" "grows w w1" by blast
  let ?cs = "\<lparr>cs_type = kind, cs_name = i, fieldnum = 0, capacity = 10, fieldmaxalign = 1, cs_fields = replicate 10 None\<rparr>"
  let ?o = "\<lparr>dt_type = STRUCT, formalname = i, dt_size = (- 1) mod 2 ^ 64, signature = i, status = CADT_None,
      layout = Layout_Struct (cs_next w1)\<rparr>"
  let ?w2 = "w1\<lparr>dt_heap := (dt_heap w1)(dt_next w1 \<mapsto> ?o), dt_next := Suc (dt_next w1),
      cs_heap := (cs_heap w1)(cs_next w1 \<mapsto> ?cs), cs_next := Suc (cs_next w1)\<rparr>"
  have make: "catype_make_struct_type i (- 1) kind 10 w1 = Inr (dt_next w1, ?w2)"
    by (simp add: catype_make_struct_type_def new_cs_def catype_make_type_symname_def new_dt_def act_def dt_of_def
        get_dt_def put_dt_def)
  have lay: "struct_layout_of (dt_next w1) ?w2 = Inr (cs_next w1, ?w2)"
    by (simp add: struct_layout_of_def act_def dt_of_def get_dt_def)
  have g2: "grows w ?w2" using w1(2) by (auto simp: grows_defs interned_def)
  have k2: "keeps_types w ?w2" using g2 by (rule grows_types)
  have sok: "struct_ok ?cs" by (rule new_struct_ok) simp
  have cs: "cs_next w \<le> cs_next w1" "cs_next w1 < cs_next ?w2" "cs_heap ?w2 (cs_next w1) = Some ?cs"
    using w1(2) by (simp_all add: grows_def)
  have k: "length fs < Suc (length (body @ close # rest))" using fields_text_length [OF ok(3)] by (simp add: body_def)
  have lens: "length sb1 + length (fields_text stf fs) + 1 < sigbuf_size" "length (fields_text stf fs) < 1000"
    "0 \<le> ss_size no_members" "ss_size no_members + tsizes ps fs < 2 ^ 31"
    using len ok(4) by (simp_all add: body_def no_members_def)
  have zero: "ss_size no_members + tsizes ps fs = tsizes ps fs" by (simp add: no_members_def)
  obtain w3 where w3: "unwind_members rec st kind (cs_next w1)
      (if is_named_struct_type kind then name_insert n (Some (dt_next w1)) pre else pre)
      (if is_named_struct_type kind then n # rc else rc) (Suc (length (body @ close # rest))) (body @ close # rest)
      sb1 no_members ?w2 = Inr ((close # rest, sb1 @ body, no_members\<lparr>ss_size := tsizes ps fs\<rparr>), w3)"
    "grows w w3" "keeps_types ?w2 w3"
    using members_run [where st = st and rest = rest
        and names = "if is_named_struct_type kind then name_insert n (Some (dt_next w1)) pre else pre"
        and check = "if is_named_struct_type kind then n # rc else rc",
        OF assms(1) head2 ty_ok_grows(2) [OF k2 ok(3)] g2 cs sok lens k]
    unfolding zero body_def [symmetric] by blast
  obtain d where d: "dt_heap w3 (dt_next w1) = Some d"
    using grows_object [OF w3(3), of "dt_next w1" ?o] by auto
  have g4: "grows w (w3\<lparr>dt_heap := (dt_heap w3)(dt_next w1 \<mapsto> d\<lparr>dt_size := tsizes ps fs mod 2 ^ 64\<rparr>)\<rparr>)"
    by (rule put_new_grows(2) [OF w3(2)]) (use w1(2) in \<open>simp add: grows_defs\<close>)
  have sum: "struct_size (no_members\<lparr>ss_size := tsizes ps fs\<rparr>) = tsizes ps fs" by (simp add: struct_size_def no_members_def)
  have put: "put_chars [close] (sb1 @ body) = Inr (sb1 @ body @ [close])" using len(1) by (simp add: put_chars_def)
  let ?w4 = "w3\<lparr>dt_heap := (dt_heap w3)(dt_next w1 \<mapsto> d\<lparr>dt_size := tsizes ps fs mod 2 ^ 64\<rparr>)\<rparr>"
  have set_d: "set_size (dt_next w1) (tsizes ps fs) w3 = Inr ((), ?w4)"
    using d by (simp add: set_size_def dt_of_def get_dt_def put_dt_def)
  have head: "lift_result (unwind_struct_head (if stf then Struct_NamedStruct else Struct_NamedTuple)
      ((if stf then CHR ''{'' else CHR ''('') # n @ (if body = [] then [] else '';'' @ body) @ close # rest) sb) w
    = Inr ((kind, n, body @ close # rest, sb1), w)"
    using head1 body by (simp add: sb1_def)
  have last: "lift_result (put_chars (take 1 (close # rest)) (sb1 @ body)) w3 = Inr (sb1 @ body @ [close], w3)"
    using put by simp
  have used: "length ((if stf then CHR ''{'' else CHR ''('') # n @ (if body = [] then [] else '';'' @ body) @ close # rest)
      - length (drop 1 (close # rest)) = length (sig_text (T_Rec stf n fs))"
    using arg_cong [where f = length, OF sigeq] by simp
  have "catype_unwind_type_struct rec st (if stf then Struct_NamedStruct else Struct_NamedTuple)
      (sig_text (T_Rec stf n fs) @ rest) pre rc sb w
    = Inr (Some \<lparr>used = length (sig_text (T_Rec stf n fs)), sigbuf = sb @ sig_text (T_Rec stf n fs),
        typesize = tsizes ps fs, retdt = dt_next w1\<rparr>, ?w4)"
    unfolding catype_unwind_type_struct_def sigeq out
    by (simp only: act_Inr head w1(1) make lay
        w3(1) last sum set_d used prod.case action_simps)
  with g4 show ?thesis by (auto simp: unwound_as_def)
qed

lemma type_id_interned:
  assumes "interned w i (''t:'' @ n)" "length n < 128"
  shows "sym_form_type_id_by_str n w = Inr (i, w)"
  using assms check_insert_interned [OF assms(1)]
  by (simp add: sym_form_type_id_by_str_def sym_form_type_name_def name_buffer_def intern_def)

lemma prim_run:
  assumes "ty_ok ps w (T_Prim n)" "names_ok w" "length sb + length n < sigbuf_size" "stops is_ident_char rest"
  shows "unwound_as ps (T_Prim n) sb w (catype_unwind_type_name infer rec st (n @ rest) pre rc sb w)"
proof -
  have id: "is_ident n" "length n < 128" using assms(1) by (simp_all add: prim_ok_def)
  obtain i p d where i: "interned w i (''t:'' @ n)" and p: "s_type_map w i = Some p" "dt_heap w p = Some d"
      "i32_of_int (dt_size d) = ps n"
    using assms(1) unfolding ty_ok.simps prim_ok_def by blast
  have not_expr: "take 2 (n @ rest) \<noteq> ''+:''"
    using id(1) by (cases n) (auto simp: is_ident_def char_classes)
  have "n \<noteq> []" using id(1) by (simp add: is_ident_def)
  then have "catype_unwind_type_name infer rec st (n @ rest) pre rc sb w =
      Inr (Some \<lparr>used = length n, sigbuf = sb @ n, typesize = ps n, retdt = p\<rparr>, w)"
    using not_expr parse_ident_append [OF id(1) assms(4)] id(2) type_id_interned [OF i id(2)] p put_text_fits [OF assms(3)]
    by (simp add: catype_unwind_type_name_def catype_get_primitive_by_name_def dt_of_def get_dt_def)
  then show ?thesis using assms(2) p by (auto simp: unwound_as_def)
qed

lemma prefix_none:
  "\<not> head_is CHR ''*'' s \<Longrightarrow> \<not> head_is CHR ''&'' s \<Longrightarrow> unwind_prefix s fin a sb w = Inr ((s, fin, a, sb), w)"
  by (simp add: unwind_prefix.simps)

lemma prefix_stars:
  assumes "\<not> head_is CHR ''*'' s" "\<not> head_is CHR ''&'' s" "length sb + Suc k < sigbuf_size"
  shows "unwind_prefix (replicate (Suc k) CHR ''*'' @ s) False None sb w =
    Inr ((s, True, Some (dt_next w, Suc k), sb @ replicate (Suc k) CHR ''*''),
      w\<lparr>dt_heap := (dt_heap w)(dt_next w \<mapsto> \<lparr>dt_type = POINTER, formalname = - 1, dt_size = int pointer_size,
        signature = - 1, status = CADT_None, layout = Layout_None\<rparr>), dt_next := Suc (dt_next w)\<rparr>)"
proof -
  have n: "str_assign_while (replicate (Suc k) CHR ''*'' @ s) CHR ''*'' = Suc k"
    unfolding str_assign_while_def
    by (subst takeWhile_append2) (use assms(1) in \<open>auto simp: head_is_def split: list.splits\<close>)
  have h: "head_is CHR ''*'' (replicate (Suc k) CHR ''*'' @ s)" by (simp add: head_is_def)
  have sz: "int pointer_size mod 2 ^ 64 = int pointer_size" by (simp add: pointer_size_def)
  show ?thesis
    unfolding unwind_prefix.simps [of "replicate (Suc k) CHR ''*'' @ s"]
    using n h assms(3) sz prefix_none [OF assms(1,2)]
    by (simp add: Let_def put_chars_def catype_make_type_symname_def new_dt_def typeid_novalue_def)
qed

lemma form_run:
  assumes IH: "\<forall>t. tdepth t \<le> n \<longrightarrow> unwinds (catype_unwind_type_signature_inner infer n) ps t"
    and t: "tdepth t \<le> Suc n" "case t of T_Ptr _ _ \<Rightarrow> False | _ \<Rightarrow> True" "ty_ok ps w t" "names_ok w"
    and len: "length sb + length (sig_text t) < sigbuf_size" "length (sig_text t) < 1000" "stops is_ident_char rest"
  shows "unwound_as ps t sb w
    (unwind_form infer (catype_unwind_type_signature_inner infer n) st (sig_text t @ rest) pre rc sb w)"
proof (cases t)
  case (T_Prim nm)
  from t(3) T_Prim have "is_ident nm" by (simp add: prim_ok_def)
  then obtain c s where "nm = c # s" "is_alpha c" by (cases nm) (auto simp: is_ident_def)
  with alpha_not_special [of c] show ?thesis
    using prim_run [of ps w nm sb rest] t(3,4) len T_Prim by (simp add: unwind_form_def head_is_def)
next
  case (T_Arr t' k)
  with t(1) have "unwinds (catype_unwind_type_signature_inner infer n) ps t'" using IH by simp
  from array_run [OF this t(3,4) [unfolded T_Arr] len(2,1) [unfolded T_Arr]] show ?thesis
    by (simp add: T_Arr unwind_form_def head_is_def)
next
  case (T_Rec stf nm fs)
  have "tdepth (snd x) \<le> tdepths fs" if "x \<in> set fs" for x
    using that by (induction fs) (auto split: prod.splits)
  then have "\<forall>x\<in>set fs. unwinds (catype_unwind_type_signature_inner infer n) ps (snd x)"
    using IH t(1) T_Rec by (auto dest: le_trans)
  from struct_run [OF this t(3,4) [unfolded T_Rec] len(2,1) [unfolded T_Rec]] show ?thesis
    by (cases stf) (simp_all add: T_Rec unwind_form_def head_is_def)
qed (use t(2) in simp)

lemma finish_plain:
  assumes "r = \<lparr>used = length s, sigbuf = sb0 @ s, typesize = n, retdt = dt\<rparr>" "grows w0 w" "dt_heap w dt = Some d"
    and "nul_free s" "length s < 1000"
  shows "\<exists>d' w'. finish_type sb0 pch pch False None (Some r) w = Inr (Some r, w') \<and> grows w0 w' \<and> dt_heap w' dt = Some d'"
proof -
  from type_id_grows [OF grows_names [OF assms(2)] assms(4,5)] obtain i w1 where
    w1: "sym_form_type_id_by_str s w = Inr (i, w1)" "grows w w1" "dt_heap w1 = dt_heap w" by blast
  have d1: "dt_heap w1 dt = Some d" using w1(3) assms(3) by simp
  show ?thesis
    using assms(1) w1(1) d1 put_signature_grows [OF grows_trans [OF assms(2) w1(2)] d1, of i]
    by (simp add: finish_type_def dt_of_def get_dt_def put_dt_def)
qed

lemma finish_pointer:
  assumes "r = \<lparr>used = m, sigbuf = sp @ s, typesize = n, retdt = dt\<rparr>" "n \<noteq> - 1" "grows w0 w" "dt_next w0 \<le> p"
    and "dt_heap w p = Some d" "nul_free s" "length s < 1000" "length s = m + (length cn - length pch)"
  shows "\<exists>d' w'. finish_type sp cn pch True (Some (p, k)) (Some r) w =
      Inr (Some \<lparr>used = length s, sigbuf = sp @ s, typesize = int pointer_size, retdt = p\<rparr>, w')
    \<and> grows w0 w' \<and> dt_heap w' p = Some d'"
proof -
  let ?d = "d\<lparr>layout := Layout_Pointer dt k PP_Stack\<rparr>"
  let ?w = "w\<lparr>dt_heap := (dt_heap w)(p \<mapsto> ?d)\<rparr>"
  have g: "grows w0 ?w" by (rule put_new_grows(2) [OF assms(3,4)])
  from type_id_grows [OF grows_names [OF g] assms(6,7)] obtain i w1 where
    w1: "sym_form_type_id_by_str s ?w = Inr (i, w1)" "grows ?w w1" "dt_heap w1 = dt_heap ?w" by blast
  have d1: "dt_heap w1 p = Some ?d" using w1(3) by simp
  show ?thesis
    using assms(1,2,5,8) w1(1) d1 put_signature_grows [OF grows_trans [OF g w1(2)] d1, of i]
    by (simp add: finish_type_def dt_of_def get_dt_def put_dt_def)
qed

lemma sig_head_not_prefix:
  assumes "ty_ok ps w t" "case t of T_Ptr _ _ \<Rightarrow> False | _ \<Rightarrow> True"
  shows "\<not> head_is CHR ''*'' (sig_text t @ rest)" "\<not> head_is CHR ''&'' (sig_text t @ rest)" "sig_text t @ rest \<noteq> []"
proof -
  from sig_head [OF assms(1)] obtain c s where c: "sig_text t = c # s" and h: "case t of
      T_Prim _ \<Rightarrow> is_alpha c | T_Ptr _ _ \<Rightarrow> c = CHR ''*'' | T_Arr _ _ \<Rightarrow> c = CHR ''[''
    | T_Rec st _ _ \<Rightarrow> c = (if st then CHR ''{'' else CHR ''('')" by blast
  from h assms(2) have "c \<noteq> CHR ''*'' \<and> c \<noteq> CHR ''&''"
    using alpha_not_special [of c] by (cases t) auto
  with c show "\<not> head_is CHR ''*'' (sig_text t @ rest)" "\<not> head_is CHR ''&'' (sig_text t @ rest)"
    "sig_text t @ rest \<noteq> []" by (simp_all add: head_is_def)
qed

lemma tdepth_pos: "0 < tdepth t"
  by (induction t) auto

lemma inner_step:
  assumes IH: "\<forall>t. tdepth t \<le> n \<longrightarrow> unwinds (catype_unwind_type_signature_inner infer n) ps t"
    and d: "tdepth t \<le> Suc n" and t: "ty_ok ps w t" "names_ok w"
    and len: "length sb + length (sig_text t) < sigbuf_size" "length (sig_text t) < 1000" "stops is_ident_char rest"
  shows "\<exists>dt d w'. catype_unwind_type_signature_inner infer (Suc n) st (sig_text t @ rest) pre rc sb w =
      Inr (Some \<lparr>used = length (sig_text t), sigbuf = sb @ sig_text t, typesize = tsize ps t, retdt = dt\<rparr>, w')
    \<and> grows w w' \<and> dt_heap w' dt = Some d"
proof (cases "case t of T_Ptr _ _ \<Rightarrow> False | _ \<Rightarrow> True")
  case True
  note head = sig_head_not_prefix [OF t(1) True, of rest]
  from form_run [OF IH d True t len, of st pre rc] obtain dt d w1 where
    r: "unwind_form infer (catype_unwind_type_signature_inner infer n) st (sig_text t @ rest) pre rc sb w
      = Inr (Some \<lparr>used = length (sig_text t), sigbuf = sb @ sig_text t, typesize = tsize ps t, retdt = dt\<rparr>, w1)"
    "grows w w1" "dt_heap w1 dt = Some d" unfolding unwound_as_def by blast
  from finish_plain [OF refl r(2,3) sig_nul_free(1) [OF t(1)] len(2), of sb "sig_text t @ rest" "tsize ps t"]
  show ?thesis using r(1) prefix_none [OF head(1,2), of False None sb w] head(3) by (auto simp del: append_is_Nil_conv)
next
  case False
  then obtain k t' where p: "t = T_Ptr k t'" by (cases t) auto
  have t': "ty_ok ps w t'" "case t' of T_Ptr _ _ \<Rightarrow> False | _ \<Rightarrow> True" using t(1) p by simp_all
  note head = sig_head_not_prefix [OF t', of rest]
  have len': "length (sb @ replicate (Suc k) CHR ''*'') + length (sig_text t') < sigbuf_size"
    "length (sig_text t') < 1000" "length sb + Suc k < sigbuf_size" using len(1,2) p by simp_all
  let ?d = "\<lparr>dt_type = POINTER, formalname = - 1, dt_size = int pointer_size, signature = - 1, status = CADT_None,
    layout = Layout_None\<rparr>"
  let ?w = "w\<lparr>dt_heap := (dt_heap w)(dt_next w \<mapsto> ?d), dt_next := Suc (dt_next w)\<rparr>"
  have g: "grows w ?w" by (rule new_dt_grows(2)) (simp add: t(2))
  have "tdepth t' \<le> Suc n" using d p by simp
  from form_run [OF IH this t'(2) ty_ok_grows(1) [OF grows_types [OF g] t'(1)] grows_names [OF g] len'(1,2) len(3),
      of st pre "[]"] obtain dt d w1 where
    r: "unwind_form infer (catype_unwind_type_signature_inner infer n) st (sig_text t' @ rest) pre []
        (sb @ replicate (Suc k) CHR ''*'') ?w
      = Inr (Some \<lparr>used = length (sig_text t'), sigbuf = sb @ sig_text t, typesize = tsize ps t', retdt = dt\<rparr>, w1)"
    "grows ?w w1" unfolding unwound_as_def p by auto
  from grows_object [OF grows_types [OF r(2)], of "dt_next w" ?d]
  obtain d' where d': "dt_heap w1 (dt_next w) = Some d'" by auto
  have "tsize ps t' \<noteq> - 1" using tsize_range(1) [OF t'(1)] by simp
  from finish_pointer [OF refl this grows_trans [OF g r(2)] le_refl d' sig_nul_free(1) [OF t(1)] len(2),
      where m = "length (sig_text t')" and cn = "sig_text t @ rest" and pch = "sig_text t' @ rest" and sp = sb and dt = dt
        and k = "Suc k"]
  show ?thesis using r(1) prefix_stars [OF head(1,2) len'(3), of w] head(3) p
    by (auto simp del: append_is_Nil_conv)
qed

lemma inner_unwinds: "tdepth t \<le> n \<Longrightarrow> unwinds (catype_unwind_type_signature_inner infer n) ps t"
proof (induction n arbitrary: t)
  case 0
  then show ?case using tdepth_pos [of t] by simp
next
  case (Suc n)
  then have IH: "\<forall>t. tdepth t \<le> n \<longrightarrow> unwinds (catype_unwind_type_signature_inner infer n) ps t" by blast
  show ?case unfolding unwinds_def using inner_step [OF IH Suc.prems] by blast
qed

subsection \<open>The whole operation\<close>

text \<open>Claim C5: unwinding is the identity on types that are written out. For every type of the
  language - primitive types, pointers, arrays, structs and tuples, nested to any depth - whose
  text is shorter than the name buffer, \<open>catype_unwind_type_signature\<close> on the id of the text
  succeeds, returns that same id as the signature and the sum of the sizes of the parts as the
  size, and leaves behind a type object that carries the signature and the expanded status. Fuel
  as large as the nesting depth is enough.\<close>

theorem unwind_written_out:
  assumes "names_ok w" "ty_ok ps w t" "interned w i (''t:'' @ sig_text t)"
    and "length (sig_text t) < 1000" "tdepth t \<le> fuel"
  shows "\<exists>dt d w'. catype_unwind_type_signature infer fuel st i w = Inr ((i, tsize ps t, dt), w')
    \<and> get_dt dt w' = Inr d \<and> signature d = i \<and> status d = CADT_Expand"
proof -
  have name: "catype_get_type_name i w = Inr (sig_text t, w)"
    using assms(1,3) by (intro get_type_name_known(1) [of _ _ "''t:''"]) (simp add: known_as_def)
  have len: "length ([]::string) + length (sig_text t) < sigbuf_size" using assms(4) by (simp add: sigbuf_size_def)
  from unwindsE [OF inner_unwinds [OF assms(5)] assms(2,1) len assms(4) stops_simps(1), of infer st "[]" "[]"] obtain dt d w1 where
    r: "catype_unwind_type_signature_inner infer fuel st (sig_text t) [] [] [] w =
      Inr (Some \<lparr>used = length (sig_text t), sigbuf = sig_text t, typesize = tsize ps t, retdt = dt\<rparr>, w1)"
    "grows w w1" "dt_heap w1 dt = Some d" unfolding append_Nil append_Nil2 by blast
  have "interned w1 i (''t:'' @ sig_text t)" using r(2) assms(3) by (simp add: grows_defs)
  from check_insert_interned [OF this] have "intern (''t:'' @ sig_text t) w1 = Inr (i, w1)" by (simp add: intern_def)
  then show ?thesis using name r put_text_fits [of "sig_text t" "[]"] len
    by (simp add: catype_unwind_type_signature_def put_text_def dt_of_def get_dt_def put_dt_def)
qed

definition prim_known :: "(string \<Rightarrow> int) \<Rightarrow> 'z types_scheme \<Rightarrow> string \<Rightarrow> bool" where
  "prim_known ps w n \<longleftrightarrow> is_ident n \<and> length n < 128 \<and> 0 \<le> ps n \<and> ps n < 2 ^ 31 \<and>
     (case s_symname_name2pos w (''t:'' @ n) of None \<Rightarrow> False | Some i \<Rightarrow>
     (case s_type_map w i of None \<Rightarrow> False | Some p \<Rightarrow> p < dt_next w \<and>
     (case dt_heap w p of None \<Rightarrow> False | Some d \<Rightarrow> i32_of_int (dt_size d) = ps n)))"

lemma prim_known_ok: "prim_known ps w n \<Longrightarrow> prim_ok ps w n"
  unfolding prim_known_def prim_ok_def interned_def
  by (auto simp: is_ident_nul_free NUL_def split: option.splits)

definition sample_sizes :: "string \<Rightarrow> int" where
  "sample_sizes n = (if n = ''i32'' then 4 else 1)"

definition sample_type :: ty where
  "sample_type = T_Rec True ''A'' [(''p'', T_Ptr 1 (T_Prim ''i32'')),
     (''n'', T_Arr (T_Rec False [] [([], T_Prim ''u8''), ([], T_Prim ''i32'')]) 3)]"

lemma sample_type_known:
  "prim_known sample_sizes types_init ''i32''" "prim_known sample_sizes types_init ''u8''"
  by code_simp+

theorem unwind_written_out_witness:
  "\<exists>i w. intern ''t:{A;p:**i32,n:[(;u8,i32);3]}'' types_init = Inr (i, w) \<and>
     (\<exists>dt d w'. catype_unwind_type_signature (\<lambda>_. fail Out_of_fuel) 4 0 i w = Inr ((i, 23, dt), w')
        \<and> get_dt dt w' = Inr d \<and> signature d = i \<and> status d = CADT_Expand)"
proof -
  have sig: "''t:'' @ sig_text sample_type = ''t:{A;p:**i32,n:[(;u8,i32);3]}''" by code_simp
  have nf: "nul_free (''t:'' @ sig_text sample_type)" unfolding sig by (simp add: NUL_def)
  from intern_grows [OF types_init_ok nf] obtain i w where
    w: "intern (''t:'' @ sig_text sample_type) types_init = Inr (i, w)" "grows types_init w" by blast
  have i: "interned w i (''t:'' @ sig_text sample_type)"
    by (rule intern_run(2) [OF types_init_ok nf w(1)])
  have "prim_ok sample_sizes w ''i32''" "prim_ok sample_sizes w ''u8''"
    using prim_ok_grows [OF grows_types [OF w(2)]] prim_known_ok sample_type_known by blast+
  moreover have "length (nat_text 3) < 16" by code_simp
  ultimately have ok: "ty_ok sample_sizes w sample_type"
    by (simp add: sample_type_def field_name_def char_classes sample_sizes_def pointer_size_def)
  have m: "length (sig_text sample_type) < 1000" "tdepth sample_type \<le> 4" "tsize sample_sizes sample_type = 23"
    by code_simp+
  from unwind_written_out [OF grows_names [OF w(2)] ok i m(1,2)] show ?thesis
    using w(1) sig m(3) by auto
qed

subsection \<open>Names of types\<close>

text \<open>The name \<open>nm\<close> is visible from the scope \<open>st\<close> as a type alias for the type id \<open>dataid\<close>.\<close>

definition alias_visible :: "addr \<Rightarrow> string \<Rightarrow> int \<Rightarrow> int \<Rightarrow> 'z types_scheme \<Rightarrow> bool" where
  "alias_visible st nm i dataid w \<longleftrightarrow> is_ident nm \<and> length nm < 128 \<and> interned w i (''t:'' @ nm) \<and> s_type_map w i = None \<and>
     (\<exists>p e tuple st' impl. sym_getsym st i True w = Inr (Some p) \<and> get_entry p w = Inr e \<and> sym_type e = Sym_DataType \<and>
        u e = U_Data tuple dataid None st' impl)"

lemma alias_run:
  assumes "alias_visible st nm i dataid w" "names_ok w" "ty_ok ps w t" "interned w dataid (''t:'' @ sig_text t)"
    and "length (sig_text t) < 1000" "tdepth t \<le> n"
  shows "\<exists>dt d w'. unwind_form infer (catype_unwind_type_signature_inner infer n) st nm [] [] [] w =
      Inr (Some \<lparr>used = length nm, sigbuf = sig_text t, typesize = tsize ps t, retdt = dt\<rparr>, w')
    \<and> grows w w' \<and> dt_heap w' dt = Some d"
proof -
  from assms(1) obtain p e tuple st' impl where nm: "is_ident nm" "length nm < 128" "interned w i (''t:'' @ nm)"
      "s_type_map w i = None"
    and e: "sym_getsym st i True w = Inr (Some p)" "get_entry p w = Inr e" "sym_type e = Sym_DataType"
      "u e = U_Data tuple dataid None st' impl"
    unfolding alias_visible_def by blast
  have name: "catype_get_type_name dataid w = Inr (sig_text t, w)"
    using assms(2,4) by (intro get_type_name_known(1) [of _ _ "''t:''"]) (simp add: known_as_def)
  have len: "length ([]::string) + length (sig_text t) < sigbuf_size" using assms(5) by (simp add: sigbuf_size_def)
  from unwindsE [OF inner_unwinds [OF assms(6)] assms(3,2) len assms(5) stops_simps(1), of infer st' "[(nm, None)]" "[nm]"]
  obtain dt d w1 where
    r: "catype_unwind_type_signature_inner infer n st' (sig_text t) [(nm, None)] [nm] [] w =
      Inr (Some \<lparr>used = length (sig_text t), sigbuf = sig_text t, typesize = tsize ps t, retdt = dt\<rparr>, w1)"
    "grows w w1" "dt_heap w1 dt = Some d" unfolding append_Nil append_Nil2 by blast
  from nm(1) obtain c s where c: "nm = c # s" "is_alpha c" by (cases nm) (auto simp: is_ident_def)
  have al: "unwind_alias (catype_unwind_type_signature_inner infer n) st' (sig_text t) [(nm, None)] [nm] [] (length nm) w =
      Inr (Some \<lparr>used = length nm, sigbuf = sig_text t, typesize = tsize ps t, retdt = dt\<rparr>, w1)"
    using r(1) by (simp add: unwind_alias_def)
  have "nm \<noteq> []" using c by simp
  have "take 2 nm \<noteq> ''+:''" using c by (auto simp: char_classes)
  moreover have "strutil_parse_ident_str nm = (length nm, nm)"
    using parse_ident_append [OF nm(1) stops_simps(1)] by simp
  ultimately have "catype_unwind_type_name infer (catype_unwind_type_signature_inner infer n) st nm [] [] [] w =
      Inr (Some \<lparr>used = length nm, sigbuf = sig_text t, typesize = tsize ps t, retdt = dt\<rparr>, w1)"
    using \<open>nm \<noteq> []\<close> nm(2,4) type_id_interned [OF nm(3,2)] e name al
    by (simp add: catype_unwind_type_name_def catype_get_primitive_by_name_def sym_gettypesym_by_name_def name_insert_def)
  then show ?thesis using r(2,3) alpha_not_special [OF c(2)] c(1) by (simp add: unwind_form_def head_is_def)
qed


text \<open>Whether a name is visible as an alias, computed.\<close>

definition alias_of :: "addr \<Rightarrow> string \<Rightarrow> 'z types_scheme \<Rightarrow> (int \<times> int) option" where
  "alias_of st nm w =
     (if \<not> is_ident nm \<or> 128 \<le> length nm then None
      else (case s_symname_name2pos w (''t:'' @ nm) of None \<Rightarrow> None | Some i \<Rightarrow>
        if s_type_map w i \<noteq> None then None
        else (case sym_getsym st i True w of Inr (Some p) \<Rightarrow>
          (case get_entry p w of Inl _ \<Rightarrow> None | Inr e \<Rightarrow>
             (case u e of U_Data _ dataid None _ _ \<Rightarrow> if sym_type e = Sym_DataType then Some (i, dataid) else None
              | _ \<Rightarrow> None))
          | _ \<Rightarrow> None)))"

lemma alias_of_visible:
  assumes "alias_of st nm w = Some (i, dataid)"
  shows "alias_visible st nm i dataid w"
  using assms is_ident_nul_free [of nm] unfolding alias_of_def alias_visible_def interned_def
  by (auto simp: NUL_def split: if_splits option.splits sum.splits entry_union.splits)

definition alias_world :: types where
  "alias_world = (case act (define_alias \<lparr>row = 1, col = 1\<rparr> ''P'' ''[*i32;3]'') (\<lambda>_. intern ''t:*[u8;2]'') types_init of
     Inr (_, w) \<Rightarrow> w | Inl _ \<Rightarrow> types_init)"

lemma alias_world_ok: "names_ok alias_world"
proof -
  have "keeps names_ok (act (define_alias \<lparr>row = 1, col = 1\<rparr> ''P'' ''[*i32;3]'') (\<lambda>_. intern ''t:*[u8;2]'') :: (types, int) action)"
    by (intro keeps_intro keeps_names_alias)
  from keepsD [OF this types_init_ok] show ?thesis
    unfolding alias_world_def using types_init_ok by (auto split: sum.split)
qed

lemma alias_world_facts:
  "map_option fst (alias_of 0 ''P'' alias_world) \<noteq> None"
  "map_option snd (alias_of 0 ''P'' alias_world) = s_symname_name2pos alias_world (''t:'' @ sig_text (T_Arr (T_Ptr 0 (T_Prim ''i32'')) 3))"
  "prim_known sample_sizes alias_world ''i32''"
  by code_simp+


end
