(* ===== verification/Typelookup.thy ===== *)
theory Typelookup
  imports Unwind_Cases Layout
begin

section \<open>From type names to type objects (\<open>type_system.cpp\<close>)\<close>

text \<open>
  \<open>catype_get_by_name\<close> gives the object of a type name in a scope. It looks the name up in the cache
  of the scope (\<open>s_symtable_type_map\<close>) and in the table of all types, unwinds it, looks the
  signature up, and at last formalizes the new object: each \<open>*\<close> and \<open>[]\<close> gets an object of its own,
  and sizes and offsets are computed. Tuples, ranges and the types of patterns enter the same
  tables. As in \<open>Unwind\<close>, \<open>infer\<close> is the type of the expression of a \<open>typeof\<close>.
\<close>

subsection \<open>Neighbouring type ids\<close>

definition typeid_decrease_pointer :: "int \<Rightarrow> ('z types_scheme, int) action" where
  "typeid_decrease_pointer type =
     act (catype_get_type_name type) (\<lambda>name.
     if take 1 name \<noteq> ''*'' then fail (Exit ''(internal) Assertion failed: no pointer name'')
     else sym_form_type_id_by_str (drop 1 name))"

definition typeid_increase_pointer :: "int \<Rightarrow> ('z types_scheme, int) action" where
  "typeid_increase_pointer type =
     act (catype_get_type_name type) (\<lambda>name.
     act (lift_result (sprintf_into name_buffer (''*'' @ name))) sym_form_type_id_by_str)"

text \<open>What stands before the last semicolon, without the bracket.\<close>

definition typeid_decrease_array :: "int \<Rightarrow> ('z types_scheme, int) action" where
  "typeid_decrease_array type =
     act (catype_get_type_name type) (\<lambda>name.
     if take 1 name \<noteq> ''['' \<or> last name \<noteq> CHR '']'' \<or> CHR '';'' \<notin> set name
     then fail (Exit ''assertion failed'')
     else
       act (lift_result (sprintf_into name_buffer
              (drop 1 (rev (drop 1 (dropWhile (\<lambda>c. c \<noteq> CHR '';'') (rev name))))))) sym_form_type_id_by_str)"

definition typeid_increase_array :: "int \<Rightarrow> int \<Rightarrow> ('z types_scheme, int) action" where
  "typeid_increase_array type num =
     act (catype_get_type_name type) (\<lambda>name.
     act (lift_result (sprintf_into name_buffer (''['' @ name @ '';'' @ int_text num @ '']''))) sym_form_type_id_by_str)"

subsection \<open>The signature of an object\<close>

definition set_signature :: "addr \<Rightarrow> int \<Rightarrow> ('z types_scheme, unit) action" where
  "set_signature p sig = act (dt_of p) (\<lambda>d. put_dt p (d\<lparr>signature := sig, status := CADT_Expand\<rparr>))"

text \<open>The buffer has \<open>name_buffer\<close> bytes; \<open>append_to\<close> is a \<open>strcpy\<close> or \<open>sprintf\<close> at its end.\<close>

definition append_to :: "string \<Rightarrow> string \<Rightarrow> ('z types_scheme, string) action" where
  "append_to buf s = lift_result (sprintf_into name_buffer (buf @ s))"

fun typeid_get_top_down :: "nat \<Rightarrow> addr \<Rightarrow> addr list \<Rightarrow> ('z types_scheme, int) action"
  and top_down_fields :: "nat \<Rightarrow> bool \<Rightarrow> addr \<Rightarrow> nat \<Rightarrow> nat \<Rightarrow> addr list \<Rightarrow> string \<Rightarrow> ('z types_scheme, string) action" where
  "typeid_get_top_down 0 p rcheck = fail Out_of_fuel"
| "typeid_get_top_down (Suc n) p rcheck =
     act (dt_of p) (\<lambda>d.
     if status d \<noteq> CADT_None then ret (signature d)
     else if dt_type d = CSTRING \<or> dt_type d = POINTER then
       (case layout d of
          Layout_Pointer t nd ap \<Rightarrow>
            act (typeid_get_top_down n t rcheck) (\<lambda>subid.
            act (catype_get_type_name subid) (\<lambda>subname.
            act (append_to (replicate nd CHR ''*'') subname) (\<lambda>buf.
            act (sym_form_type_id_by_str buf) (\<lambda>sig.
            act (set_signature p sig) (\<lambda>_. ret sig)))))
        | _ \<Rightarrow> fail (Undefined ''no pointer layout''))
     else if dt_type d = ARRAY then
       (case layout d of
          Layout_Array t nd dims \<Rightarrow>
            act (typeid_get_top_down n t rcheck) (\<lambda>subid.
            act (catype_get_type_name subid) (\<lambda>subname.
            act (append_to (replicate nd CHR ''['')
                   (subname @ concat (map (\<lambda>k. '';'' @ int_text k @ '']'') (rev (take nd dims))))) (\<lambda>buf.
            act (sym_form_type_id_by_str buf) (\<lambda>sig.
            act (set_signature p sig) (\<lambda>_. ret sig)))))
        | _ \<Rightarrow> fail (Undefined ''no array layout''))
     else if dt_type d = STRUCT then
       act (struct_layout_of p) (\<lambda>c.
       act (cs_of c) (\<lambda>s.
       if p \<in> set rcheck then sym_form_type_id (cs_name s)
       else
         (let tuple = (cs_type s \<noteq> Struct_NamedStruct)
          in act (if cs_type s = Struct_GeneralTuple then ret [] else name_of (cs_name s)) (\<lambda>structname.
             act (append_to (if tuple then ''('' else ''{'') (structname @ '';'')) (\<lambda>buf.
             act (top_down_fields n tuple c 0 (fieldnum s) (p # rcheck) buf) (\<lambda>buf.
             act (sym_form_type_id_by_str (butlast buf @ (if tuple then '')'' else ''}''))) (\<lambda>sig.
             act (set_signature p sig) (\<lambda>_. ret sig))))))))
     else ret (signature d))"
| "top_down_fields n tuple c i 0 rcheck buf = ret buf"
| "top_down_fields n tuple c i (Suc k) rcheck buf =
     act (\<lambda>w. lift_result (field_at c i w) w) (\<lambda>f.
     act (typeid_get_top_down n (f_type f) rcheck) (\<lambda>subid.
     act (catype_get_type_name subid) (\<lambda>subname.
     act (if tuple then ret [] else act (name_of (f_name f)) (\<lambda>v. ret (v @ '':''))) (\<lambda>varname.
     act (append_to buf (varname @ subname @ '','')) (\<lambda>buf.
     top_down_fields n tuple c (Suc i) k rcheck buf)))))"

definition typeid_from_catype :: "nat \<Rightarrow> addr \<Rightarrow> ('z types_scheme, int) action" where
  "typeid_from_catype fuel p = typeid_get_top_down fuel p []"

subsection \<open>Compact and expanded objects\<close>

definition delete_dt :: "addr \<Rightarrow> ('z types_scheme, unit) action" where
  "delete_dt p = modifies (\<lambda>w. w\<lparr>dt_heap := (dt_heap w)(p := None)\<rparr>)"

definition set_layout :: "addr \<Rightarrow> CALayout \<Rightarrow> ('z types_scheme, unit) action" where
  "set_layout p l = act (dt_of p) (\<lambda>d. put_dt p (d\<lparr>layout := l\<rparr>))"

definition set_field_type :: "addr \<Rightarrow> nat \<Rightarrow> addr \<Rightarrow> ('z types_scheme, unit) action" where
  "set_field_type c i t =
     act (cs_of c) (\<lambda>cs. act (\<lambda>w. lift_result (field_at c i w) w) (\<lambda>f.
       put_cs c (cs\<lparr>cs_fields := (cs_fields cs)[i := Some (f\<lparr>f_type := t\<rparr>)]\<rparr>)))"

text \<open>Merging a \<open>*\<close> or \<open>[]\<close> with the one below it is one round of the \<open>while\<close>; \<open>dimarray\<close> has
  \<open>MAX_DIM\<close> slots.\<close>

fun catype_formalize_type_compact :: "nat \<Rightarrow> addr \<Rightarrow> ('z types_scheme, addr) action"
  and compact_fields :: "nat \<Rightarrow> addr \<Rightarrow> nat \<Rightarrow> nat \<Rightarrow> ('z types_scheme, unit) action" where
  "catype_formalize_type_compact 0 p = fail Out_of_fuel"
| "catype_formalize_type_compact (Suc n) p =
     act (dt_of p) (\<lambda>d.
     (case dt_type d of
        POINTER \<Rightarrow>
          (case layout d of
             Layout_Pointer t nd ap \<Rightarrow>
               act (dt_of t) (\<lambda>td.
               if dt_type td = POINTER then
                 (case layout td of
                    Layout_Pointer t2 nd2 ap2 \<Rightarrow>
                      act (set_layout t (Layout_Pointer t2 (nd2 + nd) ap2)) (\<lambda>_.
                      act (delete_dt p) (\<lambda>_. catype_formalize_type_compact n t))
                  | _ \<Rightarrow> fail (Undefined ''no pointer layout''))
               else
                 act (catype_formalize_type_compact n t) (\<lambda>t'.
                 act (set_layout p (Layout_Pointer t' nd ap)) (\<lambda>_. ret p)))
           | _ \<Rightarrow> fail (Undefined ''no pointer layout''))
      | ARRAY \<Rightarrow>
          (case layout d of
             Layout_Array t nd dims \<Rightarrow>
               act (dt_of t) (\<lambda>td.
               if dt_type td = ARRAY then
                 (case layout td of
                    Layout_Array t2 nd2 dims2 \<Rightarrow>
                      if MAX_DIM < nd + nd2 then fail (Undefined ''array index'')
                      else
                        act (set_layout p (Layout_Array t2 (nd + nd2) (take nd dims @ take nd2 dims2))) (\<lambda>_.
                        act (delete_dt t) (\<lambda>_. catype_formalize_type_compact n p))
                  | _ \<Rightarrow> fail (Undefined ''no array layout''))
               else
                 act (catype_formalize_type_compact n t) (\<lambda>t'.
                 act (set_layout p (Layout_Array t' nd dims)) (\<lambda>_. ret p)))
           | _ \<Rightarrow> fail (Undefined ''no array layout''))
      | STRUCT \<Rightarrow>
          act (struct_layout_of p) (\<lambda>c.
          act (cs_of c) (\<lambda>s.
          act (compact_fields n c 0 (fieldnum s)) (\<lambda>_. ret p)))
      | _ \<Rightarrow> ret p))"
| "compact_fields n c i 0 = ret ()"
| "compact_fields n c i (Suc k) =
     act (\<lambda>w. lift_result (field_at c i w) w) (\<lambda>f.
     act (catype_formalize_type_compact n (f_type f)) (\<lambda>t.
     act (set_field_type c i t) (\<lambda>_. compact_fields n c (Suc i) k)))"

text \<open>The clones of an object with several \<open>*\<close>s, each pointing to the next; the result is the last.\<close>

fun split_pointer :: "nat \<Rightarrow> addr \<Rightarrow> ('z types_scheme, addr) action" where
  "split_pointer 0 p = ret p"
| "split_pointer (Suc k) p =
     act (catype_clone_thin p) (\<lambda>t.
     act (dt_of p) (\<lambda>d.
     act (typeid_decrease_pointer (signature d)) (\<lambda>sig.
     act (set_signature t sig) (\<lambda>_.
     (case layout d of
        Layout_Pointer _ nd ap \<Rightarrow> act (set_layout p (Layout_Pointer t nd ap)) (\<lambda>_. split_pointer k t)
      | _ \<Rightarrow> fail (Undefined ''no pointer layout''))))))"

text \<open>The clone copies the layout, then its length is overwritten.\<close>

fun split_array :: "int list \<Rightarrow> addr \<Rightarrow> ('z types_scheme, addr) action" where
  "split_array [] p = ret p"
| "split_array (len # lens) p =
     act (catype_clone_thin p) (\<lambda>t.
     act (dt_of p) (\<lambda>d.
     act (typeid_decrease_array (signature d)) (\<lambda>sig.
     act (set_signature t sig) (\<lambda>_.
     (case layout d of
        Layout_Array el nd dims \<Rightarrow>
          act (set_layout t (Layout_Array el nd (dims[0 := len]))) (\<lambda>_.
          act (set_layout p (Layout_Array t nd dims)) (\<lambda>_. split_array lens t))
      | _ \<Rightarrow> fail (Undefined ''no array layout''))))))"

definition name_below :: "(int \<Rightarrow> ('z types_scheme, int) action) \<Rightarrow> addr \<Rightarrow> addr \<Rightarrow> ('z types_scheme, unit) action" where
  "name_below decrease p t =
     act (dt_of t) (\<lambda>td.
     if status td = CADT_None
     then act (dt_of p) (\<lambda>d. act (decrease (signature d)) (set_signature t))
     else ret ())"

fun catype_formalize_type_expand :: "nat \<Rightarrow> addr \<Rightarrow> addr list \<Rightarrow> ('z types_scheme, unit) action"
  and expand_fields :: "nat \<Rightarrow> addr \<Rightarrow> nat \<Rightarrow> nat \<Rightarrow> addr list \<Rightarrow> ('z types_scheme, unit) action" where
  "catype_formalize_type_expand 0 p rcheck = fail Out_of_fuel"
| "catype_formalize_type_expand (Suc n) p rcheck =
     act (dt_of p) (\<lambda>d.
     (case dt_type d of
        POINTER \<Rightarrow>
          (case layout d of
             Layout_Pointer t nd ap \<Rightarrow>
               act (set_layout p (Layout_Pointer t 1 ap)) (\<lambda>_.
               act (split_pointer (nd - 1) p) (\<lambda>q.
               act (name_below typeid_decrease_pointer q t) (\<lambda>_.
               catype_formalize_type_expand n t rcheck)))
           | _ \<Rightarrow> fail (Undefined ''no pointer layout''))
      | ARRAY \<Rightarrow>
          (case layout d of
             Layout_Array t nd dims \<Rightarrow>
               act (set_layout p (Layout_Array t 1 dims)) (\<lambda>_.
               act (split_array (drop 1 (take nd dims)) p) (\<lambda>q.
               act (name_below typeid_decrease_array q t) (\<lambda>_.
               catype_formalize_type_expand n t rcheck)))
           | _ \<Rightarrow> fail (Undefined ''no array layout''))
      | STRUCT \<Rightarrow>
          act (struct_layout_of p) (\<lambda>c.
          act (cs_of c) (\<lambda>s. expand_fields n c 0 (fieldnum s) rcheck))
      | _ \<Rightarrow> ret ()))"
| "expand_fields n c i 0 rcheck = ret ()"
| "expand_fields n c i (Suc k) rcheck =
     act (\<lambda>w. lift_result (field_at c i w) w) (\<lambda>f.
     act (if f_type f \<in> set rcheck then ret ()
          else
            act (dt_of (f_type f)) (\<lambda>d.
            act (if status d = CADT_None
                 then act (typeid_from_catype n (f_type f)) (\<lambda>sig.
                      act (dt_of (f_type f)) (\<lambda>d. put_dt (f_type f) (d\<lparr>signature := sig\<rparr>)))
                 else ret ()) (\<lambda>_.
            catype_formalize_type_expand n (f_type f) (f_type f # rcheck)))) (\<lambda>_.
     expand_fields n c (Suc i) k rcheck))"

definition catype_formalize_type :: "nat \<Rightarrow> addr \<Rightarrow> bool \<Rightarrow> ('z types_scheme, addr) action" where
  "catype_formalize_type fuel p compacted =
     (if compacted then catype_formalize_type_compact fuel p
      else
        act (catype_formalize_type_expand fuel p [p]) (\<lambda>_.
        act (catype_formalize_type_layout fuel p [p]) (\<lambda>_. ret p)))"

subsection \<open>Lookup\<close>

text \<open>\<open>std::map::insert\<close> keeps an entry that is there.\<close>

definition cache_type :: "int \<Rightarrow> addr \<Rightarrow> ('z types_scheme, unit) action" where
  "cache_type windst p =
     modifies (\<lambda>w. case s_symtable_type_map w windst of
        None \<Rightarrow> w\<lparr>s_symtable_type_map := (s_symtable_type_map w)(windst \<mapsto> p)\<rparr> | Some _ \<Rightarrow> w)"

definition cached_type :: "int \<Rightarrow> ('z types_scheme, addr option) action" where
  "cached_type windst = reads (\<lambda>w. s_symtable_type_map w windst)"

text \<open>An error while unwinding ends the run, so the result is never null.\<close>

definition catype_get_by_name ::
  "(nat \<Rightarrow> ('z types_scheme, int) action) \<Rightarrow> nat \<Rightarrow> addr \<Rightarrow> int \<Rightarrow> ('z types_scheme, addr) action" where
  "catype_get_by_name infer fuel st0 name =
     act (\<lambda>w. lift_result (symtable_get_with_assoc st0 name w) w) (\<lambda>st.
     act (sym_form_symtable_type_id st name) (\<lambda>windst.
     act (cached_type windst) (\<lambda>c.
     (case c of
        Some p \<Rightarrow> ret p
      | None \<Rightarrow>
          act (catype_get_primitive_by_name name) (\<lambda>known.
          (case known of
             Some p \<Rightarrow> act (cache_type windst p) (\<lambda>_. ret p)
           | None \<Rightarrow>
               act (catype_unwind_type_signature infer fuel st name) (\<lambda>(unwind, _, dt).
               act (catype_get_primitive_by_name unwind) (\<lambda>known.
               (case known of
                  Some p \<Rightarrow> act (cache_type windst p) (\<lambda>_. ret p)
                | None \<Rightarrow>
                    act (catype_formalize_type fuel dt False) (\<lambda>dt.
                    act (cache_type windst dt) (\<lambda>_.
                    act (catype_put_primitive_by_name unwind dt) (\<lambda>_. ret dt))))))))))))"

definition catype_check_identical_in_symtable ::
  "(nat \<Rightarrow> ('z types_scheme, int) action) \<Rightarrow> nat \<Rightarrow> addr \<Rightarrow> int \<Rightarrow> addr \<Rightarrow> int \<Rightarrow> ('z types_scheme, bool) action" where
  "catype_check_identical_in_symtable infer fuel st1 type1 st2 type2 =
     (if type1 = type2 \<and> st1 = st2 then ret True
      else
        act (catype_get_by_name infer fuel st1 type1) (\<lambda>dt1.
        act (catype_get_by_name infer fuel st2 type2) (\<lambda>dt2.
        act (dt_of dt1) (\<lambda>d1. act (dt_of dt2) (\<lambda>d2.
        ret (dt_type d1 = dt_type d2 \<and> signature d1 = signature d2))))))"

definition catype_check_identical_in_symtable_witherror ::
  "(nat \<Rightarrow> ('z types_scheme, int) action) \<Rightarrow> nat \<Rightarrow> addr \<Rightarrow> int \<Rightarrow> addr \<Rightarrow> int \<Rightarrow> bool \<Rightarrow> ('z types_scheme, bool) action" where
  "catype_check_identical_in_symtable_witherror infer fuel st1 type1 st2 type2 exitwhenerror =
     act (catype_check_identical_in_symtable infer fuel st1 type1 st2 type2) (\<lambda>same.
     if same then ret True
     else if exitwhenerror then
       act (name_of type1) (\<lambda>_. act (name_of type2) (\<lambda>_. fail (Exit ''the type `%s` not identical type `%s`'')))
     else ret False)"

subsection \<open>Tuples, ranges and the types of patterns\<close>

fun add_members :: "addr \<Rightarrow> addr list \<Rightarrow> int \<Rightarrow> ('z types_scheme, int) action" where
  "add_members c [] sum0 = ret sum0"
| "add_members c (p # ps) sum0 =
     act (castruct_add_member c 0 p 0) (\<lambda>_.
     act (dt_of p) (\<lambda>d. add_members c ps ((sum0 + dt_size d) mod 2 ^ 64)))"

fun signatures_of :: "addr list \<Rightarrow> ('z types_scheme, int list) action" where
  "signatures_of [] = ret []"
| "signatures_of (p # ps) = act (dt_of p) (\<lambda>d. act (signatures_of ps) (\<lambda>sigs. ret (signature d # sigs)))"

text \<open>A tuple that is in the table of all types is cached under its own id, not the one of the scope.\<close>

definition catype_make_tuple_type :: "addr \<Rightarrow> addr list \<Rightarrow> ('z types_scheme, addr) action" where
  "catype_make_tuple_type st catypes =
     act (signatures_of catypes) (\<lambda>args.
     act (sym_form_tuple_id args) (\<lambda>type.
     act (sym_form_symtable_type_id st type) (\<lambda>windst.
     act (cached_type windst) (\<lambda>c.
     (case c of
        Some p \<Rightarrow> ret p
      | None \<Rightarrow>
          act (catype_get_primitive_by_name type) (\<lambda>known.
          (case known of
             Some p \<Rightarrow> act (cache_type type p) (\<lambda>_. ret p)
           | None \<Rightarrow>
               act (catype_make_struct_type type 0 Struct_GeneralTuple (length catypes)) (\<lambda>dt.
               act (struct_layout_of dt) (\<lambda>c.
               act (cs_of c) (\<lambda>s.
               act (put_cs c (s\<lparr>cs_name := 0\<rparr>)) (\<lambda>_.
               act (add_members c catypes 0) (\<lambda>sum0.
               act (dt_of dt) (\<lambda>d.
               act (put_dt dt (d\<lparr>dt_size := sum0\<rparr>)) (\<lambda>_.
               act (cache_type windst dt) (\<lambda>_.
               act (catype_put_primitive_by_name type dt) (\<lambda>_. ret dt))))))))))))))))"

definition type_name_of :: "addr \<Rightarrow> ('z types_scheme, string) action" where
  "type_name_of p = act (dt_of p) (\<lambda>d. catype_get_type_name (signature d))"

text \<open>The text and the type both ends share. The buffer has 4096 bytes.\<close>

definition range_text ::
  "addr \<Rightarrow> bool \<Rightarrow> addr option \<Rightarrow> addr option \<Rightarrow> ('z types_scheme, string \<times> addr option) action" where
  "range_text st incl startdt enddt =
     (case (startdt, enddt) of
        (Some p, Some q) \<Rightarrow>
          act (dt_of p) (\<lambda>d. act (dt_of q) (\<lambda>e.
          act (catype_get_type_name (signature d)) (\<lambda>s. act (catype_get_type_name (signature e)) (\<lambda>t.
          if signature d \<noteq> signature e
          then fail (Exit ''expect type `%s`, but found `%s`, both side of range need to be same type'')
          else act (catype_make_tuple_type st [p, q]) (\<lambda>r.
               ret (s @ (if incl then ''..='' else ''..'') @ t, Some r))))))
      | (Some p, None) \<Rightarrow> act (type_name_of p) (\<lambda>s. ret (s @ ''..'', Some p))
      | (None, Some q) \<Rightarrow> act (type_name_of q) (\<lambda>t. ret ((if incl then ''..='' else ''..'') @ t, Some q))
      | (None, None) \<Rightarrow> ret (''..'', None))"

definition catype_from_range ::
  "addr \<Rightarrow> GeneralRangeType \<Rightarrow> bool \<Rightarrow> addr option \<Rightarrow> addr option \<Rightarrow> ('z types_scheme, addr) action" where
  "catype_from_range st kind incl startdt enddt =
     act (range_text st incl startdt enddt) (\<lambda>(text1, range).
     act (lift_result (sprintf_into 4096 (''t:'' @ text1))) (\<lambda>sigbuf.
     act (intern sigbuf) (\<lambda>name.
     act (case range of None \<Rightarrow> ret 0 | Some r \<Rightarrow> act (dt_of r) (\<lambda>d. ret (dt_size d))) (\<lambda>sum0.
     act (new_dt \<lparr>dt_type = RANGE, formalname = name, dt_size = sum0, signature = name, status = CADT_Expand,
            layout = Layout_Range kind incl startdt enddt range\<rparr>) (\<lambda>p.
     act (sym_form_symtable_type_id st name) (\<lambda>windst.
     act (cache_type windst p) (\<lambda>_.
     act (catype_put_primitive_by_name name p) (\<lambda>_. ret p))))))))"

text \<open>The items of a pattern, then the type of all of it. \<open>None\<close> is a pattern whose type is not known yet.\<close>

definition array_of_types :: "int list \<Rightarrow> int \<Rightarrow> ('z types_scheme, int) action" where
  "array_of_types types n =
     (case types of
        [] \<Rightarrow> fail (Undefined ''type of an empty array pattern'')
      | t # ts \<Rightarrow>
          if \<exists>k<length ts. (t # ts) ! k \<noteq> ts ! k
          then fail (Exit ''Array pattern expected `%s` on `%d`, but found `%s`'')
          else sym_form_array_id t n)"

definition variable_of :: "'r STEntry \<Rightarrow> CAVariable result" where
  "variable_of e =
     (case u e of
        U_Var sh \<Rightarrow> (case vs_current sh of Some v \<Rightarrow> Inr v | None \<Rightarrow> Inl (Undefined ''null variable''))
      | _ \<Rightarrow> Inl (Undefined ''no variable entry''))"

definition named_pattern_type ::
  "(nat \<Rightarrow> ('z types_scheme, int) action) \<Rightarrow> nat \<Rightarrow> addr \<Rightarrow> int option \<Rightarrow> ('z types_scheme, addr option) action" where
  "named_pattern_type infer fuel st nm =
     (case nm of
        None \<Rightarrow> fail (Undefined ''uninitialised name'')
      | Some nm \<Rightarrow> act (sym_form_type_id nm) (\<lambda>type. act (catype_get_by_name infer fuel st type) (\<lambda>p. ret (Some p))))"

fun catype_from_capattern ::
  "(nat \<Rightarrow> ('z types_scheme, int) action) \<Rightarrow> nat \<Rightarrow> addr \<Rightarrow> CAPattern \<Rightarrow> ('z types_scheme, addr option) action"
  and types_of_patterns ::
  "(nat \<Rightarrow> ('z types_scheme, int) action) \<Rightarrow> nat \<Rightarrow> addr \<Rightarrow> nat \<Rightarrow> CAPattern option list \<Rightarrow>
   ('z types_scheme, int list option) action" where
  "catype_from_capattern infer fuel st (CAPattern type dt fld mb loc nm items) =
     (case type of
        PT_Var \<Rightarrow>
          (case nm of
             None \<Rightarrow> fail (Undefined ''uninitialised name'')
           | Some nm \<Rightarrow>
               act (\<lambda>w. lift_result (sym_getsym st nm False w) w) (\<lambda>p.
               (case p of
                  None \<Rightarrow> ret None
                | Some p \<Rightarrow>
                    act (\<lambda>w. lift_result (get_entry p w) w) (\<lambda>e.
                    if sym_type e \<noteq> Sym_Variable then fail (Exit ''bad entry type `%d`, should be `variable`'')
                    else
                      act (lift_result (variable_of e)) (\<lambda>v.
                      if v_datatype v = typeid_novalue then ret None
                      else act (catype_get_by_name infer fuel st (v_datatype v)) (\<lambda>p. ret (Some p)))))))
      | PT_IgnoreOne \<Rightarrow> ret None
      | PT_IgnoreRange \<Rightarrow> ret None
      | PT_Tuple \<Rightarrow> named_pattern_type infer fuel st nm
      | PT_Struct \<Rightarrow> named_pattern_type infer fuel st nm
      | _ \<Rightarrow>
          (case items of
             None \<Rightarrow> fail (Undefined ''uninitialised pattern group'')
           | Some (PatternGroup n c ps) \<Rightarrow>
               act (types_of_patterns infer fuel st (nat n) ps) (\<lambda>types.
               (case types of
                  None \<Rightarrow> ret None
                | Some types \<Rightarrow>
                    act (if type = PT_Array then array_of_types types n else sym_form_tuple_id types) (\<lambda>id.
                    act (catype_get_by_name infer fuel st id) (\<lambda>p. ret (Some p)))))))"
| "types_of_patterns infer fuel st 0 ps = ret (Some [])"
| "types_of_patterns infer fuel st (Suc k) [] = fail (Undefined ''pattern group index'')"
| "types_of_patterns infer fuel st (Suc k) (None # ps) = fail (Undefined ''uninitialised pattern'')"
| "types_of_patterns infer fuel st (Suc k) (Some p # ps) =
     act (catype_from_capattern infer fuel st p) (\<lambda>dt.
     (case dt of
        None \<Rightarrow> ret None
      | Some dt \<Rightarrow>
          act (dt_of dt) (\<lambda>d.
          act (types_of_patterns infer fuel st k ps) (\<lambda>types. ret (map_option ((#) (signature d)) types)))))"

subsection \<open>What a lookup leaves alone\<close>

text \<open>While a type is unwound and formalized, names stay known, and the scopes and the cache of the
  scopes do not change. The expression of a \<open>typeof\<close> is to do the same.\<close>

definition steady :: "int \<Rightarrow> string \<Rightarrow> int \<Rightarrow> string \<Rightarrow> 'z types_scheme \<Rightarrow> 'z types_scheme \<Rightarrow> bool" where
  "steady name text0 k s w0 w \<longleftrightarrow> known_as w name ''t:'' text0 \<and> interned w k s \<and> sym_heap w = sym_heap w0 \<and>
     s_symtable_type_map w = s_symtable_type_map w0"

definition leaves_alone :: "(nat \<Rightarrow> ('z types_scheme, int) action) \<Rightarrow> bool" where
  "leaves_alone infer \<longleftrightarrow>
     (\<forall>n w x w'. infer n w = Inr (x, w') \<longrightarrow>
        (names_ok w \<longrightarrow> names_ok w') \<and> (\<forall>i s. interned w i s \<longrightarrow> interned w' i s) \<and>
        sym_heap w' = sym_heap w \<and> s_symtable_type_map w' = s_symtable_type_map w)"

lemma steady_infer: "leaves_alone infer \<Longrightarrow> keeps (steady name text0 k s w0) (infer n)"
  unfolding keeps_def leaves_alone_def steady_def known_as_def by metis

lemma steady_names:
  "steady name text0 k s w0 w \<Longrightarrow> names_ok w' \<Longrightarrow> \<forall>i s. interned w i s \<longrightarrow> interned w' i s \<Longrightarrow>
   sym_heap w' = sym_heap w \<Longrightarrow> s_symtable_type_map w' = s_symtable_type_map w \<Longrightarrow> steady name text0 k s w0 w'"
  unfolding steady_def known_as_def by simp

lemma steady_heaps [simp]:
  "steady name text0 k s w0 (w\<lparr>dt_heap := a\<rparr>) = steady name text0 k s w0 w"
  "steady name text0 k s w0 (w\<lparr>dt_next := b\<rparr>) = steady name text0 k s w0 w"
  "steady name text0 k s w0 (w\<lparr>cs_heap := c\<rparr>) = steady name text0 k s w0 w"
  "steady name text0 k s w0 (w\<lparr>cs_next := e\<rparr>) = steady name text0 k s w0 w"
  "steady name text0 k s w0 (w\<lparr>s_type_map := f\<rparr>) = steady name text0 k s w0 w"
  by (simp_all add: steady_def known_as_def interned_def)

lemma steady_intern: "keeps (steady name text0 k s w0) (intern t)"
  unfolding keeps_def intern_def
proof (intro allI impI)
  fix w x w' assume w: "steady name text0 k s w0 w" "Inr (symname_check_insert t w) = Inr (x, w')"
  then have w': "w' = snd (symname_check_insert t w)" by simp
  have "names_ok w" using w(1) by (simp add: steady_def known_as_def)
  then have "names_ok w'" unfolding w' by (rule names_ok_check_insert)
  moreover have "\<forall>i s. interned w i s \<longrightarrow> interned w' i s" unfolding w' using interned_check_insert by blast
  moreover have "sym_heap w' = sym_heap w \<and> s_symtable_type_map w' = s_symtable_type_map w"
    unfolding w' by (auto simp: symname_check_insert_def symname_insert_def Let_def split: option.splits)
  ultimately show "steady name text0 k s w0 w'" using steady_names [OF w(1)] by blast
qed

lemma steady_primitives:
  "keeps (steady name text0 k s w0) (name_of i)" "keeps (steady name text0 k s w0) (catype_get_type_name i)"
  "keeps (steady name text0 k s w0) (dt_of p)" "keeps (steady name text0 k s w0) (cs_of p)"
  "keeps (steady name text0 k s w0) (put_dt p d)" "keeps (steady name text0 k s w0) (put_cs p s')"
  "keeps (steady name text0 k s w0) (new_dt d)" "keeps (steady name text0 k s w0) (new_cs s')"
  "keeps (steady name text0 k s w0) (catype_put_primitive_by_name i p)"
  "keeps (steady name text0 k s w0) (catype_get_primitive_by_name i)"
  by (auto simp: keeps_def name_of_def catype_get_type_name_def lift_result_Inr_iff dt_of_def cs_of_def put_dt_def
      put_cs_def new_dt_def new_cs_def catype_put_primitive_by_name_def catype_get_primitive_by_name_def split: option.splits)

lemma keeps_prod: "(\<And>x y. keeps P (f x y)) \<Longrightarrow> keeps P (case p of (x, y) \<Rightarrow> f x y)"
  by (cases p) simp

lemma keeps_layout:
  assumes "keeps P a" "\<And>s. keeps P (b s)" "\<And>t n ds. keeps P (c t n ds)" "\<And>t n ap. keeps P (d t n ap)"
    "\<And>k i s e r. keeps P (g k i s e r)"
  shows "keeps P (case l of Layout_None \<Rightarrow> a | Layout_Struct s \<Rightarrow> b s | Layout_Array t n ds \<Rightarrow> c t n ds
     | Layout_Pointer t n ap \<Rightarrow> d t n ap | Layout_Range k i s e r \<Rightarrow> g k i s e r)"
  using assms by (cases l) simp_all

lemma keeps_list: "keeps P a \<Longrightarrow> (\<And>x xs. keeps P (f x xs)) \<Longrightarrow> keeps P (case l of [] \<Rightarrow> a | x # xs \<Rightarrow> f x xs)"
  by (cases l) simp_all

lemma keeps_kind:
  assumes "keeps P a" "keeps P b" "keeps P c" "keeps P d"
  shows "keeps P (case tok of POINTER \<Rightarrow> a | ARRAY \<Rightarrow> b | STRUCT \<Rightarrow> c | _ \<Rightarrow> d)"
  using assms by (cases tok) simp_all

lemmas steady_rules = keeps_intro steady_intern steady_primitives keeps_prod keeps_list keeps_layout keeps_kind

lemma steady_makers:
  "keeps (steady name text0 k s w0) (sym_form_type_id_by_str t)"
  "keeps (steady name text0 k s w0) (sym_form_type_id i)"
  "keeps (steady name text0 k s w0) (catype_make_type_symname i tok n)"
  "keeps (steady name text0 k s w0) (catype_make_struct_type i n ty cap)"
  "keeps (steady name text0 k s w0) (castruct_add_member c i p off)"
  "keeps (steady name text0 k s w0) (struct_layout_of p)"
  "keeps (steady name text0 k s w0) (set_size p n)"
  "keeps (steady name text0 k s w0) (sym_gettypesym_by_name st nm par)"
  "keeps (steady name text0 k s w0) (typeid_decrease_pointer i)"
  "keeps (steady name text0 k s w0) (typeid_decrease_array i)"
  "keeps (steady name text0 k s w0) (set_signature p i)"
  "keeps (steady name text0 k s w0) (append_to t t')"
  "keeps (steady name text0 k s w0) (set_layout p l)"
  "keeps (steady name text0 k s w0) (set_field_offset c j off)"
  "keeps (steady name text0 k s w0) (set_dt_size p j)"
  unfolding sym_form_type_id_by_str_def sym_form_type_id_def get_inner_type_string_def catype_make_type_symname_def
    catype_make_struct_type_def castruct_add_member_def struct_layout_of_def set_size_def sym_gettypesym_by_name_def
    typeid_decrease_pointer_def typeid_decrease_array_def set_signature_def append_to_def set_layout_def
    set_field_offset_def set_dt_size_def
  by (intro steady_rules; simp add: keeps_rules steady_rules)+

definition steady_rec :: "('z types_scheme \<Rightarrow> bool) \<Rightarrow> 'z unwinder \<Rightarrow> bool" where
  "steady_rec P rec \<longleftrightarrow> (\<forall>st pch names check sb. keeps P (rec st pch names check sb))"

lemma steady_recD: "steady_rec P rec \<Longrightarrow> keeps P (rec st pch names check sb)"
  by (simp add: steady_rec_def)

lemma keeps_union:
  assumes "keeps P z" "\<And>a r t g. keeps P (f a r t g)" "\<And>v. keeps P (vr v)" "\<And>t i m s r. keeps P (d t i m s r)"
    "\<And>n. keeps P (td n)" "\<And>i. keeps P (ti i)"
  shows "keeps P (case un of U_Zero \<Rightarrow> z | U_Fn a r t g \<Rightarrow> f a r t g | U_Var v \<Rightarrow> vr v | U_Data t i m s r \<Rightarrow> d t i m s r
    | U_Trait_Def n \<Rightarrow> td n | U_Trait_Impl i \<Rightarrow> ti i)"
  using assms by (cases un) simp_all

lemmas steady_steps = steady_rules steady_makers keeps_union

lemma steady_members:
  assumes "steady_rec (steady name text0 k s w0) rec"
  shows "keeps (steady name text0 k s w0) (unwind_members rec st ty c names check n pch sb sizes)"
  by (induction n arbitrary: pch sb sizes)
    (unfold unwind_members.simps Let_def, (intro steady_steps steady_recD [OF assms]; assumption?)+)

lemma steady_defined_members:
  assumes "steady_rec (steady name text0 k s w0) rec"
  shows "keeps (steady name text0 k s w0) (unwind_defined_members rec tuple members c names check as sb sizes)"
  by (induction "as" arbitrary: sb sizes)
    (unfold unwind_defined_members.simps member_type_def Let_def, (intro steady_steps steady_recD [OF assms]; assumption?)+)

lemma steady_forms:
  assumes "steady_rec (steady name text0 k s w0) rec" "leaves_alone infer"
  shows "keeps (steady name text0 k s w0) (unwind_form infer rec st pch names check sb)"
  unfolding unwind_form_def catype_unwind_type_array_def catype_unwind_type_struct_def catype_unwind_type_name_def
    unwind_alias_def unwind_defined_struct_def Let_def
  by (intro steady_steps steady_members steady_defined_members steady_infer assms steady_recD [OF assms(1)])+

lemma steady_prefix: "keeps (steady name text0 k s w0) (unwind_prefix pch sizefin addrdt sb)"
proof (induction pch arbitrary: sizefin addrdt sb rule: length_induct)
  case (1 pch)
  have shorter: "head_is c pch \<Longrightarrow> length (drop (str_assign_while pch c) pch) < length pch" for c
    using assign_while_pos [of c pch] by simp
  have below: "head_is c pch \<Longrightarrow>
      keeps (steady name text0 k s w0) (unwind_prefix (drop (str_assign_while pch c) pch) f a t)" for c f a t
    using 1 shorter by blast
  show ?case
    by (subst unwind_prefix.simps, unfold Let_def) (intro steady_steps below; assumption)
qed

lemma steady_finish: "keeps (steady name text0 k s w0) (finish_type sb0 caname pch sizefin addrdt r)"
  unfolding finish_type_def Let_def by (intro steady_steps)

lemma steady_unwind_inner:
  assumes "leaves_alone infer"
  shows "steady_rec (steady name text0 k s w0) (catype_unwind_type_signature_inner infer n)"
proof (induction n)
  case (Suc n)
  show ?case
    unfolding steady_rec_def catype_unwind_type_signature_inner.simps
    by (intro allI steady_steps steady_prefix steady_forms [OF Suc.IH assms] steady_finish)
qed (simp add: steady_rec_def keeps_def)

lemma steady_unwind:
  "leaves_alone infer \<Longrightarrow> keeps (steady name text0 k s w0) (catype_unwind_type_signature infer fuel st i)"
  unfolding catype_unwind_type_signature_def by (intro steady_steps steady_recD [OF steady_unwind_inner])

subsection \<open>Formalizing changes no name, scope or cache\<close>

lemma steady_top_down_fields:
  assumes "\<And>p rcheck. keeps (steady name text0 k s w0) (typeid_get_top_down n p rcheck)"
  shows "keeps (steady name text0 k s w0) (top_down_fields n tuple c i j rcheck buf)"
  by (induction j arbitrary: i buf) (unfold top_down_fields.simps, (intro steady_steps assms; assumption?)+)

lemma steady_top_down: "keeps (steady name text0 k s w0) (typeid_get_top_down n p rcheck)"
proof (induction n arbitrary: p rcheck)
  case (Suc n)
  show ?case
    unfolding typeid_get_top_down.simps Let_def by (intro steady_steps steady_top_down_fields Suc.IH)
qed (simp add: keeps_rules)

lemma steady_clone: "keeps (steady name text0 k s w0) (catype_clone_thin p)"
proof -
  have "keeps (steady name text0 k s w0) (case dt_type d of
      POINTER \<Rightarrow> (case layout d of Layout_Pointer t ndim _ \<Rightarrow> new_dt (d\<lparr>layout := Layout_Pointer t ndim PP_Stack\<rparr>)
        | _ \<Rightarrow> fail (Undefined ''no pointer layout''))
    | ARRAY \<Rightarrow> (case layout d of Layout_Array t ndim dims \<Rightarrow> new_dt (d\<lparr>layout := Layout_Array t ndim (take ndim dims)\<rparr>)
        | _ \<Rightarrow> fail (Undefined ''no array layout''))
    | STRUCT \<Rightarrow> new_dt d | SLICE \<Rightarrow> new_dt d | _ \<Rightarrow> new_dt (d\<lparr>layout := Layout_None\<rparr>))" for d
    by (cases "dt_type d"; simp; intro steady_steps)
  then show ?thesis unfolding catype_clone_thin_def by (intro steady_steps)
qed

lemma steady_split:
  "keeps (steady name text0 k s w0) (split_pointer n p)" "keeps (steady name text0 k s w0) (split_array lens p)"
  by (induction n arbitrary: p; unfold split_pointer.simps; intro steady_steps steady_clone; assumption?)
    (induction lens arbitrary: p; unfold split_array.simps; intro steady_steps steady_clone; assumption?)

lemma steady_name_below:
  "(\<And>i. keeps (steady name text0 k s w0) (decrease i)) \<Longrightarrow> keeps (steady name text0 k s w0) (name_below decrease p t)"
  unfolding name_below_def by (intro steady_steps) assumption

lemma steady_expand_fields:
  assumes "\<And>p rcheck. keeps (steady name text0 k s w0) (catype_formalize_type_expand n p rcheck)"
  shows "keeps (steady name text0 k s w0) (expand_fields n c i j rcheck)"
  unfolding typeid_from_catype_def
  by (induction j arbitrary: i)
    (unfold expand_fields.simps typeid_from_catype_def, (intro steady_steps steady_top_down assms; assumption?)+)

lemma steady_expand: "keeps (steady name text0 k s w0) (catype_formalize_type_expand n p rcheck)"
proof (induction n arbitrary: p rcheck)
  case (Suc n)
  show ?case
    unfolding catype_formalize_type_expand.simps
    by (intro steady_steps steady_split steady_name_below steady_expand_fields Suc.IH)
qed (simp add: keeps_rules)

lemma steady_layout_fields:
  assumes "\<And>p rcheck. keeps (steady name text0 k s w0) (rec p rcheck)"
  shows "keeps (steady name text0 k s w0) (layout_fields rec fuel c rcheck i j off maxalign)"
  by (induction j arbitrary: i off maxalign) (unfold layout_fields.simps, (intro steady_steps assms; assumption?)+)

lemma steady_layout: "keeps (steady name text0 k s w0) (catype_formalize_type_layout n p rcheck)"
proof (induction n arbitrary: p rcheck)
  case (Suc n)
  show ?case
    unfolding catype_formalize_type_layout.simps by (intro steady_steps steady_layout_fields Suc.IH)
qed (simp add: keeps_rules)

lemma steady_formalize: "keeps (steady name text0 k s w0) (catype_formalize_type fuel p False)"
  unfolding catype_formalize_type_def if_False by (intro steady_steps steady_expand steady_layout)

subsection \<open>A type is looked up once\<close>

lemma num_text_nul_free: "2 \<le> b \<Longrightarrow> b \<le> 36 \<Longrightarrow> nul_free (num_text b n)"
  using num_text_digits [of b n] NUL_no_class by (auto simp: nul_free_def list_all_iff is_base_digit_def digit_value_def char_classes NUL_def)

lemma key_text_nul_free: "nul_free (table_text st)"
  by (simp add: table_text_def pointer_text_def num_text_nul_free NUL_def)

lemma key_again:
  fixes w w1 :: "'z types_scheme"
  assumes "known_as w name ''t:'' text0" "sym_form_symtable_type_id st name w = Inr (k, w1)"
  obtains s where "steady name text0 k s w1 w1" "sym_heap w1 = sym_heap w"
    "\<And>w2 :: 'z types_scheme. known_as w2 name ''t:'' text0 \<Longrightarrow> interned w2 k s \<Longrightarrow> sym_heap w2 = sym_heap w \<Longrightarrow>
       sym_form_symtable_type_id st name w2 = Inr (k, w2)"
proof -
  obtain t where t: "get_table st w = Inr t"
    using assms get_type_name_known(1) [OF assms(1)]
    by (auto simp: sym_form_symtable_type_id_def act_Inr_iff lift_result_Inr_iff)
  define s where "s = (case assoc t of
      Some a \<Rightarrow> text0 @ ''@'' @ table_text st @ ''@'' @ table_text (assoc_table a) | None \<Rightarrow> text0 @ ''@'' @ table_text st)"
  have nf: "nul_free s" using known_as_nul_free [OF assms(1)] key_text_nul_free by (auto simp: s_def NUL_def split: option.split)
  have run: "sym_form_symtable_type_id st name v = act (lift_result (sprintf_into name_buffer s)) intern v"
    if "known_as v name ''t:'' text0" "sym_heap v = sym_heap w" for v
  proof -
    have "get_table st v = Inr t" using t that(2) by (simp add: get_table_def)
    then show ?thesis using get_type_name_known(1) [OF that(1)] by (simp add: sym_form_symtable_type_id_def s_def)
  qed
  have len: "length s < name_buffer" and i: "intern s w = Inr (k, w1)"
    using assms(2) unfolding run [OF assms(1) refl] by (auto simp: act_Inr_iff lift_result_Inr_iff sprintf_into_Inr_iff)
  have w1: "k = fst (symname_check_insert s w)" "w1 = snd (symname_check_insert s w)"
    using i by (simp_all add: intern_def)
  show thesis
  proof
    have "keeps (steady name text0 (-1) [] w) (intern s)" by (rule steady_intern)
    have "names_ok w1" "interned w1 name (''t:'' @ text0)" "interned w1 k s"
      using assms(1) nf unfolding w1 by (auto simp: known_as_def intro: names_ok_check_insert interned_check_insert interned_new)
    then show "steady name text0 k s w1 w1" by (simp add: steady_def known_as_def)
    show "sym_heap w1 = sym_heap w"
      unfolding w1 by (auto simp: symname_check_insert_def symname_insert_def Let_def split: option.splits)
    fix w2 assume w2: "known_as w2 name ''t:'' text0" "interned w2 k s" "sym_heap w2 = sym_heap w"
    show "sym_form_symtable_type_id st name w2 = Inr (k, w2)"
      unfolding run [OF w2(1,3)] using len check_insert_interned [OF w2(2)] by (simp add: intern_def)
  qed
qed

lemma steady_cache:
  assumes "steady name text0 k s w0 w" "s_symtable_type_map w k = None" "cache_type k p w = Inr (x, w')"
  shows "known_as w' name ''t:'' text0" "interned w' k s" "sym_heap w' = sym_heap w0" "s_symtable_type_map w' k = Some p"
  using assms by (auto simp: cache_type_def steady_def known_as_def interned_def names_ok_def)

lemma put_primitive_fields:
  "catype_put_primitive_by_name i p w = Inr (x, w') \<Longrightarrow>
   known_as w' j pre t = known_as w j pre t \<and> interned w' k s = interned w k s \<and> sym_heap w' = sym_heap w \<and>
   s_symtable_type_map w' = s_symtable_type_map w"
  by (auto simp: catype_put_primitive_by_name_def known_as_def interned_def names_ok_def split: option.splits)

text \<open>The run of a lookup: it ends with the object in the cache of the scope.\<close>

lemma lookup_cached:
  assumes "steady name text0 k s w1 w1" "s_symtable_type_map w1 k = None" "leaves_alone infer"
    and run: "act (catype_get_primitive_by_name name) (\<lambda>known.
          (case known of
             Some p \<Rightarrow> act (cache_type k p) (\<lambda>_. ret p)
           | None \<Rightarrow>
               act (catype_unwind_type_signature infer fuel st name) (\<lambda>(unwind, _, dt).
               act (catype_get_primitive_by_name unwind) (\<lambda>known.
               (case known of
                  Some p \<Rightarrow> act (cache_type k p) (\<lambda>_. ret p)
                | None \<Rightarrow>
                    act (catype_formalize_type fuel dt False) (\<lambda>dt.
                    act (cache_type k dt) (\<lambda>_.
                    act (catype_put_primitive_by_name unwind dt) (\<lambda>_. ret dt)))))))) w1 = Inr (p, w')"
  shows "known_as w' name ''t:'' text0 \<and> interned w' k s \<and> sym_heap w' = sym_heap w1 \<and> s_symtable_type_map w' k = Some p"
proof (cases "s_type_map w1 name")
  case (Some q)
  then have "cache_type k p w1 = Inr ((), w')"
    using run by (auto simp: catype_get_primitive_by_name_def act_Inr_iff)
  from steady_cache [OF assms(1,2) this] show ?thesis by simp
next
  case None
  then obtain u n dt w2 where u: "catype_unwind_type_signature infer fuel st name w1 = Inr ((u, n, dt), w2)"
    and rest: "(case s_type_map w2 u of
        Some p \<Rightarrow> act (cache_type k p) (\<lambda>_. ret p)
      | None \<Rightarrow> act (catype_formalize_type fuel dt False) (\<lambda>dt. act (cache_type k dt) (\<lambda>_.
          act (catype_put_primitive_by_name u dt) (\<lambda>_. ret dt)))) w2 = Inr (p, w')"
    using run by (auto simp: catype_get_primitive_by_name_def act_Inr_iff)
  have s2: "steady name text0 k s w1 w2" using keepsD [OF steady_unwind [OF assms(3)] assms(1) u] .
  have none: "steady name text0 k s w1 v \<Longrightarrow> s_symtable_type_map v k = None" for v
    using assms(2) by (simp add: steady_def)
  show ?thesis
  proof (cases "s_type_map w2 u")
    case (Some q)
    then have "cache_type k p w2 = Inr ((), w')" using rest by (auto simp: act_Inr_iff)
    from steady_cache [OF s2 none [OF s2] this] show ?thesis by simp
  next
    case None
    then obtain w3 w4 where w3: "catype_formalize_type fuel dt False w2 = Inr (p, w3)"
      "cache_type k p w3 = Inr ((), w4)" "catype_put_primitive_by_name u p w4 = Inr ((), w')"
      using rest by (auto simp: act_Inr_iff)
    have s3: "steady name text0 k s w1 w3" using keepsD [OF steady_formalize s2 w3(1)] .
    from steady_cache [OF s3 none [OF s3] w3(2)] put_primitive_fields [OF w3(3)] show ?thesis by simp
  qed
qed

text \<open>Claim C40: a type is looked up once. Whatever the name of a type is, an alias, a struct, or a
  pointer, array or tuple of such, once \<open>catype_get_by_name\<close> has given its object, looking the same name up
  again from the same scope gives the same object and changes nothing, so two uses of a type share
  one object. (The type of the expression of a \<open>typeof\<close> must not change scopes or caches itself.)\<close>

theorem type_looked_up_once:
  fixes w w' :: "'z types_scheme"
  assumes "known_as w name ''t:'' text0" "leaves_alone infer" "catype_get_by_name infer fuel st name w = Inr (p, w')"
  shows "catype_get_by_name infer fuel st name w' = Inr (p, w')"
proof -
  obtain st1 k w1 where st1: "symtable_get_with_assoc st name w = Inr st1"
    and key: "sym_form_symtable_type_id st1 name w = Inr (k, w1)"
    using assms(3) by (auto simp: catype_get_by_name_def act_Inr_iff lift_result_Inr_iff)
  obtain s where s: "steady name text0 k s w1 w1" "sym_heap w1 = sym_heap w"
    and again: "\<And>w2 :: 'z types_scheme. known_as w2 name ''t:'' text0 \<Longrightarrow> interned w2 k s \<Longrightarrow> sym_heap w2 = sym_heap w \<Longrightarrow>
       sym_form_symtable_type_id st1 name w2 = Inr (k, w2)"
    by (rule key_again [OF assms(1) key]) (rule that)
  note run = assms(3) [unfolded catype_get_by_name_def]
  have w': "known_as w' name ''t:'' text0 \<and> interned w' k s \<and> sym_heap w' = sym_heap w1 \<and> s_symtable_type_map w' k = Some p"
  proof (cases "s_symtable_type_map w1 k")
    case None
    show ?thesis
      by (rule lookup_cached [OF s(1) None assms(2)]) (use run st1 key None in \<open>simp add: cached_type_def\<close>)
  next
    case (Some q)
    then show ?thesis using run st1 key s(1) by (auto simp: cached_type_def steady_def)
  qed
  then have "symtable_get_with_assoc st name w' = Inr st1"
    using st1 s(2) by (simp add: symtable_get_with_assoc_def get_table_def)
  then show ?thesis
    using w' again [of w'] s(2) by (simp add: catype_get_by_name_def cached_type_def)
qed


subsection \<open>Runs\<close>

text \<open>As for unwinding, the equations of a lookup are applied to a state.\<close>

lemmas lookup_code [code] =
  typeid_decrease_pointer_def [THEN fun_cong] typeid_decrease_array_def [THEN fun_cong]
  set_signature_def [THEN fun_cong] append_to_def [THEN fun_cong] typeid_get_top_down.simps [THEN fun_cong]
  top_down_fields.simps [THEN fun_cong] typeid_from_catype_def [THEN fun_cong]
  set_layout_def [THEN fun_cong] split_pointer.simps [THEN fun_cong]
  split_array.simps [THEN fun_cong] name_below_def [THEN fun_cong] catype_formalize_type_expand.simps [THEN fun_cong]
  expand_fields.simps [THEN fun_cong] catype_formalize_type_def [THEN fun_cong]
  cache_type_def [THEN fun_cong] cached_type_def [THEN fun_cong] catype_get_by_name_def [THEN fun_cong]
  sym_form_symtable_type_id_def [THEN fun_cong]
  catype_formalize_type_layout.simps [THEN fun_cong]

definition small_world :: "(types, int) action" where
  "small_world = act (make_primitive ''t:i32'' I32 4 None) (\<lambda>_.
     act (define_alias here ''P'' ''[*i32;3]'') (\<lambda>_. intern ''t:P''))"

lemma small_world_runs:
  "(case small_world types_start of
      Inr (i, w) \<Rightarrow> \<not> isl (catype_get_by_name (\<lambda>_. fail Out_of_fuel) 6 0 i w)
    | Inl _ \<Rightarrow> False)"
  unfolding small_world_def by code_simp

theorem type_looked_up_once_witness:
  "\<exists>i w p w'. small_world types_start = Inr (i, w)
     \<and> catype_get_by_name (\<lambda>_. fail Out_of_fuel) 6 0 i w = Inr (p, w')
     \<and> catype_get_by_name (\<lambda>_. fail Out_of_fuel) 6 0 i w' = Inr (p, w')"
proof -
  obtain i w where w: "small_world types_start = Inr (i, w)"
    and "\<not> isl (catype_get_by_name (\<lambda>_. fail Out_of_fuel) 6 0 i w)"
    using small_world_runs by (auto split: sum.splits)
  then obtain p w' where r: "catype_get_by_name (\<lambda>_. fail Out_of_fuel) 6 0 i w = Inr (p, w')"
    by (cases "catype_get_by_name (\<lambda>_. fail Out_of_fuel) 6 0 i w") auto
  obtain w1 where w1: "names_ok w1" "intern (''t:'' @ ''P'') w1 = Inr (i, w)"
  proof -
    have "keeps names_ok (make_primitive ''t:i32'' I32 4 None :: (types, addr) action)"
      "keeps names_ok (define_alias here ''P'' ''[*i32;3]'' :: (types, entry_ptr) action)"
      by (intro keeps_intro keeps_names_alias)+
    moreover have "names_ok types_start" by (simp add: types_start_def names_ok_def)
    ultimately show thesis
      using w that by (auto simp: small_world_def act_Inr_iff dest: keepsD)
  qed
  have "known_as w i ''t:'' ''P''"
    using intern_run(1,2) [OF w1(1) _ w1(2)] by (simp add: known_as_def NUL_def)
  from type_looked_up_once [OF this _ r] w r show ?thesis by (auto simp: leaves_alone_def)
qed

end
