(* ===== verification/Type_Cycles.thy ===== *)
theory Type_Cycles
  imports Typelookup
begin

section \<open>Walks over type objects that contain themselves\<close>

text \<open>
  A struct with a pointer to itself is a cycle on the heap. The walks over type objects carry the
  structs (or fields) they are in, \<open>rcheck\<close>, and turn around there. This theory shows that a walk
  ends: with fuel for each struct, and for each chain of \<open>*\<close> and \<open>[]\<close> between structs, an action
  never runs out of it.
\<close>

subsection \<open>Actions that do not run out of fuel\<close>

text \<open>\<open>safe sk k f\<close>: from a state with the skeleton \<open>k\<close>, the run of \<open>f\<close> has enough fuel and keeps it.\<close>

definition safe :: "('s \<Rightarrow> 'k) \<Rightarrow> 'k \<Rightarrow> ('s, 'a) action \<Rightarrow> bool" where
  "safe sk k f \<longleftrightarrow> (\<forall>w. sk w = k \<longrightarrow> (case f w of Inl e \<Rightarrow> e \<noteq> Out_of_fuel | Inr (x, w') \<Rightarrow> sk w' = k))"

named_theorems safe_intro \<open>rules for actions with enough fuel\<close>

lemma safeI:
  assumes "\<And>w e. sk w = k \<Longrightarrow> f w = Inl e \<Longrightarrow> e \<noteq> Out_of_fuel"
    and "\<And>w x w'. sk w = k \<Longrightarrow> f w = Inr (x, w') \<Longrightarrow> sk w' = k"
  shows "safe sk k f"
  using assms by (auto simp: safe_def split: sum.split)

lemma safe_ends: "safe sk (sk w) f \<Longrightarrow> f w \<noteq> Inl Out_of_fuel"
  by (auto simp: safe_def split: sum.splits)

lemma safe_rules [safe_intro]:
  "safe sk k (ret x)" "e \<noteq> Out_of_fuel \<Longrightarrow> safe sk k (fail e)" "safe sk k (reads f)"
  "r \<noteq> Inl Out_of_fuel \<Longrightarrow> safe sk k (lift_result r)"
  by (auto simp: safe_def lift_result_def split: sum.split)

lemma safe_reading [safe_intro]: "(\<And>w. r w \<noteq> Inl Out_of_fuel) \<Longrightarrow> safe sk k (\<lambda>w. lift_result (r w) w)"
  by (auto simp: safe_def lift_result_def split: sum.split)

lemma safe_act [safe_intro]:
  assumes "safe sk k f" "\<And>x. safe sk k (g x)"
  shows "safe sk k (act f g)"
proof (unfold safe_def, intro allI impI)
  fix w assume w: "sk w = k"
  show "case act f g w of Inl e \<Rightarrow> e \<noteq> Out_of_fuel | Inr (x, w') \<Rightarrow> sk w' = k"
  proof (cases "f w")
    case (Inl e)
    then show ?thesis using assms(1) w by (auto simp: safe_def act_def)
  next
    case (Inr r)
    obtain x w1 where r: "r = (x, w1)" by (cases r) auto
    have "sk w1 = k" using assms(1) w Inr r by (auto simp: safe_def)
    with assms(2) [of x] show ?thesis by (simp add: safe_def act_def Inr r)
  qed
qed

lemma safe_if [safe_intro]: "(b \<Longrightarrow> safe sk k f) \<Longrightarrow> (\<not> b \<Longrightarrow> safe sk k g) \<Longrightarrow> safe sk k (if b then f else g)"
  by simp

lemma safe_option [safe_intro]:
  "safe sk k f \<Longrightarrow> (\<And>x. safe sk k (g x)) \<Longrightarrow> safe sk k (case opt of None \<Rightarrow> f | Some x \<Rightarrow> g x)"
  by (cases opt) simp_all

lemma safe_modifies: "(\<And>w. sk w = k \<Longrightarrow> sk (h w) = k) \<Longrightarrow> safe sk k (modifies h)"
  by (simp add: safe_def)

lemma sprintf_has_fuel [simp]: "sprintf_into cap s \<noteq> Inl Out_of_fuel"
  by (simp add: sprintf_into_def)

lemma symname_get_has_fuel [simp]: "symname_get i w \<noteq> Inl Out_of_fuel"
  by (simp add: symname_get_def)

subsection \<open>The skeleton of the type objects\<close>

text \<open>What a walk that computes signatures leaves as it is: the kind and layout of every object.\<close>

definition kinds :: "'z types_scheme \<Rightarrow> addr \<Rightarrow> (tokenid \<times> CALayout) option" where
  "kinds w p = map_option (\<lambda>d. (dt_type d, layout d)) (dt_heap w p)"

definition skeleton :: "'z types_scheme \<Rightarrow> (addr \<Rightarrow> (tokenid \<times> CALayout) option) \<times> (addr \<Rightarrow> CAStruct option)" where
  "skeleton w = (kinds w, cs_heap w)"

lemma safe_intern [safe_intro]: "safe skeleton k (intern s)"
  by (rule safeI)
    (auto simp: intern_def skeleton_def kinds_def fun_eq_iff symname_check_insert_def symname_insert_def Let_def
      split: option.splits)

lemma safe_names [safe_intro]:
  "safe skeleton k (name_of i)" "safe skeleton k (catype_get_type_name i)" "safe skeleton k (dt_of p)"
  "safe skeleton k (cs_of p)"
  by (auto intro!: safe_intro simp: name_of_def catype_get_type_name_def name_after_prefix_def dt_of_def cs_of_def
      get_dt_def get_cs_def bind_result_def split: option.splits sum.splits)

lemma safe_ids [safe_intro]:
  "safe skeleton k (sym_form_type_id_by_str s)" "safe skeleton k (sym_form_type_id i)" "safe skeleton k (append_to b s)"
  unfolding sym_form_type_id_by_str_def sym_form_type_id_def get_inner_type_string_def append_to_def
    sym_form_type_name_def
  by (intro safe_intro; simp)+

text \<open>An object that is read has the kind and layout of the skeleton.\<close>

lemma safe_dt_of:
  fixes g :: "CADataType \<Rightarrow> ('z types_scheme, 'a) action"
  assumes "\<And>d. fst k p = Some (dt_type d, layout d) \<Longrightarrow> safe skeleton k (g d)"
  shows "safe skeleton k (act (dt_of p) g)"
  unfolding safe_def
proof (intro allI impI)
  fix w :: "'z types_scheme" assume w: "skeleton w = k"
  show "case act (dt_of p) g w of Inl e \<Rightarrow> e \<noteq> Out_of_fuel | Inr (x, w') \<Rightarrow> skeleton w' = k"
  proof (cases "dt_heap w p")
    case None
    then show ?thesis by (simp add: act_def dt_of_def get_dt_def)
  next
    case (Some d)
    then have "fst k p = Some (dt_type d, layout d)" using w by (auto simp: skeleton_def kinds_def)
    from assms [OF this] w Some show ?thesis by (simp add: safe_def act_def dt_of_def get_dt_def)
  qed
qed

lemma safe_set_signature [safe_intro]: "safe skeleton k (set_signature p sig)"
  by (rule safeI)
    (auto simp: set_signature_def act_Inr_iff dt_of_def get_dt_def put_dt_def skeleton_def kinds_def fun_eq_iff act_def
      lift_result_def split: option.splits sum.splits)

subsection \<open>The signature of an object\<close>

fun target :: "CALayout \<Rightarrow> addr option" where
  "target (Layout_Pointer t _ _) = Some t"
| "target (Layout_Array t _ _) = Some t"
| "target _ = None"

text \<open>\<open>rank\<close> counts the \<open>*\<close> and \<open>[]\<close> from an object down to the next struct or primitive type, at most \<open>b\<close>:
  no chain of pointers and arrays alone closes.\<close>

definition chains_end :: "(addr \<Rightarrow> (tokenid \<times> CALayout) option) \<Rightarrow> (addr \<Rightarrow> nat) \<Rightarrow> nat \<Rightarrow> bool" where
  "chains_end ks rank b \<longleftrightarrow>
     (\<forall>p. rank p \<le> b) \<and>
     (\<forall>p ty l t. ks p = Some (ty, l) \<and> ty \<noteq> STRUCT \<and> target l = Some t \<longrightarrow> rank t < rank p)"

definition structs_in :: "(addr \<Rightarrow> (tokenid \<times> CALayout) option) \<Rightarrow> addr set \<Rightarrow> bool" where
  "structs_in ks S \<longleftrightarrow> finite S \<and> (\<forall>p l. ks p = Some (STRUCT, l) \<longrightarrow> p \<in> S)"

abbreviation steps_safe :: "(addr \<Rightarrow> (tokenid \<times> CALayout) option) \<times> (addr \<Rightarrow> CAStruct option) \<Rightarrow>
  ('z types_scheme, 'a) action \<Rightarrow> bool" where
  "steps_safe k f \<equiv> safe skeleton k f"

lemma field_at_has_fuel [simp]: "field_at c i w \<noteq> Inl Out_of_fuel"
  by (simp add: field_at_def get_cs_def bind_result_def split: option.split sum.split)

lemma safe_fields:
  assumes "\<And>q. steps_safe k (typeid_get_top_down n q rcheck :: ('z types_scheme, int) action)"
  shows "steps_safe k (top_down_fields n tuple c i j rcheck buf :: ('z types_scheme, string) action)"
  by (induction j arbitrary: i buf) (auto intro!: safe_intro assms)

lemma fewer_structs:
  assumes "finite S" "p \<in> S" "p \<notin> set rcheck" "card (S - set rcheck) * (b + 2) + rank p < Suc n" "rank q \<le> b"
  shows "card (S - set (p # rcheck)) * (b + 2) + rank q < n"
proof -
  have "card (S - set rcheck) = Suc (card (S - set rcheck - {p}))"
    using assms(1-3) by (intro card.remove) auto
  moreover have "S - set rcheck - {p} = S - set (p # rcheck)" by auto
  ultimately show ?thesis using assms(4,5) by simp
qed

lemma top_down_safe:
  assumes "structs_in (fst k) S" "chains_end (fst k) rank b"
  shows "card (S - set rcheck) * (b + 2) + rank p < n \<Longrightarrow> steps_safe k (typeid_get_top_down n p rcheck :: ('z types_scheme, int) action)"
proof (induction n arbitrary: p rcheck)
  case (Suc n)
  note chains = assms(2) [unfolded chains_end_def]
  have below: "steps_safe k (typeid_get_top_down n t rcheck :: ('z types_scheme, int) action)"
    if "fst k p = Some (ty, l)" "ty \<noteq> STRUCT" "target l = Some t" for ty l t
  proof (rule Suc.IH)
    have "rank t < rank p" using that chains by blast
    then show "card (S - set rcheck) * (b + 2) + rank t < n" using Suc.prems by simp
  qed
  have inside: "steps_safe k (typeid_get_top_down n q (p # rcheck) :: ('z types_scheme, int) action)"
    if "fst k p = Some (STRUCT, l)" "p \<notin> set rcheck" for q l
    using that assms(1) chains Suc.prems by (intro Suc.IH fewer_structs) (auto simp: structs_in_def)
  show ?case
    unfolding typeid_get_top_down.simps
  proof (rule safe_dt_of, goal_cases)
    case (1 d)
    have f: "steps_safe k (top_down_fields n tuple c i j (p # rcheck) buf :: ('z types_scheme, string) action)"
      if "dt_type d = STRUCT" "p \<notin> set rcheck" for tuple c i j buf
      using that 1 by (intro safe_fields inside [of "layout d"]) simp_all
    have s: "steps_safe k (struct_layout_of p :: ('z types_scheme, addr) action)"
      unfolding struct_layout_of_def by (auto intro!: safe_intro split: CALayout.split)
    show ?case
      using 1 by (cases "layout d") (auto intro!: safe_intro below f s simp: Let_def)
  qed
qed simp

text \<open>Claim C9: The signature of a type object is computed, also for a type that contains itself. On a
  heap with finitely many structs, where no chain of pointers and arrays alone closes, the walk
  down from any object ends: fuel for each struct once, with the pointers and arrays between two
  structs, is enough.\<close>

theorem signature_walk_ends:
  fixes w :: "'z types_scheme"
  assumes "structs_in (kinds w) S" "chains_end (kinds w) rank b" "(card S + 1) * (b + 2) \<le> fuel"
  shows "typeid_from_catype fuel p w \<noteq> Inl Out_of_fuel"
proof -
  have "rank p \<le> b" using assms(2) by (simp add: chains_end_def)
  then have "card (S - set []) * (b + 2) + rank p < fuel" using assms(3) by simp
  with assms(1,2) have "steps_safe (skeleton w) (typeid_get_top_down fuel p [] :: ('z types_scheme, int) action)"
    by (intro top_down_safe [where S = S and rank = rank and b = b]) (simp_all add: skeleton_def)
  then show ?thesis unfolding typeid_from_catype_def by (rule safe_ends)
qed

text \<open>\<open>struct Node {next: *Node, v: i32}\<close>, with the pointer at \<open>1\<close> back to the struct at \<open>2\<close>.\<close>

definition ring :: types where
  "ring =
     (snd (symname_check_insert ''v'' (snd (symname_check_insert ''next''
        (snd (symname_check_insert ''Node'' (snd (symname_check_insert ''t:i32'' types_start))))))))
     \<lparr>dt_heap :=
        [0 \<mapsto> \<lparr>dt_type = I32, formalname = 0, dt_size = 4, signature = 0, status = CADT_Expand, layout = Layout_None\<rparr>,
         1 \<mapsto> \<lparr>dt_type = POINTER, formalname = 0, dt_size = 8, signature = typeid_novalue, status = CADT_None,
              layout = Layout_Pointer 2 1 PP_Stack\<rparr>,
         2 \<mapsto> \<lparr>dt_type = STRUCT, formalname = 6, dt_size = 12, signature = typeid_novalue, status = CADT_None,
              layout = Layout_Struct 0\<rparr>],
      dt_next := 3,
      cs_heap :=
        [0 \<mapsto> \<lparr>cs_type = Struct_NamedStruct, cs_name = 6, fieldnum = 2, capacity = 2, fieldmaxalign = 1,
              cs_fields = [Some \<lparr>f_name = 11, f_offset = 0, f_type = 1\<rparr>, Some \<lparr>f_name = 16, f_offset = 8, f_type = 0\<rparr>]\<rparr>],
      cs_next := 1\<rparr>"

theorem signature_walk_ends_witness:
  "typeid_from_catype 6 2 ring \<noteq> Inl Out_of_fuel
   \<and> (case typeid_from_catype 6 2 ring of
        Inr (i, w) \<Rightarrow> symname_get i w = Inr ''t:{Node;next:*Node,v:i32}'' | Inl _ \<Rightarrow> False)"
proof
  have k: "kinds ring = [0 \<mapsto> (I32, Layout_None), 1 \<mapsto> (POINTER, Layout_Pointer 2 1 PP_Stack), 2 \<mapsto> (STRUCT, Layout_Struct 0)]"
    by (simp add: ring_def kinds_def fun_eq_iff)
  have "structs_in (kinds ring) {2}" "chains_end (kinds ring) (\<lambda>p. if p = 1 then 1 else 0) 1"
    unfolding k by (auto simp: structs_in_def chains_end_def split: if_splits)
  then show "typeid_from_catype 6 2 ring \<noteq> Inl Out_of_fuel"
    by (rule signature_walk_ends) simp
qed code_simp

end
