(* ===== verification/Mangling.thy ===== *)
theory Mangling
  imports Typelookup Casts
begin

section \<open>Mangled names (\<open>llvm/IR_generator.cpp\<close>)\<close>

text \<open>
  A function that is nested in other functions or in blocks, or that is a method, gets a name in
  the LLVM module that is made of the scopes around it. The code generator keeps these scopes in
  \<open>lexical_scope_stack\<close>; a scope that is a function is written as its name, any other one as the
  number \<open>walk_lexical_body\<close> gave it. This theory has the stack and the names, and shows that the
  name determines the scopes. The vector's first element, the root, is the head of the list.
\<close>

datatype LexicalType = Lex_Global | Lex_Block | Lex_Module | Lex_Function | Lex_Struct | Lex_Num

record LexicalScope =
  ls_symtable :: addr
  lexical_id :: nat
  lexical_type :: LexicalType
  function_name :: int

definition new_LexicalScope :: "addr \<Rightarrow> LexicalScope" where
  "new_LexicalScope st =
     \<lparr>ls_symtable = st, lexical_id = 0, lexical_type = Lex_Global, function_name = 0\<rparr>"

definition MANGLED_NAME_PREFIX :: string where
  "MANGLED_NAME_PREFIX = ''_CA$''"

text \<open>\<open>%s\<close> between single quotes, which some of the reports have.\<close>

definition apostrophed :: string where
  "apostrophed = [CHR 0x27, CHR ''%'', CHR ''s'', CHR 0x27]"

text \<open>A name goes into the text with its length in front.\<close>

definition sized :: "string \<Rightarrow> string" where
  "sized name = nat_text (length name) @ name"

text \<open>One of the two passes over the scopes: the first writes their kinds, the second the names.\<close>

fun mangle_pass :: "bool \<Rightarrow> LexicalScope list \<Rightarrow> ('z names_scheme, string) action" where
  "mangle_pass first_pass [] = ret []"
| "mangle_pass first_pass (scope # scopes) =
     (case lexical_type scope of
        Lex_Block \<Rightarrow>
          act (mangle_pass first_pass scopes) (\<lambda>name.
          ret ((if first_pass then CHR ''L'' # nat_text (lexical_id scope) else []) @ name))
      | Lex_Function \<Rightarrow>
          if first_pass then act (mangle_pass first_pass scopes) (\<lambda>name. ret (CHR ''F'' # name))
          else act (catype_get_function_name (function_name scope)) (\<lambda>local_name.
               act (mangle_pass first_pass scopes) (\<lambda>name. ret (sized local_name @ name)))
      | Lex_Module \<Rightarrow> fail (Exit ''not implemented yet: %d'')
      | Lex_Struct \<Rightarrow> fail (Exit ''not implemented yet: %d'')
      | _ \<Rightarrow> fail (Exit ''bad lexical type: %d''))"

text \<open>\<open>func\<close> appends what stands for the function itself, in each of the passes.\<close>

definition mangling_function_name_nottype ::
  "LexicalScope list \<Rightarrow> nat \<Rightarrow> (bool \<Rightarrow> ('z names_scheme, string) action) \<Rightarrow> ('z names_scheme, string) action" where
  "mangling_function_name_nottype stack lexical_stack_size func =
     (let scopes = tl (take lexical_stack_size stack) in
      act (mangle_pass True scopes) (\<lambda>kinds. act (func True) (\<lambda>kind.
      act (mangle_pass False scopes) (\<lambda>names. act (func False) (\<lambda>name.
      act (intern (MANGLED_NAME_PREFIX @ kinds @ kind @ names @ name)) name_of)))))"

fun find_symtable_below :: "nat \<Rightarrow> LexicalScope list \<Rightarrow> addr \<Rightarrow> nat option" where
  "find_symtable_below 0 stack st = None"
| "find_symtable_below (Suc i) stack st =
     (if ls_symtable (stack ! i) = st then Some i else find_symtable_below i stack st)"

definition lexical_find_symtable_pos :: "LexicalScope list \<Rightarrow> addr \<Rightarrow> nat option" where
  "lexical_find_symtable_pos stack st = find_symtable_below (length stack) stack st"

text \<open>The two functions passed as \<open>func\<close>: for a function, and for a method.\<close>

definition function_part :: "int \<Rightarrow> bool \<Rightarrow> ('z names_scheme, string) action" where
  "function_part fn first_pass =
     (if first_pass then ret ''F''
      else act (catype_get_function_name fn) (\<lambda>local_name. ret (sized local_name)))"

definition method_part :: "int \<Rightarrow> TypeImplInfo \<Rightarrow> bool \<Rightarrow> ('z names_scheme, string) action" where
  "method_part fn impl_info first_pass =
     (if first_pass then ret ((if trait_id impl_info \<noteq> - 1 then ''T'' else []) @ ''SF'')
      else
        act (if trait_id impl_info \<noteq> - 1
             then act (catype_get_type_name (trait_id impl_info)) (\<lambda>trait_name. ret (sized trait_name))
             else ret []) (\<lambda>trait.
        act (catype_get_type_name (class_id impl_info)) (\<lambda>struct_name.
        act (catype_struct_impl_id_to_function_name_str fn) (\<lambda>local_name.
        ret (trait @ sized struct_name @ sized local_name)))))"

text \<open>The name, and for a method the entry of its struct, which the caller gets through \<open>cls_entry\<close>.\<close>

definition mangling_function_name ::
  "LexicalScope list \<Rightarrow> addr \<Rightarrow> int \<Rightarrow> TypeImplInfo option \<Rightarrow> addr option \<Rightarrow>
   ('z world, string \<times> entry_ptr option) action" where
  "mangling_function_name stack symtable0 fn impl_info st_type =
     (case impl_info of
        None \<Rightarrow>
          act (if length stack = 1 then catype_get_function_name fn
               else mangling_function_name_nottype stack (length stack) (function_part fn))
            (\<lambda>name. ret (name, None))
      | Some info \<Rightarrow>
          if class_id info = - 1
          then act (catype_get_function_name fn)
                 (\<lambda>_. fail (Exit ''implemented struct not specified, for method `%s`''))
          else
            act (\<lambda>w. lift_result (case st_type of Some s \<Rightarrow> Inr s | None \<Rightarrow> sym_parent_or_global symtable0 w) w) (\<lambda>symtable.
            act (\<lambda>w. lift_result (sym_getsym_with_symtable symtable (class_id info) True w) w) (\<lambda>entry.
            act (case entry of None \<Rightarrow> ret False
                 | Some p \<Rightarrow> act (\<lambda>w. lift_result (get_entry p w) w) (\<lambda>e. ret (sym_type e = Sym_DataType))) (\<lambda>is_type.
            (case entry of
               Some p \<Rightarrow>
                 if is_type then
                   (case lexical_find_symtable_pos stack (fst p) of
                      None \<Rightarrow> act (catype_get_type_name (class_id info))
                                (\<lambda>_. fail (Exit (''cannot find struct '' @ apostrophed @ '' lexical position'')))
                    | Some pos \<Rightarrow>
                        act (mangling_function_name_nottype stack (pos + 1) (method_part fn info)) (\<lambda>name.
                        ret (name, Some p)))
                 else act (catype_get_type_name (class_id info))
                        (\<lambda>_. fail (Exit (''cannot find symbol entry for type '' @ apostrophed)))
             | None \<Rightarrow> act (catype_get_type_name (class_id info))
                        (\<lambda>_. fail (Exit (''cannot find symbol entry for type '' @ apostrophed)))))))) "

subsection \<open>Names are read back\<close>

text \<open>What a mangled name says: the scopes from the outside in, and the function or method.\<close>

datatype place = In_Block nat | In_Function string

datatype item = A_Function string | A_Method "string option" string string

definition plain_name :: "string \<Rightarrow> bool" where
  "plain_name n \<longleftrightarrow> n \<noteq> [] \<and> \<not> is_digit (hd n) \<and> CHR ''$'' \<notin> set n"

fun kind_of :: "place \<Rightarrow> string" where
  "kind_of (In_Block i) = CHR ''L'' # nat_text i"
| "kind_of (In_Function n) = ''F''"

fun name_in :: "place \<Rightarrow> string" where
  "name_in (In_Block i) = []"
| "name_in (In_Function n) = sized n"

fun item_kind :: "item \<Rightarrow> string" where
  "item_kind (A_Function n) = ''F''"
| "item_kind (A_Method tr s n) = (if tr = None then [] else ''T'') @ ''SF''"

fun item_name :: "item \<Rightarrow> string" where
  "item_name (A_Function n) = sized n"
| "item_name (A_Method tr s n) = (case tr of None \<Rightarrow> [] | Some t \<Rightarrow> sized t) @ sized s @ sized n"

definition mangled :: "place list \<Rightarrow> item \<Rightarrow> string" where
  "mangled p x = MANGLED_NAME_PREFIX @ concat (map kind_of p) @ item_kind x @ concat (map name_in p) @ item_name x"

definition full_name :: "place list \<Rightarrow> item \<Rightarrow> string" where
  "full_name p x = (case (p, x) of ([], A_Function n) \<Rightarrow> n | _ \<Rightarrow> mangled p x)"

fun plain_place :: "place \<Rightarrow> bool" where
  "plain_place (In_Block i) = True"
| "plain_place (In_Function n) = plain_name n"

fun plain_item :: "item \<Rightarrow> bool" where
  "plain_item (A_Function n) = plain_name n"
| "plain_item (A_Method tr s n) = (pred_option plain_name tr \<and> plain_name s \<and> plain_name n)"

lemma stops_plain: "plain_name n \<Longrightarrow> stops is_digit (n @ rest)"
  by (cases n) (simp_all add: plain_name_def stops_def)

lemma numbers_unique:
  assumes "nat_text i @ r = nat_text j @ s" "stops is_digit r" "stops is_digit s"
  shows "i = j \<and> r = s"
proof -
  have "nat_text i = nat_text j"
    using arg_cong [OF assms(1), of "takeWhile is_digit"] assms(2,3) by (simp add: takeWhile_stops)
  then show ?thesis using assms(1) by (auto dest: nat_text_inj)
qed

lemma sized_unique:
  assumes "sized m @ r = sized n @ s" "plain_name m" "plain_name n"
  shows "m = n \<and> r = s"
  using numbers_unique [of "length m" "m @ r" "length n" "n @ s"] assms stops_plain
  by (auto simp: sized_def)

lemma digit_letters [simp]:
  "\<not> is_digit CHR ''L''" "\<not> is_digit CHR ''F''" "\<not> is_digit CHR ''S''" "\<not> is_digit CHR ''T''"
  by (simp_all add: char_classes)

definition digit_first :: "string \<Rightarrow> bool" where
  "digit_first s \<longleftrightarrow> s \<noteq> [] \<and> is_digit (hd s)"

lemma sized_digit [simp]: "digit_first (sized n @ r)" "digit_first (sized n)"
  using nat_text_digits [of "length n"] nat_text_not_empty [of "length n"]
  by (cases "nat_text (length n)"; simp add: digit_first_def sized_def)+

lemma names_digit: "digit_first (concat (map name_in p) @ item_name x)"
proof (induction p)
  case Nil
  then show ?case by (cases x) (simp_all split: option.split)
next
  case (Cons a p)
  then show ?case by (cases a) simp_all
qed

lemma kinds_stop: "stops is_digit (concat (map kind_of p) @ item_kind x @ r)"
proof (cases p)
  case Nil
  then show ?thesis by (cases x) (simp_all add: stops_def)
next
  case (Cons a q)
  then show ?thesis by (cases a) (simp_all add: stops_def)
qed

text \<open>The kinds end where a digit follows a letter other than \<open>L\<close>, and fix the shape of the rest.\<close>

fun same_kind :: "place \<Rightarrow> place \<Rightarrow> bool" where
  "same_kind (In_Block i) (In_Block j) = (i = j)"
| "same_kind (In_Function m) (In_Function n) = True"
| "same_kind _ _ = False"

fun same_item :: "item \<Rightarrow> item \<Rightarrow> bool" where
  "same_item (A_Function m) (A_Function n) = True"
| "same_item (A_Method tr _ _) (A_Method tr' _ _) = (tr = None \<longleftrightarrow> tr' = None)"
| "same_item _ _ = False"

lemma kinds_unique:
  assumes "concat (map kind_of p) @ item_kind x @ r = concat (map kind_of q) @ item_kind y @ s"
    "digit_first r" "digit_first s"
  shows "list_all2 same_kind p q \<and> same_item x y \<and> r = s"
  using assms(1)
proof (induction p arbitrary: q)
  case Nil
  then show ?case
  proof (cases q)
    case (Cons b q')
    have "r \<noteq> concat (map kind_of q') @ item_kind y @ s"
      using kinds_stop [of q' y s] assms(2) by (auto simp: stops_def digit_first_def)
    with Nil Cons show ?thesis by (cases x; cases b) (auto split: if_splits)
  qed (cases x; cases y; auto split: if_splits)
next
  case (Cons a p)
  show ?case
  proof (cases q)
    case Nil
    have "s \<noteq> concat (map kind_of p) @ item_kind x @ r"
      using kinds_stop [of p x r] assms(3) by (auto simp: stops_def digit_first_def)
    with Cons.prems Nil show ?thesis by (cases y; cases a) (auto split: if_splits)
  next
    case (Cons b q')
    have "same_kind a b \<and> concat (map kind_of p) @ item_kind x @ r = concat (map kind_of q') @ item_kind y @ s"
      using Cons.prems unfolding Cons
      by (cases a; cases b) (auto dest: numbers_unique [OF _ kinds_stop kinds_stop])
    then show ?thesis using Cons.IH [of q'] Cons by simp
  qed
qed

lemma two_sized_unique:
  assumes "sized s @ sized n = sized s' @ sized n'" "plain_name s" "plain_name s'" "plain_name n" "plain_name n'"
  shows "s = s' \<and> n = n'"
  using sized_unique [OF assms(1-3)] sized_unique [of n "[]" n' "[]"] assms(4,5) by simp

lemma item_names_unique:
  assumes "item_name x = item_name y" "same_item x y" "plain_item x" "plain_item y"
  shows "x = y"
proof (cases x)
  case (A_Function m)
  then obtain n where y: "y = A_Function n" using assms(2) by (cases y) auto
  then show ?thesis using sized_unique [of m "[]" n "[]"] assms A_Function by simp
next
  case (A_Method tr s n)
  then obtain tr' s' n' where y: "y = A_Method tr' s' n'" using assms(2) by (cases y) auto
  note plain = assms(3,4) [unfolded A_Method y, simplified]
  show ?thesis
  proof (cases tr)
    case None
    then have "sized s @ sized n = sized s' @ sized n'" "tr' = None"
      using assms(1,2) A_Method y by auto
    with two_sized_unique [OF this(1)] plain show ?thesis using A_Method y None by simp
  next
    case (Some t)
    then obtain t' where t': "tr' = Some t'" using assms(2) A_Method y by auto
    have "sized t @ sized s @ sized n = sized t' @ sized s' @ sized n'"
      using assms(1) A_Method y Some t' by simp
    from sized_unique [OF this] plain Some t'
    have "t = t'" "sized s @ sized n = sized s' @ sized n'" by simp_all
    with two_sized_unique [OF this(2)] plain show ?thesis using A_Method y Some t' by simp
  qed
qed

lemma names_unique:
  assumes "concat (map name_in p) @ item_name x = concat (map name_in q) @ item_name y"
    "list_all2 same_kind p q" "same_item x y"
    "list_all plain_place p" "list_all plain_place q" "plain_item x" "plain_item y"
  shows "p = q \<and> x = y"
  using assms(2,1,4,5)
proof (induction rule: list_all2_induct)
  case Nil
  then show ?case using item_names_unique assms by simp
next
  case (Cons a p b q)
  then show ?case by (cases a; cases b) (auto dest: sized_unique)
qed

lemma mangled_unique:
  assumes "mangled p x = mangled q y"
    "list_all plain_place p" "list_all plain_place q" "plain_item x" "plain_item y"
  shows "p = q \<and> x = y"
proof -
  have "list_all2 same_kind p q \<and> same_item x y \<and>
      concat (map name_in p) @ item_name x = concat (map name_in q) @ item_name y"
    using kinds_unique [OF _ names_digit names_digit] assms(1) by (simp add: mangled_def)
  then show ?thesis using names_unique assms(2-5) by metis
qed

lemma full_name_cases:
  obtains n where "p = []" "x = A_Function n" "full_name p x = n"
  | "\<nexists>n. p = [] \<and> x = A_Function n" "full_name p x = mangled p x"
  by (cases p; cases x) (auto simp: full_name_def)

lemma mangled_not_plain: "plain_name n \<Longrightarrow> mangled p x \<noteq> n"
  by (auto simp: mangled_def MANGLED_NAME_PREFIX_def plain_name_def)

lemma full_name_unique:
  assumes "full_name p x = full_name q y"
    "list_all plain_place p" "list_all plain_place q" "plain_item x" "plain_item y"
  shows "p = q \<and> x = y"
proof (rule full_name_cases [of p x]; rule full_name_cases [of q y])
  fix n assume "p = []" "x = A_Function n" "full_name p x = n" "full_name q y = mangled q y"
  then show ?thesis using mangled_not_plain [of n q y] assms(1,4) by simp
next
  fix n assume "q = []" "y = A_Function n" "full_name q y = n" "full_name p x = mangled p x"
  then show ?thesis using mangled_not_plain [of n p x] assms(1,5) by simp
next
  assume "full_name p x = mangled p x" "full_name q y = mangled q y"
  then show ?thesis using mangled_unique assms by metis
qed (use assms(1) in simp)

subsection \<open>The names of the code generator\<close>

definition scope_is :: "'z world \<Rightarrow> LexicalScope \<Rightarrow> place \<Rightarrow> bool" where
  "scope_is w scope pl =
     (case pl of
        In_Block i \<Rightarrow> lexical_type scope = Lex_Block \<and> lexical_id scope = i
      | In_Function n \<Rightarrow> lexical_type scope = Lex_Function \<and> known_as w (function_name scope) ''f:'' n)"

text \<open>The entry of the struct of a method, found from the implementation or from \<open>st_type\<close>.\<close>

definition struct_of :: "'z world \<Rightarrow> addr \<Rightarrow> TypeImplInfo \<Rightarrow> addr option \<Rightarrow> entry_ptr option result" where
  "struct_of w symtable info st_type =
     bind_result (case st_type of Some s \<Rightarrow> Inr s | None \<Rightarrow> sym_parent_or_global symtable w)
       (\<lambda>st. sym_getsym_with_symtable st (class_id info) True w)"

definition method_is :: "'z world \<Rightarrow> int \<Rightarrow> TypeImplInfo \<Rightarrow> item \<Rightarrow> bool" where
  "method_is w fn info x \<longleftrightarrow>
     (\<exists>tr s l. x = A_Method tr s (catype_remove_impl_prefix l) \<and>
        known_as w fn ''f:'' l \<and> known_as w (class_id info) ''t:'' s \<and>
        (case tr of None \<Rightarrow> trait_id info = - 1
         | Some t \<Rightarrow> trait_id info \<noteq> - 1 \<and> known_as w (trait_id info) ''t:'' t))"

text \<open>The function \<open>x\<close> in the scopes \<open>p\<close>: those on the stack, or for a method those of its struct.\<close>

definition named_by ::
  "'z world \<Rightarrow> LexicalScope list \<Rightarrow> addr \<Rightarrow> int \<Rightarrow> TypeImplInfo option \<Rightarrow> addr option \<Rightarrow> place list \<Rightarrow> item \<Rightarrow> bool" where
  "named_by w stack symtable fn impl_info st_type p x \<longleftrightarrow>
     (case impl_info of
        None \<Rightarrow> stack \<noteq> [] \<and> list_all2 (scope_is w) (tl stack) p \<and> (\<exists>n. x = A_Function n \<and> known_as w fn ''f:'' n)
      | Some info \<Rightarrow>
          method_is w fn info x \<and>
          (\<exists>cls pos. struct_of w symtable info st_type = Inr (Some cls) \<and>
             lexical_find_symtable_pos stack (fst cls) = Some pos \<and>
             list_all2 (scope_is w) (tl (take (pos + 1) stack)) p))"

lemma mangle_pass_run:
  assumes "list_all2 (scope_is w) scopes p"
  shows "mangle_pass True scopes w = Inr (concat (map kind_of p), w)"
    "mangle_pass False scopes w = Inr (concat (map name_in p), w)"
proof -
  from assms have "mangle_pass True scopes w = Inr (concat (map kind_of p), w)
      \<and> mangle_pass False scopes w = Inr (concat (map name_in p), w)"
  proof (induction rule: list_all2_induct)
    case (Cons scope scopes pl p)
    then show ?case
      by (cases pl) (auto simp: scope_is_def act_def dest: get_type_name_known(2))
  qed simp
  then show "mangle_pass True scopes w = Inr (concat (map kind_of p), w)"
    "mangle_pass False scopes w = Inr (concat (map name_in p), w)" by simp_all
qed

lemma method_part_run:
  assumes "method_is w fn info x"
  shows "method_part fn info True w = Inr (item_kind x, w)" "method_part fn info False w = Inr (item_name x, w)"
  using assms
  by (auto simp: method_is_def method_part_def catype_struct_impl_id_to_function_name_str_def
      get_type_name_known act_def split: option.splits)

lemma function_part_run:
  "known_as w fn ''f:'' n \<Longrightarrow> function_part fn True w = Inr (item_kind (A_Function n), w)"
  "known_as w fn ''f:'' n \<Longrightarrow> function_part fn False w = Inr (item_name (A_Function n), w)"
  by (auto simp: function_part_def act_def dest: get_type_name_known(2))

lemma letters_not_NUL [simp]:
  "CHR ''L'' \<noteq> NUL" "CHR ''F'' \<noteq> NUL" "CHR ''S'' \<noteq> NUL" "CHR ''T'' \<noteq> NUL" "CHR ''_'' \<noteq> NUL"
  "CHR ''C'' \<noteq> NUL" "CHR ''A'' \<noteq> NUL" "CHR ''$'' \<noteq> NUL"
  by (simp_all add: NUL_def)

lemma sized_nul_free [simp]: "nul_free (sized n) \<longleftrightarrow> nul_free n"
  by (simp add: sized_def)

lemma places_nul_free:
  "list_all2 (scope_is w) scopes p \<Longrightarrow> nul_free (concat (map kind_of p)) \<and> nul_free (concat (map name_in p))"
proof (induction rule: list_all2_induct)
  case (Cons scope scopes pl p)
  then show ?case
    using known_as_nul_free [of w "function_name scope"] by (cases pl) (auto simp: scope_is_def)
qed simp

lemma remove_impl_prefix_nul_free: "nul_free l \<Longrightarrow> nul_free (catype_remove_impl_prefix l)"
  unfolding catype_remove_impl_prefix_def nul_free_def list_all_iff by (metis set_rev set_takeWhileD)

lemma item_nul_free:
  "method_is w fn info x \<Longrightarrow> nul_free (item_kind x) \<and> nul_free (item_name x)"
  using known_as_nul_free [of w fn] known_as_nul_free [of w "class_id info"]
    known_as_nul_free [of w "trait_id info"] remove_impl_prefix_nul_free
  by (auto simp: method_is_def split: option.splits)

lemma mangled_run:
  assumes "list_all2 (scope_is w) (tl (take k stack)) p" "names_ok w"
    "func True w = Inr (item_kind x, w)" "func False w = Inr (item_name x, w)"
    "nul_free (item_kind x)" "nul_free (item_name x)"
    "mangling_function_name_nottype stack k func w = Inr (s, w')"
  shows "s = mangled p x" "known_as w i pre n \<Longrightarrow> known_as w' i pre n"
proof -
  have nf: "nul_free (mangled p x)"
    using places_nul_free [OF assms(1)] assms(5,6) by (simp add: mangled_def MANGLED_NAME_PREFIX_def)
  obtain j w1 where run: "intern (mangled p x) w = Inr (j, w1)" "name_of j w1 = Inr (s, w')"
    using assms(7) mangle_pass_run [OF assms(1)] assms(3,4)
    by (auto simp: mangling_function_name_nottype_def mangled_def act_Inr_iff Let_def)
  note i = intern_run [OF assms(2) nf run(1)]
  then show "s = mangled p x" using name_of_interned [OF i(1,2)] run(2) by simp
  show "known_as w i pre n \<Longrightarrow> known_as w' i pre n"
    using known_as_intern [OF _ nf run(1)] run(2) by (auto dest: name_of_nul_free)
qed

lemma name_generated:
  assumes "named_by w stack symtable fn info st p x" "names_ok w"
    "mangling_function_name stack symtable fn info st w = Inr ((s, c), w')"
  shows "s = full_name p x" "known_as w i pre n \<Longrightarrow> known_as w' i pre n"
proof -
  have "s = full_name p x \<and> (known_as w i pre n \<longrightarrow> known_as w' i pre n)"
  proof (cases info)
    case None
    then obtain m where x: "x = A_Function m" "known_as w fn ''f:'' m"
      and p: "list_all2 (scope_is w) (tl stack) p" and ne: "stack \<noteq> []"
      using assms(1) by (auto simp: named_by_def)
    show ?thesis
    proof (cases "length stack = 1")
      case True
      then have "p = []" using p by (cases stack) auto
      then show ?thesis
        using assms(3) None True x get_type_name_known(2) [OF x(2)]
        by (auto simp: mangling_function_name_def full_name_def act_def)
    next
      case False
      then have "p \<noteq> []" using p ne by (cases stack; cases "tl stack") auto
      then have full: "full_name p x = mangled p x" by (auto simp: full_name_def split: list.split)
      have run: "mangling_function_name_nottype stack (length stack) (function_part fn) w = Inr (s, w')"
        using assms(3) None False by (auto simp: mangling_function_name_def act_Inr_iff)
      have nf: "nul_free (item_kind x)" "nul_free (item_name x)"
        using known_as_nul_free [OF x(2)] x(1) by simp_all
      show ?thesis
        using mangled_run [OF _ assms(2) _ _ nf run, of p] function_part_run [OF x(2)] p x(1) full by simp
    qed
  next
    case (Some inf)
    then obtain cls pos where m: "method_is w fn inf x" and cls: "struct_of w symtable inf st = Inr (Some cls)"
      and pos: "lexical_find_symtable_pos stack (fst cls) = Some pos"
      and p: "list_all2 (scope_is w) (tl (take (pos + 1) stack)) p"
      using assms(1) by (auto simp: named_by_def)
    then have full: "full_name p x = mangled p x" by (auto simp: full_name_def method_is_def split: list.split)
    have run: "mangling_function_name_nottype stack (pos + 1) (method_part fn inf) w = Inr (s, w')"
      using assms(3) Some cls pos
      by (auto simp: mangling_function_name_def struct_of_def act_Inr_iff lift_result_Inr_iff bind_result_Inr_iff
          split: if_splits)
    show ?thesis
      using mangled_run [OF p assms(2) method_part_run [OF m] _ _ run] item_nul_free [OF m] full by simp
  qed
  then show "s = full_name p x" "known_as w i pre n \<Longrightarrow> known_as w' i pre n" by simp_all
qed

text \<open>Claim C10: a mangled name says where a function is. Two functions or methods of a program, each in
  the scopes it is found in, get the same name in the module exactly when they are in the same
  scopes (blocks by number, functions by name) and have the same name, struct and trait: nested
  functions of one name in different scopes never collide, and neither does one with a global
  function.\<close>

theorem mangled_names_unique:
  assumes "named_by w stack symtable fn info st p x" "names_ok w" "list_all plain_place p" "plain_item x"
    and "named_by w' stack' symtable' fn' info' st' q y" "names_ok w'" "list_all plain_place q" "plain_item y"
    and "mangling_function_name stack symtable fn info st w = Inr ((s, c), v)"
    and "mangling_function_name stack' symtable' fn' info' st' w' = Inr ((s', c'), v')"
  shows "s = s' \<longleftrightarrow> p = q \<and> x = y"
  using name_generated(1) [OF assms(1,2,9)] name_generated(1) [OF assms(5,6,10)]
    full_name_unique [of p x q y] assms(3,4,7,8) by metis

definition two_functions :: "(types, int \<times> int) action" where
  "two_functions = act (intern ''f:outer'') (\<lambda>i. act (intern ''f:inner'') (\<lambda>j. ret (i, j)))"

definition inside :: "int \<Rightarrow> LexicalScope list" where
  "inside fn = [new_LexicalScope 0, (new_LexicalScope 3)\<lparr>lexical_id := 1, lexical_type := Lex_Function, function_name := fn\<rparr>,
     (new_LexicalScope 4)\<lparr>lexical_id := 2, lexical_type := Lex_Block\<rparr>]"

lemma two_functions_named:
  "(case two_functions types_start of
      Inr ((i, j), w) \<Rightarrow>
        (case mangling_function_name (inside i) 4 j None None w of
           Inr ((s, _), _) \<Rightarrow> s = ''_CA$FL2F5outer5inner'' | _ \<Rightarrow> False) \<and>
        (case mangling_function_name [new_LexicalScope 0] 0 j None None w of Inr ((s, _), _) \<Rightarrow> s = ''inner'' | _ \<Rightarrow> False)
    | _ \<Rightarrow> False)"
  unfolding two_functions_def by code_simp

theorem mangled_names_unique_witness:
  "\<exists>i j w v s v' s'. two_functions types_start = Inr ((i, j), w)
     \<and> mangling_function_name (inside i) 4 j None None w = Inr ((s, None), v)
     \<and> mangling_function_name [new_LexicalScope 0] 0 j None None w = Inr ((s', None), v')
     \<and> (s = s' \<longleftrightarrow> [In_Function ''outer'', In_Block 2] = [] \<and> A_Function ''inner'' = A_Function ''inner'')"
proof -
  obtain i j w where w: "two_functions types_start = Inr ((i, j), w)"
    using two_functions_named by (auto split: sum.splits)
  then obtain w1 where run: "intern ''f:outer'' types_start = Inr (i, w1)" "intern ''f:inner'' w1 = Inr (j, w)"
    by (auto simp: two_functions_def act_Inr_iff)
  have "names_ok types_start" by (simp add: types_start_def names_ok_def)
  note r1 = intern_run [OF this _ run(1)]
  have ok1: "names_ok w1" using r1(1) by (simp add: NUL_def)
  note r2 = intern_run [OF ok1 _ run(2)]
  have known: "known_as w i ''f:'' ''outer''" "known_as w j ''f:'' ''inner''" "names_ok w"
    using r1 r2 by (simp_all add: known_as_def NUL_def)
  obtain s c v s' c' v' where m: "mangling_function_name (inside i) 4 j None None w = Inr ((s, c), v)"
    "mangling_function_name [new_LexicalScope 0] 0 j None None w = Inr ((s', c'), v')"
    using two_functions_named w by (auto split: sum.splits)
  have none: "c = None" "c' = None" using m by (auto simp: mangling_function_name_def act_Inr_iff)
  have n: "named_by w (inside i) 4 j None None [In_Function ''outer'', In_Block 2] (A_Function ''inner'')"
    "named_by w [new_LexicalScope 0] 0 j None None [] (A_Function ''inner'')"
    using known by (simp_all add: named_by_def inside_def scope_is_def)
  have p: "plain_name ''outer''" "plain_name ''inner''" by code_simp+
  from mangled_names_unique [OF n(1) known(3) _ _ n(2) known(3) _ _ m] p m none w show ?thesis by auto
qed

end
