(* ===== verification/Literals.thy ===== *)
theory Literals
  imports Casts CText "HOL-Library.Word"
begin

unbundle bit_operations_syntax

section \<open>Literals (\<open>ca_parser.c\<close>, \<open>type_system.cpp\<close>, \<open>type_system_llvm.cpp\<close>)\<close>

text \<open>
  The lexer hands a literal on as a text with the shape it saw (\<open>littypetok\<close>): \<open>U64\<close> for digits,
  \<open>I64\<close> once a minus sign has been put in front, \<open>F64\<close> with a decimal point, \<open>BOOL\<close>, and \<open>I8\<close> or
  \<open>U8\<close> for characters. The type comes later, from a postfix, from the context
  (\<open>determine_literal_type\<close>) or from the literal alone (\<open>inference_literal_type\<close>); only then the
  text is read.
\<close>

subsection \<open>Reading integers\<close>

datatype scan_format = Scan_p | Scan_o | Scan_lu

text \<open>\<open>sscanf\<close> into an \<open>int64_t\<close>: \<open>%p\<close> (in glibc) and \<open>%lu\<close> write all of it, \<open>%o\<close> writes an
  \<open>unsigned int\<close>, its low half. A text without digits writes nothing.\<close>

definition sscanf_i64 :: "string \<Rightarrow> scan_format \<Rightarrow> 64 word \<Rightarrow> 64 word" where
  "sscanf_i64 s fmt old =
     (case fmt of
        Scan_p \<Rightarrow> (case strtoul 16 s of None \<Rightarrow> old | Some v \<Rightarrow> of_nat v)
      | Scan_lu \<Rightarrow> (case strtoul 10 s of None \<Rightarrow> old | Some v \<Rightarrow> of_nat v)
      | Scan_o \<Rightarrow> (case strtoul 8 s of None \<Rightarrow> old
                  | Some v \<Rightarrow> (old AND NOT (mask 32)) OR take_bit 32 (of_nat v)))"

definition parse_binary_number :: "string \<Rightarrow> 64 word result" where
  "parse_binary_number s =
     (let ds = dropWhile (\<lambda>c. c \<noteq> CHR ''1'') s
      in if 64 < length ds then Inl (Exit ''the length `%d` of binary number `%s` out of range of 64'')
         else Inr (foldl (\<lambda>v c. push_bit 1 v + of_int (int (code c) - 48)) 0 ds))"

text \<open>The prefix test of a literal and how its digits are read: with \<open>%p\<close> the sign and prefix are
  left to \<open>sscanf\<close>.\<close>

datatype int_format = Scan scan_format string bool | Binary string bool

definition integer_format :: "string \<Rightarrow> tokenid \<Rightarrow> int_format" where
  "integer_format s littypetok =
     (let cmplen = (if littypetok = I64 then 3 else 2);
          sign = (if littypetok = I64 then ''-'' else [])
      in if cmplen < length s \<and> take cmplen s = sign @ ''0x'' then Scan Scan_p s False
         else if cmplen < length s \<and> take cmplen s = sign @ ''0o'' then Scan Scan_o (drop cmplen s) (cmplen = 3)
         else if cmplen < length s \<and> take cmplen s = sign @ ''0b'' then Binary (drop cmplen s) (cmplen = 3)
         else Scan Scan_lu s False)"

text \<open>Negating the least 64 bit integer overflows. The result is the scope check's \<open>int\<close> and the
  value stored in the literal.\<close>

definition literal_parse_integer :: "string \<Rightarrow> tokenid \<Rightarrow> tokenid \<Rightarrow> 64 word \<Rightarrow> (int \<times> 64 word) result" where
  "literal_parse_integer s littypetok typetok old =
     bind_result
       (case integer_format s littypetok of
          Scan fmt t neg \<Rightarrow> Inr (sscanf_i64 t fmt old, neg)
        | Binary t neg \<Rightarrow> bind_result (parse_binary_number t) (\<lambda>v. Inr (v, neg))) (\<lambda>(v, neg).
     bind_result
       (if \<not> neg then Inr v
        else if sint v = - (2 ^ 63) then Inl (Undefined ''signed overflow'') else Inr (- v)) (\<lambda>v.
     bind_result
       (if littypetok = I64 then check_i64_value_scope (sint v) typetok
        else check_u64_value_scope (unat v) typetok) (\<lambda>bad. Inr (bad, v))))"

subsection \<open>Reading characters\<close>

text \<open>The text still has its closing quote. \<open>atoi\<close> gives 0 for an escape that is no number.\<close>

definition char_value :: "char \<Rightarrow> int" where
  "char_value c = (if code c < 128 then int (code c) else int (code c) - 256)"

definition parse_lexical_char :: "string \<Rightarrow> int" where
  "parse_lexical_char s =
     (if take 1 s \<noteq> [CHR 0x5C] then (case s of [] \<Rightarrow> 0 | c # _ \<Rightarrow> char_value c)
      else if take 1 (drop 1 s) = ''r'' then 13
      else if take 1 (drop 1 s) = ''n'' then 10
      else if take 1 (drop 1 s) = ''t'' then 9
      else atoi (drop 1 s))"

definition as_char :: "int \<Rightarrow> int" where
  "as_char i = sint (word_of_int i :: 8 word)"

definition as_uchar :: "int \<Rightarrow> nat" where
  "as_uchar i = unat (word_of_int i :: 8 word)"

subsection \<open>Reading floating point numbers\<close>

text \<open>\<open>atof\<close> rounds the rational the digits stand for to the nearest double, ties to the even one.
  \<open>binary_exponent q\<close> is the exponent of the leading bit of \<open>q > 0\<close>.\<close>

function bit_length :: "int \<Rightarrow> nat" where
  "bit_length n = (if n \<le> 0 then 0 else Suc (bit_length (n div 2)))"
  by pat_completeness auto

termination by (relation "measure nat") auto

declare bit_length.simps [simp del]

definition pow2 :: "int \<Rightarrow> rat" where
  "pow2 e = (if 0 \<le> e then 2 ^ nat e else 1 / 2 ^ nat (- e))"

definition binary_exponent :: "rat \<Rightarrow> int" where
  "binary_exponent q =
     (let (n, d) = quotient_of q; k = int (bit_length n) - int (bit_length d)
      in if pow2 k \<le> q then k else k - 1)"

definition round_half_even :: "rat \<Rightarrow> int" where
  "round_half_even q =
     (let f = \<lfloor>q\<rfloor>; r = q - of_int f
      in if r < 1 / 2 \<or> r = 1 / 2 \<and> even f then f else f + 1)"

text \<open>A format with \<open>p\<close> bits of precision, least exponent \<open>emin\<close> and values below \<open>2 ^ emax\<close>.\<close>

definition round_positive :: "int \<Rightarrow> int \<Rightarrow> int \<Rightarrow> rat \<Rightarrow> double" where
  "round_positive p emin emax q =
     (let e = max emin (binary_exponent q - p + 1); v = of_int (round_half_even (q / pow2 e)) * pow2 e
      in if pow2 emax \<le> v then Pos_Inf else Fin v)"

definition round_to :: "int \<Rightarrow> int \<Rightarrow> int \<Rightarrow> rat \<Rightarrow> double" where
  "round_to p emin emax q =
     (if q = 0 then Fin 0
      else if 0 < q then round_positive p emin emax q
      else (case round_positive p emin emax (- q) of Fin v \<Rightarrow> Fin (- v) | Pos_Inf \<Rightarrow> Neg_Inf | d \<Rightarrow> d))"

definition round_double :: "rat \<Rightarrow> double" where
  "round_double = round_to 53 (- 1074) 1024"

definition round_float :: "double \<Rightarrow> double" where
  "round_float d = (case d of Fin q \<Rightarrow> round_to 24 (- 149) 128 q | _ \<Rightarrow> d)"

text \<open>\<open>atof\<close> on digits with an optional sign and fraction; the lexer has no exponents.\<close>

definition atof :: "string \<Rightarrow> double" where
  "atof s =
     (let (neg, r) = strip_sign s; ds = takeWhile is_digit r; rest = drop (length ds) r;
          fs = (if take 1 rest = ''.'' then takeWhile is_digit (drop 1 rest) else []);
          q = of_int (foldl (\<lambda>v c. v * 10 + int (digit_value c)) 0 (ds @ fs)) / 10 ^ length fs
      in round_double (if neg then - q else q))"

subsection \<open>Literals\<close>

text \<open>The union \<open>u\<close> holds the 64 bits of \<open>i64value\<close>, a double, the text of a string or the literals of
  an array.\<close>

datatype CALiteral =
    CALiteral (fixed_type: bool) (postfixtypetok: tokenid) (littypetok: tokenid) (textid: int)
      (lit_datatype: int) (lit_catype: "addr option") (lit_u: lit_value)
  and lit_value =
    Lit_I64 (i64value: "64 word")
  | Lit_F64 (f64value: double)
  | Lit_String int nat
  | Lit_Array (arrayvalue: "CALiteral list")

type_synonym literal = CALiteral

definition set_type :: "bool \<Rightarrow> int \<Rightarrow> addr option \<Rightarrow> literal \<Rightarrow> literal" where
  "set_type fixed dt cat l = CALiteral fixed (postfixtypetok l) (littypetok l) (textid l) dt cat (lit_u l)"

definition set_u :: "lit_value \<Rightarrow> literal \<Rightarrow> literal" where
  "set_u v l = CALiteral (fixed_type l) (postfixtypetok l) (littypetok l) (textid l) (lit_datatype l) (lit_catype l) v"

text \<open>The fields \<open>create_literal\<close> does not write keep what the parser's value had, \<open>old\<close>.\<close>

definition create_literal :: "int \<Rightarrow> tokenid \<Rightarrow> tokenid \<Rightarrow> literal \<Rightarrow> literal" where
  "create_literal text_id lit_tok postfix old =
     CALiteral False (if lit_tok = I8 then I8 else postfix) lit_tok text_id (- 1) (lit_catype old) (lit_u old)"

text \<open>The minus sign of \<open>make_uminus_expr\<close> joins an unsigned literal; \<open>None\<close> leaves the expression a
  negation. The buffer has 1024 bytes.\<close>

definition make_uminus_literal :: "literal \<Rightarrow> ('z names_scheme, literal option) action" where
  "make_uminus_literal l =
     (if littypetok l \<noteq> U64 then ret None
      else act (name_of (textid l)) (\<lambda>littext.
           act (lift_result (sprintf_into 1024 (''-'' @ littext))) (\<lambda>s.
           act (intern s) (\<lambda>i.
           ret (Some (CALiteral (fixed_type l) (postfixtypetok l) I64 i (lit_datatype l) (lit_catype l) (lit_u l)))))))"

definition i64_bits :: "lit_value \<Rightarrow> 64 word result" where
  "i64_bits v = (case v of Lit_I64 w \<Rightarrow> Inr w | _ \<Rightarrow> Inl (Undefined ''other member of the union''))"

definition bool_int :: "bool \<Rightarrow> int" where
  "bool_int b = (if b then 1 else 0)"

text \<open>The value of a literal in the type with the token \<open>typetok\<close>: the scope check and \<open>u\<close>. For an
  octal literal the old high half of \<open>i64value\<close> stays.\<close>

definition literal_value :: "string \<Rightarrow> tokenid \<Rightarrow> tokenid \<Rightarrow> lit_value \<Rightarrow> (int \<times> lit_value) result" where
  "literal_value s lit_tok typetok old =
     (case lit_tok of
        I64 \<Rightarrow> bind_result (i64_bits old) (\<lambda>w.
               bind_result (literal_parse_integer s I64 typetok w) (\<lambda>(bad, v). Inr (bad, Lit_I64 v)))
      | U64 \<Rightarrow> bind_result (i64_bits old) (\<lambda>w.
               bind_result (literal_parse_integer s U64 typetok w) (\<lambda>(bad, v). Inr (bad, Lit_I64 v)))
      | F64 \<Rightarrow> bind_result (check_f64_value_scope (atof s) typetok) (\<lambda>bad. Inr (bad, Lit_F64 (atof s)))
      | BOOL \<Rightarrow> Inr (bool_int (typetok \<noteq> BOOL), Lit_I64 (if atoi s \<noteq> 0 then 1 else 0))
      | I8 \<Rightarrow> (let c = as_char (parse_lexical_char s)
               in Inr (check_char_value_scope c typetok, Lit_I64 (word_of_int c)))
      | U8 \<Rightarrow> (let c = as_uchar (parse_lexical_char s)
               in Inr (check_uchar_value_scope c typetok, Lit_I64 (of_nat c)))
      | _ \<Rightarrow> Inl (Exit ''%s type have no lexical value''))"

subsection \<open>The type of a literal by itself\<close>

text \<open>The type intended for each shape, and the type whose scope is checked: for \<open>U8\<close> they differ.\<close>

definition intended_type :: "tokenid \<Rightarrow> (tokenid \<times> tokenid) result" where
  "intended_type lit_tok =
     (case lit_tok of
        I64 \<Rightarrow> Inr (I32, I32) | U64 \<Rightarrow> Inr (I32, I32) | F64 \<Rightarrow> Inr (F64, F64) | BOOL \<Rightarrow> Inr (BOOL, BOOL)
      | I8 \<Rightarrow> Inr (I8, I8) | U8 \<Rightarrow> Inr (I8, U8)
      | _ \<Rightarrow> Inl (Exit ''void type have no literal value''))"

definition bad_literal :: "tokenid \<Rightarrow> tokenid \<Rightarrow> ('s, 'a) action" where
  "bad_literal from to =
     act (lift_result (get_type_string from)) (\<lambda>_. act (lift_result (get_type_string to)) (\<lambda>_.
     fail (Exit ''bad literal value definition: %s cannot be %s'')))"

definition inference_primitive_literal_type :: "literal \<Rightarrow> ('z names_scheme, literal) action" where
  "inference_primitive_literal_type l =
     act (name_of (textid l)) (\<lambda>s.
     act (lift_result (intended_type (littypetok l))) (\<lambda>(intent, scope).
     act (lift_result (literal_value s (littypetok l) scope (lit_u l))) (\<lambda>(bad, v).
     if bad \<noteq> 0 then bad_literal (littypetok l) intent
     else act (sym_form_type_id_from_token intent) (\<lambda>dt.
          ret (set_type True dt (lit_catype l) (set_u v l))))))"

text \<open>The object of a typed element: its own, or the primitive one of its type id.\<close>

definition element_catype :: "literal \<Rightarrow> ('z types_scheme, addr) action" where
  "element_catype l =
     (case lit_catype l of
        Some p \<Rightarrow> ret p
      | None \<Rightarrow> act (catype_get_primitive_by_name (lit_datatype l)) non_null)"

fun inference_literal_type :: "literal \<Rightarrow> ('z types_scheme, literal) action"
  and inference_elements :: "addr option \<Rightarrow> literal list \<Rightarrow> ('z types_scheme, literal list \<times> addr option) action" where
  "inference_literal_type (CALiteral fixed post tok txt dt cat val) =
     (if fixed then ret (CALiteral fixed post tok txt dt cat val)
      else if tok = ARRAY then
        (case val of
           Lit_Array lits \<Rightarrow>
             act (inference_elements None lits) (\<lambda>(lits', last).
             act (non_null last) (\<lambda>el.
             act (catype_make_array_type el (length lits') False) (\<lambda>p.
             act (dt_of p) (\<lambda>d.
             ret (CALiteral True post tok txt (signature d) (Some p) (Lit_Array lits'))))))
         | _ \<Rightarrow> fail (Undefined ''other member of the union''))
      else if tok = STRUCT then fail (Exit ''not implemented the literal for struct type.'')
      else if tok = POINTER
      then fail (Exit ''not implemented the literal for pointer type, should can never come here'')
      else inference_primitive_literal_type (CALiteral fixed post tok txt dt cat val))"
| "inference_elements prev [] = ret ([], prev)"
| "inference_elements prev (l # ls) =
     act (inference_literal_type l) (\<lambda>l'.
     if \<not> fixed_type l'
     then fail (Exit ''(internal) after inference it still cannot determine the literal type'')
     else act (element_catype l') (\<lambda>c.
          act (dt_of (case prev of None \<Rightarrow> c | Some p \<Rightarrow> p)) (\<lambda>d.
          act (dt_of c) (\<lambda>e.
          if signature d \<noteq> signature e
          then fail (Exit ''different array element type: idx %d: %p`%s`, idx %d: %p`%s`'')
          else act (inference_elements (Some c) ls) (\<lambda>(ls', last). ret (l' # ls', last))))))"

subsection \<open>The type of a literal from its context\<close>

definition is_literal_zero_value :: "literal \<Rightarrow> ('z names_scheme, bool) action" where
  "is_literal_zero_value l = act (name_of (textid l)) (\<lambda>v. ret (littypetok l = U64 \<and> v = ''0''))"

definition determine_primitive_literal_type :: "literal \<Rightarrow> addr \<Rightarrow> ('z types_scheme, literal) action" where
  "determine_primitive_literal_type l p =
     act (dt_of p) (\<lambda>c.
     let typetok = dt_type c
     in if typetok = No_Token \<or> typetok = VOID then ret l
        else
          act (is_literal_zero_value l) (\<lambda>zero.
          act (if zero then ret 1 else lift_result (literal_type_convertable (littypetok l) typetok)) (\<lambda>conv.
          if conv = 0
          then act (lift_result (get_type_string (littypetok l))) (\<lambda>_.
               act (catype_get_type_name (signature c)) (\<lambda>_.
               fail (Exit ''bad literal value definition: %s cannot be %s'')))
          else
            act (if typetok = CSTRING \<or> typetok = POINTER \<or> typetok = ARRAY \<or> typetok = STRUCT
                 then ret (signature c, Some p)
                 else act (sym_form_type_id_from_token typetok) (\<lambda>dt. ret (dt, lit_catype l))) (\<lambda>(dt, cat).
            act (name_of (textid l)) (\<lambda>s.
            act (lift_result (literal_value s (littypetok l) typetok (lit_u l))) (\<lambda>(bad, v).
            if bad \<noteq> 0 then bad_literal (littypetok l) typetok
            else ret (set_type True dt cat (set_u v l))))))))"

text \<open>The first test lets every array literal through; the layout of a type that is no array is not
  an array layout. A failed assertion ends the run.\<close>

fun determine_literal_type :: "literal \<Rightarrow> addr option \<Rightarrow> ('z types_scheme, literal) action"
  and determine_elements :: "addr \<Rightarrow> literal list \<Rightarrow> ('z types_scheme, literal list) action" where
  "determine_literal_type (CALiteral fixed post tok txt dt cat val) catype =
     (case catype of
        None \<Rightarrow> ret (CALiteral fixed post tok txt dt cat val)
      | Some p \<Rightarrow>
          if fixed then
            act (dt_of p) (\<lambda>c.
            if dt = signature c then ret (CALiteral fixed post tok txt dt cat val)
            else act (catype_get_type_name dt) (\<lambda>_. act (catype_get_type_name (signature c)) (\<lambda>_.
                 fail (Exit ''conflicting of determining literal type: literal already have a type `%s`, cannot determine into `%s`''))))
          else if tok = ARRAY then
            act (dt_of p) (\<lambda>c.
            (case (layout c, val) of
               (Layout_Array el ndim dims, Lit_Array lits) \<Rightarrow>
                 if ndim \<noteq> 1 then fail (Exit ''assertion failed'')
                 else if dims = [] then fail (Undefined ''dimension not set'')
                 else if hd dims \<noteq> int (length lits)
                 then fail (Exit ''expected an array with a fixed size of %d elements, found one with %d elements'')
                 else
                   act (determine_elements el lits) (\<lambda>lits'.
                   ret (CALiteral True post tok txt (signature c) (Some p) (Lit_Array lits')))
             | _ \<Rightarrow> fail (Undefined ''no array'')))
          else if tok = CSTRING \<or> tok = POINTER \<or> tok = STRUCT
          then fail (Exit ''cannot convert complex type to any type, may need change the functionality later'')
          else determine_primitive_literal_type (CALiteral fixed post tok txt dt cat val) p)"
| "determine_elements el [] = ret []"
| "determine_elements el (l # ls) =
     act (determine_literal_type l (Some el)) (\<lambda>l'.
     act (dt_of el) (\<lambda>e.
     if \<not> fixed_type l' \<or> lit_datatype l' \<noteq> signature e
     then act (catype_get_type_name (lit_datatype l')) (\<lambda>_. act (catype_get_type_name (signature e)) (\<lambda>_.
          fail (Exit ''determine literal failed for array element: fixed: %d, signature(lit: %s, type: %s), catype (%p, %p)'')))
     else act (determine_elements el ls) (\<lambda>ls'. ret (l' # ls'))))"

subsection \<open>The LLVM constant of a literal\<close>

text \<open>\<open>Const_Null\<close> is a null result, which the caller finds or LLVM crashes on.\<close>

datatype lit_constant =
    Const_Value lvalue
  | Const_FP LType double
  | Const_String string
  | Const_Pointer_Null LType
  | Const_Int_To_Ptr lvalue LType
  | Const_Array LType "lit_constant option list"

definition union_f64 :: "literal \<Rightarrow> double result" where
  "union_f64 l = (case lit_u l of Lit_F64 d \<Rightarrow> Inr d | _ \<Rightarrow> Inl (Undefined ''other member of the union''))"

text \<open>A conversion of a double to \<open>int64_t\<close> drops the fraction; out of range it is undefined.\<close>

definition parse_to_int64 :: "literal \<Rightarrow> int result" where
  "parse_to_int64 l =
     (if catype_is_float (littypetok l) then
        bind_result (union_f64 l) (\<lambda>d.
        (case d of
           Fin q \<Rightarrow>
             (let i = (if 0 \<le> q then \<lfloor>q\<rfloor> else \<lceil>q\<rceil>)
              in if - (2 ^ 63) \<le> i \<and> i < 2 ^ 63 then Inr i else Inl (Undefined ''conversion out of range''))
         | _ \<Rightarrow> Inl (Undefined ''conversion out of range'')))
      else bind_result (i64_bits (lit_u l)) (\<lambda>w. Inr (sint w)))"

definition parse_to_double :: "literal \<Rightarrow> double result" where
  "parse_to_double l =
     (if catype_is_float (littypetok l) then union_f64 l
      else bind_result (i64_bits (lit_u l)) (\<lambda>w. Inr (round_double (of_int (sint w)))))"

text \<open>The type looked up is the literal's type id, so every shape but those of a primitive type with
  the tokens below ends the run.\<close>

definition can_type_binding :: "literal \<Rightarrow> tokenid \<Rightarrow> ('z types_scheme, bool) action" where
  "can_type_binding l typetok =
     act (catype_get_primitive_by_name (lit_datatype l)) (\<lambda>p.
     (case p of
        None \<Rightarrow> fail (Exit ''get type failed: type is: `%d`'')
      | Some p \<Rightarrow>
          act (dt_of p) (\<lambda>d.
          act (lift_result
            (case dt_type d of
               I64 \<Rightarrow> bind_result (i64_bits (lit_u l)) (\<lambda>w. check_i64_value_scope (sint w) typetok)
             | U64 \<Rightarrow> bind_result (i64_bits (lit_u l)) (\<lambda>w. check_u64_value_scope (unat w) typetok)
             | F64 \<Rightarrow> bind_result (union_f64 l) (\<lambda>x. check_f64_value_scope x typetok)
             | BOOL \<Rightarrow> Inr (bool_int (typetok \<noteq> BOOL))
             | I8 \<Rightarrow> bind_result (i64_bits (lit_u l)) (\<lambda>w. Inr (check_char_value_scope (as_char (sint w)) typetok))
             | U8 \<Rightarrow> bind_result (i64_bits (lit_u l)) (\<lambda>w. Inr (check_uchar_value_scope (as_uchar (sint w)) typetok))
             | _ \<Rightarrow> bind_result (get_type_string (dt_type d)) (\<lambda>_. Inl (Exit ''bad lexical literal type: `%s`'')))) (\<lambda>bad.
          ret (bad = 0)))))"

definition int_constant :: "nat \<Rightarrow> literal \<Rightarrow> lit_constant option result" where
  "int_constant bits l = bind_result (parse_to_int64 l) (\<lambda>i. Inr (Some (Const_Value (gen_int bits i))))"

definition gen_primitive_literal_value :: "literal \<Rightarrow> tokenid \<Rightarrow> ('z types_scheme, lit_constant option) action" where
  "gen_primitive_literal_value l typetok =
     act (if fixed_type l then ret True else can_type_binding l typetok) (\<lambda>ok.
     if \<not> ok then act (lift_result (get_type_string typetok)) (\<lambda>_.
                  fail (Exit ''literal value type `%s` not match the variable type `%s`''))
     else lift_result
       (case typetok of
          VOID \<Rightarrow> Inl (Exit ''void type have no literal value'')
        | I16 \<Rightarrow> int_constant 16 l | I32 \<Rightarrow> int_constant 32 l | I64 \<Rightarrow> int_constant 64 l
        | U16 \<Rightarrow> int_constant 16 l | U32 \<Rightarrow> int_constant 32 l | U64 \<Rightarrow> int_constant 64 l
        | F32 \<Rightarrow> bind_result (parse_to_double l) (\<lambda>d. Inr (Some (Const_FP LT_Float (round_float d))))
        | F64 \<Rightarrow> bind_result (parse_to_double l) (\<lambda>d. Inr (Some (Const_FP LT_Double d)))
        | BOOL \<Rightarrow> bind_result (parse_to_int64 l) (\<lambda>i. Inr (Some (Const_Value (gen_bool (i \<noteq> 0)))))
        | I8 \<Rightarrow> int_constant 8 l | U8 \<Rightarrow> int_constant 8 l
        | _ \<Rightarrow> Inr None))"

fun gen_literal_value :: "nat \<Rightarrow> literal \<Rightarrow> addr \<Rightarrow> ('z llvm_scheme, lit_constant option) action"
  and gen_array_elements :: "nat \<Rightarrow> literal list \<Rightarrow> addr \<Rightarrow> ('z llvm_scheme, lit_constant option list) action" where
  "gen_literal_value fuel (CALiteral fixed post tok txt dt cat val) p =
     act (dt_of p) (\<lambda>d.
     if dt_type d = POINTER then
       (case (tok, val) of
          (CSTRING, Lit_String text_id len) \<Rightarrow>
            act (reads s_symname_buffer) (\<lambda>buf.
            if text_id < 0 \<or> length buf < nat text_id + len then fail (Undefined ''read past the buffer'')
            else ret (Some (Const_String (take len (drop (nat text_id) buf)))))
        | _ \<Rightarrow>
            act (llvmtype_from_catype fuel p) (\<lambda>t.
            act (lift_result (i64_bits val)) (\<lambda>w.
            (case t of
               None \<Rightarrow> fail (Undefined ''null type'')
             | Some t \<Rightarrow> ret (Some (if w = 0 then Const_Pointer_Null t
                                   else Const_Int_To_Ptr (gen_int 64 (sint w)) t))))))
     else if dt_type d = ARRAY then
       (case layout d of
          Layout_Array el ndim dims \<Rightarrow>
            if ndim \<noteq> 1 then fail (Exit ''(internal) the array dimension is not normalized into 1'')
            else if tok \<noteq> ARRAY then fail (Exit ''assertion failed'')
            else if dims = [] then fail (Undefined ''dimension not set'')
            else (case val of
                Lit_Array lits \<Rightarrow>
                  if hd dims \<noteq> int (length lits) then fail (Exit ''assertion failed'')
                  else
                    act (gen_array_elements fuel lits el) (\<lambda>cs.
                    act (llvmtype_from_catype fuel p) (\<lambda>t.
                    (case t of None \<Rightarrow> fail (Undefined ''null type'') | Some t \<Rightarrow> ret (Some (Const_Array t cs)))))
              | _ \<Rightarrow> fail (Undefined ''other member of the union''))
        | _ \<Rightarrow> fail (Undefined ''no array layout''))
     else if dt_type d = SLICE then fail (Exit ''the slice literal not implemented yet'')
     else if dt_type d = STRUCT then fail (Exit ''the struct literal not implemented yet'')
     else gen_primitive_literal_value (CALiteral fixed post tok txt dt cat val) (dt_type d))"
| "gen_array_elements fuel [] el = ret []"
| "gen_array_elements fuel (l # ls) el =
     act (gen_literal_value fuel l el) (\<lambda>c.
     act (gen_array_elements fuel ls el) (\<lambda>cs. ret (c # cs)))"

subsection \<open>Integer literals are read as their value\<close>

datatype radix = Dec | Hex | Oct | Bin

fun radix_text :: "radix \<Rightarrow> nat \<Rightarrow> string" where
  "radix_text Dec n = nat_text n"
| "radix_text Hex n = ''0x'' @ num_text 16 n"
| "radix_text Oct n = ''0o'' @ num_text 8 n"
| "radix_text Bin n = ''0b'' @ num_text 2 n"

lemma base_digits_not_sign: "is_base_digit b c \<Longrightarrow> b \<le> 36 \<Longrightarrow> c \<noteq> CHR ''-'' \<and> c \<noteq> CHR ''+''"
  by (auto simp: is_base_digit_def digit_value_def char_classes split: if_splits)

lemma strip_sign_num [simp]:
  assumes "2 \<le> b" "b \<le> 36"
  shows "strip_sign (num_text b n) = (False, num_text b n)"
  using num_text_digits [OF assms, of n] base_digits_not_sign [OF _ assms(2)] num_text_not_empty [of b n]
  by (cases "num_text b n") (auto simp: strip_sign_def)

lemma strip_sign_minus [simp]: "strip_sign (CHR ''-'' # s) = (True, s)"
  by (simp add: strip_sign_def)

lemma strip_0x_prefix [simp]: "strip_0x (CHR ''0'' # CHR ''x'' # s) = s"
  by (simp add: strip_0x_def)

lemma take_digits [simp]: "2 \<le> b \<Longrightarrow> b \<le> 36 \<Longrightarrow> takeWhile (is_base_digit b) (num_text b n) = num_text b n"
  using takeWhile_stops [OF num_text_digits, of b "[]" n] by (simp add: stops_def)

lemma strtoul_num [simp]:
  assumes "n < 2 ^ 64"
  shows "strtoul 10 (nat_text n) = Some n" "strtoul 8 (num_text 8 n) = Some n"
    "strtoul 16 (CHR ''0'' # CHR ''x'' # num_text 16 n) = Some n"
    "strtoul 10 (CHR ''-'' # nat_text n) = Some (u64_of_int (- int n))"
    "strtoul 16 (CHR ''-'' # CHR ''0'' # CHR ''x'' # num_text 16 n) = Some (u64_of_int (- int n))"
proof -
  have "strip_sign (CHR ''0'' # CHR ''x'' # num_text 16 n) = (False, CHR ''0'' # CHR ''x'' # num_text 16 n)"
    by (simp add: strip_sign_def)
  with assms show "strtoul 10 (nat_text n) = Some n" "strtoul 8 (num_text 8 n) = Some n"
    "strtoul 16 (CHR ''0'' # CHR ''x'' # num_text 16 n) = Some n"
    "strtoul 10 (CHR ''-'' # nat_text n) = Some (u64_of_int (- int n))"
    "strtoul 16 (CHR ''-'' # CHR ''0'' # CHR ''x'' # num_text 16 n) = Some (u64_of_int (- int n))"
    by (simp_all add: strtoul_def digits_value_num_text nat_text_def)
qed

lemma binary_digit [simp]: "digit_char 0 = CHR ''0''" "digit_char (Suc 0) = CHR ''1''"
  by code_simp+

lemma binary_text:
  "list_all (\<lambda>c. c = CHR ''0'' \<or> c = CHR ''1'') (num_text 2 n)" "0 < n \<Longrightarrow> hd (num_text 2 n) = CHR ''1''"
  "n < 2 ^ k \<Longrightarrow> 0 < k \<Longrightarrow> length (num_text 2 n) \<le> k"
proof (induction n arbitrary: k rule: less_induct)
  case (less n)
  have digit: "digit_char (m mod 2) = CHR ''0'' \<or> digit_char (m mod 2) = CHR ''1''" for m
    using mod2_eq_if [of m] by (auto split: if_splits)
  { case 1 show ?case
    using less.IH(1) [of "n div 2"] digit [of n] by (cases "n < 2") (auto simp: num_text.simps [of 2 n]) }
  { case 2 then show ?case
    using less.IH(2) [of "n div 2"] by (cases "n < 2") (auto simp: num_text.simps [of 2 n] num_text.simps [of 2 "Suc 0"] less_2_cases_iff hd_append div_greater_zero_iff) }
  { case 3 show ?case
    proof (cases "n < 2")
      case True
      then show ?thesis using 3 by (simp add: num_text.simps [of 2 n])
    next
      case False
      then obtain j where "k = Suc j" "0 < j" using 3 by (cases k; cases "k - 1") auto
      moreover have "n div 2 < 2 ^ j" using 3 \<open>k = Suc j\<close> by (simp add: less_mult_imp_div_less)
      ultimately show ?thesis using less.IH(3) [of "n div 2" j] False by (simp add: num_text.simps [of 2 n])
    qed }
qed

lemma binary_fold:
  "list_all (\<lambda>c. c = CHR ''0'' \<or> c = CHR ''1'') s \<Longrightarrow>
   foldl (\<lambda>v c. push_bit 1 v + of_int (int (code c) - 48)) (0 :: 64 word) s = of_nat (digits_value 2 s)"
proof (induction s rule: rev_induct)
  case (snoc c s)
  then have "of_int (int (code c) - 48) = (of_nat (digit_value c) :: 64 word)"
    by (auto simp: digit_value_def char_classes)
  with snoc show ?case by (simp add: push_bit_eq_mult mult.commute)
qed simp

lemma parse_binary_text:
  assumes "n < 2 ^ 64"
  shows "parse_binary_number (num_text 2 n) = Inr (of_nat n)"
proof (cases "n = 0")
  case True
  then show ?thesis by (simp add: parse_binary_number_def num_text.simps [of 2 0])
next
  case False
  then have "hd (num_text 2 n) = CHR ''1''" by (simp add: binary_text(2))
  then have "dropWhile (\<lambda>c. c \<noteq> CHR ''1'') (num_text 2 n) = num_text 2 n"
    using num_text_not_empty [of 2 n] by (cases "num_text 2 n") auto
  then show ?thesis
    using binary_text(3) [OF assms] binary_fold [OF binary_text(1)]
    by (simp add: parse_binary_number_def digits_value_num_text)
qed

lemma decimal_format:
  "integer_format (nat_text n) U64 = Scan Scan_lu (nat_text n) False"
  "integer_format (CHR ''-'' # nat_text n) I64 = Scan Scan_lu (CHR ''-'' # nat_text n) False"
proof -
  have *: "take 2 (nat_text n) \<noteq> CHR ''0'' # c # []" if "\<not> is_digit c" for c
    using nat_text_digits [of n] that
    by (cases "nat_text n"; cases "tl (nat_text n)") auto
  have "\<not> is_digit CHR ''x''" "\<not> is_digit CHR ''o''" "\<not> is_digit CHR ''b''" by (simp_all add: char_classes)
  note * [OF this(1)] * [OF this(2)] * [OF this(3)]
  then show "integer_format (nat_text n) U64 = Scan Scan_lu (nat_text n) False"
    "integer_format (CHR ''-'' # nat_text n) I64 = Scan Scan_lu (CHR ''-'' # nat_text n) False"
    by (simp_all add: integer_format_def numeral_3_eq_3 numeral_2_eq_2)
qed

lemma prefixed_format:
  "integer_format (radix_text Hex n) U64 = Scan Scan_p (radix_text Hex n) False"
  "integer_format (radix_text Oct n) U64 = Scan Scan_o (num_text 8 n) False"
  "integer_format (radix_text Bin n) U64 = Binary (num_text 2 n) False"
  "integer_format (CHR ''-'' # radix_text Hex n) I64 = Scan Scan_p (CHR ''-'' # radix_text Hex n) False"
  "integer_format (CHR ''-'' # radix_text Oct n) I64 = Scan Scan_o (num_text 8 n) True"
  "integer_format (CHR ''-'' # radix_text Bin n) I64 = Binary (num_text 2 n) True"
  by (simp_all add: integer_format_def numeral_3_eq_3 numeral_2_eq_2)

text \<open>The octal conversion is right for a value of 32 bits over a clear high half.\<close>

definition octal_fits :: "radix \<Rightarrow> nat \<Rightarrow> 64 word \<Rightarrow> bool" where
  "octal_fits r n old \<longleftrightarrow> (r = Oct \<longrightarrow> n < 2 ^ 32 \<and> old AND NOT (mask 32) = 0)"

lemma scan_radix:
  assumes "n < 2 ^ 64" "octal_fits r n old"
  shows "(case integer_format (radix_text r n) U64 of
      Scan fmt t neg \<Rightarrow> Inr (sscanf_i64 t fmt old, neg)
    | Binary t neg \<Rightarrow> bind_result (parse_binary_number t) (\<lambda>v. Inr (v, neg))) = Inr (of_nat n, False)"
proof (cases r)
  case Oct
  then have "take_bit 32 (of_nat n :: 64 word) = of_nat n"
    using assms by (simp add: octal_fits_def take_bit_of_nat take_bit_nat_eq_self)
  with Oct assms show ?thesis
    by (simp add: prefixed_format(2) [simplified] sscanf_i64_def octal_fits_def)
qed (use assms in \<open>simp_all add: decimal_format prefixed_format [simplified] sscanf_i64_def parse_binary_text bind_result_def\<close>)

lemma unat_of_nat_64: "n < 2 ^ 64 \<Longrightarrow> unat (of_nat n :: 64 word) = n"
  by (simp add: unsigned_of_nat take_bit_nat_eq_self)

lemma integer_literal_value:
  assumes "n < 2 ^ 64" "octal_fits r n old"
  shows "literal_parse_integer (radix_text r n) U64 typetok old
    = bind_result (check_u64_value_scope n typetok) (\<lambda>bad. Inr (bad, of_nat n))"
  unfolding literal_parse_integer_def scan_radix [OF assms] using unat_of_nat_64 [OF assms(1)]
  by (simp add: bind_result_def)



lemma u64_negated: "(of_nat (u64_of_int (- int n)) :: 64 word) = - of_nat n"
proof -
  have "(of_nat (u64_of_int (- int n)) :: 64 word) = word_of_int (- int n mod 2 ^ 64)"
    by (simp add: u64_of_int_def)
  also have "\<dots> = word_of_int (- int n)"
    by (simp only: word_of_int_eq_iff take_bit_eq_mod) simp
  finally show ?thesis by simp
qed

lemma sint_negated:
  assumes "n \<le> 2 ^ 63"
  shows "sint (- of_nat n :: 64 word) = - int n"
proof -
  have "(- of_nat n :: 64 word) = word_of_int (- int n)" by simp
  then have "sint (- of_nat n :: 64 word) = signed_take_bit 63 (- int n)"
    by (simp only: signed_of_int) simp
  then show ?thesis using assms by (simp add: signed_take_bit_int_eq_self)
qed

text \<open>Integer literals with a minus sign are read as the negated value, as long as it is a
  64 bit integer, and accepted for a type exactly when the scope check accepts that value. (For
  the least 64 bit integer in binary the negation itself overflows.)\<close>

lemma negative_literal_read:
  assumes "n \<le> 2 ^ 63" "octal_fits r n old" "r = Bin \<longrightarrow> n < 2 ^ 63"
  shows "literal_parse_integer (CHR ''-'' # radix_text r n) I64 typetok old
    = bind_result (check_i64_value_scope (- int n) typetok) (\<lambda>bad. Inr (bad, - of_nat n))"
proof -
  have n: "n < 2 ^ 64" using assms(1) by simp
  note neg = sint_negated [OF assms(1)]
  show ?thesis
  proof (cases r)
    case Oct
    then have "n < 2 ^ 32" "take_bit 32 (of_nat n :: 64 word) = of_nat n"
      using assms(2) n by (simp_all add: octal_fits_def take_bit_of_nat take_bit_nat_eq_self)
    moreover from this have "sint (of_nat n :: 64 word) = int n"
      by (simp add: signed_of_nat signed_take_bit_int_eq_self)
    ultimately show ?thesis using Oct assms n neg
      by (simp add: literal_parse_integer_def prefixed_format [simplified] sscanf_i64_def octal_fits_def bind_result_def)
  next
    case Bin
    then have "sint (of_nat n :: 64 word) = int n"
      using assms(3) by (simp add: signed_of_nat signed_take_bit_int_eq_self)
    with Bin assms n neg show ?thesis
      by (simp add: literal_parse_integer_def prefixed_format [simplified] parse_binary_text bind_result_def)
  qed (use n neg u64_negated [of n] in
      \<open>simp_all add: literal_parse_integer_def decimal_format prefixed_format [simplified] sscanf_i64_def bind_result_def\<close>)
qed

text \<open>A literal below the least 64 bit integer is not refused. Its text is negated modulo two
  to the 64, the result is positive, and the scope check of a negative literal only looks at the
  lower bound: the wrong value is accepted for every signed type.\<close>

lemma too_small_literal_accepted:
  assumes "2 ^ 63 < n" "n < 2 ^ 64" "typetok \<in> {I16, I32, I64}"
  shows "literal_parse_integer (CHR ''-'' # nat_text n) I64 typetok old = Inr (0, of_nat (2 ^ 64 - n))"
proof -
  have eq: "(- of_nat n :: 64 word) = of_nat (2 ^ 64 - n)"
    using assms(2) by (simp add: of_nat_diff)
  have "2 ^ 64 - n < 2 ^ 63" using assms(1,2) by simp
  then have "sint (of_nat (2 ^ 64 - n) :: 64 word) = int (2 ^ 64 - n)"
    by (simp add: signed_of_nat signed_take_bit_int_eq_self)
  moreover have "0 \<le> int (2 ^ 64 - n)" by simp
  ultimately show ?thesis
    using assms u64_negated [of n] eq
    by (auto simp: literal_parse_integer_def decimal_format sscanf_i64_def bind_result_def)
qed

lemma too_small_literal_accepted_witness:
  "literal_parse_integer ''-18446744073709551615'' I64 I16 0 = Inr (0, 1)"
proof -
  have "nat_text 18446744073709551615 = ''18446744073709551615''"
    by (simp add: nat_text_def num_text.simps digit_char_def) code_simp
  then show ?thesis using too_small_literal_accepted [of 18446744073709551615 I16 0] by simp
qed

lemma negative_literal_read_witness:
  "literal_parse_integer ''-129'' I64 I16 7 = Inr (0, - 129) \<and> literal_parse_integer ''-0b101'' I64 I64 7 = Inr (0, - 5)"
proof -
  have "CHR ''-'' # radix_text Dec 129 = ''-129''" "CHR ''-'' # radix_text Bin 5 = ''-0b101''" by code_simp+
  then show ?thesis using negative_literal_read [of 129 Dec 7 I16] negative_literal_read [of 5 Bin 7 I64]
    by (simp add: octal_fits_def bind_result_def)
qed

subsection \<open>From the text to the constant\<close>

lemma sint_of_nat_mod:
  assumes "b \<le> 64"
  shows "sint (of_nat n :: 64 word) mod 2 ^ b = int n mod 2 ^ b"
proof -
  have "sint (of_nat n :: 64 word) = signed_take_bit 63 (int n)" by (simp add: signed_of_nat)
  then have "take_bit b (sint (of_nat n :: 64 word)) = take_bit b (int n)"
    using assms by (simp add: take_bit_signed_take_bit)
  then show ?thesis by (simp add: take_bit_eq_mod)
qed

lemma integer_token_id:
  assumes "names_ok w" "catype_is_integer t"
  shows "\<exists>dt w'. sym_form_type_id_from_token t w = Inr (dt, w') \<and> names_ok w' \<and> (\<forall>i s. interned w i s \<longrightarrow> interned w' i s)"
proof -
  obtain s where s: "get_type_string_for_signature t = Inr s" "length s < 14" "nul_free s"
    using assms(2) by (cases t) (auto simp: get_type_string_for_signature_def NUL_def
        get_inner_type_string_by_str_def s_token_primitive_inner_map_def)
  obtain dt w' where i: "intern (''t:'' @ s) w = Inr (dt, w')" by (metis intern_def surj_pair)
  have "nul_free (''t:'' @ s)" using s(3) by (simp add: NUL_def)
  from intern_run [OF assms(1) this i] show ?thesis using s i
    by (auto simp: sym_form_type_id_from_token_def)
qed


text \<open>A world with one text, at 0, and one type object, for \<open>u8\<close>.\<close>

definition lit_world :: "string \<Rightarrow> types" where
  "lit_world s = snd (symname_check_insert s (types_start
     \<lparr>dt_heap := [0 \<mapsto> \<lparr>dt_type = U8, formalname = 0, dt_size = 1, signature = 0, status = CADT_Orig, layout = Layout_None\<rparr>],
      dt_next := 1\<rparr>))"

lemma lit_world_ok:
  "names_ok (lit_world s)" "nul_free s \<Longrightarrow> interned (lit_world s) 0 s" "\<exists>c. dt_heap (lit_world s) 0 = Some c \<and> dt_type c = U8"
proof -
  let ?w = "types_start
     \<lparr>dt_heap := [0 \<mapsto> \<lparr>dt_type = U8, formalname = 0, dt_size = 1, signature = 0, status = CADT_Orig, layout = Layout_None\<rparr>],
      dt_next := 1\<rparr>"
  have "names_ok ?w" by (simp add: types_start_def names_ok_def)
  then show "names_ok (lit_world s)" unfolding lit_world_def by (rule names_ok_check_insert)
  show "nul_free s \<Longrightarrow> interned (lit_world s) 0 s"
    using interned_new [of s ?w] by (simp add: lit_world_def symname_check_insert_def symname_insert_def types_start_def)
  show "\<exists>c. dt_heap (lit_world s) 0 = Some c \<and> dt_type c = U8"
    by (simp add: lit_world_def symname_check_insert_def symname_insert_def types_start_def Let_def)
qed


text \<open>Reading an octal literal of more than 32 bits drops the bits above, and an escaped character the
  lexer accepts but \<open>parse_lexical_char\<close> does not know is NUL, also the backslash and the quote.\<close>

lemma octal_literal_truncated: "literal_parse_integer ''0o40000000001'' U64 U64 0 = Inr (0, 1)"
proof -
  have "strtoul 8 ''40000000001'' = Some 4294967297"
    by (simp add: strtoul_def strip_sign_def is_base_digit_def digit_value_def digits_value_def char_classes)
  then show ?thesis
    by (simp add: literal_parse_integer_def integer_format_def sscanf_i64_def bind_result_def)
qed

lemma escaped_backslash_is_zero: "parse_lexical_char [CHR 0x5C, CHR 0x5C, CHR 0x27] = 0"
  by code_simp

text \<open>A character escape above 127 is intended to be an \<open>i8\<close>, but checked as an \<open>u8\<close>.\<close>

lemma char_escape_not_checked: "literal_value [CHR 0x5C, CHR ''2'', CHR ''0'', CHR ''0'', CHR 0x27] U8 U8 (Lit_I64 0) = Inr (0, Lit_I64 200)"
  by code_simp

end
