(* ===== verification/Ast.thy ===== *)
theory Ast
  imports Typelookup Literals
begin

section \<open>Expression trees (\<open>ca_parser.h\<close>)\<close>

text \<open>
  The syntax tree as far as it has types. A node has one parent, so it is a value here, and a
  function that writes into a node returns the new one. Source locations are left out. A node
  whose kind has no type is a \<open>TTE_Other\<close>; reading a member of the union that is not the one of the
  kind is undefined.
\<close>

datatype IdType =
    TTEId_Empty | TTEId_VarDef | TTEId_VarAssign | TTEId_VarUse | TTEId_FnName | TTEId_Type | TTEId_Label
  | TTEId_LabelGoto

datatype DomainFn = DFT_Domain DomainNames | DFT_DomainAs DomainAs

text \<open>The tokens that are operators of a \<open>TTE_Expr\<close>, with names for the characters.\<close>

datatype operator =
    OP_ARRAY | OP_ARRAYITEM | OP_STRUCT | OP_STRUCTITEM | OP_TUPLE | OP_RANGE | OP_FN_CALL | OP_STMT_EXPR
  | OP_SIZEOF | OP_DEREF | OP_ADDRESS | OP_AS | OP_UMINUS | OP_IF_EXPR | OP_BOX
  | OP_PLUS | OP_MINUS | OP_TIMES | OP_DIVIDE | OP_MOD
  | OP_LESS | OP_GREATER | OP_GE | OP_LE | OP_NE | OP_EQ | OP_LAND | OP_LOR
  | OP_BAND | OP_BOR | OP_BXOR | OP_BNOT | OP_SHIFTL | OP_SHIFTR

datatype assign_op =
    ASSIGN_ADD | ASSIGN_SUB | ASSIGN_MUL | ASSIGN_DIV | ASSIGN_MOD | ASSIGN_SHIFTL | ASSIGN_SHIFTR
  | ASSIGN_BAND | ASSIGN_BOR | ASSIGN_BXOR

text \<open>A node is its scope, its entry (of a variable) and the member of the union. The arguments of
  \<open>TTE_Expr\<close> are the operator, \<open>expr_type\<close> and the operands.\<close>

datatype ASTNode = Node (node_symtable: addr) (node_entry: "entry_ptr option") (node_body: node_body)
  and node_body =
    TTE_Literal literal
  | TTE_Id IdType int
  | TTE_Expr operator int "ASTNode list"
  | TTE_As ASTNode int
  | TTE_If bool "ASTNode list" "ASTNode list" "ASTNode option"
  | TTE_LexicalBody ASTNode
  | TTE_Box ASTNode
  | TTE_ArrayDef "ASTNode list" nat
  | TTE_DerefLeft nat ASTNode
  | TTE_ArrayItemLeft ASTNode "ASTNode list"
  | TTE_ArrayItemRight ASTNode "ASTNode list"
  | TTE_StructFieldOpLeft ASTNode int bool
  | TTE_StructFieldOpRight ASTNode int bool
  | TTE_StructExpr int "ASTNode list"
  | TTE_ArgList "ASTNode list"
  | TTE_Range GeneralRangeType bool "ASTNode option" "ASTNode option"
  | TTE_Domain DomainFn
  | TTE_Other

definition other_member :: "('s, 'a) action" where
  "other_member = fail (Undefined ''other member of the union'')"

definition entry_of :: "entry_ptr \<Rightarrow> ('z types_scheme, StructImplInfo STEntry) action" where
  "entry_of p = (\<lambda>w. lift_result (get_entry p w) w)"

definition lookup_sym :: "addr \<Rightarrow> int \<Rightarrow> bool \<Rightarrow> ('z types_scheme, entry_ptr option) action" where
  "lookup_sym st i par = (\<lambda>w. lift_result (sym_getsym st i par w) w)"

text \<open>The current variable of an entry, whose type the parser may not know yet.\<close>

definition variable_type :: "entry_ptr \<Rightarrow> ('z types_scheme, int) action" where
  "variable_type p = act (entry_of p) (\<lambda>e. act (lift_result (variable_of e)) (\<lambda>v. ret (v_datatype v)))"

definition set_variable_type :: "entry_ptr \<Rightarrow> int \<Rightarrow> ('z types_scheme, unit) action" where
  "set_variable_type p t =
     act (entry_of p) (\<lambda>e.
     act (lift_result (variable_of e)) (\<lambda>v.
     (case u e of
        U_Var sh \<Rightarrow> set_entry p (e\<lparr>u := U_Var (sh\<lparr>vs_current := Some (v\<lparr>v_datatype := t\<rparr>)\<rparr>)\<rparr>)
      | _ \<Rightarrow> fail (Undefined ''no variable entry''))))"

definition is_logic_op :: "operator \<Rightarrow> bool" where
  "is_logic_op op \<longleftrightarrow> op \<in> {OP_LESS, OP_GREATER, OP_GE, OP_LE, OP_NE, OP_EQ}"

definition pointer_target :: "addr \<Rightarrow> ('z types_scheme, addr) action" where
  "pointer_target p =
     act (dt_of p) (\<lambda>d.
     (case layout d of
        Layout_Pointer t nd ap \<Rightarrow> ret t
      | _ \<Rightarrow> fail (Undefined ''no pointer layout'')))"

definition single_target :: "addr \<Rightarrow> ('z types_scheme, addr) action" where
  "single_target p =
     act (dt_of p) (\<lambda>d.
     (case layout d of
        Layout_Pointer t nd ap \<Rightarrow> if nd = 1 then ret t else fail (Exit ''assertion failed'')
      | _ \<Rightarrow> fail (Undefined ''no pointer layout'')))"

definition array_element :: "addr \<Rightarrow> ('z types_scheme, addr) action" where
  "array_element p =
     act (dt_of p) (\<lambda>d.
     (case layout d of
        Layout_Array t nd dims \<Rightarrow> ret t
      | _ \<Rightarrow> fail (Undefined ''no array layout'')))"

text \<open>A slice is a struct whose first field is the pointer to its items.\<close>

definition slice_element :: "addr \<Rightarrow> ('z types_scheme, addr) action" where
  "slice_element p =
     act (struct_layout_of p) (\<lambda>c.
     act (\<lambda>w. lift_result (field_at c 0 w) w) (\<lambda>f.
     pointer_target (f_type f)))"

definition signature_of :: "addr \<Rightarrow> ('z types_scheme, int) action" where
  "signature_of p = act (dt_of p) (\<lambda>d. ret (signature d))"

end
