(* ===== verification/Inference.thy ===== *)
theory Inference
  imports Ast
begin

section \<open>The types of expressions (\<open>ca_parser.c\<close>, \<open>symtable_cpp.cpp\<close>)\<close>

text \<open>
  \<open>inference_expr_type\<close> finds the type of an expression from its parts and writes it into the nodes
  and literals on the way; \<open>get_expr_type_from_tree\<close> reads what is written already, but infers
  operands of members and items again. Both call each other, so they are one recursion
  (\<open>node_type\<close>) with a query, whose steps get it as \<open>rec\<close>. A result is a type id with the node after
  it. \<open>lk\<close> is \<open>catype_get_by_name\<close>. Each level of the tree takes one unit of fuel.
\<close>

datatype query = Infer | From_Tree

text \<open>A literal with a postfix has its type; otherwise the literal decides.\<close>

definition infer_literal :: "literal \<Rightarrow> ('z types_scheme, int \<times> literal) action" where
  "infer_literal l =
     (if postfixtypetok l \<noteq> No_Token \<and> \<not> fixed_type l then
        act (act (catype_get_primitive_by_token (postfixtypetok l)) non_null) (\<lambda>p.
        act (determine_primitive_literal_type l p) (\<lambda>l.
        act (signature_of p) (\<lambda>t. ret (t, set_type True (lit_datatype l) (lit_catype l) l))))
      else
        act (inference_literal_type l) (\<lambda>l. ret (lit_datatype l, set_type True (lit_datatype l) (lit_catype l) l)))"

subsection \<open>Members of structs\<close>

fun field_named :: "addr \<Rightarrow> int \<Rightarrow> nat \<Rightarrow> nat \<Rightarrow> ('z types_scheme, addr option) action" where
  "field_named c name i 0 = ret None"
| "field_named c name i (Suc k) =
     act (\<lambda>w. lift_result (field_at c i w) w) (\<lambda>f.
     if f_name f = name then ret (Some (f_type f)) else field_named c name (Suc i) k)"

definition member_object :: "addr \<Rightarrow> int \<Rightarrow> ('z types_scheme, addr) action" where
  "member_object p fieldname =
     act (dt_of p) (\<lambda>d.
     if dt_type d \<noteq> STRUCT then
       act (catype_get_type_name (signature d)) (\<lambda>_. fail (Exit ''member reference `%s` is not a struct type''))
     else
       act (struct_layout_of p) (\<lambda>c.
       act (cs_of c) (\<lambda>s.
       act (if cs_type s \<noteq> Struct_NamedStruct then
              if fieldname < int (fieldnum s)
              then if fieldname < 0 then fail (Undefined ''struct field index'')
                   else act (\<lambda>w. lift_result (field_at c (nat fieldname) w) w) (\<lambda>f. ret (Some (f_type f)))
              else ret None
            else field_named c fieldname 0 (fieldnum s)) (\<lambda>found.
       (case found of
          Some t \<Rightarrow> ret t
        | None \<Rightarrow> act (name_of fieldname) (\<lambda>_. act (name_of (cs_name s)) (\<lambda>_.
                  fail (Exit ''cannot find field name `%s` in struct `%s`''))))))))"

definition get_structfield_expr_type_from_tree ::
  "(addr \<Rightarrow> int \<Rightarrow> ('z types_scheme, addr) action) \<Rightarrow> (query \<Rightarrow> ASTNode \<Rightarrow> ('z types_scheme, int \<times> ASTNode) action) \<Rightarrow>
   addr \<Rightarrow> ASTNode \<Rightarrow> int \<Rightarrow> bool \<Rightarrow> ('z types_scheme, int \<times> ASTNode) action" where
  "get_structfield_expr_type_from_tree lk rec st e fieldname direct =
     act (rec Infer e) (\<lambda>(_, e).
     act (rec From_Tree e) (\<lambda>(objtype, e).
     if objtype = typeid_novalue then ret (typeid_novalue, e)
     else
       act (lk st objtype) (\<lambda>p.
       act (if direct then ret p
            else
              act (dt_of p) (\<lambda>d.
              if dt_type d \<noteq> POINTER
              then act (catype_get_type_name (signature d)) (\<lambda>_.
                   fail (Exit ''member reference `%s` is not a pointer type; try '.'?''))
              else single_target p)) (\<lambda>p.
       act (member_object p fieldname) (\<lambda>t.
       act (signature_of t) (\<lambda>sig. ret (sig, e)))))))"

subsection \<open>Types that are in the tree already\<close>

fun deref_times :: "nat \<Rightarrow> addr \<Rightarrow> ('z types_scheme, addr) action" where
  "deref_times 0 p = ret p"
| "deref_times (Suc k) p =
     act (dt_of p) (\<lambda>d.
     if dt_type d \<noteq> POINTER
     then act (catype_get_type_name (signature d)) (\<lambda>_.
          fail (Exit ''non pointer type `%s` cannot do dereference, index: `%d`''))
     else act (single_target p) (deref_times k))"

fun index_times :: "nat \<Rightarrow> addr \<Rightarrow> ('z types_scheme, addr) action" where
  "index_times 0 p = ret p"
| "index_times (Suc k) p =
     act (dt_of p) (\<lambda>d.
     if dt_type d \<noteq> ARRAY then fail (Exit ''type `%d` not an array on index `%d`'')
     else act (array_element p) (index_times k))"

definition tree_step ::
  "(addr \<Rightarrow> int \<Rightarrow> ('z types_scheme, addr) action) \<Rightarrow> (query \<Rightarrow> ASTNode \<Rightarrow> ('z types_scheme, int \<times> ASTNode) action) \<Rightarrow>
   ASTNode \<Rightarrow> ('z types_scheme, int \<times> ASTNode) action" where
  "tree_step lk rec node =
     (let st = node_symtable node; en = node_entry node in
      (case node_body node of
         TTE_Literal l \<Rightarrow> ret (lit_datatype l, node)
       | TTE_Id ty i \<Rightarrow>
           act (case en of
                  None \<Rightarrow> ret False
                | Some p \<Rightarrow> act (entry_of p) (\<lambda>e. ret (sym_type e = Sym_Variable))) (\<lambda>var.
           if \<not> var then act (name_of i) (\<lambda>_. fail (Exit ''the name '%s' is not a variable''))
           else act (variable_type (the en)) (\<lambda>t. ret (t, node)))
       | TTE_DerefLeft k e \<Rightarrow>
           act (rec From_Tree e) (\<lambda>(t, e).
           let node' = Node st en (TTE_DerefLeft k e) in
           if t = typeid_novalue then ret (typeid_novalue, node')
           else act (lk (node_symtable e) t) (\<lambda>p. act (deref_times k p) (\<lambda>p. act (signature_of p) (\<lambda>t.
                ret (t, node')))))
       | TTE_ArrayItemLeft a is \<Rightarrow>
           act (rec Infer a) (\<lambda>(_, a).
           act (rec From_Tree a) (\<lambda>(t, a).
           act (lk st t) (\<lambda>p. act (index_times (length is) p) (\<lambda>p. act (signature_of p) (\<lambda>t.
           ret (t, Node st en (TTE_ArrayItemLeft a is)))))))
       | TTE_StructFieldOpLeft e f direct \<Rightarrow>
           act (get_structfield_expr_type_from_tree lk rec st e f direct) (\<lambda>(t, e).
           ret (t, Node st en (TTE_StructFieldOpLeft e f direct)))
       | TTE_As e t \<Rightarrow> ret (t, node)
       | TTE_Expr op t ops \<Rightarrow> ret (t, node)
       | _ \<Rightarrow> ret (typeid_novalue, node)))"

subsection \<open>Lists of expressions\<close>

fun infer_all ::
  "(query \<Rightarrow> ASTNode \<Rightarrow> ('z types_scheme, int \<times> ASTNode) action) \<Rightarrow> ASTNode list \<Rightarrow>
   ('z types_scheme, int list \<times> ASTNode list) action" where
  "infer_all rec [] = ret ([], [])"
| "infer_all rec (e # es) =
     act (rec Infer e) (\<lambda>(t, e). act (infer_all rec es) (\<lambda>(ts, es). ret (t # ts, e # es)))"

text \<open>The elements of an array: each has the type id of the one before.\<close>

fun infer_same ::
  "(query \<Rightarrow> ASTNode \<Rightarrow> ('z types_scheme, int \<times> ASTNode) action) \<Rightarrow> int option \<Rightarrow> ASTNode list \<Rightarrow>
   ('z types_scheme, int \<times> ASTNode list) action" where
  "infer_same rec prev [] = ret (case prev of None \<Rightarrow> typeid_novalue | Some t \<Rightarrow> t, [])"
| "infer_same rec prev (e # es) =
     act (rec Infer e) (\<lambda>(t, e).
     case prev of
       Some s \<Rightarrow>
         if s \<noteq> t
         then act (catype_get_type_name s) (\<lambda>_. act (catype_get_type_name t) (\<lambda>_.
              fail (Exit ''array element `%d` have different type `%s` != `%s`'')))
         else act (infer_same rec (Some t) es) (\<lambda>(t, es). ret (t, e # es))
     | None \<Rightarrow> act (infer_same rec (Some t) es) (\<lambda>(t, es). ret (t, e # es)))"

text \<open>Indices: each takes an item, or a slice when it is a range.\<close>

fun infer_indices ::
  "(addr \<Rightarrow> int \<Rightarrow> ('z types_scheme, addr) action) \<Rightarrow> (query \<Rightarrow> ASTNode \<Rightarrow> ('z types_scheme, int \<times> ASTNode) action) \<Rightarrow>
   addr \<Rightarrow> addr \<Rightarrow> ASTNode list \<Rightarrow> ('z types_scheme, addr \<times> ASTNode list) action" where
  "infer_indices lk rec st p [] = ret (p, [])"
| "infer_indices lk rec st p (i # is) =
     act (dt_of p) (\<lambda>d.
     if dt_type d \<noteq> ARRAY \<and> dt_type d \<noteq> SLICE then fail (Exit ''type `%d` not an array on index `%d`'')
     else
       act (rec Infer i) (\<lambda>(t, i).
       act (lk st t) (\<lambda>ip.
       act (dt_of ip) (\<lambda>id.
       act (if dt_type d = ARRAY then array_element p else slice_element p) (\<lambda>el.
       act (if dt_type id = RANGE then slice_create_catype el else ret el) (\<lambda>el.
       act (infer_indices lk rec st el is) (\<lambda>(p, is). ret (p, i # is))))))))"

text \<open>The operands of an operator have one type, but for shifts and for a pointer plus or minus an
  integer. \<open>pointer_op\<close> is kept from one operand to the next.\<close>

definition check_identical ::
  "(addr \<Rightarrow> int \<Rightarrow> ('z types_scheme, addr) action) \<Rightarrow> addr \<Rightarrow> int \<Rightarrow> int \<Rightarrow> ('z types_scheme, bool) action" where
  "check_identical lk st type1 type2 =
     (if type1 = type2 then ret True
      else
        act (lk st type1) (\<lambda>p. act (lk st type2) (\<lambda>q.
        act (dt_of p) (\<lambda>d. act (dt_of q) (\<lambda>e.
        ret (dt_type d = dt_type e \<and> signature d = signature e))))))"

definition operand_fits ::
  "(addr \<Rightarrow> int \<Rightarrow> ('z types_scheme, addr) action) \<Rightarrow> addr \<Rightarrow> operator \<Rightarrow> bool \<Rightarrow> int \<Rightarrow> int \<Rightarrow> ('z types_scheme, bool) action" where
  "operand_fits lk st op pointer_op type1 type =
     act (check_identical lk st type1 type) (\<lambda>same.
     if same then ret pointer_op
     else if op = OP_SHIFTL \<or> op = OP_SHIFTR then
       act (lk st type1) (\<lambda>p. act (lk st type) (\<lambda>q.
       act (dt_of p) (\<lambda>d. act (dt_of q) (\<lambda>e.
       if \<not> catype_is_integer (dt_type d) \<or> \<not> catype_is_integer (dt_type e)
       then act (name_of type1) (\<lambda>_. act (name_of type) (\<lambda>_.
            fail (Exit ''expected `integer`, but found `%s` `%s` for shift operation'')))
       else ret pointer_op))))
     else
       act (if op = OP_PLUS \<or> op = OP_MINUS
            then act (lk st type1) (\<lambda>p. act (lk st type) (\<lambda>q.
                 act (dt_of p) (\<lambda>d. act (dt_of q) (\<lambda>e.
                 ret (dt_type d = POINTER \<and> catype_is_integer (dt_type e))))))
            else ret pointer_op) (\<lambda>pointer_op.
       if pointer_op then ret True
       else act (name_of type1) (\<lambda>_. act (name_of type) (\<lambda>_. fail (Exit ''expected `%s`, found `%s`''))))) "

fun infer_operands ::
  "(addr \<Rightarrow> int \<Rightarrow> ('z types_scheme, addr) action) \<Rightarrow> (query \<Rightarrow> ASTNode \<Rightarrow> ('z types_scheme, int \<times> ASTNode) action) \<Rightarrow>
   addr \<Rightarrow> operator \<Rightarrow> bool \<Rightarrow> int \<Rightarrow> ASTNode list \<Rightarrow> ('z types_scheme, int \<times> ASTNode list) action" where
  "infer_operands lk rec st op pointer_op type1 [] = ret (type1, [])"
| "infer_operands lk rec st op pointer_op type1 (e # es) =
     act (rec Infer e) (\<lambda>(type, e).
     act (if type1 = typeid_novalue then ret (type, pointer_op)
          else act (operand_fits lk st op pointer_op type1 type) (\<lambda>ok. ret (type1, ok))) (\<lambda>(type1, pointer_op).
     act (infer_operands lk rec st op pointer_op type1 es) (\<lambda>(t, es). ret (t, e # es))))"

subsection \<open>Calls\<close>

definition return_type :: "entry_ptr \<Rightarrow> ('z types_scheme, int) action" where
  "return_type p =
     act (entry_of p) (\<lambda>e. (case u e of U_Fn args t ty gen \<Rightarrow> ret t | _ \<Rightarrow> other_member))"

definition get_fncall_form_datatype :: "addr \<Rightarrow> int \<Rightarrow> ('z types_scheme, int) action" where
  "get_fncall_form_datatype st i =
     act (lookup_sym st i True) (\<lambda>found.
     (case found of
        Some p \<Rightarrow> return_type p
      | None \<Rightarrow>
          act (catype_get_type_name i) (\<lambda>fnname.
          act (sym_form_type_id_by_str fnname) (\<lambda>tupleid.
          act (lookup_sym st tupleid True) (\<lambda>found.
          (case found of
             None \<Rightarrow> fail (Exit ''can find entry for function call or tuple call: `%s`'')
           | Some p \<Rightarrow>
               act (entry_of p) (\<lambda>e.
               if sym_type e \<noteq> Sym_DataType then fail (Exit ''the entry is not datatype entry: `%s`'')
               else
                 (case u e of
                    U_Data tuple i _ _ _ \<Rightarrow>
                      if tuple = Struct_NamedStruct then fail (Exit ''only support tuple call here: `%s`'')
                      else ret i
                  | _ \<Rightarrow> other_member))))))))"

text \<open>The method of \<open>e.name(...)\<close> or \<open>e->name(...)\<close> is looked up by the name of the struct.\<close>

definition sym_get_function_entry_for_method ::
  "(addr \<Rightarrow> int \<Rightarrow> ('z types_scheme, addr) action) \<Rightarrow> (query \<Rightarrow> ASTNode \<Rightarrow> ('z types_scheme, int \<times> ASTNode) action) \<Rightarrow>
   ASTNode \<Rightarrow> ('z types_scheme, entry_ptr option \<times> ASTNode) action" where
  "sym_get_function_entry_for_method lk rec name =
     (case node_body name of
        TTE_Expr OP_STRUCTITEM t [Node fst1 fen (TTE_StructFieldOpRight e fieldname direct)] \<Rightarrow>
          act (rec Infer e) (\<lambda>(type, e).
          act (lk (node_symtable e) type) (\<lambda>p.
          act (dt_of p) (\<lambda>d.
          let name' = Node (node_symtable name) (node_entry name)
                (TTE_Expr OP_STRUCTITEM t [Node fst1 fen (TTE_StructFieldOpRight e fieldname direct)]) in
          act (if direct then ret (if dt_type d = STRUCT then Some p else None)
               else if dt_type d \<noteq> POINTER then ret None
               else act (pointer_target p) (\<lambda>q. act (dt_of q) (\<lambda>e.
                    ret (if dt_type e = STRUCT then Some q else None)))) (\<lambda>q.
          (case q of
             None \<Rightarrow> fail (Exit ''incorrect struct `%s` when calling method `%s`'')
           | Some q \<Rightarrow>
               act (struct_layout_of q) (\<lambda>c. act (cs_of c) (\<lambda>s.
               act (get_method_impl_info (node_symtable name) (cs_name s) fieldname (- 1)) (\<lambda>(info, cls).
               ret (map_option nameentry info, name')))))))))
      | _ \<Rightarrow> fail (Exit ''assertion failed''))"

text \<open>The method of \<open>A::name(...)\<close>. When \<open>A\<close> is a trait, the struct is the one the first argument points to.\<close>

definition sym_get_function_entry_for_domain ::
  "(addr \<Rightarrow> int \<Rightarrow> ('z types_scheme, addr) action) \<Rightarrow> (query \<Rightarrow> ASTNode \<Rightarrow> ('z types_scheme, int \<times> ASTNode) action) \<Rightarrow>
   addr \<Rightarrow> DomainNames \<Rightarrow> ASTNode \<Rightarrow> ('z types_scheme, MethodImplInfo option \<times> entry_ptr option \<times> ASTNode) action" where
  "sym_get_function_entry_for_domain lk rec st d args =
     (if \<not> relative d then fail (Exit ''Not implemented yet for absolution path for domain'')
      else
        act (lift_result (part_at d (dn_count d - 2))) (\<lambda>struct_name.
        act (lift_result (part_at d (dn_count d - 1))) (\<lambda>method_name.
        act (get_method_impl_info st struct_name method_name (- 1)) (\<lambda>(info, cls).
        (case info of
           Some i \<Rightarrow> ret (Some i, cls, args)
         | None \<Rightarrow>
             (case node_body args of
                TTE_ArgList [] \<Rightarrow>
                  act (name_of method_name) (\<lambda>_. act (name_of struct_name) (\<lambda>_.
                  fail (Exit ''cannot find declared method: '%s' on struct `%s`'')))
              | TTE_ArgList (e # es) \<Rightarrow>
                  act (rec Infer e) (\<lambda>(type, e).
                  act (lk (node_symtable e) type) (\<lambda>p.
                  act (dt_of p) (\<lambda>d.
                  if dt_type d \<noteq> POINTER
                  then act (name_of (signature d)) (\<lambda>_. fail (Exit ''wrong parameter type: `%s`''))
                  else
                    act (pointer_target p) (\<lambda>q. act (dt_of q) (\<lambda>sd.
                    act (get_method_impl_info st (formalname sd) method_name struct_name) (\<lambda>(info, cls).
                    if info = None
                    then act (name_of method_name) (\<lambda>_. act (name_of (formalname sd)) (\<lambda>_.
                         fail (Exit ''cannot find declared method: '%s' on struct `%s`'')))
                    else ret (info, cls, Node (node_symtable args) (node_entry args) (TTE_ArgList (e # es)))))))))
              | _ \<Rightarrow> other_member))))))"

definition sym_get_function_entry_for_domainfn ::
  "(addr \<Rightarrow> int \<Rightarrow> ('z types_scheme, addr) action) \<Rightarrow> (query \<Rightarrow> ASTNode \<Rightarrow> ('z types_scheme, int \<times> ASTNode) action) \<Rightarrow>
   addr \<Rightarrow> DomainFn \<Rightarrow> ASTNode \<Rightarrow> ('z types_scheme, MethodImplInfo \<times> entry_ptr option \<times> ASTNode) action" where
  "sym_get_function_entry_for_domainfn lk rec st d args =
     act (case d of
            DFT_Domain names \<Rightarrow> sym_get_function_entry_for_domain lk rec st names args
          | DFT_DomainAs da \<Rightarrow>
              act (sym_get_function_entry_for_domainas st da) (\<lambda>(info, cls). ret (info, cls, args))) (\<lambda>(info, cls, args).
     (case info of
        None \<Rightarrow> fail (Undefined ''null method'')
      | Some i \<Rightarrow> ret (i, cls, args)))"

definition set_assoc :: "addr \<Rightarrow> SymTableAssoc option \<Rightarrow> ('z types_scheme, unit) action" where
  "set_assoc st a =
     act (\<lambda>w. lift_result (get_table st w) w) (\<lambda>t. modifies (put_table st (t\<lparr>assoc := a\<rparr>)))"

text \<open>The type of a call \<open>A::name(...)\<close>. \<open>IS_GENERIC_FUNCTION\<close> ors its argument with a bit, so it is
  always true: the return type is always looked up in the scope of the parameters, with the
  association of the method while it is.\<close>

definition domain_call_type ::
  "(addr \<Rightarrow> int \<Rightarrow> ('z types_scheme, addr) action) \<Rightarrow> entry_ptr \<Rightarrow> entry_ptr option \<Rightarrow> int \<Rightarrow> ('z types_scheme, int) action" where
  "domain_call_type lk fn cls method =
     act (entry_of fn) (\<lambda>e.
     (case u e of
        U_Fn args rettype ty gen \<Rightarrow>
          (case cls of
             None \<Rightarrow> fail (Undefined ''null entry'')
           | Some cls \<Rightarrow>
               act (entry_of cls) (\<lambda>c.
               act (lift_result (runable_find_entry_assoc c method (- 1))) (\<lambda>a.
               act (set_assoc (al_symtable args) a) (\<lambda>_.
               act (lk (al_symtable args) rettype) (\<lambda>p.
               act (set_assoc (al_symtable args) None) (\<lambda>_.
               signature_of p))))))
      | _ \<Rightarrow> other_member))"

definition infer_call ::
  "(addr \<Rightarrow> int \<Rightarrow> ('z types_scheme, addr) action) \<Rightarrow> (query \<Rightarrow> ASTNode \<Rightarrow> ('z types_scheme, int \<times> ASTNode) action) \<Rightarrow>
   addr \<Rightarrow> ASTNode list \<Rightarrow> ('z types_scheme, int \<times> ASTNode list) action" where
  "infer_call lk rec st ops =
     (case ops of
        idn # rest \<Rightarrow>
          (case node_body idn of
             TTE_Id ty i \<Rightarrow> act (get_fncall_form_datatype st i) (\<lambda>t. ret (t, ops))
           | TTE_Expr _ _ _ \<Rightarrow>
               if length ops \<noteq> 2 then fail (Exit ''assertion failed'')
               else
                 act (sym_get_function_entry_for_method lk rec idn) (\<lambda>(fn, idn).
                 (case fn of
                    None \<Rightarrow> fail (Undefined ''null entry'')
                  | Some p \<Rightarrow> act (return_type p) (\<lambda>t. ret (t, idn # rest))))
           | TTE_Domain d \<Rightarrow>
               (case rest of
                  args # rest \<Rightarrow>
                    act (sym_get_function_entry_for_domainfn lk rec (node_symtable idn) d args) (\<lambda>(i, cls, args).
                    act (domain_call_type lk (nameentry i) cls (fnname i)) (\<lambda>t. ret (t, idn # args # rest)))
                | [] \<Rightarrow> fail (Undefined ''operand index''))
           | _ \<Rightarrow> fail (Exit ''bad function call type: %d''))
      | [] \<Rightarrow> fail (Undefined ''operand index''))"

subsection \<open>Operators\<close>

definition infer_array ::
  "(addr \<Rightarrow> int \<Rightarrow> ('z types_scheme, addr) action) \<Rightarrow> (query \<Rightarrow> ASTNode \<Rightarrow> ('z types_scheme, int \<times> ASTNode) action) \<Rightarrow>
   addr \<Rightarrow> ASTNode list \<Rightarrow> nat \<Rightarrow> ('z types_scheme, int \<times> ASTNode list) action" where
  "infer_array lk rec st es count =
     act (infer_same rec None es) (\<lambda>(t, es).
     act (lk st t) (\<lambda>sub.
     act (catype_make_array_type sub (if count \<noteq> 0 then count else length es) False) (\<lambda>p.
     act (signature_of p) (\<lambda>t. ret (t, es)))))"

definition infer_range_end ::
  "(query \<Rightarrow> ASTNode \<Rightarrow> ('z types_scheme, int \<times> ASTNode) action) \<Rightarrow> ASTNode option \<Rightarrow>
   ('z types_scheme, int option \<times> ASTNode option) action" where
  "infer_range_end rec e =
     (case e of None \<Rightarrow> ret (None, None) | Some e \<Rightarrow> act (rec Infer e) (\<lambda>(t, e). ret (Some t, Some e)))"

definition lookup_end ::
  "(addr \<Rightarrow> int \<Rightarrow> ('z types_scheme, addr) action) \<Rightarrow> addr \<Rightarrow> int option \<Rightarrow> ('z types_scheme, addr option) action" where
  "lookup_end lk st t = (case t of None \<Rightarrow> ret None | Some t \<Rightarrow> act (lk st t) (\<lambda>p. ret (Some p)))"

definition infer_range ::
  "(addr \<Rightarrow> int \<Rightarrow> ('z types_scheme, addr) action) \<Rightarrow> (query \<Rightarrow> ASTNode \<Rightarrow> ('z types_scheme, int \<times> ASTNode) action) \<Rightarrow>
   addr \<Rightarrow> GeneralRangeType \<Rightarrow> bool \<Rightarrow> ASTNode option \<Rightarrow> ASTNode option \<Rightarrow>
   ('z types_scheme, int \<times> ASTNode option \<times> ASTNode option) action" where
  "infer_range lk rec st kind incl s e =
     act (infer_range_end rec s) (\<lambda>(startid, s).
     act (infer_range_end rec e) (\<lambda>(endid, e).
     act (lookup_end lk st startid) (\<lambda>p.
     act (lookup_end lk st endid) (\<lambda>q.
     act (catype_from_range st kind incl p q) (\<lambda>r.
     act (signature_of r) (\<lambda>t. ret (t, s, e)))))))"

text \<open>The first operand, with the rest kept.\<close>

definition on_operand ::
  "(ASTNode \<Rightarrow> ('z types_scheme, int \<times> ASTNode) action) \<Rightarrow> ASTNode list \<Rightarrow> ('z types_scheme, int \<times> ASTNode list) action" where
  "on_operand f ops =
     (case ops of
        e # rest \<Rightarrow> act (f e) (\<lambda>(t, e). ret (t, e # rest))
      | [] \<Rightarrow> fail (Undefined ''operand index''))"

text \<open>The operators whose operand is a node of a kind of its own.\<close>

definition infer_special ::
  "(addr \<Rightarrow> int \<Rightarrow> ('z types_scheme, addr) action) \<Rightarrow> (query \<Rightarrow> ASTNode \<Rightarrow> ('z types_scheme, int \<times> ASTNode) action) \<Rightarrow>
   addr \<Rightarrow> operator \<Rightarrow> ASTNode \<Rightarrow> ('z types_scheme, int \<times> ASTNode) action" where
  "infer_special lk rec st op a =
     (let put = Node (node_symtable a) (node_entry a); ast = node_symtable a in
      (case (op, node_body a) of
         (OP_ARRAY, TTE_ArrayDef es count) \<Rightarrow>
           act (infer_array lk rec st es count) (\<lambda>(t, es). ret (t, put (TTE_ArrayDef es count)))
       | (OP_ARRAYITEM, TTE_ArrayItemRight e is) \<Rightarrow>
           act (rec Infer e) (\<lambda>(_, e).
           act (rec From_Tree e) (\<lambda>(t, e).
           act (lk ast t) (\<lambda>p.
           act (infer_indices lk rec ast p is) (\<lambda>(p, is).
           act (signature_of p) (\<lambda>t. ret (t, put (TTE_ArrayItemRight e is)))))))
       | (OP_STRUCT, TTE_StructExpr name es) \<Rightarrow>
           act (lk ast name) (\<lambda>p. act (signature_of p) (\<lambda>t. ret (t, a)))
       | (OP_TUPLE, TTE_ArgList es) \<Rightarrow>
           act (infer_all rec es) (\<lambda>(ts, es).
           act (sym_form_tuple_id ts) (\<lambda>t.
           act (lk ast t) (\<lambda>p. act (signature_of p) (\<lambda>t. ret (t, put (TTE_ArgList es))))))
       | (OP_RANGE, TTE_Range kind incl s e) \<Rightarrow>
           act (infer_range lk rec ast kind incl s e) (\<lambda>(t, s, e). ret (t, put (TTE_Range kind incl s e)))
       | (OP_STRUCTITEM, TTE_StructFieldOpRight e f direct) \<Rightarrow>
           act (rec Infer e) (\<lambda>(_, e).
           act (get_structfield_expr_type_from_tree lk rec ast e f direct) (\<lambda>(t, e).
           ret (t, put (TTE_StructFieldOpRight e f direct))))
       | (OP_ARRAYITEM, _) \<Rightarrow> fail (Exit ''assertion failed'')
       | (OP_TUPLE, _) \<Rightarrow> fail (Exit ''assertion failed'')
       | (OP_STRUCTITEM, _) \<Rightarrow> fail (Exit ''assertion failed'')
       | _ \<Rightarrow> other_member))"

definition infer_operator ::
  "(addr \<Rightarrow> int \<Rightarrow> ('z types_scheme, addr) action) \<Rightarrow> (query \<Rightarrow> ASTNode \<Rightarrow> ('z types_scheme, int \<times> ASTNode) action) \<Rightarrow>
   addr \<Rightarrow> operator \<Rightarrow> ASTNode list \<Rightarrow> ('z types_scheme, int \<times> ASTNode list) action" where
  "infer_operator lk rec st op ops =
     (if op \<in> {OP_ARRAY, OP_ARRAYITEM, OP_STRUCT, OP_TUPLE, OP_RANGE, OP_STRUCTITEM} then
        if op \<in> {OP_ARRAYITEM, OP_STRUCTITEM} \<and> length ops \<noteq> 1 then fail (Exit ''assertion failed'')
        else on_operand (infer_special lk rec st op) ops
      else if op = OP_FN_CALL then infer_call lk rec st ops
      else if op = OP_STMT_EXPR then
        (case ops of
           s # e # rest \<Rightarrow> act (rec Infer e) (\<lambda>(t, e). ret (t, s # e # rest))
         | _ \<Rightarrow> fail (Undefined ''operand index''))
      else if op = OP_SIZEOF then act (sym_form_type_id_from_token U64) (\<lambda>t. ret (t, ops))
      else if op = OP_DEREF then
        on_operand (\<lambda>e.
          act (rec Infer e) (\<lambda>(t, e).
          act (lk st t) (\<lambda>p.
          act (dt_of p) (\<lambda>d.
          if dt_type d \<noteq> POINTER
          then act (catype_get_type_name (signature d)) (\<lambda>_.
               fail (Exit ''only an address (pointer) type can do dereference, `%s` type cannot''))
          else act (pointer_target p) (\<lambda>q. act (signature_of q) (\<lambda>t. ret (t, e))))))) ops
      else if op = OP_ADDRESS then
        on_operand (\<lambda>e.
          act (rec Infer e) (\<lambda>(t, e).
          act (lk st t) (\<lambda>p.
          act (catype_make_pointer_type p) (\<lambda>q. act (signature_of q) (\<lambda>t. ret (t, e)))))) ops
      else if (op = OP_PLUS \<or> op = OP_MINUS) \<and> length ops \<noteq> 2 then fail (Exit ''assertion failed'')
      else infer_operands lk rec st op False typeid_novalue ops)"

text \<open>An expression that has a type keeps it; comparisons have type \<open>bool\<close>.\<close>

definition inference_expr_expr_type ::
  "(addr \<Rightarrow> int \<Rightarrow> ('z types_scheme, addr) action) \<Rightarrow> (query \<Rightarrow> ASTNode \<Rightarrow> ('z types_scheme, int \<times> ASTNode) action) \<Rightarrow>
   addr \<Rightarrow> operator \<Rightarrow> int \<Rightarrow> ASTNode list \<Rightarrow> ('z types_scheme, int \<times> node_body) action" where
  "inference_expr_expr_type lk rec st op t ops =
     (if t \<noteq> typeid_novalue then ret (t, TTE_Expr op t ops)
      else
        act (infer_operator lk rec st op ops) (\<lambda>(t, ops).
        act (if is_logic_op op then sym_form_type_id_from_token BOOL else ret t) (\<lambda>t.
        ret (t, TTE_Expr op t ops))))"

subsection \<open>Inference\<close>

definition infer_step ::
  "(addr \<Rightarrow> int \<Rightarrow> ('z types_scheme, addr) action) \<Rightarrow> (query \<Rightarrow> ASTNode \<Rightarrow> ('z types_scheme, int \<times> ASTNode) action) \<Rightarrow>
   ASTNode \<Rightarrow> ('z types_scheme, int \<times> ASTNode) action" where
  "infer_step lk rec node =
     (let st = node_symtable node; en = node_entry node in
      (case node_body node of
         TTE_Literal l \<Rightarrow> act (infer_literal l) (\<lambda>(t, l). ret (t, Node st en (TTE_Literal l)))
       | TTE_Id ty i \<Rightarrow>
           if ty = TTEId_FnName then ret (typeid_novalue, node)
           else (case en of
                   None \<Rightarrow> fail (Undefined ''null entry'')
                 | Some p \<Rightarrow> act (variable_type p) (\<lambda>t. ret (t, node)))
       | TTE_As e ty \<Rightarrow>
           act (rec Infer e) (\<lambda>(t, e).
           act (lk st ty) (\<lambda>p. act (lk st t) (\<lambda>q.
           act (dt_of p) (\<lambda>to_dt. act (dt_of q) (\<lambda>from_dt.
           if \<not> as_type_convertable (dt_type from_dt) (dt_type to_dt)
           then act (lift_result (get_type_string (dt_type from_dt))) (\<lambda>_.
                act (lift_result (get_type_string (dt_type to_dt))) (\<lambda>_.
                fail (Exit ''type `%s` cannot convert (as) to type `%s`'')))
           else ret (signature to_dt, Node st en (TTE_As e ty)))))))
       | TTE_Expr op t ops \<Rightarrow>
           act (inference_expr_expr_type lk rec st op t ops) (\<lambda>(t, body). ret (t, Node st en body))
       | TTE_If isexpr conds bodies remain \<Rightarrow>
           if \<not> isexpr then fail (Exit ''if statement is not if expression'')
           else
             (case bodies of
                [] \<Rightarrow> fail (Exit ''std::out_of_range'')
              | b # bs \<Rightarrow>
                  act (rec Infer b) (\<lambda>(t, b).
                  (case remain of
                     None \<Rightarrow> ret (t, Node st en (TTE_If isexpr conds (b # bs) None))
                   | Some r \<Rightarrow>
                       act (rec Infer r) (\<lambda>(t2, r).
                       act (check_identical lk st t t2) (\<lambda>same.
                       if \<not> same then act (name_of t) (\<lambda>_. act (name_of t2) (\<lambda>_.
                         fail (Exit ''if expression type not same `%s` != `%s`'')))
                       else ret (t, Node st en (TTE_If isexpr conds (b # bs) (Some r))))))))
       | TTE_LexicalBody e \<Rightarrow> act (rec Infer e) (\<lambda>(t, e). ret (t, Node st en (TTE_LexicalBody e)))
       | TTE_Box e \<Rightarrow>
           act (rec Infer e) (\<lambda>(t, e).
           act (lk (node_symtable e) t) (\<lambda>p.
           act (catype_make_pointer_type p) (\<lambda>q.
           act (signature_of q) (\<lambda>t. ret (t, Node st en (TTE_Box e))))))
       | _ \<Rightarrow> fail (Exit ''the expression already typed, no need to do inference'')))"

fun node_type ::
  "(addr \<Rightarrow> int \<Rightarrow> ('z types_scheme, addr) action) \<Rightarrow> nat \<Rightarrow> query \<Rightarrow> ASTNode \<Rightarrow> ('z types_scheme, int \<times> ASTNode) action" where
  "node_type lk 0 q node = fail Out_of_fuel"
| "node_type lk (Suc n) Infer node = infer_step lk (node_type lk n) node"
| "node_type lk (Suc n) From_Tree node = tree_step lk (node_type lk n) node"

definition inference_expr_type ::
  "(nat \<Rightarrow> ('z types_scheme, int) action) \<Rightarrow> nat \<Rightarrow> nat \<Rightarrow> ASTNode \<Rightarrow> ('z types_scheme, int \<times> ASTNode) action" where
  "inference_expr_type infer fuel n = node_type (catype_get_by_name infer fuel) n Infer"

definition get_expr_type_from_tree ::
  "(nat \<Rightarrow> ('z types_scheme, int) action) \<Rightarrow> nat \<Rightarrow> nat \<Rightarrow> ASTNode \<Rightarrow> ('z types_scheme, int \<times> ASTNode) action" where
  "get_expr_type_from_tree infer fuel n = node_type (catype_get_by_name infer fuel) n From_Tree"

subsection \<open>Types from the context\<close>

text \<open>\<open>determine_expr_type\<close> gives an expression a type it is told, with \<open>rec\<close> itself. Every error ends the
  run, so its results \<open>0\<close> and \<open>-1\<close> carry nothing and only the node is returned.\<close>

fun determine_all ::
  "(ASTNode \<Rightarrow> int \<Rightarrow> ('z types_scheme, ASTNode) action) \<Rightarrow> int \<Rightarrow> ASTNode list \<Rightarrow> ('z types_scheme, ASTNode list) action" where
  "determine_all rec t [] = ret []"
| "determine_all rec t (e # es) = act (rec e t) (\<lambda>e. act (determine_all rec t es) (\<lambda>es. ret (e # es)))"

text \<open>Each element reads the element type again.\<close>

fun determine_elems ::
  "(ASTNode \<Rightarrow> int \<Rightarrow> ('z types_scheme, ASTNode) action) \<Rightarrow> addr \<Rightarrow> ASTNode list \<Rightarrow> ('z types_scheme, ASTNode list) action" where
  "determine_elems rec p [] = ret []"
| "determine_elems rec p (e # es) =
     act (array_element p) (\<lambda>el. act (signature_of el) (\<lambda>t.
     act (rec e t) (\<lambda>e. act (determine_elems rec p es) (\<lambda>es. ret (e # es)))))"

definition determine_array ::
  "(ASTNode \<Rightarrow> int \<Rightarrow> ('z types_scheme, ASTNode) action) \<Rightarrow> addr \<Rightarrow> ASTNode list \<Rightarrow> ('z types_scheme, ASTNode list) action" where
  "determine_array rec p es =
     act (dt_of p) (\<lambda>d.
     if dt_type d \<noteq> ARRAY then fail (Exit ''expression type is array type, cannot determined into `%s` type'')
     else
       (case layout d of
          Layout_Array el nd dims \<Rightarrow>
            if nd \<noteq> 1 then fail (Exit ''assertion failed'')
            else
              (case dims of
                 len # _ \<Rightarrow>
                   if len \<noteq> int (length es)
                   then fail (Exit ''determined array size `%d` not match the expression type `%d`'')
                   else determine_elems rec p es
               | [] \<Rightarrow> fail (Undefined ''dimension not set''))
        | _ \<Rightarrow> fail (Undefined ''no array layout'')))"

text \<open>The operands whose node has a kind of its own. \<open>ask\<close> is inference and the types in the tree.\<close>

definition determine_special ::
  "(addr \<Rightarrow> int \<Rightarrow> ('z types_scheme, addr) action) \<Rightarrow> (query \<Rightarrow> ASTNode \<Rightarrow> ('z types_scheme, int \<times> ASTNode) action) \<Rightarrow>
   (ASTNode \<Rightarrow> int \<Rightarrow> ('z types_scheme, ASTNode) action) \<Rightarrow> addr \<Rightarrow> operator \<Rightarrow> int \<Rightarrow> ASTNode \<Rightarrow> ('z types_scheme, ASTNode) action" where
  "determine_special lk ask rec st op type a =
     (let put = Node (node_symtable a) (node_entry a); ast = node_symtable a in
      (case (op, node_body a) of
         (OP_ARRAY, TTE_ArrayDef es count) \<Rightarrow>
           act (lk st type) (\<lambda>p. act (determine_array rec p es) (\<lambda>es. ret (put (TTE_ArrayDef es count))))
       | (OP_ARRAYITEM, TTE_ArrayItemRight e is) \<Rightarrow>
           act (ask Infer e) (\<lambda>(_, e).
           act (ask From_Tree e) (\<lambda>(t, e).
           act (lk ast t) (\<lambda>p.
           act (index_times (length is) p) (\<lambda>p.
           act (lk st type) (\<lambda>q.
           act (signature_of q) (\<lambda>t. act (signature_of p) (\<lambda>t'.
           if t \<noteq> t' then act (catype_get_type_name t) (\<lambda>_. act (catype_get_type_name t') (\<lambda>_.
             fail (Exit ''determined type on arrayitem operation not equal the array's nature type `%s` != `%s`'')))
           else ret (put (TTE_ArrayItemRight e is)))))))))
       | (OP_STRUCTITEM, TTE_StructFieldOpRight e f direct) \<Rightarrow>
           act (ask Infer e) (\<lambda>(_, e).
           act (get_structfield_expr_type_from_tree lk ask ast e f direct) (\<lambda>(t, e).
           if t \<noteq> type then act (catype_get_type_name type) (\<lambda>_. act (catype_get_type_name t) (\<lambda>_.
             fail (Exit ''determined type `%s` not compatible with original one `%s`'')))
           else ret (put (TTE_StructFieldOpRight e f direct))))
       | (OP_ARRAYITEM, _) \<Rightarrow> fail (Exit ''assertion failed'')
       | (OP_STRUCTITEM, _) \<Rightarrow> fail (Exit ''assertion failed'')
       | _ \<Rightarrow> other_member))"

text \<open>Only a variable has an address. Its type must be the one the determined pointer points to.\<close>

definition determine_address ::
  "(addr \<Rightarrow> int \<Rightarrow> ('z types_scheme, addr) action) \<Rightarrow> addr \<Rightarrow> int \<Rightarrow> ASTNode \<Rightarrow> ('z types_scheme, ASTNode) action" where
  "determine_address lk st type a =
     (case node_body a of
        TTE_Id _ _ \<Rightarrow>
          act (lk st type) (\<lambda>p.
          act (dt_of p) (\<lambda>d.
          if dt_type d \<noteq> POINTER
          then act (catype_get_type_name (signature d)) (\<lambda>_.
               fail (Exit ''a pointer type cannot determined into `%s` type''))
          else
            (case node_entry a of
               None \<Rightarrow> fail (Undefined ''null entry'')
             | Some en \<Rightarrow>
                 act (variable_type en) (\<lambda>t.
                 act (lk (node_symtable a) t) (\<lambda>q.
                 act (signature_of q) (\<lambda>t. act (pointer_target p) (\<lambda>r. act (signature_of r) (\<lambda>t'.
                 if t \<noteq> t' then act (catype_get_type_name t) (\<lambda>_. act (catype_get_type_name t') (\<lambda>_.
                   fail (Exit ''variable address type `%s` cannot be type of `%s`'')))
                 else ret a))))))))
      | _ \<Rightarrow> fail (Exit ''only a variable can have an address, but find type `%d`''))"

text \<open>The node is written as if it were a \<open>TTE_Expr\<close>. At that place a \<open>TTE_As\<close> has its type, a \<open>TTE_Id\<close> and
  a \<open>TTE_Box\<close> have nothing, and a literal has \<open>littypetok\<close>.\<close>

definition overwrite_expr_type :: "int \<Rightarrow> ASTNode \<Rightarrow> ('z types_scheme, ASTNode) action" where
  "overwrite_expr_type t e =
     (case node_body e of
        TTE_Expr op _ ops \<Rightarrow> ret (Node (node_symtable e) (node_entry e) (TTE_Expr op t ops))
      | TTE_As a _ \<Rightarrow> ret (Node (node_symtable e) (node_entry e) (TTE_As a t))
      | TTE_Id _ _ \<Rightarrow> ret e
      | TTE_Box _ \<Rightarrow> ret e
      | _ \<Rightarrow> other_member)"

text \<open>\<open>p + i\<close> and \<open>p - i\<close> for a pointer type.\<close>

definition determine_pointer_op ::
  "(addr \<Rightarrow> int \<Rightarrow> ('z types_scheme, addr) action) \<Rightarrow> (query \<Rightarrow> ASTNode \<Rightarrow> ('z types_scheme, int \<times> ASTNode) action) \<Rightarrow>
   (ASTNode \<Rightarrow> int \<Rightarrow> ('z types_scheme, ASTNode) action) \<Rightarrow> addr \<Rightarrow> int \<Rightarrow> addr \<Rightarrow> ASTNode \<Rightarrow> ASTNode \<Rightarrow>
   ('z types_scheme, ASTNode list) action" where
  "determine_pointer_op lk ask rec st type p a b =
     act (case node_body a of TTE_Expr _ _ _ \<Rightarrow> rec a type | _ \<Rightarrow> ret a) (\<lambda>a.
     act (ask From_Tree a) (\<lambda>(firstid, a).
     if firstid = typeid_novalue
     then fail (Exit ''when determining pointer type, right value should already determined, but here cannot find a determined type'')
     else
       act (lk st firstid) (\<lambda>q. act (dt_of q) (\<lambda>e. act (dt_of p) (\<lambda>d.
       if dt_type e \<noteq> POINTER
       then act (catype_get_type_name firstid) (\<lambda>_.
            fail (Exit ''should only can determined into pointer type, but find `%s` type''))
       else if signature d \<noteq> signature e
       then act (catype_get_type_name (signature d)) (\<lambda>_. act (catype_get_type_name (signature e)) (\<lambda>_.
            fail (Exit ''determined type `%s` not equal to determining type `%s`'')))
       else
         act (ask Infer b) (\<lambda>(secondid, b).
         act (lk st secondid) (\<lambda>r. act (dt_of r) (\<lambda>f.
         if \<not> catype_is_integer (dt_type f)
         then act (catype_get_type_name (signature f)) (\<lambda>_.
              fail (Exit ''the 2nd pointer operand not support non-integer type, but find `%s`''))
         else act (overwrite_expr_type (signature f) b) (\<lambda>b. ret [a, b])))))))))"

definition determine_operator ::
  "(addr \<Rightarrow> int \<Rightarrow> ('z types_scheme, addr) action) \<Rightarrow> (query \<Rightarrow> ASTNode \<Rightarrow> ('z types_scheme, int \<times> ASTNode) action) \<Rightarrow>
   (ASTNode \<Rightarrow> int \<Rightarrow> ('z types_scheme, ASTNode) action) \<Rightarrow> ASTNode \<Rightarrow> operator \<Rightarrow> int \<Rightarrow> ASTNode list \<Rightarrow>
   ('z types_scheme, ASTNode list) action" where
  "determine_operator lk ask rec node op type ops =
     (let st = node_symtable node;
          first = (\<lambda>f. case ops of e # rest \<Rightarrow> act (f e) (\<lambda>e. ret (e # rest)) | [] \<Rightarrow> fail (Undefined ''operand index''))
      in
      if op \<in> {OP_ARRAY, OP_ARRAYITEM, OP_STRUCTITEM} then
        if op \<noteq> OP_ARRAY \<and> length ops \<noteq> 1 then fail (Exit ''assertion failed'')
        else first (determine_special lk ask rec st op type)
      else if op = OP_FN_CALL then
        (case ops of
           idn # _ \<Rightarrow>
             (case node_body idn of
                TTE_Id _ i \<Rightarrow>
                  act (get_fncall_form_datatype st i) (\<lambda>t.
                  act (check_identical lk st type t) (\<lambda>same.
                  if same then ret ops
                  else act (name_of type) (\<lambda>_. act (name_of t) (\<lambda>_.
                       fail (Exit ''the type `%s` not identical type `%s`'')))))
              | _ \<Rightarrow> other_member)
         | [] \<Rightarrow> fail (Undefined ''operand index''))
      else if op = OP_STMT_EXPR then
        (case ops of
           s # e # rest \<Rightarrow> act (rec e type) (\<lambda>e. ret (s # e # rest))
         | _ \<Rightarrow> fail (Undefined ''operand index''))
      else if op = OP_SIZEOF then
        act (sym_form_type_id_from_token U64) (\<lambda>t.
        if type \<noteq> t
        then act (catype_get_type_name type) (\<lambda>_. fail (Exit ''conflict when determining type: `%s` != `u64`''))
        else ret ops)
      else if op = OP_DEREF then
        act (lk st type) (\<lambda>p. act (catype_make_pointer_type p) (\<lambda>q. act (signature_of q) (\<lambda>t.
        first (\<lambda>e. rec e t))))
      else if op = OP_ADDRESS then first (determine_address lk st type)
      else if is_logic_op op then
        act (lk st type) (\<lambda>p. act (dt_of p) (\<lambda>d.
        if dt_type d \<noteq> BOOL
        then act (catype_get_type_name (signature d)) (\<lambda>_.
             fail (Exit ''`bool` type is required for determining the logical operation, but `%s` type found''))
        else
          act (ask Infer node) (\<lambda>(_, node).
          (case node_body node of TTE_Expr _ _ ops \<Rightarrow> ret ops | _ \<Rightarrow> other_member))))
      else if op = OP_PLUS \<or> op = OP_MINUS then
        (case ops of
           [a, b] \<Rightarrow>
             act (lk st type) (\<lambda>p. act (dt_of p) (\<lambda>d.
             if dt_type d = POINTER then determine_pointer_op lk ask rec st type p a b
             else determine_all rec type ops))
         | _ \<Rightarrow> fail (Exit ''assertion failed''))
      else determine_all rec type ops)"

text \<open>The arms of \<open>ife\<close> are blocks, which \<open>determine_expr_type\<close> hands over as if they were a
  \<open>TTE_Expr\<close>: its type is then half of the null pointer \<open>fnbuddy\<close>, a type, and the block is left as it is.\<close>

definition determine_expr_expr_type ::
  "(addr \<Rightarrow> int \<Rightarrow> ('z types_scheme, addr) action) \<Rightarrow> (query \<Rightarrow> ASTNode \<Rightarrow> ('z types_scheme, int \<times> ASTNode) action) \<Rightarrow>
   (ASTNode \<Rightarrow> int \<Rightarrow> ('z types_scheme, ASTNode) action) \<Rightarrow> ASTNode \<Rightarrow> int \<Rightarrow> ('z types_scheme, ASTNode) action" where
  "determine_expr_expr_type lk ask rec node type =
     (case node_body node of
        TTE_Expr op t ops \<Rightarrow>
          if t \<noteq> typeid_novalue then ret node
          else
            act (determine_operator lk ask rec node op type ops) (\<lambda>ops.
            ret (Node (node_symtable node) (node_entry node) (TTE_Expr op type ops)))
      | TTE_LexicalBody _ \<Rightarrow> ret node
      | _ \<Rightarrow> other_member)"

definition determine_literal :: "literal \<Rightarrow> addr \<Rightarrow> ('z types_scheme, literal) action" where
  "determine_literal l p =
     act (if postfixtypetok l \<noteq> No_Token \<and> \<not> fixed_type l then
            act (act (catype_get_primitive_by_token (postfixtypetok l)) non_null) (\<lambda>q.
            act (determine_primitive_literal_type l q) (\<lambda>l.
            act (signature_of q) (\<lambda>t. act (signature_of p) (\<lambda>t'.
            if t \<noteq> t' then act (catype_get_type_name t') (\<lambda>_. act (catype_get_type_name t) (\<lambda>_.
              fail (Exit ''`%s` type required, but found `%s`'')))
            else ret (set_type True (lit_datatype l) (lit_catype l) l)))))
          else ret l) (\<lambda>l.
     if fixed_type l then ret l else determine_literal_type l (Some p))"

text \<open>A name without an entry must be something else than a variable. A variable without a type gets
  the determined one.\<close>

definition determine_id ::
  "(addr \<Rightarrow> int \<Rightarrow> ('z types_scheme, addr) action) \<Rightarrow> addr \<Rightarrow> entry_ptr option \<Rightarrow> int \<Rightarrow> int \<Rightarrow> addr \<Rightarrow> ('z types_scheme, unit) action" where
  "determine_id lk st en i type p =
     (case en of
        None \<Rightarrow>
          act (lookup_sym st i True) (\<lambda>found.
          (case found of
             None \<Rightarrow> fail (Exit ''cannot find symbol for id: `%d` in symbol table'')
           | Some q \<Rightarrow>
               act (entry_of q) (\<lambda>e.
               if sym_type e = Sym_Variable
               then act (name_of (sym_name e)) (\<lambda>_. fail (Exit ''variable not filled the entry yet: `%s`''))
               else ret ())))
      | Some q \<Rightarrow>
          act (variable_type q) (\<lambda>t.
          if t = typeid_novalue then act (signature_of p) (set_variable_type q)
          else
            act (check_identical lk st t type) (\<lambda>same.
            if same then ret ()
            else act (name_of type) (\<lambda>_. act (name_of t) (\<lambda>_.
                 fail (Exit ''determine different type `%s` != `%s`''))))))"

definition determine_step ::
  "(addr \<Rightarrow> int \<Rightarrow> ('z types_scheme, addr) action) \<Rightarrow> (query \<Rightarrow> ASTNode \<Rightarrow> ('z types_scheme, int \<times> ASTNode) action) \<Rightarrow>
   (ASTNode \<Rightarrow> int \<Rightarrow> ('z types_scheme, ASTNode) action) \<Rightarrow> ASTNode \<Rightarrow> int \<Rightarrow> ('z types_scheme, ASTNode) action" where
  "determine_step lk ask rec node type =
     (let st = node_symtable node; put = Node (node_symtable node) (node_entry node) in
      act (lk st type) (\<lambda>p.
      (case node_body node of
         TTE_Literal l \<Rightarrow> act (determine_literal l p) (\<lambda>l. ret (put (TTE_Literal l)))
       | TTE_Id ty i \<Rightarrow> act (determine_id lk st (node_entry node) i type p) (\<lambda>_. ret node)
       | TTE_DerefLeft k e \<Rightarrow>
           act (ask Infer e) (\<lambda>(exprid, e).
           act (ask From_Tree e) (\<lambda>(innerid, e).
           if exprid \<noteq> innerid then fail (Exit ''assertion failed'')
           else if innerid = typeid_novalue
           then act (catype_get_type_name type) (\<lambda>_.
                fail (Exit ''dereference left operation must be fixed type to: `%s`, but find non-fixed''))
           else
             act (lk (node_symtable e) innerid) (\<lambda>q.
             act (deref_times k q) (\<lambda>q. act (signature_of q) (\<lambda>t.
             if t \<noteq> type then act (catype_get_type_name type) (\<lambda>_. act (catype_get_type_name t) (\<lambda>_.
               fail (Exit ''determined type `%s` not compatible with `%s`'')))
             else ret (put (TTE_DerefLeft k e)))))))
       | TTE_As e ty \<Rightarrow>
           act (lk st ty) (\<lambda>q.
           act (catype_check_identical p q) (\<lambda>same.
           if \<not> same then fail (Exit ''type `%s` cannot determined into `%s`'')
           else act (ask Infer e) (\<lambda>(_, e). ret (put (TTE_As e ty)))))
       | TTE_Expr _ _ _ \<Rightarrow> determine_expr_expr_type lk ask rec node type
       | TTE_If isexpr conds bodies remain \<Rightarrow>
           if \<not> isexpr then fail (Exit ''if statement is not if expression'')
           else
             (case bodies of
                [] \<Rightarrow> fail (Exit ''std::out_of_range'')
              | b # bs \<Rightarrow>
                  act (determine_expr_expr_type lk ask rec b type) (\<lambda>b.
                  (case remain of
                     None \<Rightarrow> ret (put (TTE_If isexpr conds (b # bs) None))
                   | Some r \<Rightarrow>
                       act (determine_expr_expr_type lk ask rec r type) (\<lambda>r.
                       ret (put (TTE_If isexpr conds (b # bs) (Some r)))))))
       | TTE_StructExpr name es \<Rightarrow>
           act (lk st name) (\<lambda>q.
           act (signature_of q) (\<lambda>t. act (signature_of p) (\<lambda>t'.
           if t \<noteq> t' then act (catype_get_type_name t') (\<lambda>_. act (catype_get_type_name t) (\<lambda>_.
             fail (Exit ''type `%s` required, but find `%s`'')))
           else ret node)))
       | _ \<Rightarrow> ret node)))"

fun determine_node ::
  "(addr \<Rightarrow> int \<Rightarrow> ('z types_scheme, addr) action) \<Rightarrow> nat \<Rightarrow> ASTNode \<Rightarrow> int \<Rightarrow> ('z types_scheme, ASTNode) action" where
  "determine_node lk 0 node type = fail Out_of_fuel"
| "determine_node lk (Suc n) node type = determine_step lk (node_type lk n) (determine_node lk n) node type"

definition determine_expr_type ::
  "(nat \<Rightarrow> ('z types_scheme, int) action) \<Rightarrow> nat \<Rightarrow> nat \<Rightarrow> ASTNode \<Rightarrow> int \<Rightarrow> ('z types_scheme, ASTNode) action" where
  "determine_expr_type infer fuel n = determine_node (catype_get_by_name infer fuel) n"

subsection \<open>The type of a group of expressions\<close>

text \<open>The first type in the group; without an assignment operator all others must be the same.\<close>

fun group_type ::
  "(addr \<Rightarrow> int \<Rightarrow> ('z types_scheme, addr) action) \<Rightarrow> bool \<Rightarrow> int \<Rightarrow> (ASTNode \<times> int) list \<Rightarrow> ('z types_scheme, int) action" where
  "group_type lk assign type1 [] = ret type1"
| "group_type lk assign type1 ((e, t) # es) =
     (if t = typeid_novalue then group_type lk assign type1 es
      else if type1 = typeid_novalue then group_type lk assign t es
      else if assign then group_type lk assign type1 es
      else
        act (check_identical lk (node_symtable e) type1 t) (\<lambda>same.
        if same then group_type lk assign type1 es
        else fail (Exit ''type name conflicting: type `%s`(`%s`) with type `%s`(`%s`)'')))"

fun determine_rest ::
  "(ASTNode \<Rightarrow> int \<Rightarrow> ('z types_scheme, ASTNode) action) \<Rightarrow> int \<Rightarrow> (ASTNode \<times> int) list \<Rightarrow> ('z types_scheme, ASTNode list) action" where
  "determine_rest rec type1 [] = ret []"
| "determine_rest rec type1 ((e, t) # es) =
     act (if t = typeid_novalue then rec e type1 else ret e) (\<lambda>e.
     act (determine_rest rec type1 es) (\<lambda>es. ret (e # es)))"

text \<open>The right side of \<open>+=\<close> and \<open>-=\<close> on a pointer.\<close>

definition pointer_assignment ::
  "(addr \<Rightarrow> int \<Rightarrow> ('z types_scheme, addr) action) \<Rightarrow> (query \<Rightarrow> ASTNode \<Rightarrow> ('z types_scheme, int \<times> ASTNode) action) \<Rightarrow>
   assign_op \<Rightarrow> (ASTNode \<times> int) list \<Rightarrow> ('z types_scheme, ASTNode list) action" where
  "pointer_assignment lk ask op es =
     (if op \<noteq> ASSIGN_ADD \<and> op \<noteq> ASSIGN_SUB
      then fail (Exit ''pointer inplace assignment only support `+` `-`, but find `%d`'')
      else
        (case es of
           (a, _) # (b, t) # rest \<Rightarrow>
             act (if t = typeid_novalue then ask Infer b else ret (t, b)) (\<lambda>(t, b).
             act (lk (node_symtable b) t) (\<lambda>p.
             act (dt_of p) (\<lambda>d.
             if \<not> catype_is_integer (dt_type d)
             then act (catype_get_type_name (signature d)) (\<lambda>_.
                  fail (Exit ''pointer inplace assignment right side number only support integer, but find `%s`''))
             else ret (a # b # map fst rest))))
         | _ \<Rightarrow> fail (Undefined ''operand index'')))"

definition reduce_node_and_type_group ::
  "(nat \<Rightarrow> ('z types_scheme, int) action) \<Rightarrow> nat \<Rightarrow> nat \<Rightarrow> (ASTNode \<times> int) list \<Rightarrow> assign_op option \<Rightarrow>
   ('z types_scheme, int \<times> ASTNode list) action" where
  "reduce_node_and_type_group infer fuel n es assignop =
     (let lk = catype_get_by_name infer fuel in
      act (group_type lk (assignop \<noteq> None) typeid_novalue es) (\<lambda>type1.
      act (case (assignop, es) of
             (None, _) \<Rightarrow> ret None
           | (Some op, []) \<Rightarrow> fail (Undefined ''operand index'')
           | (Some op, (a, _) # _) \<Rightarrow>
               act (lk (node_symtable a) type1) (\<lambda>p.
               act (dt_of p) (\<lambda>d.
               if dt_type d = POINTER
               then act (pointer_assignment lk (node_type lk n) op es) (\<lambda>nodes. ret (Some (signature d, nodes)))
               else ret None))) (\<lambda>done.
      (case done of
         Some r \<Rightarrow> ret r
       | None \<Rightarrow> act (determine_rest (determine_node lk n) type1 es) (\<lambda>nodes. ret (type1, nodes))))))"

end
