(* ===== verification/Infer_Rules.thy ===== *)
theory Infer_Rules
  imports Inference Type_Cycles
begin

section \<open>Inference follows the typing rules of scalar expressions\<close>

text \<open>
  The typing rules of expressions over numbers and \<open>bool\<close>, stated with the types alone, and the
  theorem that inference accepts the expressions that have a type by the rules, gives them this
  type, and leaves a tree that is inferred to the same type again. The types have been looked up in
  the scope before, so a lookup changes nothing.
\<close>

subsection \<open>The rules\<close>

definition scalars :: "tokenid set" where
  "scalars = {I8, I16, I32, I64, U8, U16, U32, U64, F32, F64, BOOL}"

datatype expr =
    E_Lit literal
  | E_Var entry_ptr int
  | E_Un operator expr
  | E_Bin operator expr expr
  | E_As expr tokenid
  | E_If expr expr expr

text \<open>A literal without a postfix has the type its shape intends, if its value fits.\<close>

definition literal_scalar :: "'z types_scheme \<Rightarrow> literal \<Rightarrow> tokenid option" where
  "literal_scalar w l =
     (case symname_get (textid l) w of
        Inl _ \<Rightarrow> None
      | Inr s \<Rightarrow>
          (case (if postfixtypetok l = No_Token then intended_type (littypetok l)
                 else if littypetok l = U64 \<and> s = ''0'' \<or> literal_type_convertable (littypetok l) (postfixtypetok l) \<noteq> Inr 0
                 then Inr (postfixtypetok l, postfixtypetok l) else Inl (Exit ''not convertible'')) of
             Inl _ \<Rightarrow> None
           | Inr (t, scope) \<Rightarrow>
               (case literal_value s (littypetok l) scope (lit_u l) of
                  Inr (bad, _) \<Rightarrow> if bad = 0 then Some t else None
                | Inl _ \<Rightarrow> None)))"

text \<open>\<open>!\<close> and unary minus keep the type, the operands of a binary operator agree, but for shifts of
  integers, \<open>as\<close> converts what may be converted, and the arms of \<open>ife\<close> agree.\<close>

fun type_of :: "'z types_scheme \<Rightarrow> (entry_ptr \<Rightarrow> tokenid) \<Rightarrow> expr \<Rightarrow> tokenid option" where
  "type_of w \<Gamma> (E_Lit l) = literal_scalar w l"
| "type_of w \<Gamma> (E_Var p i) = Some (\<Gamma> p)"
| "type_of w \<Gamma> (E_Un op e) = type_of w \<Gamma> e"
| "type_of w \<Gamma> (E_Bin op a b) =
     (case (type_of w \<Gamma> a, type_of w \<Gamma> b) of
        (Some s, Some t) \<Rightarrow>
          if s = t \<or> (op = OP_SHIFTL \<or> op = OP_SHIFTR) \<and> catype_is_integer s \<and> catype_is_integer t
          then Some (if is_logic_op op then BOOL else s) else None
      | _ \<Rightarrow> None)"
| "type_of w \<Gamma> (E_As e t) =
     (case type_of w \<Gamma> e of Some s \<Rightarrow> if as_type_convertable s t then Some t else None | None \<Rightarrow> None)"
| "type_of w \<Gamma> (E_If c a b) =
     (case (type_of w \<Gamma> a, type_of w \<Gamma> b) of
        (Some s, Some t) \<Rightarrow> if s = t then Some s else None
      | _ \<Rightarrow> None)"

subsection \<open>The trees of the parser\<close>

text \<open>The arms of \<open>ife\<close> are blocks with the value as their last expression; the statements before it do not
  matter here.\<close>

fun node_of :: "addr \<Rightarrow> (tokenid \<Rightarrow> int) \<Rightarrow> expr \<Rightarrow> ASTNode" where
  "node_of st tid (E_Lit l) = Node st None (TTE_Literal l)"
| "node_of st tid (E_Var p i) = Node st (Some p) (TTE_Id TTEId_VarUse i)"
| "node_of st tid (E_Un op e) = Node st None (TTE_Expr op typeid_novalue [node_of st tid e])"
| "node_of st tid (E_Bin op a b) = Node st None (TTE_Expr op typeid_novalue [node_of st tid a, node_of st tid b])"
| "node_of st tid (E_As e t) =
     Node st None (TTE_Expr OP_AS typeid_novalue [Node st None (TTE_As (node_of st tid e) (tid t))])"
| "node_of st tid (E_If c a b) =
     (let arm = (\<lambda>e. Node st None (TTE_LexicalBody (Node st None
                   (TTE_Expr OP_STMT_EXPR typeid_novalue [Node st None TTE_Other, e]))))
      in Node st None (TTE_If True [node_of st tid c] [arm (node_of st tid a)] (Some (arm (node_of st tid b)))))"

fun levels :: "expr \<Rightarrow> nat" where
  "levels (E_Lit l) = 1"
| "levels (E_Var p i) = 1"
| "levels (E_Un op e) = Suc (levels e)"
| "levels (E_Bin op a b) = Suc (max (levels a) (levels b))"
| "levels (E_As e t) = Suc (Suc (levels e))"
| "levels (E_If c a b) = Suc (Suc (Suc (max (levels a) (levels b))))"

definition unary_ops :: "operator set" where
  "unary_ops = {OP_UMINUS, OP_BNOT}"

definition binary_ops :: "operator set" where
  "binary_ops =
     {OP_PLUS, OP_MINUS, OP_TIMES, OP_DIVIDE, OP_MOD, OP_LESS, OP_GREATER, OP_GE, OP_LE, OP_NE, OP_EQ,
      OP_LAND, OP_LOR, OP_BAND, OP_BOR, OP_BXOR, OP_SHIFTL, OP_SHIFTR}"

text \<open>The literals of the lexer, the operators, and the types an expression needs.\<close>

definition lexed :: "literal \<Rightarrow> bool" where
  "lexed l \<longleftrightarrow> \<not> fixed_type l \<and> littypetok l \<in> {I64, U64, F64, BOOL, I8, U8}"

fun parsed :: "expr \<Rightarrow> bool" where
  "parsed (E_Lit l) \<longleftrightarrow> lexed l"
| "parsed (E_Var p i) \<longleftrightarrow> True"
| "parsed (E_Un op e) \<longleftrightarrow> op \<in> unary_ops \<and> parsed e"
| "parsed (E_Bin op a b) \<longleftrightarrow> op \<in> binary_ops \<and> parsed a \<and> parsed b"
| "parsed (E_As e t) \<longleftrightarrow> parsed e"
| "parsed (E_If c a b) \<longleftrightarrow> parsed c \<and> parsed a \<and> parsed b"

fun types_in :: "(entry_ptr \<Rightarrow> tokenid) \<Rightarrow> expr \<Rightarrow> tokenid set" where
  "types_in \<Gamma> (E_Lit l) =
     {if postfixtypetok l \<noteq> No_Token then postfixtypetok l
      else (case intended_type (littypetok l) of Inr (t, _) \<Rightarrow> t | Inl _ \<Rightarrow> No_Token)}"
| "types_in \<Gamma> (E_Var p i) = {\<Gamma> p}"
| "types_in \<Gamma> (E_Un op e) = types_in \<Gamma> e"
| "types_in \<Gamma> (E_Bin op a b) = (if is_logic_op op then {BOOL} else {}) \<union> types_in \<Gamma> a \<union> types_in \<Gamma> b"
| "types_in \<Gamma> (E_As e t) = {t} \<union> types_in \<Gamma> e"
| "types_in \<Gamma> (E_If c a b) = types_in \<Gamma> a \<union> types_in \<Gamma> b"

fun vars_in :: "expr \<Rightarrow> entry_ptr set" where
  "vars_in (E_Lit l) = {}"
| "vars_in (E_Var p i) = {p}"
| "vars_in (E_Un op e) = vars_in e"
| "vars_in (E_Bin op a b) = vars_in a \<union> vars_in b"
| "vars_in (E_As e t) = vars_in e"
| "vars_in (E_If c a b) = vars_in a \<union> vars_in b"

subsection \<open>The world\<close>

text \<open>Each type has its id and its object, and looking it up in the scope changes nothing.\<close>

definition scalar_known ::
  "(nat \<Rightarrow> ('z types_scheme, int) action) \<Rightarrow> nat \<Rightarrow> addr \<Rightarrow> (tokenid \<Rightarrow> int) \<Rightarrow> 'z types_scheme \<Rightarrow> tokenid \<Rightarrow> bool" where
  "scalar_known infer fuel st tid w k \<longleftrightarrow>
     k \<in> scalars \<and> tid k \<noteq> typeid_novalue \<and> sym_form_type_id_from_token k w = Inr (tid k, w) \<and>
     (\<exists>s. symname_get (tid k) w = Inr s) \<and>
     (\<exists>p d. catype_get_by_name infer fuel st (tid k) w = Inr (p, w) \<and> s_type_map w (tid k) = Some p \<and>
        dt_heap w p = Some d \<and> dt_type d = k \<and> signature d = tid k)"

definition scalar_world ::
  "(nat \<Rightarrow> ('z types_scheme, int) action) \<Rightarrow> nat \<Rightarrow> addr \<Rightarrow> (tokenid \<Rightarrow> int) \<Rightarrow> 'z types_scheme \<Rightarrow>
   (entry_ptr \<Rightarrow> tokenid) \<Rightarrow> expr \<Rightarrow> bool" where
  "scalar_world infer fuel st tid w \<Gamma> e \<longleftrightarrow>
     (\<forall>k\<in>types_in \<Gamma> e. scalar_known infer fuel st tid w k) \<and>
     (\<forall>p\<in>vars_in e. variable_type p w = Inr (tid (\<Gamma> p), w))"

lemma tid_inj:
  "scalar_known infer fuel st tid w s \<Longrightarrow> scalar_known infer fuel st tid w t \<Longrightarrow> tid s = tid t \<longleftrightarrow> s = t"
  unfolding scalar_known_def by (metis Inr_inject Pair_inject option.inject)

subsection \<open>Literals\<close>

lemma convertable_known:
  "\<forall>a \<in> set [I64, U64, F64, BOOL, I8, U8]. \<forall>b \<in> set [I8, I16, I32, I64, U8, U16, U32, U64, F32, F64, BOOL].
     \<not> isl (literal_type_convertable a b)"
  by code_simp

lemma convertable_scalar:
  "lexed l \<Longrightarrow> k \<in> scalars \<Longrightarrow> \<exists>c. literal_type_convertable (littypetok l) k = Inr c"
  using convertable_known unfolding lexed_def scalars_def
  by (cases "literal_type_convertable (littypetok l) k") force+

lemma type_strings: "k \<in> scalars \<Longrightarrow> \<exists>s. get_type_string k = Inr s"
  by (auto simp: scalars_def get_type_string_def)

lemma type_string_has_fuel [simp]: "get_type_string k \<noteq> Inl Out_of_fuel"
  by (cases k) (simp_all add: get_type_string_def)

lemma bad_literal_exits: "\<exists>m. bad_literal a b w = Inl m \<and> m \<noteq> Out_of_fuel"
  using type_string_has_fuel [of a] type_string_has_fuel [of b]
  by (cases "get_type_string a"; cases "get_type_string b") (auto simp: bad_literal_def)

lemma incompatible_has_fuel [simp]: "incompatible m k \<noteq> Inl Out_of_fuel"
  using type_string_has_fuel [of k] by (cases "get_type_string k") (auto simp: incompatible_def)

lemma scopes_have_fuel:
  "check_i64_value_scope v k \<noteq> Inl Out_of_fuel" "check_u64_value_scope n k \<noteq> Inl Out_of_fuel"
  "check_f64_value_scope x k \<noteq> Inl Out_of_fuel"
  by (cases k, simp_all, cases k, simp_all, cases k, simp_all)

lemma literal_value_has_fuel: "literal_value s tok k old \<noteq> Inl Out_of_fuel"
  by (cases tok)
    (auto simp: literal_value_def literal_parse_integer_def bind_result_def i64_bits_def parse_binary_number_def Let_def
      scopes_have_fuel split: sum.splits lit_value.splits int_format.splits if_splits)

lemma primitive_by_token:
  "scalar_known infer fuel st tid w k \<Longrightarrow>
   \<exists>p d. catype_get_primitive_by_token k w = Inr (Some p, w) \<and> dt_heap w p = Some d \<and> dt_type d = k \<and> signature d = tid k"
  unfolding scalar_known_def catype_get_primitive_by_token_def catype_get_primitive_by_name_def by auto

lemma infer_fixed: "fixed_type l \<Longrightarrow> infer_literal l w = Inr ((lit_datatype l, l), w)"
  by (cases l) (simp add: infer_literal_def set_type_def)

text \<open>\<open>settled\<close> is the literal after its type was found.\<close>

definition settled :: "int \<Rightarrow> addr option \<Rightarrow> lit_value \<Rightarrow> literal \<Rightarrow> literal" where
  "settled t c v l = set_type True t c (set_u v l)"

lemma settled_simps [simp]:
  "fixed_type (settled t c v l)" "lit_datatype (settled t c v l) = t" "lit_catype (settled t c v l) = c"
  "set_type True t' c' (settled t c v l) = settled t' c' v l"
  by (simp_all add: settled_def set_type_def set_u_def)

text \<open>What becomes of a literal: a type that is kept from then on, or an error.\<close>

definition literal_outcome :: "tokenid option \<Rightarrow> (tokenid \<Rightarrow> int) \<Rightarrow> literal \<Rightarrow> 'z types_scheme \<Rightarrow> bool" where
  "literal_outcome r tid l w \<longleftrightarrow>
     (case r of
        Some t \<Rightarrow> \<exists>c v. infer_literal l w = Inr ((tid t, settled (tid t) c v l), w)
      | None \<Rightarrow> \<exists>m. infer_literal l w = Inl m \<and> m \<noteq> Out_of_fuel)"

lemma literal_errors:
  "\<exists>m. act (lift_result (get_type_string a)) (\<lambda>_. act (catype_get_type_name i) (\<lambda>_. fail (Exit e))) w = Inl m
     \<and> m \<noteq> Out_of_fuel"
  using type_string_has_fuel [of a] symname_get_has_fuel [of i w]
  by (auto simp: act_def lift_result_def catype_get_type_name_def name_after_prefix_def bind_result_def split: sum.split)

lemma infer_plain:
  assumes "lexed l" "postfixtypetok l = No_Token" "scalar_known infer fuel st tid w t"
    "intended_type (littypetok l) = Inr (t, scope)" "symname_get (textid l) w = Inr s"
  shows "literal_outcome
    (case literal_value s (littypetok l) scope (lit_u l) of Inr (bad, _) \<Rightarrow> if bad = 0 then Some t else None | Inl _ \<Rightarrow> None) tid l w"
proof -
  obtain fixed post tok tx dt cat old where l: "l = CALiteral fixed post tok tx dt cat old" by (cases l)
  have k: "sym_form_type_id_from_token t w = Inr (tid t, w)" using assms(3) by (simp add: scalar_known_def)
  have n: "name_of tx w = Inr (s, w)" using assms(5) by (simp add: l name_of_def)
  have "tok \<noteq> ARRAY" "tok \<noteq> STRUCT" "tok \<noteq> POINTER" using assms(1) by (auto simp: l lexed_def)
  then have run: "infer_literal l w = act (inference_primitive_literal_type l)
      (\<lambda>l. ret (lit_datatype l, set_type True (lit_datatype l) (lit_catype l) l)) w"
    using assms(1,2) by (simp add: l infer_literal_def lexed_def)
  have prim: "inference_primitive_literal_type l w = act (lift_result (literal_value s tok scope old)) (\<lambda>(bad, v).
      if bad \<noteq> 0 then bad_literal tok t
      else act (sym_form_type_id_from_token t) (\<lambda>dt. ret (settled dt cat v l))) w"
    using assms(4) n by (simp add: l inference_primitive_literal_type_def settled_def cong: if_cong)
  show ?thesis
  proof (cases "literal_value s tok scope old")
    case (Inl m)
    then show ?thesis using literal_value_has_fuel [of s tok scope old] run prim by (simp add: l literal_outcome_def)
  next
    case (Inr r)
    obtain bad v where r: "r = (bad, v)" by (cases r)
    from bad_literal_exits [of tok t w] obtain m where m: "(bad_literal tok t w :: (literal \<times> _) result) = Inl m" "m \<noteq> Out_of_fuel" by blast
    show ?thesis
    proof (cases "bad = 0")
      case True
      then have "infer_literal l w = Inr ((tid t, settled (tid t) cat v l), w)" using run prim Inr r k by simp
      then show ?thesis using Inr r True by (auto simp: l literal_outcome_def)
    next
      case False
      then have "inference_primitive_literal_type l w = Inl m" using prim Inr r m(1) by simp
      then have "infer_literal l w = Inl m" using run by simp
      then show ?thesis using Inr r False m(2) by (simp add: l literal_outcome_def)
    qed
  qed
qed

lemma infer_postfix:
  assumes "lexed l" "postfixtypetok l = t" "scalar_known infer fuel st tid w t" "symname_get (textid l) w = Inr s"
    "literal_type_convertable (littypetok l) t = Inr conv"
  shows "literal_outcome
    (if littypetok l = U64 \<and> s = ''0'' \<or> conv \<noteq> 0
     then (case literal_value s (littypetok l) t (lit_u l) of Inr (bad, _) \<Rightarrow> if bad = 0 then Some t else None | Inl _ \<Rightarrow> None)
     else None) tid l w"
proof -
  obtain p d where p: "catype_get_primitive_by_token t w = Inr (Some p, w)" "dt_heap w p = Some d" "dt_type d = t"
    "signature d = tid t"
    using primitive_by_token [OF assms(3)] by blast
  have k: "t \<in> scalars" "sym_form_type_id_from_token t w = Inr (tid t, w)"
    using assms(3) by (simp_all add: scalar_known_def)
  then have t: "t \<noteq> No_Token" "t \<noteq> VOID" "t \<noteq> CSTRING" "t \<noteq> POINTER" "t \<noteq> ARRAY" "t \<noteq> STRUCT"
    by (auto simp: scalars_def)
  define z where "z \<longleftrightarrow> littypetok l = U64 \<and> s = ''0''"
  have zero: "is_literal_zero_value l w = Inr (z, w)"
    using assms(4) by (simp add: is_literal_zero_value_def name_of_def z_def)
  have dt: "dt_of p w = Inr (d, w)" using p(2) by (simp add: dt_of_def get_dt_def)
  have name: "name_of (textid l) w = Inr (s, w)" using assms(4) by (simp add: name_of_def)
  have sig: "signature_of p w = Inr (tid t, w)" using dt p(4) by (simp add: signature_of_def)
  have run: "infer_literal l w = act (determine_primitive_literal_type l p) (\<lambda>l.
      act (signature_of p) (\<lambda>t. ret (t, set_type True (lit_datatype l) (lit_catype l) l))) w"
    using assms(1,2) t(1) p(1) by (simp add: infer_literal_def lexed_def non_null_def)
  from bad_literal_exits [of "littypetok l" t w] obtain m where m: "(bad_literal (littypetok l) t w :: (literal \<times> _) result) = Inl m" "m \<noteq> Out_of_fuel"
    by blast
  note det = determine_primitive_literal_type_def dt t zero name k(2) assms(5) p(3,4)
  consider (no) "\<not> z" "conv = 0" | (err) e where "z \<or> conv \<noteq> 0" "literal_value s (littypetok l) t (lit_u l) = Inl e"
    | (bad) bad v where "z \<or> conv \<noteq> 0" "literal_value s (littypetok l) t (lit_u l) = Inr (bad, v)" "bad \<noteq> 0"
    | (ok) v where "z \<or> conv \<noteq> 0" "literal_value s (littypetok l) t (lit_u l) = Inr (0, v)"
    by (cases "literal_value s (littypetok l) t (lit_u l)") fastforce+
  then show ?thesis
  proof cases
    case no
    obtain e where "determine_primitive_literal_type l p w = Inl e" "e \<noteq> Out_of_fuel"
      using literal_errors [of "littypetok l" "tid t" "''bad literal value definition: %s cannot be %s''" w] no
      by (auto simp: det)
    then show ?thesis using no run by (simp add: literal_outcome_def z_def [symmetric])
  next
    case err
    then have "determine_primitive_literal_type l p w = Inl e" by (auto simp: det)
    then show ?thesis using err run literal_value_has_fuel [of s "littypetok l" t "lit_u l"] by (auto simp: literal_outcome_def z_def [symmetric])
  next
    case bad
    then have "determine_primitive_literal_type l p w = Inl m" using m(1) by (auto simp: det)
    then show ?thesis using bad run m(2) by (auto simp: literal_outcome_def z_def [symmetric])
  next
    case ok
    then have "determine_primitive_literal_type l p w = Inr (settled (tid t) (lit_catype l) v l, w)"
      by (auto simp: det settled_def)
    then have "infer_literal l w = Inr ((tid t, settled (tid t) (lit_catype l) v l), w)" using run sig by simp
    then show ?thesis using ok by (auto simp: literal_outcome_def z_def [symmetric])
  qed
qed

lemma infer_lexed:
  assumes "lexed l" "scalar_world infer fuel st tid w \<Gamma> (E_Lit l)"
  shows "literal_outcome (literal_scalar w l) tid l w"
proof (cases "symname_get (textid l) w")
  case (Inl m)
  then have m: "name_of (textid l) w = Inl m" "m \<noteq> Out_of_fuel"
    using symname_get_has_fuel [of "textid l" w] by (simp_all add: name_of_def)
  have "infer_literal l w = Inl m"
  proof (cases "postfixtypetok l = No_Token")
    case True
    then show ?thesis
      using assms(1) m(1)
      by (cases l) (auto simp: infer_literal_def lexed_def inference_primitive_literal_type_def)
  next
    case False
    then have k: "scalar_known infer fuel st tid w (postfixtypetok l)"
      using assms(2) by (simp add: scalar_world_def)
    from primitive_by_token [OF this] obtain p d where p: "catype_get_primitive_by_token (postfixtypetok l) w = Inr (Some p, w)"
      "dt_heap w p = Some d" "dt_type d = postfixtypetok l" by blast
    have "is_literal_zero_value l w = Inl m" using m(1) by (simp add: is_literal_zero_value_def)
    then have "determine_primitive_literal_type l p w = Inl m"
      using p k by (auto simp: determine_primitive_literal_type_def dt_of_def get_dt_def scalar_known_def scalars_def)
    then show ?thesis using p(1) False assms(1) by (simp add: infer_literal_def lexed_def non_null_def)
  qed
  then show ?thesis using Inl m(2) by (simp add: literal_outcome_def literal_scalar_def)
next
  case (Inr s)
  show ?thesis
  proof (cases "postfixtypetok l = No_Token")
    case True
    obtain t scope where t: "intended_type (littypetok l) = Inr (t, scope)"
      using assms(1) by (auto simp: lexed_def intended_type_def)
    have "scalar_known infer fuel st tid w t" using assms(2) True t by (simp add: scalar_world_def)
    from infer_plain [OF assms(1) True this t Inr] show ?thesis using Inr True t by (simp add: literal_scalar_def)
  next
    case False
    then have k: "scalar_known infer fuel st tid w (postfixtypetok l)" using assms(2) by (simp add: scalar_world_def)
    then obtain conv where c: "literal_type_convertable (littypetok l) (postfixtypetok l) = Inr conv"
      using convertable_scalar [OF assms(1)] by (auto simp: scalar_known_def)
    show ?thesis using infer_postfix [OF assms(1) refl k Inr c] Inr False c by (auto simp: literal_scalar_def split: if_splits)
  qed
qed

subsection \<open>One step of inference\<close>

text \<open>What inference does with a tree: a type, and a tree that has it already, or an error.\<close>

definition outcome ::
  "(addr \<Rightarrow> int \<Rightarrow> ('z types_scheme, addr) action) \<Rightarrow> (tokenid \<Rightarrow> int) \<Rightarrow> 'z types_scheme \<Rightarrow> tokenid option \<Rightarrow> nat \<Rightarrow> ASTNode \<Rightarrow> bool" where
  "outcome lk tid w r n e \<longleftrightarrow>
     (case r of
        Some t \<Rightarrow> \<exists>e'. node_type lk n Infer e w = Inr ((tid t, e'), w) \<and> node_type lk n Infer e' w = Inr ((tid t, e'), w)
      | None \<Rightarrow> \<exists>m. node_type lk n Infer e w = Inl m \<and> m \<noteq> Out_of_fuel)"

lemma outcome_cases:
  assumes "outcome lk tid w r n e"
  obtains (typed) t e' where "r = Some t" "node_type lk n Infer e w = Inr ((tid t, e'), w)"
      "node_type lk n Infer e' w = Inr ((tid t, e'), w)"
  | (refused) m where "r = None" "node_type lk n Infer e w = Inl m" "m \<noteq> Out_of_fuel"
  using assms by (cases r) (auto simp: outcome_def)

lemma outcome_typed:
  "node_type lk n Infer e w = Inr ((tid t, e'), w) \<Longrightarrow> node_type lk n Infer e' w = Inr ((tid t, e'), w) \<Longrightarrow>
   outcome lk tid w (Some t) n e"
  by (auto simp: outcome_def)

lemma outcome_refused:
  "node_type lk n Infer e w = Inl m \<Longrightarrow> m \<noteq> Out_of_fuel \<Longrightarrow> outcome lk tid w None n e"
  by (auto simp: outcome_def)

lemma typed_already:
  "t \<noteq> typeid_novalue \<Longrightarrow>
   node_type lk (Suc n) Infer (Node st en (TTE_Expr op t ops)) w = Inr ((t, Node st en (TTE_Expr op t ops)), w)"
  by (simp add: infer_step_def inference_expr_expr_type_def)

lemma expr_outcome:
  assumes "infer_operator lk (node_type lk n) st op ops w = Inr ((i, ops'), w)"
    "(if is_logic_op op then sym_form_type_id_from_token BOOL w = Inr (tid t, w) else i = tid t)" "tid t \<noteq> typeid_novalue"
  shows "outcome lk tid w (Some t) (Suc n) (Node st None (TTE_Expr op typeid_novalue ops))"
proof (rule outcome_typed)
  show "node_type lk (Suc n) Infer (Node st None (TTE_Expr op typeid_novalue ops)) w
      = Inr ((tid t, Node st None (TTE_Expr op (tid t) ops')), w)"
    using assms(1,2) by (cases "is_logic_op op") (simp_all add: infer_step_def inference_expr_expr_type_def)
  show "node_type lk (Suc n) Infer (Node st None (TTE_Expr op (tid t) ops')) w
      = Inr ((tid t, Node st None (TTE_Expr op (tid t) ops')), w)"
    by (rule typed_already [OF assms(3)])
qed

lemma expr_refused:
  "infer_operator lk (node_type lk n) st op ops w = Inl m \<Longrightarrow> m \<noteq> Out_of_fuel \<Longrightarrow>
   outcome lk tid w None (Suc n) (Node st None (TTE_Expr op typeid_novalue ops))"
  by (rule outcome_refused) (simp_all add: infer_step_def inference_expr_expr_type_def)

lemma literal_step:
  assumes "literal_outcome r tid l w"
  shows "outcome lk tid w r (Suc n) (Node st None (TTE_Literal l))"
proof (cases r)
  case None
  then show ?thesis using assms by (auto simp: literal_outcome_def infer_step_def intro: outcome_refused)
next
  case (Some t)
  then obtain c v where "infer_literal l w = Inr ((tid t, settled (tid t) c v l), w)"
    using assms by (auto simp: literal_outcome_def)
  then show ?thesis
    unfolding Some
    by (intro outcome_typed [where e' = "Node st None (TTE_Literal (settled (tid t) c v l))"])
      (simp_all add: infer_step_def infer_fixed)
qed

lemma unary_step:
  assumes "outcome lk tid w r n e" "op \<in> unary_ops" "\<And>t. r = Some t \<Longrightarrow> tid t \<noteq> typeid_novalue"
  shows "outcome lk tid w r (Suc n) (Node st None (TTE_Expr op typeid_novalue [e]))"
proof -
  have op: "infer_operator lk (node_type lk n) st op [e] w = infer_operands lk (node_type lk n) st op False typeid_novalue [e] w"
    "\<not> is_logic_op op"
    using assms(2) by (auto simp: unary_ops_def infer_operator_def is_logic_op_def)
  from assms(1) show ?thesis
  proof (cases rule: outcome_cases)
    case (typed t e')
    then have "infer_operator lk (node_type lk n) st op [e] w = Inr ((tid t, [e']), w)" unfolding op by simp
    then show ?thesis unfolding typed(1) using op(2) assms(3) typed(1) by (intro expr_outcome) simp_all
  next
    case (refused m)
    then have "infer_operator lk (node_type lk n) st op [e] w = Inl m" unfolding op by simp
    then show ?thesis unfolding refused(1) by (rule expr_refused [OF _ refused(3)])
  qed
qed

lemma check_scalar:
  assumes "scalar_known infer fuel st tid w s" "scalar_known infer fuel st tid w t"
  shows "check_identical (catype_get_by_name infer fuel) st (tid s) (tid t) w = Inr (s = t, w)"
proof (cases "s = t")
  case False
  then have "tid s \<noteq> tid t" using tid_inj [OF assms] by simp
  then show ?thesis
    using assms False by (auto simp: check_identical_def scalar_known_def dt_of_def get_dt_def)
qed (simp add: check_identical_def)

lemma operands_checked:
  assumes "scalar_known infer fuel st tid w s" "scalar_known infer fuel st tid w t"
  shows "if s = t \<or> (op = OP_SHIFTL \<or> op = OP_SHIFTR) \<and> catype_is_integer s \<and> catype_is_integer t
    then operand_fits (catype_get_by_name infer fuel) st op False (tid s) (tid t) w = Inr (False, w)
    else \<exists>m. operand_fits (catype_get_by_name infer fuel) st op False (tid s) (tid t) w = Inl (Exit m)"
proof -
  obtain p d q e where objs: "catype_get_by_name infer fuel st (tid s) w = Inr (p, w)" "dt_of p w = Inr (d, w)" "dt_type d = s"
    "catype_get_by_name infer fuel st (tid t) w = Inr (q, w)" "dt_of q w = Inr (e, w)" "dt_type e = t"
    using assms unfolding scalar_known_def dt_of_def get_dt_def by auto
  have s: "s \<noteq> POINTER" using assms(1) by (auto simp: scalar_known_def scalars_def)
  obtain x y where n: "name_of (tid s) w = Inr (x, w)" "name_of (tid t) w = Inr (y, w)"
    using assms by (auto simp: scalar_known_def name_of_def)
  show ?thesis
    using check_scalar [OF assms] objs n s by (auto simp: operand_fits_def)
qed

lemma binary_step:
  assumes "outcome lk tid w r1 n a" "outcome lk tid w r2 n b" and lk: "lk = catype_get_by_name infer fuel"
    and known: "\<And>t. r1 = Some t \<or> r2 = Some t \<Longrightarrow> scalar_known infer fuel st tid w t"
    and bool: "is_logic_op op \<Longrightarrow> scalar_known infer fuel st tid w BOOL" and "op \<in> binary_ops"
  shows "outcome lk tid w
    (case (r1, r2) of
        (Some s, Some t) \<Rightarrow>
          if s = t \<or> (op = OP_SHIFTL \<or> op = OP_SHIFTR) \<and> catype_is_integer s \<and> catype_is_integer t
          then Some (if is_logic_op op then BOOL else s) else None
      | _ \<Rightarrow> None) (Suc n) (Node st None (TTE_Expr op typeid_novalue [a, b]))"
proof -
  let ?run = "infer_operator lk (node_type lk n) st op [a, b] w"
  have op: "?run = infer_operands lk (node_type lk n) st op False typeid_novalue [a, b] w"
    using assms(6) by (auto simp: binary_ops_def infer_operator_def)
  from assms(1) show ?thesis
  proof (cases rule: outcome_cases)
    case (refused m)
    then have "?run = Inl m" unfolding op by simp
    then show ?thesis unfolding refused(1) by (simp add: expr_refused [OF _ refused(3)])
  next
    case s: (typed s a')
    from assms(2) show ?thesis
    proof (cases rule: outcome_cases)
      case (refused m)
      then have "?run = Inl m" unfolding op using s by simp
      then show ?thesis unfolding refused(1) s(1) by (simp add: expr_refused [OF _ refused(3)])
    next
      case t: (typed t b')
      have k: "scalar_known infer fuel st tid w s" "scalar_known infer fuel st tid w t" using known s(1) t(1) by blast+
      have nv: "tid s \<noteq> typeid_novalue" using k(1) by (simp add: scalar_known_def)
      let ?fits = "s = t \<or> (op = OP_SHIFTL \<or> op = OP_SHIFTR) \<and> catype_is_integer s \<and> catype_is_integer t"
      have run: "?run = act (operand_fits lk st op False (tid s) (tid t)) (\<lambda>ok.
          ret (tid s, [a', b'])) w"
        unfolding op using s(2) t(2) nv by (auto simp: act_def split: sum.splits)
      show ?thesis
      proof (cases ?fits)
        case True
        then have "operand_fits lk st op False (tid s) (tid t) w = Inr (False, w)"
          using operands_checked [OF k, of op] unfolding lk by (simp only: if_True)
        then have "?run = Inr ((tid s, [a', b']), w)" unfolding run by (rule trans [OF act_Inr]) simp
        moreover have "if is_logic_op op then sym_form_type_id_from_token BOOL w = Inr (tid BOOL, w) \<and> tid BOOL \<noteq> typeid_novalue
            else True" using bool by (simp add: scalar_known_def)
        ultimately show ?thesis
          using True nv unfolding s(1) t(1) by (auto intro!: expr_outcome split: if_splits)
      next
        case False
        then obtain m where "operand_fits lk st op False (tid s) (tid t) w = Inl (Exit m)"
          using operands_checked [OF k, of op] unfolding lk by (simp only: if_False) blast
        then have "?run = Inl (Exit m)" unfolding run by (rule act_Inl)
        then show ?thesis using False unfolding s(1) t(1) by (auto simp: expr_refused)
      qed
    qed
  qed
qed

lemma as_step:
  assumes "outcome lk tid w r n e" and lk: "lk = catype_get_by_name infer fuel"
    and known: "\<And>s. r = Some s \<Longrightarrow> scalar_known infer fuel st tid w s" and t: "scalar_known infer fuel st tid w t"
  shows "outcome lk tid w (case r of Some s \<Rightarrow> if as_type_convertable s t then Some t else None | None \<Rightarrow> None) (Suc (Suc n))
    (Node st None (TTE_Expr OP_AS typeid_novalue [Node st None (TTE_As e (tid t))]))"
proof -
  let ?node = "Node st None (TTE_As e (tid t))"
  let ?run = "infer_operator lk (node_type lk (Suc n)) st OP_AS [?node] w"
  have op: "?run = infer_operands lk (node_type lk (Suc n)) st OP_AS False typeid_novalue [?node] w"
    by (simp add: infer_operator_def)
  obtain q d where to: "lk st (tid t) w = Inr (q, w)" "dt_of q w = Inr (d, w)" "dt_type d = t" "signature d = tid t"
    and nv: "tid t \<noteq> typeid_novalue"
    using t unfolding lk scalar_known_def dt_of_def get_dt_def by auto
  from assms(1) show ?thesis
  proof (cases rule: outcome_cases)
    case (refused m)
    then have "?run = Inl m" unfolding op by (simp add: infer_step_def)
    then show ?thesis unfolding refused(1) by (simp add: expr_refused [OF _ refused(3)])
  next
    case (typed s e')
    have s: "scalar_known infer fuel st tid w s" using known typed(1) by blast
    obtain p c where from_obj: "lk st (tid s) w = Inr (p, w)" "dt_of p w = Inr (c, w)" "dt_type c = s"
      using s unfolding lk scalar_known_def dt_of_def get_dt_def by auto
    show ?thesis
    proof (cases "as_type_convertable s t")
      case True
      then have "node_type lk (Suc n) Infer ?node w = Inr ((tid t, Node st None (TTE_As e' (tid t))), w)"
        using typed(2) to from_obj by (simp add: infer_step_def del: as_type_convertable.simps)
      then have "?run = Inr ((tid t, [Node st None (TTE_As e' (tid t))]), w)" unfolding op by simp
      then show ?thesis
        using True nv unfolding typed(1)
        by (auto simp: is_logic_op_def intro!: expr_outcome simp del: as_type_convertable.simps)
    next
      case False
      obtain x y where "get_type_string s = Inr x" "get_type_string t = Inr y"
        using type_strings s t unfolding scalar_known_def by blast
      then have "node_type lk (Suc n) Infer ?node w = Inl (Exit ''type `%s` cannot convert (as) to type `%s`'')"
        using typed(2) to from_obj False by (simp add: infer_step_def del: as_type_convertable.simps)
      then have "?run = Inl (Exit ''type `%s` cannot convert (as) to type `%s`'')" unfolding op by simp
      then show ?thesis
        using False unfolding typed(1) by (simp add: expr_refused del: as_type_convertable.simps)
    qed
  qed
qed

abbreviation arm :: "addr \<Rightarrow> int \<Rightarrow> ASTNode \<Rightarrow> ASTNode" where
  "arm st t e \<equiv> Node st None (TTE_LexicalBody (Node st None (TTE_Expr OP_STMT_EXPR t [Node st None TTE_Other, e])))"

lemma arm_outcome:
  assumes "outcome lk tid w r n e" "\<And>t. r = Some t \<Longrightarrow> tid t \<noteq> typeid_novalue"
  shows "outcome lk tid w r (Suc (Suc n)) (arm st typeid_novalue e)"
  using assms(1)
proof (cases rule: outcome_cases)
  case (typed t e')
  have nv: "tid t \<noteq> typeid_novalue" using assms(2) typed(1) .
  show ?thesis
    unfolding typed(1)
    by (rule outcome_typed [where e' = "arm st (tid t) e'"])
      (use typed(2) nv in \<open>simp_all add: infer_step_def inference_expr_expr_type_def infer_operator_def is_logic_op_def\<close>)
next
  case (refused m)
  show ?thesis
    unfolding refused(1)
    by (rule outcome_refused [OF _ refused(3)])
      (use refused(2) in \<open>simp_all add: infer_step_def inference_expr_expr_type_def infer_operator_def\<close>)
qed

lemma if_step:
  assumes "outcome lk tid w r1 n a" "outcome lk tid w r2 n b" and lk: "lk = catype_get_by_name infer fuel"
    and known: "\<And>t. r1 = Some t \<or> r2 = Some t \<Longrightarrow> scalar_known infer fuel st tid w t"
  shows "outcome lk tid w (case (r1, r2) of (Some s, Some t) \<Rightarrow> if s = t then Some s else None | _ \<Rightarrow> None)
    (Suc n) (Node st None (TTE_If True [c] [a] (Some b)))"
  using assms(1)
proof (cases rule: outcome_cases)
  case (refused m)
  show ?thesis
    unfolding refused(1) option.case prod.case
    by (rule outcome_refused [OF _ refused(3)]) (use refused(2) in \<open>simp add: infer_step_def\<close>)
next
  case s: (typed s a')
  from assms(2) show ?thesis
  proof (cases rule: outcome_cases)
    case (refused m)
    show ?thesis
      unfolding refused(1) s(1) option.case prod.case
      by (rule outcome_refused [OF _ refused(3)]) (use refused(2) s(2) in \<open>simp add: infer_step_def\<close>)
  next
    case t: (typed t b')
    have k: "scalar_known infer fuel st tid w s" "scalar_known infer fuel st tid w t" using known s(1) t(1) by blast+
    note check = check_scalar [OF k, folded lk]
    obtain x y where n: "name_of (tid s) w = Inr (x, w)" "name_of (tid t) w = Inr (y, w)"
      using k by (auto simp: scalar_known_def name_of_def)
    show ?thesis
    proof (cases "s = t")
      case True
      have "outcome lk tid w (Some s) (Suc n) (Node st None (TTE_If True [c] [a] (Some b)))"
        by (rule outcome_typed [where e' = "Node st None (TTE_If True [c] [a'] (Some b'))"])
          (use s t check True in \<open>simp_all add: infer_step_def\<close>)
      then show ?thesis using True s(1) t(1) by simp
    next
      case False
      have "outcome lk tid w None (Suc n) (Node st None (TTE_If True [c] [a] (Some b)))"
        by (rule outcome_refused [where m = "Exit ''if expression type not same `%s` != `%s`''"])
          (use s t check False n in \<open>simp_all add: infer_step_def\<close>)
      then show ?thesis using False s(1) t(1) by simp
    qed
  qed
qed

subsection \<open>All expressions\<close>

lemma type_is_in:
  "type_of w \<Gamma> e = Some t \<Longrightarrow> t \<in> types_in \<Gamma> e"
proof (induction e arbitrary: t)
  case (E_Lit l)
  then show ?case
    by (auto simp: literal_scalar_def split: sum.splits if_splits)
qed (auto split: option.splits if_splits)

lemma inference_outcome:
  assumes "parsed e" "scalar_world infer fuel st tid w \<Gamma> e" "levels e \<le> n"
  shows "outcome (catype_get_by_name infer fuel) tid w (type_of w \<Gamma> e) n (node_of st tid e)"
  using assms
proof (induction e arbitrary: n)
  case (E_Lit l)
  then obtain n' where n: "n = Suc n'" by (cases n) auto
  show ?case unfolding n using E_Lit.prems(1,2) by (simp add: literal_step infer_lexed)
next
  case (E_Var p i)
  then obtain n' where n: "n = Suc n'" by (cases n) auto
  have run: "node_type (catype_get_by_name infer fuel) n Infer (node_of st tid (E_Var p i)) w
      = Inr ((tid (\<Gamma> p), node_of st tid (E_Var p i)), w)"
    unfolding n using E_Var.prems(2) by (simp add: scalar_world_def infer_step_def)
  show ?case unfolding type_of.simps by (rule outcome_typed [where tid = tid and t = "\<Gamma> p"]; rule run)
next
  case (E_Un op e)
  then obtain n' where n: "n = Suc n'" "levels e \<le> n'" by (cases n) auto
  have w: "scalar_world infer fuel st tid w \<Gamma> e" using E_Un.prems(2) by (simp add: scalar_world_def)
  have "type_of w \<Gamma> e = Some t \<Longrightarrow> tid t \<noteq> typeid_novalue" for t
    using w type_is_in [of w \<Gamma> e] by (auto simp: scalar_world_def scalar_known_def)
  then show ?case
    unfolding n(1) type_of.simps node_of.simps using E_Un.IH [OF _ w n(2)] E_Un.prems(1) by (intro unary_step) simp_all
next
  case (E_Bin op a b)
  then obtain n' where n: "n = Suc n'" "levels a \<le> n'" "levels b \<le> n'" by (cases n) auto
  have w: "scalar_world infer fuel st tid w \<Gamma> a" "scalar_world infer fuel st tid w \<Gamma> b"
    "is_logic_op op \<Longrightarrow> scalar_known infer fuel st tid w BOOL"
    using E_Bin.prems(2) by (auto simp: scalar_world_def)
  show ?case
    unfolding n(1) type_of.simps node_of.simps
    using E_Bin.IH(1) [OF _ w(1) n(2)] E_Bin.IH(2) [OF _ w(2) n(3)] E_Bin.prems(1) w type_is_in [of w \<Gamma>]
    by (intro binary_step [where infer = infer and fuel = fuel]) (auto simp: scalar_world_def)
next
  case (E_As e t)
  then obtain n' where n: "n = Suc (Suc n')" "levels e \<le> n'" by (cases n; cases "n - 1") auto
  have w: "scalar_world infer fuel st tid w \<Gamma> e" "scalar_known infer fuel st tid w t"
    using E_As.prems(2) by (auto simp: scalar_world_def)
  show ?case
    unfolding n(1) type_of.simps node_of.simps
    using E_As.IH [OF _ w(1) n(2)] E_As.prems(1) w type_is_in [of w \<Gamma>]
    by (intro as_step [where infer = infer and fuel = fuel]) (auto simp: scalar_world_def)
next
  case (E_If c a b)
  then obtain n' where n: "n = Suc (Suc (Suc n'))" "levels a \<le> n'" "levels b \<le> n'"
    by (cases n; cases "n - 1"; cases "n - 2") auto
  have w: "scalar_world infer fuel st tid w \<Gamma> a" "scalar_world infer fuel st tid w \<Gamma> b"
    using E_If.prems(2) by (auto simp: scalar_world_def)
  have k: "scalar_known infer fuel st tid w t" if "type_of w \<Gamma> a = Some t \<or> type_of w \<Gamma> b = Some t" for t
    using that w type_is_in [of w \<Gamma>] by (auto simp: scalar_world_def)
  have arms: "outcome (catype_get_by_name infer fuel) tid w (type_of w \<Gamma> a) (Suc (Suc n')) (arm st typeid_novalue (node_of st tid a))"
    "outcome (catype_get_by_name infer fuel) tid w (type_of w \<Gamma> b) (Suc (Suc n')) (arm st typeid_novalue (node_of st tid b))"
    using E_If.IH(2) [OF _ w(1) n(2)] E_If.IH(3) [OF _ w(2) n(3)] E_If.prems(1) k
    by (auto simp: scalar_known_def intro!: arm_outcome)
  show ?case
    unfolding n(1) type_of.simps node_of.simps Let_def by (rule if_step [OF arms refl k])
qed

text \<open>Claim C8: Type inference follows the typing rules. For every expression over numbers and \<open>bool\<close> that
  the parser builds, from literals, variables, unary and binary operators, \<open>as\<close> and \<open>ife\<close>: when it has
  a type by the rules, inference returns the id of this type, and inferring the tree it leaves gives
  the same type and changes nothing; when it has none, inference reports an error. A level of fuel
  for each level of the tree is enough.\<close>

theorem inference_follows_rules:
  assumes "parsed e" "scalar_world infer fuel st tid w \<Gamma> e" "levels e \<le> n"
  shows "case type_of w \<Gamma> e of
      Some t \<Rightarrow> \<exists>e'. inference_expr_type infer fuel n (node_of st tid e) w = Inr ((tid t, e'), w)
        \<and> inference_expr_type infer fuel n e' w = Inr ((tid t, e'), w)
    | None \<Rightarrow> \<exists>m. inference_expr_type infer fuel n (node_of st tid e) w = Inl m \<and> m \<noteq> Out_of_fuel"
  using inference_outcome [OF assms] unfolding outcome_def inference_expr_type_def .

subsection \<open>An example\<close>

text \<open>The id of a type that is cached in a scope without association, computed.\<close>

definition cached_id :: "addr \<Rightarrow> 'z types_scheme \<Rightarrow> tokenid \<Rightarrow> int option" where
  "cached_id st w k =
     (case (get_type_string_for_signature k, get_table st w) of
        (Inr nm, Inr t) \<Rightarrow>
          (case (s_symname_name2pos w (''t:'' @ nm), s_symname_name2pos w (nm @ ''@'' @ table_text st)) of
             (Some i, Some key) \<Rightarrow>
               (case (s_symtable_type_map w key, s_type_map w i) of
                  (Some p, Some p') \<Rightarrow>
                    (case dt_heap w p of
                       Some d \<Rightarrow>
                         if assoc t = None \<and> p = p' \<and> i \<noteq> typeid_novalue \<and> length nm < 14 \<and> k \<in> scalars
                           \<and> nul_free nm \<and> length (nm @ ''@'' @ table_text st) < name_buffer
                           \<and> dt_type d = k \<and> signature d = i then Some i else None
                     | None \<Rightarrow> None)
                | _ \<Rightarrow> None)
           | _ \<Rightarrow> None)
      | _ \<Rightarrow> None)"

lemma cached_id_known:
  assumes "names_ok w" "cached_id st w k = Some i" "tid k = i"
  shows "scalar_known infer fuel st tid w k"
proof -
  obtain nm t key p d where nm: "get_type_string_for_signature k = Inr nm" "length nm < 14" "nul_free nm"
    and t: "get_table st w = Inr t" "assoc t = None"
    and ids: "s_symname_name2pos w (''t:'' @ nm) = Some i" "s_symname_name2pos w (nm @ ''@'' @ table_text st) = Some key"
    and maps: "s_symtable_type_map w key = Some p" "s_type_map w i = Some p"
    and d: "dt_heap w p = Some d" "dt_type d = k" "signature d = i"
    and k: "k \<in> scalars" "i \<noteq> typeid_novalue" "length (nm @ ''@'' @ table_text st) < name_buffer"
    using assms(2) by (auto simp: cached_id_def split: sum.splits option.splits if_splits)
  have i: "interned w i (''t:'' @ nm)" "interned w key (nm @ ''@'' @ table_text st)"
    using ids nm(3) key_text_nul_free [of st] by (auto simp: interned_def nul_free_def NUL_def)
  then have name: "catype_get_type_name i w = Inr (nm, w)"
    using assms(1) by (intro get_type_name_known(1) [of _ _ "''t:''"]) (simp add: known_as_def)
  have "sym_form_type_id_from_token k w = Inr (i, w)"
    using nm i(1) by (simp add: sym_form_type_id_from_token_def intern_def)
  moreover have "symname_get i w = Inr (''t:'' @ nm)" using assms(1) i(1) by (rule tbl.known_get)
  moreover have "catype_get_by_name infer fuel st i w = Inr (p, w)"
    using t name i(2) maps(1) k(3)
    by (simp add: catype_get_by_name_def symtable_get_with_assoc_def sym_form_symtable_type_id_def cached_type_def intern_def)
  ultimately show ?thesis using maps d k assms(3) by (simp add: scalar_known_def)
qed

lemma variable_typedI:
  "get_entry p w = Inr e \<Longrightarrow> variable_of e = Inr v \<Longrightarrow> v_datatype v = i \<Longrightarrow> variable_type p w = Inr (i, w)"
  by (simp add: variable_type_def entry_of_def)

text \<open>A scope with a variable \<open>x: i32\<close>, in which \<open>i32\<close> and \<open>bool\<close> have been looked up, and the expression
  \<open>x + 1 < 7 as i32\<close>.\<close>

definition look_up_once :: "tokenid \<Rightarrow> (types, int) action" where
  "look_up_once k =
     act (sym_form_type_id_from_token k) (\<lambda>i.
     act (catype_get_primitive_by_name i) (\<lambda>p.
     act (non_null p) (\<lambda>p.
     act (sym_form_symtable_type_id 0 i) (\<lambda>key.
     act (cache_type key p) (\<lambda>_. ret i)))))"

definition example_scope :: "(types, int \<times> int \<times> int) action" where
  "example_scope =
     act (make_primitive ''t:i32'' I32 4 None) (\<lambda>_.
     act (make_primitive ''t:bool'' BOOL 1 None) (\<lambda>_.
     act (look_up_once I32) (\<lambda>i.
     act (look_up_once BOOL) (\<lambda>_.
     act (intern ''x'') (\<lambda>x.
     act (register_variable \<lparr>v_datatype = i, v_loc = here, v_name = x, v_global = False, v_llvm_value = None\<rparr> 0) (\<lambda>_.
     act (intern ''1'') (\<lambda>one.
     act (intern ''7'') (\<lambda>seven. ret (x, one, seven)))))))))"

definition number :: "int \<Rightarrow> literal" where
  "number tx = CALiteral False No_Token U64 tx typeid_novalue None (Lit_I64 0)"

definition example_expr :: "int \<Rightarrow> int \<Rightarrow> int \<Rightarrow> expr" where
  "example_expr x one seven =
     E_Bin OP_LESS (E_Bin OP_PLUS (E_Var (0, x) x) (E_Lit (number one))) (E_As (E_Lit (number seven)) I32)"

lemma example_facts:
  "(case example_scope types_start of
      Inr ((x, one, seven), w) \<Rightarrow>
        (case (cached_id 0 w I32, cached_id 0 w BOOL, get_entry (0, x) w) of
           (Some i, Some b, Inr e) \<Rightarrow>
             (case variable_of e of Inr v \<Rightarrow> v_datatype v = i | Inl _ \<Rightarrow> False)
             \<and> symname_get one w = Inr ''1'' \<and> symname_get seven w = Inr ''7''
         | _ \<Rightarrow> False)
    | Inl _ \<Rightarrow> False)"
  unfolding example_scope_def look_up_once_def register_variable_def argname_entry_def non_null_def by code_simp

lemma small_literals:
  "literal_value ''1'' U64 I32 (Lit_I64 0) = Inr (0, Lit_I64 1)"
  "literal_value ''7'' U64 I32 (Lit_I64 0) = Inr (0, Lit_I64 7)"
  by (simp_all add: literal_value_def literal_parse_integer_def integer_format_def sscanf_i64_def strtoul_def strip_sign_def
      is_base_digit_def digit_value_def digits_value_def char_classes i64_bits_def bind_result_def)

lemma example_typed:
  "symname_get one w = Inr ''1'' \<Longrightarrow> symname_get seven w = Inr ''7'' \<Longrightarrow>
   type_of w (\<lambda>_. I32) (example_expr x one seven) = Some BOOL"
  by (simp add: example_expr_def number_def literal_scalar_def small_literals intended_type_def is_logic_op_def as_type_convertable.simps)

theorem inference_follows_rules_witness:
  "\<exists>x one seven w. example_scope types_start = Inr ((x, one, seven), w) \<and>
     (let tid = (\<lambda>k. the (cached_id 0 w k)); run = inference_expr_type (\<lambda>_. fail Out_of_fuel) 0 4 in
      \<exists>e'. run (node_of 0 tid (example_expr x one seven)) w = Inr ((tid BOOL, e'), w) \<and> run e' w = Inr ((tid BOOL, e'), w))"
proof -
  obtain x one seven w where run: "example_scope types_start = Inr ((x, one, seven), w)"
    using example_facts by (auto split: sum.splits)
  let ?tid = "\<lambda>k. the (cached_id 0 w k)"
  obtain i b e v where f: "cached_id 0 w I32 = Some i" "cached_id 0 w BOOL = Some b" "get_entry (0, x) w = Inr e"
    "variable_of e = Inr v" "v_datatype v = i" "symname_get one w = Inr ''1''" "symname_get seven w = Inr ''7''"
    using example_facts unfolding run
    by (cases "get_entry (0, x) w"; cases "cached_id 0 w BOOL") (auto split: sum.splits option.splits)
  have "keeps names_ok example_scope"
    unfolding example_scope_def look_up_once_def register_variable_def argname_entry_def non_null_def cache_type_def
      sym_form_symtable_type_id_def sym_form_type_id_from_token_def
    by (intro keeps_intro keeps_modifies) (auto split: option.splits)
  from keepsD [OF this _ run] have ok: "names_ok w" by (simp add: types_start_def names_ok_def)
  have "scalar_world (\<lambda>_. fail Out_of_fuel) 0 0 ?tid w (\<lambda>_. I32) (example_expr x one seven)"
    using cached_id_known [OF ok f(1)] cached_id_known [OF ok f(2)] variable_typedI [OF f(3,4,5)] f(1,2)
    by (simp add: scalar_world_def example_expr_def is_logic_op_def intended_type_def number_def)
  moreover have "parsed (example_expr x one seven)" "levels (example_expr x one seven) \<le> 4"
    by (simp_all add: example_expr_def number_def lexed_def binary_ops_def)
  ultimately show ?thesis
    using inference_follows_rules [of "example_expr x one seven" "\<lambda>_. fail Out_of_fuel" 0 0 ?tid w "\<lambda>_. I32" 4]
      example_typed [OF f(6,7), of x] run by (auto simp: Let_def)
qed

subsection \<open>Where types from the context go wrong\<close>

text \<open>An array filled with one value keeps that one element in its tree, and the length of the type is
  compared with the number of elements, not with the count: \<open>let a: [i32; 3] = [1; 3]\<close> is refused.\<close>

lemma fill_array_refused:
  assumes "lk st type w = Inr (p, w)" "dt_heap w p = Some d" "dt_type d = ARRAY" "layout d = Layout_Array el 1 [count]" "count \<noteq> 1"
  shows "determine_node lk (Suc n)
      (Node st en (TTE_Expr OP_ARRAY typeid_novalue [Node ast aen (TTE_ArrayDef [e] (nat count))])) type w
    = Inl (Exit ''determined array size `%d` not match the expression type `%d`'')"
  using assms
  by (simp add: determine_step_def determine_expr_expr_type_def determine_operator_def determine_special_def
      determine_array_def dt_of_def get_dt_def)

text \<open>The arms of \<open>ife\<close> are never told the type.\<close>

lemma ife_arms_undetermined:
  assumes "lk st type w = Inr (p, w)"
    and "node = Node st en (TTE_If True c [Node s1 e1 (TTE_LexicalBody a)] (Some (Node s2 e2 (TTE_LexicalBody b))))"
  shows "determine_node lk (Suc n) node type w = Inr (node, w)"
  using assms by (simp add: determine_step_def determine_expr_expr_type_def)

end
