(* ===== verification/Control_Flow.thy ===== *)
theory Control_Flow
  imports Casts
begin

section \<open>Control flow: from statements to basic blocks (\<open>llvm/IR_generator.cpp\<close>)\<close>

text \<open>
  The second pass walks the statements of a function and appends instructions to the basic block
  the builder points at. This theory models the statements and expressions that make basic
  blocks, with the blocks, slots and registers they use, and the function around them. Code that
  stays in its block is a list of \<open>Plain\<close> instructions, whose meaning, like that of all of LLVM, is
  a parameter of the theorems; \<open>Value r v\<close> is the instruction that leaves the value \<open>v\<close> of such code
  in the register \<open>r\<close>. Debug locations, the names of blocks and values, the arguments of a function
  and generic functions are left out. The first pass makes no blocks.
\<close>

subsection \<open>Blocks and instructions\<close>

type_synonym bb = nat

datatype operand = Reg nat | Const_Bits nat

text \<open>\<open>Item i x\<close> is plain code over one operand, such as the store of an assignment. A slot is a
  variable the generator itself puts into the entry block.\<close>

datatype ('i, 'v) instr =
    Plain 'i
  | Value nat 'v
  | Item 'i operand
  | Slot_Store nat operand
  | Slot_Load nat nat
  | Add_Bits nat nat operand operand
  | Compare nat Predicate nat operand operand
  | Phi nat "(operand \<times> bb) list"
  | Br bb
  | CondBr operand bb bb
  | Ret_Void
  | Ret_Value operand

text \<open>A function under construction: its blocks in order, and the fields of its tree node.\<close>

record fndef =
  fn_blocks :: "bb list"
  ret_type :: "tokenid \<times> LType"
  retbb :: bb
  retslot :: "nat option"

text \<open>The builder and the generator's variables. \<open>loop_controls\<close> and \<open>label_map\<close> are global and
  outlive the function; the loop entered last is at the head. \<open>main_fn\<close> is set when the file is a
  script, whose statements go into \<open>main\<close>.\<close>

record ('i, 'v) builder =
  bb_code :: "bb \<Rightarrow> ('i, 'v) instr list"
  insert_bb :: bb
  next_bb :: bb
  next_reg :: nat
  next_slot :: nat
  loop_controls :: "(bb \<times> bb) list"
  label_map :: "(string \<times> bb) list"
  with_ret_value :: bool
  fns :: "nat \<Rightarrow> fndef"
  next_fn :: nat
  curr_fn :: "nat option"
  curr_fn_stack :: "nat option list"
  main_fn :: "nat option"
  main_bb :: bb

type_synonym ('i, 'v, 'a) build = "(('i, 'v) builder, 'a) action"

text \<open>What an expression leaves on the stack of operands: the value, its type and its LLVM type.\<close>

type_synonym ('i, 'v) walk = "('i, 'v, operand \<times> tokenid \<times> LType) build"

definition emit :: "('i, 'v) instr \<Rightarrow> ('i, 'v, unit) build" where
  "emit i = modifies (\<lambda>b. b\<lparr>bb_code := (bb_code b)(insert_bb b := bb_code b (insert_bb b) @ [i])\<rparr>)"

definition emits :: "('i, 'v) instr list \<Rightarrow> ('i, 'v, unit) build" where
  "emits is = modifies (\<lambda>b. b\<lparr>bb_code := (bb_code b)(insert_bb b := bb_code b (insert_bb b) @ is)\<rparr>)"

definition gen_bb :: "('i, 'v, bb) build" where
  "gen_bb = act (reads next_bb) (\<lambda>n. act (modifies (\<lambda>b. b\<lparr>next_bb := Suc n\<rparr>)) (\<lambda>_. ret n))"

definition add_block :: "bb \<Rightarrow> fndef \<Rightarrow> fndef" where
  "add_block n f = f\<lparr>fn_blocks := fn_blocks f @ [n]\<rparr>"

definition set_insert_point :: "bb \<Rightarrow> ('i, 'v, unit) build" where
  "set_insert_point n = modifies (\<lambda>b. b\<lparr>insert_bb := n\<rparr>)"

text \<open>\<open>curr_fn->getBasicBlockList().push_back(n)\<close>, and the block becomes the one to append to.\<close>

definition place :: "bb \<Rightarrow> ('i, 'v, unit) build" where
  "place n =
     act (reads curr_fn) (\<lambda>f.
     (case f of
        None \<Rightarrow> fail (Undefined ''no current function'')
      | Some f \<Rightarrow> act (modifies (\<lambda>b. b\<lparr>fns := (fns b)(f := add_block n (fns b f))\<rparr>)) (\<lambda>_. set_insert_point n)))"

text \<open>A block made inside \<open>curr_fn\<close>, or in no function when there is none.\<close>

definition gen_placed_bb :: "('i, 'v, unit) build" where
  "gen_placed_bb =
     act gen_bb (\<lambda>n.
     act (reads curr_fn) (\<lambda>f.
     (case f of None \<Rightarrow> set_insert_point n | Some _ \<Rightarrow> place n)))"

definition gen_reg :: "('i, 'v, nat) build" where
  "gen_reg = act (reads next_reg) (\<lambda>n. act (modifies (\<lambda>b. b\<lparr>next_reg := Suc n\<rparr>)) (\<lambda>_. ret n))"

definition gen_value :: "'v \<Rightarrow> ('i, 'v, operand) build" where
  "gen_value v = act gen_reg (\<lambda>r. act (emit (Value r v)) (\<lambda>_. ret (Reg r)))"

definition gen_entry_block_var :: "operand option \<Rightarrow> ('i, 'v, nat) build" where
  "gen_entry_block_var defval =
     act (reads next_slot) (\<lambda>n.
     act (modifies (\<lambda>b. b\<lparr>next_slot := Suc n\<rparr>)) (\<lambda>_.
     act (case defval of None \<Rightarrow> ret () | Some v \<Rightarrow> emit (Slot_Store n v)) (\<lambda>_. ret n)))"

text \<open>Outside a function the statement makes no code.\<close>

definition in_fn :: "('i, 'v, unit) build \<Rightarrow> ('i, 'v, unit) build" where
  "in_fn m = act (reads curr_fn) (\<lambda>f. if f \<noteq> None then m else ret ())"

text \<open>The node of the current function.\<close>

definition curr_fn_node :: "('i, 'v, fndef) build" where
  "curr_fn_node =
     act (reads curr_fn) (\<lambda>f.
     (case f of None \<Rightarrow> fail (Undefined ''no current function'') | Some f \<Rightarrow> reads (\<lambda>b. fns b f)))"

subsection \<open>The statements\<close>

definition walk_label :: "string \<Rightarrow> ('i, 'v, unit) build" where
  "walk_label name =
     in_fn
       (act (reads label_map) (\<lambda>labels.
        act (case map_of labels name of
               Some n \<Rightarrow> ret n
             | None \<Rightarrow> act gen_bb (\<lambda>n. act (modifies (\<lambda>b. b\<lparr>label_map := (name, n) # label_map b\<rparr>)) (\<lambda>_. ret n))) (\<lambda>n.
        act (emit (Br n)) (\<lambda>_. place n))))"

definition walk_label_goto :: "string \<Rightarrow> ('i, 'v, unit) build" where
  "walk_label_goto name =
     act (reads label_map) (\<lambda>labels.
     act (case map_of labels name of
            Some n \<Rightarrow> ret n
          | None \<Rightarrow> act gen_bb (\<lambda>n. act (modifies (\<lambda>b. b\<lparr>label_map := (name, n) # label_map b\<rparr>)) (\<lambda>_. ret n))) (\<lambda>n.
     act (emit (Br n)) (\<lambda>_. gen_placed_bb)))"

definition current_loop :: "('i, 'v, bb \<times> bb) build" where
  "current_loop =
     act (reads loop_controls) (\<lambda>ls.
     (case ls of [] \<Rightarrow> fail (Undefined ''no loop'') | l # _ \<Rightarrow> ret l))"

definition walk_break :: "('i, 'v, unit) build" where
  "walk_break = act current_loop (\<lambda>(condbb, outbb). act (emit (Br outbb)) (\<lambda>_. gen_placed_bb))"

definition walk_continue :: "('i, 'v, unit) build" where
  "walk_continue = act current_loop (\<lambda>(condbb, outbb). act (emit (Br condbb)) (\<lambda>_. gen_placed_bb))"

definition in_loop :: "bb \<Rightarrow> bb \<Rightarrow> ('i, 'v, unit) build \<Rightarrow> ('i, 'v, unit) build" where
  "in_loop condbb outbb body =
     act (modifies (\<lambda>b. b\<lparr>loop_controls := (condbb, outbb) # loop_controls b\<rparr>)) (\<lambda>_.
     act body (\<lambda>_.
     modifies (\<lambda>b. b\<lparr>loop_controls := tl (loop_controls b)\<rparr>)))"

definition walk_loop :: "('i, 'v, unit) build \<Rightarrow> ('i, 'v, unit) build" where
  "walk_loop body =
     in_fn
       (act gen_bb (\<lambda>loopbb.
        act gen_bb (\<lambda>endloopbb.
        act (emit (Br loopbb)) (\<lambda>_.
        act (place loopbb) (\<lambda>_.
        act (in_loop loopbb endloopbb body) (\<lambda>_.
        act (emit (Br loopbb)) (\<lambda>_.
        place endloopbb)))))))"

text \<open>A condition is walked to an operand and its type.\<close>

definition walk_condition :: "('i, 'v) walk \<Rightarrow> ('i, 'v, operand) build" where
  "walk_condition cond =
     act cond (\<lambda>(v, ty, lt).
     if ty \<noteq> BOOL
     then act (lift_result (get_type_string ty)) (\<lambda>_. fail (Exit ''condition only accept `bool` type, but find `%s`''))
     else ret v)"

definition walk_while ::
  "('i, 'v) walk \<Rightarrow> ('i, 'v, unit) build \<Rightarrow> ('i, 'v, unit) build" where
  "walk_while cond body =
     in_fn
       (act gen_bb (\<lambda>condbb.
        act gen_bb (\<lambda>whilebb.
        act gen_bb (\<lambda>endwhilebb.
        act (emit (Br condbb)) (\<lambda>_.
        act (place condbb) (\<lambda>_.
        act (walk_condition cond) (\<lambda>v.
        act (emit (CondBr v whilebb endwhilebb)) (\<lambda>_.
        act (place whilebb) (\<lambda>_.
        act (in_loop condbb endwhilebb body) (\<lambda>_.
        act (emit (Br condbb)) (\<lambda>_.
        place endwhilebb)))))))))))"

text \<open>What a \<open>for\<close> iterates over: an array of so many items, a range of items of an integer type, or
  another type.\<close>

datatype for_list = For_Array nat | For_Range tokenid bool | For_Other

fun aux_create_compare_value_for :: "for_list \<Rightarrow> (Predicate \<times> nat) result" where
  "aux_create_compare_value_for (For_Array n) = Inr (ICMP_ULT, 64)"
| "aux_create_compare_value_for (For_Range ty incl) =
     (if ty \<in> {I8, I16, I32, I64} then
        Inr (if incl then ICMP_SLE else ICMP_SLT, the (int_type_bits ty))
      else if ty \<in> {U8, U16, U32, U64} then
        Inr (if incl then ICMP_ULE else ICMP_ULT, the (int_type_bits ty))
      else Inl (Exit ''type `%s` not support step into next yet''))"
| "aux_create_compare_value_for For_Other =
     Inl (Exit ''currently only support iterate array and range type in for statement, but find `%s`'')"

text \<open>The code \<open>pre\<close> leaves the list; \<open>lo\<close> and \<open>hi\<close> are the two ends of a range, read from it.\<close>

definition for_bounds :: "for_list \<Rightarrow> 'v \<Rightarrow> 'v \<Rightarrow> ('i, 'v, operand \<times> operand) build" where
  "for_bounds list lo hi =
     (case list of
        For_Array n \<Rightarrow> ret (Const_Bits 0, Const_Bits n)
      | _ \<Rightarrow> act (gen_value lo) (\<lambda>beginv. act (gen_value hi) (\<lambda>endv. ret (beginv, endv))))"

definition walk_for ::
  "'i list \<Rightarrow> for_list \<Rightarrow> 'v \<Rightarrow> 'v \<Rightarrow> 'i \<Rightarrow> ('i, 'v, unit) build \<Rightarrow> ('i, 'v, unit) build" where
  "walk_for pre list lo hi copy_item body =
     in_fn
       (act gen_bb (\<lambda>condbb.
        act gen_bb (\<lambda>loopbb.
        act gen_bb (\<lambda>endloopbb.
        act (emits (map Plain pre)) (\<lambda>_.
        act (lift_result (aux_create_compare_value_for list)) (\<lambda>(pred, bits).
        act (for_bounds list lo hi) (\<lambda>(begin_cond_v, end_cond_v).
        act (gen_entry_block_var (Some begin_cond_v)) (\<lambda>indexvslot.
        act (emit (Br condbb)) (\<lambda>_.
        act (place condbb) (\<lambda>_.
        act gen_reg (\<lambda>indexv.
        act (emit (Slot_Load indexv indexvslot)) (\<lambda>_.
        act gen_reg (\<lambda>ltv.
        act (emit (Compare ltv pred bits (Reg indexv) end_cond_v)) (\<lambda>_.
        act (emit (CondBr (Reg ltv) loopbb endloopbb)) (\<lambda>_.
        act (place loopbb) (\<lambda>_.
        act (emit (Item copy_item (Reg indexv))) (\<lambda>_.
        act gen_reg (\<lambda>indexloadv.
        act (emit (Slot_Load indexloadv indexvslot)) (\<lambda>_.
        act gen_reg (\<lambda>incv.
        act (emit (Add_Bits incv bits (Reg indexloadv) (Const_Bits 1))) (\<lambda>_.
        act (emit (Slot_Store indexvslot (Reg incv))) (\<lambda>_.
        act (in_loop condbb endloopbb body) (\<lambda>_.
        act (emit (Br condbb)) (\<lambda>_.
        place endloopbb))))))))))))))))))))))))"

text \<open>\<open>ife\<close> as an expression keeps its value in a slot, which is loaded when the value is popped.\<close>

definition walk_if_common ::
  "('i, 'v) walk \<Rightarrow> ('i, 'v) walk \<Rightarrow>
   ('i, 'v) walk \<Rightarrow> ('i, 'v) walk" where
  "walk_if_common cond first remain =
     act (gen_entry_block_var None) (\<lambda>tmpc.
     act gen_bb (\<lambda>thenbb.
     act gen_bb (\<lambda>outbb.
     act (walk_condition cond) (\<lambda>v.
     act gen_bb (\<lambda>elsebb.
     act (emit (CondBr v thenbb elsebb)) (\<lambda>_.
     act (place thenbb) (\<lambda>_.
     act first (\<lambda>(v1, tt1, lt1).
     act (emit (Slot_Store tmpc v1)) (\<lambda>_.
     act (emit (Br outbb)) (\<lambda>_.
     act (place elsebb) (\<lambda>_.
     act remain (\<lambda>(v2, tt2, lt2).
     act (emit (Slot_Store tmpc v2)) (\<lambda>_.
     act (emit (Br outbb)) (\<lambda>_.
     act (place outbb) (\<lambda>_.
     if tt1 \<noteq> tt2 then fail (Exit ''expression type not equal in if ... else ... expression'')
     else act gen_reg (\<lambda>r. act (emit (Slot_Load r tmpc)) (\<lambda>_. ret (Reg r, tt1, LT_Int 32))))))))))))))))))"

text \<open>The blocks of a chain of conditions: where to go on when one is false, and its body.\<close>

fun gen_if_bbs :: "nat \<Rightarrow> ('i, 'v, (bb \<times> bb) list) build" where
  "gen_if_bbs 0 = ret []"
| "gen_if_bbs (Suc n) =
     act gen_bb (\<lambda>condbb. act gen_bb (\<lambda>bodybb. act (gen_if_bbs n) (\<lambda>bbs. ret ((condbb, bodybb) # bbs))))"

fun walk_if_conds ::
  "(('i, 'v) walk) list \<Rightarrow> (bb \<times> bb) list \<Rightarrow> ('i, 'v, unit) build" where
  "walk_if_conds (c # cs) ((condbb, bodybb) # bbs) =
     act (walk_condition c) (\<lambda>v.
     act (emit (CondBr v bodybb condbb)) (\<lambda>_.
     act (place condbb) (\<lambda>_.
     walk_if_conds cs bbs)))"
| "walk_if_conds _ _ = ret ()"

fun walk_if_bodies :: "(('i, 'v, unit) build) list \<Rightarrow> bb list \<Rightarrow> bb \<Rightarrow> ('i, 'v, unit) build" where
  "walk_if_bodies (s # ss) (bodybb # bbs) outbb =
     act (place bodybb) (\<lambda>_.
     act s (\<lambda>_.
     act (emit (Br outbb)) (\<lambda>_.
     walk_if_bodies ss bbs outbb)))"
| "walk_if_bodies _ _ _ = ret ()"

definition walk_if_common2 ::
  "(('i, 'v) walk) list \<Rightarrow> (('i, 'v, unit) build) list \<Rightarrow> ('i, 'v, unit) build option \<Rightarrow>
   ('i, 'v, unit) build" where
  "walk_if_common2 conds bodies remain =
     in_fn
       (act gen_bb (\<lambda>outbb.
        act (gen_if_bbs (length conds)) (\<lambda>bbs.
        act (case remain of None \<Rightarrow> ret outbb | Some _ \<Rightarrow> gen_bb) (\<lambda>restbb.
        act (walk_if_conds conds bbs) (\<lambda>_.
        act (emit (Br restbb)) (\<lambda>_.
        act (walk_if_bodies bodies (map snd bbs) outbb) (\<lambda>_.
        act (case remain of None \<Rightarrow> ret () | Some s \<Rightarrow> walk_if_bodies [s] [restbb] outbb) (\<lambda>_.
        place outbb))))))))"

definition walk_expr_landor ::
  "bool \<Rightarrow> ('i, 'v) walk \<Rightarrow> ('i, 'v) walk \<Rightarrow>
   ('i, 'v) walk" where
  "walk_expr_landor isand e1 e2 =
     act e1 (\<lambda>(v1, dt1, lt1).
     act gen_bb (\<lambda>thenbb.
     act gen_bb (\<lambda>outbb.
     act (reads insert_bb) (\<lambda>v1bb.
     act (emit (CondBr v1 (if isand then thenbb else outbb) (if isand then outbb else thenbb))) (\<lambda>_.
     act (place thenbb) (\<lambda>_.
     act e2 (\<lambda>(v2, _).
     act (reads insert_bb) (\<lambda>v2bb.
     act (emit (Br outbb)) (\<lambda>_.
     act (place outbb) (\<lambda>_.
     act gen_reg (\<lambda>r.
     act (emit (Phi r [(v2, v2bb), (v1, v1bb)])) (\<lambda>_.
     ret (Reg r, dt1, LT_Int 1)))))))))))))"

text \<open>The LLVM type of the value is compared with the one of the function.\<close>

definition walk_ret :: "('i, 'v) walk option \<Rightarrow> ('i, 'v, unit) build" where
  "walk_ret expr =
     act curr_fn_node (\<lambda>node.
     act (case expr of
            Some e \<Rightarrow>
              act e (\<lambda>(v, ty, lt).
              if snd (ret_type node) \<noteq> lt
              then fail (Exit ''return value `%s` type `%s` not match function type `%s`'')
              else (case retslot node of
                      None \<Rightarrow> fail (Undefined ''store to a null slot'')
                    | Some n \<Rightarrow> emit (Slot_Store n v)))
          | None \<Rightarrow>
              if snd (ret_type node) \<noteq> LT_Void
              then fail (Exit ''void type function, cannot return a valued'') else ret ()) (\<lambda>_.
     act (emit (Br (retbb node))) (\<lambda>_.
     act gen_placed_bb (\<lambda>_.
     modifies (\<lambda>b. b\<lparr>with_ret_value := True\<rparr>)))))"

fun walk_stmtlist :: "(('i, 'v, unit) build) list \<Rightarrow> ('i, 'v, unit) build" where
  "walk_stmtlist [] = ret ()"
| "walk_stmtlist (s # ss) = act s (\<lambda>_. walk_stmtlist ss)"

subsection \<open>A function\<close>

definition generate_final_return :: "('i, 'v, unit) build" where
  "generate_final_return =
     act curr_fn_node (\<lambda>node.
     if fst (ret_type node) = VOID then emit Ret_Void
     else
       act (reads with_ret_value) (\<lambda>with_ret.
       if with_ret then
         (case retslot node of
            None \<Rightarrow> fail (Undefined ''load of a null slot'')
          | Some n \<Rightarrow> act gen_reg (\<lambda>r. act (emit (Slot_Load r n)) (\<lambda>_. emit (Ret_Value (Reg r)))))
       else
         act (reads main_fn) (\<lambda>main.
         if main = None then fail (Exit ''There is no return value in function `%s`'')
         else
           act (lift_result (create_default_integer_value (fst (ret_type node)) 0)) (\<lambda>v.
           (case v of
              Some (V_Const_Int bits i) \<Rightarrow> emit (Ret_Value (Const_Bits (nat i)))
            | _ \<Rightarrow> fail (Undefined ''null return value''))))))"

text \<open>A new function; its node has no block, return block or slot yet.\<close>

definition new_fn :: "tokenid \<times> LType \<Rightarrow> ('i, 'v, nat) build" where
  "new_fn rt =
     act (reads next_fn) (\<lambda>f.
     act (modifies (\<lambda>b. b\<lparr>next_fn := Suc f, fns := (fns b)(f := \<lparr>fn_blocks = [], ret_type = rt, retbb = 0, retslot = None\<rparr>)\<rparr>)) (\<lambda>_.
     ret f))"

definition set_retbb :: "nat \<Rightarrow> bb \<Rightarrow> ('i, 'v, unit) build" where
  "set_retbb f n = modifies (\<lambda>b. b\<lparr>fns := (fns b)(f := (fns b f)\<lparr>retbb := n\<rparr>)\<rparr>)"

definition set_retslot :: "nat \<Rightarrow> nat option \<Rightarrow> ('i, 'v, unit) build" where
  "set_retslot f n = modifies (\<lambda>b. b\<lparr>fns := (fns b)(f := (fns b f)\<lparr>retslot := n\<rparr>)\<rparr>)"

text \<open>In a script the builder always goes back to the entry block of \<open>main\<close>.\<close>

definition leave_fn :: "bb \<Rightarrow> ('i, 'v, unit) build" where
  "leave_fn saved_insert_bb =
     act (reads main_fn) (\<lambda>main.
     if main \<noteq> None
     then modifies (\<lambda>b. b\<lparr>insert_bb := main_bb b, curr_fn := main\<rparr>)
     else modifies (\<lambda>b. b\<lparr>insert_bb := saved_insert_bb, curr_fn := hd (curr_fn_stack b), curr_fn_stack := tl (curr_fn_stack b)\<rparr>))"

definition walk_fn_define :: "tokenid \<times> LType \<Rightarrow> ('i, 'v, unit) build \<Rightarrow> ('i, 'v, unit) build" where
  "walk_fn_define retdt stmts =
     act (modifies (\<lambda>b. b\<lparr>with_ret_value := False\<rparr>)) (\<lambda>_.
     act (new_fn retdt) (\<lambda>f.
     act (modifies (\<lambda>b. b\<lparr>curr_fn_stack := curr_fn b # curr_fn_stack b, curr_fn := Some f\<rparr>)) (\<lambda>_.
     act (reads insert_bb) (\<lambda>saved_insert_bb.
     act gen_bb (\<lambda>rbb.
     act (set_retbb f rbb) (\<lambda>_.
     act gen_placed_bb (\<lambda>_.
     act (if fst retdt \<noteq> VOID then act (gen_entry_block_var None) (\<lambda>n. set_retslot f (Some n))
          else set_retslot f None) (\<lambda>_.
     act stmts (\<lambda>_.
     act (emit (Br rbb)) (\<lambda>_.
     act (place rbb) (\<lambda>_.
     act generate_final_return (\<lambda>_.
     leave_fn saved_insert_bb))))))))))))"

text \<open>The parts of \<open>llvm_codegen_begin\<close> and \<open>llvm_codegen_end\<close> that make \<open>main\<close>, for a script.\<close>

definition begin_main :: "('i, 'v, unit) build" where
  "begin_main =
     act (new_fn (I32, LT_Int 32)) (\<lambda>f.
     act (modifies (\<lambda>b. b\<lparr>main_fn := Some f, curr_fn := Some f\<rparr>)) (\<lambda>_.
     act gen_bb (\<lambda>n.
     act (place n) (\<lambda>_.
     act (modifies (\<lambda>b. b\<lparr>main_bb := n\<rparr>)) (\<lambda>_.
     act gen_bb (\<lambda>rbb.
     act (set_retbb f rbb) (\<lambda>_.
     act (gen_entry_block_var (Some (Const_Bits 0))) (\<lambda>slot. set_retslot f (Some slot)))))))))"

definition end_main :: "('i, 'v, unit) build" where
  "end_main =
     act (reads main_fn) (\<lambda>main.
     (case main of
        None \<Rightarrow> ret ()
      | Some f \<Rightarrow>
          act (reads (\<lambda>b. fns b f)) (\<lambda>node.
          act (emit (Br (retbb node))) (\<lambda>_.
          act (modifies (\<lambda>b. b\<lparr>fns := (fns b)(f := add_block (retbb node) (fns b f)), insert_bb := retbb node\<rparr>)) (\<lambda>_.
          (case retslot node of
             None \<Rightarrow> fail (Undefined ''load of a null slot'')
           | Some n \<Rightarrow> act gen_reg (\<lambda>r. act (emit (Slot_Load r n)) (\<lambda>_. emit (Ret_Value (Reg r))))))))))"

subsection \<open>Walking a tree\<close>

datatype ('i, 'v) expr =
    E_Plain "'i list" 'v "tokenid \<times> LType"
  | E_Land "('i, 'v) expr" "('i, 'v) expr"
  | E_Lor "('i, 'v) expr" "('i, 'v) expr"
  | E_Ife "('i, 'v) expr" "('i, 'v) expr" "('i, 'v) expr"

datatype ('i, 'v) stmt =
    S_Plain "'i list"
  | S_Assign "('i, 'v) expr" 'i
  | S_List "('i, 'v) stmt list"
  | S_Loop "('i, 'v) stmt"
  | S_While "('i, 'v) expr" "('i, 'v) stmt"
  | S_For "'i list" for_list 'v 'v 'i "('i, 'v) stmt"
  | S_If "('i, 'v) expr list" "('i, 'v) stmt list" "('i, 'v) stmt option"
  | S_Break
  | S_Continue
  | S_Ret "('i, 'v) expr option"
  | S_Label string
  | S_Goto string
  | S_Fn "tokenid \<times> LType" "('i, 'v) stmt"

primrec walk_expr :: "('i, 'v) expr \<Rightarrow> ('i, 'v) walk" where
  "walk_expr (E_Plain is v ty) = act (emits (map Plain is)) (\<lambda>_. act (gen_value v) (\<lambda>x. ret (x, ty)))"
| "walk_expr (E_Land e1 e2) = walk_expr_landor True (walk_expr e1) (walk_expr e2)"
| "walk_expr (E_Lor e1 e2) = walk_expr_landor False (walk_expr e1) (walk_expr e2)"
| "walk_expr (E_Ife e e1 e2) = walk_if_common (walk_expr e) (walk_expr e1) (walk_expr e2)"

primrec walk_stack :: "('i, 'v) stmt \<Rightarrow> ('i, 'v, unit) build" where
  "walk_stack (S_Plain is) = emits (map Plain is)"
| "walk_stack (S_Assign e i) = act (walk_expr e) (\<lambda>(v, _, _). emit (Item i v))"
| "walk_stack (S_List ss) = walk_stmtlist (map walk_stack ss)"
| "walk_stack (S_Loop s) = walk_loop (walk_stack s)"
| "walk_stack (S_While e s) = walk_while (walk_expr e) (walk_stack s)"
| "walk_stack (S_For pre list lo hi copy_item s) =
     walk_for pre list lo hi copy_item (walk_stack s)"
| "walk_stack (S_If es ss rest) = walk_if_common2 (map walk_expr es) (map walk_stack ss) (map_option walk_stack rest)"
| "walk_stack S_Break = walk_break"
| "walk_stack S_Continue = walk_continue"
| "walk_stack (S_Ret e) = walk_ret (map_option walk_expr e)"
| "walk_stack (S_Label name) = walk_label name"
| "walk_stack (S_Goto name) = walk_label_goto name"
| "walk_stack (S_Fn retdt s) = walk_fn_define retdt (walk_stack s)"

end
