(* ===== verification/Control_Sem.thy ===== *)
theory Control_Sem
  imports Control_Flow
begin

section \<open>What the control flow of a program means, before and after translation\<close>

text \<open>
  The meaning of the basic blocks as steps of a machine, with LLVM's documented rules as a locale,
  and the meaning of the statements as a big-step relation. The plain code, its values and the
  store they work on are parameters of both.
\<close>

subsection \<open>Running basic blocks\<close>

record ('i, 'v, 's) plain_sem =
  run_plain :: "'i \<Rightarrow> 's \<Rightarrow> 's option"
  value_of :: "'v \<Rightarrow> 's \<Rightarrow> nat"
  run_item :: "'i \<Rightarrow> nat \<Rightarrow> 's \<Rightarrow> 's option"

text \<open>The block run before, the block and the place in it, the registers, the slots, the store.\<close>

record 's config =
  from_bb :: bb
  at_bb :: bb
  pc :: nat
  regs :: "nat \<Rightarrow> nat"
  slots :: "nat \<Rightarrow> nat option"
  store :: 's

type_synonym ('i, 'v) code = "bb \<Rightarrow> ('i, 'v) instr list"

definition fetch :: "('i, 'v) code \<Rightarrow> 's config \<Rightarrow> ('i, 'v) instr option" where
  "fetch C x = (if pc x < length (C (at_bb x)) then Some (C (at_bb x) ! pc x) else None)"

fun operand_value :: "'s config \<Rightarrow> operand \<Rightarrow> nat" where
  "operand_value x (Reg r) = regs x r"
| "operand_value x (Const_Bits n) = n"

fun int_compare :: "Predicate \<Rightarrow> nat \<Rightarrow> nat \<Rightarrow> nat \<Rightarrow> bool" where
  "int_compare ICMP_SLT w a b = (sval w a < sval w b)"
| "int_compare ICMP_SLE w a b = (sval w a \<le> sval w b)"
| "int_compare ICMP_ULT w a b = (a < b)"
| "int_compare ICMP_ULE w a b = (a \<le> b)"
| "int_compare _ w a b = False"

definition next_pc :: "'s config \<Rightarrow> 's config" where
  "next_pc x = x\<lparr>pc := Suc (pc x)\<rparr>"

definition set_reg :: "nat \<Rightarrow> nat \<Rightarrow> 's config \<Rightarrow> 's config" where
  "set_reg r n x = x\<lparr>pc := Suc (pc x), regs := (regs x)(r := n)\<rparr>"

definition set_slot :: "nat \<Rightarrow> nat \<Rightarrow> 's config \<Rightarrow> 's config" where
  "set_slot r n x = x\<lparr>pc := Suc (pc x), slots := (slots x)(r := Some n)\<rparr>"

definition set_store :: "'s \<Rightarrow> 's config \<Rightarrow> 's config" where
  "set_store s x = x\<lparr>pc := Suc (pc x), store := s\<rparr>"

definition jump :: "bb \<Rightarrow> 's config \<Rightarrow> 's config" where
  "jump n x = x\<lparr>from_bb := at_bb x, at_bb := n, pc := 0\<rparr>"

lemmas config_moves = next_pc_def set_reg_def set_slot_def set_store_def jump_def

text \<open>The rules of the LLVM language reference the generator relies on.\<close>

locale llvm_machine =
  fixes S :: "('i, 'v, 's) plain_sem"
    and step :: "('i, 'v) code \<Rightarrow> 's config \<Rightarrow> 's config \<Rightarrow> bool"
  assumes plain: "fetch C x = Some (Plain i) \<Longrightarrow> run_plain S i (store x) = Some s \<Longrightarrow> step C x (set_store s x)"
    and val: "fetch C x = Some (Value r v) \<Longrightarrow> step C x (set_reg r (value_of S v (store x)) x)"
    and item: "fetch C x = Some (Item i a) \<Longrightarrow> run_item S i (operand_value x a) (store x) = Some s \<Longrightarrow>
      step C x (set_store s x)"
    and slot_store: "fetch C x = Some (Slot_Store n a) \<Longrightarrow> step C x (set_slot n (operand_value x a) x)"
    and slot_load: "fetch C x = Some (Slot_Load r n) \<Longrightarrow> slots x n = Some k \<Longrightarrow> step C x (set_reg r k x)"
    and add_bits: "fetch C x = Some (Add_Bits r w a c) \<Longrightarrow>
      step C x (set_reg r ((operand_value x a + operand_value x c) mod 2 ^ w) x)"
    and compare: "fetch C x = Some (Compare r p w a c) \<Longrightarrow>
      step C x (set_reg r (of_bool (int_compare p w (operand_value x a) (operand_value x c))) x)"
    and phi: "fetch C x = Some (Phi r ins) \<Longrightarrow> map_of (map prod.swap ins) (from_bb x) = Some a \<Longrightarrow>
      step C x (set_reg r (operand_value x a) x)"
    and br: "fetch C x = Some (Br n) \<Longrightarrow> step C x (jump n x)"
    and cond_br: "fetch C x = Some (CondBr a n m) \<Longrightarrow>
      step C x (jump (if operand_value x a \<noteq> 0 then n else m) x)"

text \<open>The smallest such machine.\<close>

inductive llvm_step ::
  "('i, 'v, 's) plain_sem \<Rightarrow> ('i, 'v) code \<Rightarrow> 's config \<Rightarrow> 's config \<Rightarrow> bool"
  for S :: "('i, 'v, 's) plain_sem" and C :: "('i, 'v) code" and x :: "'s config" where
  Plain: "fetch C x = Some (Plain i) \<Longrightarrow> run_plain S i (store x) = Some s \<Longrightarrow> llvm_step S C x (set_store s x)"
| Value: "fetch C x = Some (Value r v) \<Longrightarrow> llvm_step S C x (set_reg r (value_of S v (store x)) x)"
| Item: "fetch C x = Some (Item i a) \<Longrightarrow> run_item S i (operand_value x a) (store x) = Some s \<Longrightarrow>
    llvm_step S C x (set_store s x)"
| Slot_Store: "fetch C x = Some (Slot_Store n a) \<Longrightarrow> llvm_step S C x (set_slot n (operand_value x a) x)"
| Slot_Load: "fetch C x = Some (Slot_Load r n) \<Longrightarrow> slots x n = Some k \<Longrightarrow> llvm_step S C x (set_reg r k x)"
| Add_Bits: "fetch C x = Some (Add_Bits r w a c) \<Longrightarrow>
    llvm_step S C x (set_reg r ((operand_value x a + operand_value x c) mod 2 ^ w) x)"
| Compare: "fetch C x = Some (Compare r p w a c) \<Longrightarrow>
    llvm_step S C x (set_reg r (of_bool (int_compare p w (operand_value x a) (operand_value x c))) x)"
| Phi: "fetch C x = Some (Phi r ins) \<Longrightarrow> map_of (map prod.swap ins) (from_bb x) = Some a \<Longrightarrow>
    llvm_step S C x (set_reg r (operand_value x a) x)"
| Br: "fetch C x = Some (Br n) \<Longrightarrow> llvm_step S C x (jump n x)"
| CondBr: "fetch C x = Some (CondBr a n m) \<Longrightarrow>
    llvm_step S C x (jump (if operand_value x a \<noteq> 0 then n else m) x)"

interpretation llvm: llvm_machine S "llvm_step S" for S
  by unfold_locales (rule llvm_step.intros; assumption)+

lemma llvm_step_deterministic:
  assumes "llvm_step S C x y" "llvm_step S C x z"
  shows "y = z"
  using assms by (auto elim!: llvm_step.cases)

subsection \<open>What the statements mean\<close>

fun run_plains :: "('i, 'v, 's) plain_sem \<Rightarrow> 'i list \<Rightarrow> 's \<Rightarrow> 's option" where
  "run_plains S [] s = Some s"
| "run_plains S (i # is) s = (case run_plain S i s of None \<Rightarrow> None | Some s' \<Rightarrow> run_plains S is s')"

text \<open>The value of an expression and the store after it; \<open>&&\<close> and \<open>||\<close> stop at the first operand
  that decides.\<close>

primrec eval_expr :: "('i, 'v, 's) plain_sem \<Rightarrow> ('i, 'v) expr \<Rightarrow> 's \<Rightarrow> (nat \<times> 's) option" where
  "eval_expr S (E_Plain is v ty) s = map_option (\<lambda>s'. (value_of S v s', s')) (run_plains S is s)"
| "eval_expr S (E_Land e1 e2) s =
     (case eval_expr S e1 s of
        None \<Rightarrow> None
      | Some (v, s') \<Rightarrow> if v \<noteq> 0 then eval_expr S e2 s' else Some (v, s'))"
| "eval_expr S (E_Lor e1 e2) s =
     (case eval_expr S e1 s of
        None \<Rightarrow> None
      | Some (v, s') \<Rightarrow> if v \<noteq> 0 then Some (v, s') else eval_expr S e2 s')"
| "eval_expr S (E_Ife e e1 e2) s =
     (case eval_expr S e s of
        None \<Rightarrow> None
      | Some (v, s') \<Rightarrow> if v \<noteq> 0 then eval_expr S e1 s' else eval_expr S e2 s')"

text \<open>The first condition that is true, or their number.\<close>

fun first_true :: "('i, 'v, 's) plain_sem \<Rightarrow> ('i, 'v) expr list \<Rightarrow> 's \<Rightarrow> (nat \<times> 's) option" where
  "first_true S [] s = Some (0, s)"
| "first_true S (e # es) s =
     (case eval_expr S e s of
        None \<Rightarrow> None
      | Some (v, s') \<Rightarrow>
          if v \<noteq> 0 then Some (0, s') else map_option (\<lambda>(k, s''). (Suc k, s'')) (first_true S es s'))"

text \<open>The items of a range as whole numbers, in the bits of the type.\<close>

definition range_items :: "tokenid \<Rightarrow> bool \<Rightarrow> nat \<Rightarrow> nat \<Rightarrow> nat list" where
  "range_items ty incl lo hi =
     (let w = the (int_type_bits ty);
          ends = (if incl then int_value ty w hi else int_value ty w hi - 1)
      in map (\<lambda>i. nat (i mod 2 ^ w)) [int_value ty w lo .. ends])"

fun for_items :: "for_list \<Rightarrow> nat \<Rightarrow> nat \<Rightarrow> nat list" where
  "for_items (For_Array n) lo hi = [0..<n]"
| "for_items (For_Range ty incl) lo hi = range_items ty incl lo hi"
| "for_items For_Other lo hi = []"

datatype outcome = Normal | Breaks | Continues | Returns "nat option"

fun eval_return :: "('i, 'v, 's) plain_sem \<Rightarrow> ('i, 'v) expr option \<Rightarrow> 's \<Rightarrow> (nat option \<times> 's) option" where
  "eval_return S None s = Some (None, s)"
| "eval_return S (Some e) s = map_option (\<lambda>(v, s'). (Some v, s')) (eval_expr S e s)"

definition chosen :: "('i, 'v) stmt list \<Rightarrow> ('i, 'v) stmt option \<Rightarrow> nat \<Rightarrow> ('i, 'v) stmt option" where
  "chosen ss rest k = (if k < length ss then Some (ss ! k) else rest)"

inductive big_step ::
  "('i, 'v, 's) plain_sem \<Rightarrow> ('i, 'v) stmt \<Rightarrow> 's \<Rightarrow> outcome \<Rightarrow> 's \<Rightarrow> bool"
  and big_items ::
  "('i, 'v, 's) plain_sem \<Rightarrow> 'i \<Rightarrow> ('i, 'v) stmt \<Rightarrow> nat list \<Rightarrow> 's \<Rightarrow> outcome \<Rightarrow> 's \<Rightarrow> bool"
  for S :: "('i, 'v, 's) plain_sem" where
  Plain: "run_plains S is s = Some s' \<Longrightarrow> big_step S (S_Plain is) s Normal s'"
| Assign: "eval_expr S e s = Some (v, s1) \<Longrightarrow> run_item S i v s1 = Some s' \<Longrightarrow>
    big_step S (S_Assign e i) s Normal s'"
| Nil: "big_step S (S_List []) s Normal s"
| Cons: "big_step S c s Normal s1 \<Longrightarrow> big_step S (S_List cs) s1 r s' \<Longrightarrow> big_step S (S_List (c # cs)) s r s'"
| Cons_stop: "big_step S c s r s' \<Longrightarrow> r \<noteq> Normal \<Longrightarrow> big_step S (S_List (c # cs)) s r s'"
| Loop_again: "big_step S c s r s1 \<Longrightarrow> r \<in> {Normal, Continues} \<Longrightarrow> big_step S (S_Loop c) s1 r' s' \<Longrightarrow>
    big_step S (S_Loop c) s r' s'"
| Loop_break: "big_step S c s Breaks s' \<Longrightarrow> big_step S (S_Loop c) s Normal s'"
| Loop_return: "big_step S c s (Returns v) s' \<Longrightarrow> big_step S (S_Loop c) s (Returns v) s'"
| While_false: "eval_expr S e s = Some (0, s') \<Longrightarrow> big_step S (S_While e c) s Normal s'"
| While_again: "eval_expr S e s = Some (v, s1) \<Longrightarrow> v \<noteq> 0 \<Longrightarrow> big_step S c s1 r s2 \<Longrightarrow>
    r \<in> {Normal, Continues} \<Longrightarrow> big_step S (S_While e c) s2 r' s' \<Longrightarrow> big_step S (S_While e c) s r' s'"
| While_break: "eval_expr S e s = Some (v, s1) \<Longrightarrow> v \<noteq> 0 \<Longrightarrow> big_step S c s1 Breaks s' \<Longrightarrow>
    big_step S (S_While e c) s Normal s'"
| While_return: "eval_expr S e s = Some (v, s1) \<Longrightarrow> v \<noteq> 0 \<Longrightarrow> big_step S c s1 (Returns k) s' \<Longrightarrow>
    big_step S (S_While e c) s (Returns k) s'"
| For: "run_plains S pre s = Some s1 \<Longrightarrow>
    big_items S i c (for_items l (value_of S lo s1) (value_of S hi s1)) s1 r s' \<Longrightarrow>
    big_step S (S_For pre l lo hi i c) s r s'"
| If: "first_true S es s = Some (k, s1) \<Longrightarrow> chosen ss rest k = Some c \<Longrightarrow> big_step S c s1 r s' \<Longrightarrow>
    big_step S (S_If es ss rest) s r s'"
| If_none: "first_true S es s = Some (k, s') \<Longrightarrow> chosen ss rest k = None \<Longrightarrow>
    big_step S (S_If es ss rest) s Normal s'"
| Break: "big_step S S_Break s Breaks s"
| Continue: "big_step S S_Continue s Continues s"
| Ret: "eval_return S e s = Some (v, s') \<Longrightarrow> big_step S (S_Ret e) s (Returns v) s'"
| No_items: "big_items S i c [] s Normal s"
| Items_again: "run_item S i k s = Some s1 \<Longrightarrow> big_step S c s1 r s2 \<Longrightarrow> r \<in> {Normal, Continues} \<Longrightarrow>
    big_items S i c ks s2 r' s' \<Longrightarrow> big_items S i c (k # ks) s r' s'"
| Items_break: "run_item S i k s = Some s1 \<Longrightarrow> big_step S c s1 Breaks s' \<Longrightarrow>
    big_items S i c (k # ks) s Normal s'"
| Items_return: "run_item S i k s = Some s1 \<Longrightarrow> big_step S c s1 (Returns v) s' \<Longrightarrow>
    big_items S i c (k # ks) s (Returns v) s'"

end
