(* ===== verification/Control_Sim.thy ===== *)
theory Control_Sim
  imports Control_Sem "HOL-Library.Sublist"
begin

section \<open>The basic blocks do what the statements mean\<close>

text \<open>
  First what walking a statement does to the builder: code is only appended, blocks made before are
  left alone but for the one appended to, and the loops around are restored. Then the simulation:
  the code of a statement, from the place where it starts, does what the big-step relation says.
  It is for statements without labels, \<open>goto\<close> and inner functions, whose properties come last.
\<close>

subsection \<open>What walking does to the builder\<close>

text \<open>An action that keeps \<open>P\<close>, with a result in \<open>R\<close>.\<close>

definition yields :: "('s \<Rightarrow> bool) \<Rightarrow> ('s, 'a) action \<Rightarrow> ('a \<Rightarrow> bool) \<Rightarrow> bool" where
  "yields P m R \<longleftrightarrow> (\<forall>s x s'. P s \<longrightarrow> m s = Inr (x, s') \<longrightarrow> P s' \<and> R x)"

lemma yieldsD: "yields P m R \<Longrightarrow> m s = Inr (x, s') \<Longrightarrow> P s \<Longrightarrow> P s' \<and> R x"
  unfolding yields_def by blast

lemma yields_act: "yields P m R \<Longrightarrow> (\<And>x. R x \<Longrightarrow> yields P (f x) Q) \<Longrightarrow> yields P (act m f) Q"
  unfolding yields_def act_Inr_iff by blast

lemma yields_ret: "R x \<Longrightarrow> yields P (ret x) R"
  by (simp add: yields_def)

lemma yields_simple:
  "yields P (reads g) (\<lambda>_. True)" "yields P (fail e) R" "yields P (lift_result r) (\<lambda>_. True)"
  by (auto simp: yields_def lift_result_Inr_iff)

lemma yields_modifies: "(\<And>s. P s \<Longrightarrow> P (g s)) \<Longrightarrow> yields P (modifies g) (\<lambda>_. True)"
  by (simp add: yields_def)

lemma yields_if: "(c \<Longrightarrow> yields P m R) \<Longrightarrow> (\<not> c \<Longrightarrow> yields P m' R) \<Longrightarrow> yields P (if c then m else m') R"
  by simp

lemma yields_prod: "(\<And>x y. yields P (f x y) R) \<Longrightarrow> yields P (case p of (x, y) \<Rightarrow> f x y) R"
  by (cases p) simp

lemma yields_option:
  "yields P m R \<Longrightarrow> (\<And>x. yields P (f x) R) \<Longrightarrow> yields P (case opt of None \<Rightarrow> m | Some x \<Rightarrow> f x) R"
  by (cases opt) simp_all

lemma yields_weaken: "yields P m R \<Longrightarrow> yields P m (\<lambda>_. True)"
  unfolding yields_def by blast

text \<open>From \<open>b0\<close>, when the blocks from \<open>k\<close> on were not made yet and \<open>i\<close> was the block to append to,
  with \<open>ls\<close> the loops around; the blocks \<open>N\<close> are made.\<close>

definition grown ::
  "bb \<Rightarrow> bb \<Rightarrow> ('i, 'v) builder \<Rightarrow> (bb \<times> bb) list \<Rightarrow> bb set \<Rightarrow> ('i, 'v) builder \<Rightarrow> bool" where
  "grown k i b0 ls N b \<longleftrightarrow>
     k \<le> next_bb b \<and> (insert_bb b = i \<or> k \<le> insert_bb b) \<and> insert_bb b < next_bb b \<and>
     (\<forall>n\<in>N. n < next_bb b) \<and>
     (\<forall>n. prefix (bb_code b0 n) (bb_code b n)) \<and>
     (\<forall>n<k. n \<noteq> i \<longrightarrow> bb_code b n = bb_code b0 n) \<and>
     (\<forall>n\<ge>next_bb b. bb_code b n = []) \<and>
     next_reg b0 \<le> next_reg b \<and> next_slot b0 \<le> next_slot b \<and>
     loop_controls b = ls \<and> curr_fn b = curr_fn b0 \<and> main_fn b = main_fn b0 \<and>
     (\<forall>f. retbb (fns b f) = retbb (fns b0 f) \<and> retslot (fns b f) = retslot (fns b0 f) \<and>
          ret_type (fns b f) = ret_type (fns b0 f))"

lemma grown_mono: "grown k i b0 ls N b \<Longrightarrow> N' \<subseteq> N \<Longrightarrow> grown k i b0 ls N' b"
  unfolding grown_def by blast

lemma grown_emit: "yields (grown k i b0 ls N) (emit x) (\<lambda>_. True)"
  unfolding emit_def by (rule yields_modifies) (auto simp: grown_def intro: prefix_prefix)

lemma grown_emits: "yields (grown k i b0 ls N) (emits xs) (\<lambda>_. True)"
  unfolding emits_def by (rule yields_modifies) (auto simp: grown_def intro: prefix_prefix)

lemma gen_bb_run: "gen_bb b = Inr (next_bb b, b\<lparr>next_bb := Suc (next_bb b)\<rparr>)"
  by (simp add: gen_bb_def)

lemma grown_next_bb: "grown k i b0 ls N b \<Longrightarrow> grown k i b0 ls (insert (next_bb b) N) (b\<lparr>next_bb := Suc (next_bb b)\<rparr>)"
  by (auto simp: grown_def)

lemma grown_gen_bb:
  assumes "\<And>n. k \<le> n \<Longrightarrow> yields (grown k i b0 ls (insert n N)) (f n) (\<lambda>_. True)"
  shows "yields (grown k i b0 ls N) (act gen_bb f) (\<lambda>_. True)"
  unfolding yields_def
proof (intro allI impI conjI TrueI)
  fix s x s' assume s: "grown k i b0 ls N s" "act gen_bb f s = Inr (x, s')"
  then have "f (next_bb s) (s\<lparr>next_bb := Suc (next_bb s)\<rparr>) = Inr (x, s')" by (simp add: gen_bb_run)
  moreover have "k \<le> next_bb s" using s(1) by (simp add: grown_def)
  ultimately have "grown k i b0 ls (insert (next_bb s) N) s'"
    using yieldsD [OF assms] grown_next_bb [OF s(1)] by blast
  then show "grown k i b0 ls N s'" by (rule grown_mono) blast
qed

lemma grown_gen_reg: "yields (grown k i b0 ls N) gen_reg (\<lambda>_. True)"
  by (auto simp: yields_def gen_reg_def grown_def act_Inr_iff)

lemma grown_place: "k \<le> n \<Longrightarrow> n \<in> N \<Longrightarrow> yields (grown k i b0 ls N) (place n) (\<lambda>_. True)"
  unfolding yields_def place_def set_insert_point_def
  by (auto simp: grown_def act_Inr_iff add_block_def split: option.splits)

lemma grown_gen_placed_bb: "yields (grown k i b0 ls N) gen_placed_bb (\<lambda>_. True)"
  unfolding gen_placed_bb_def
proof (rule grown_gen_bb)
  fix n assume "k \<le> n"
  then have "yields (grown k i b0 ls (insert n N)) (set_insert_point n) (\<lambda>_. True)"
    unfolding set_insert_point_def by (intro yields_modifies) (auto simp: grown_def)
  then show "yields (grown k i b0 ls (insert n N))
      (act (reads curr_fn) (\<lambda>f. case f of None \<Rightarrow> set_insert_point n | Some _ \<Rightarrow> place n)) (\<lambda>_. True)"
    using \<open>k \<le> n\<close> by (intro yields_act [OF yields_simple(1)] yields_option) (auto intro: grown_place)
qed

lemma grown_gen_entry_block_var: "yields (grown k i b0 ls N) (gen_entry_block_var d) (\<lambda>_. True)"
  unfolding gen_entry_block_var_def yields_def
  by (auto simp: act_Inr_iff grown_def emit_def intro: prefix_prefix split: option.splits)

lemma grown_in_loop:
  assumes "yields (grown k i b0 (l # ls) N) m (\<lambda>_. True)" "l = (a, c)"
  shows "yields (grown k i b0 ls N) (in_loop a c m) (\<lambda>_. True)"
  unfolding yields_def
proof (intro allI impI conjI TrueI)
  fix s x s' assume s: "grown k i b0 ls N s" "in_loop a c m s = Inr (x, s')"
  then obtain s1 where "m (s\<lparr>loop_controls := l # loop_controls s\<rparr>) = Inr ((), s1)"
    and s': "s' = s1\<lparr>loop_controls := tl (loop_controls s1)\<rparr>"
    using assms(2) by (auto simp: in_loop_def act_Inr_iff)
  moreover have "grown k i b0 (l # ls) N (s\<lparr>loop_controls := l # loop_controls s\<rparr>)"
    using s(1) by (simp add: grown_def)
  ultimately have "grown k i b0 (l # ls) N s1" using yieldsD [OF assms(1)] by blast
  then show "grown k i b0 ls N s'" using s' by (simp add: grown_def)
qed

lemma grown_in_fn: "yields (grown k i b0 ls N) m (\<lambda>_. True) \<Longrightarrow> yields (grown k i b0 ls N) (in_fn m) (\<lambda>_. True)"
  unfolding in_fn_def by (intro yields_act [OF yields_simple(1)] yields_if) (auto intro: yields_ret)

lemma grown_gen_value: "yields (grown k i b0 ls N) (gen_value v) (\<lambda>_. True)"
  unfolding gen_value_def
  by (rule yields_act yields_ret grown_gen_reg grown_emit TrueI)+

lemma grown_curr_fn_node: "yields (grown k i b0 ls N) curr_fn_node (\<lambda>_. True)"
  unfolding curr_fn_node_def
  by (rule yields_act yields_simple yields_option)+

lemma grown_current_loop: "yields (grown k i b0 ls N) current_loop (\<lambda>_. True)"
  unfolding current_loop_def
  by (auto simp: yields_def act_Inr_iff split: list.splits)

text \<open>The rules in the order they are tried.\<close>

lemmas grow_rules =
  grown_gen_bb grown_in_fn grown_in_loop yields_act yields_simple yields_if yields_prod yields_option yields_ret
  grown_emit grown_emits grown_gen_reg grown_gen_value grown_place grown_gen_placed_bb
  grown_gen_entry_block_var grown_curr_fn_node

lemma grown_condition:
  assumes "yields (grown k i b0 ls N) m (\<lambda>_. True)"
  shows "yields (grown k i b0 ls N) (walk_condition m) (\<lambda>_. True)"
  unfolding walk_condition_def by (rule assms grow_rules TrueI)+

lemma grown_walk_expr: "yields (grown k i b0 ls N) (walk_expr e) (\<lambda>_. True)"
proof (induction e arbitrary: N)
  case (E_Plain xs v ty)
  show ?case unfolding walk_expr.simps by (rule grow_rules TrueI)+
next
  case (E_Land e1 e2)
  show ?case unfolding walk_expr.simps walk_expr_landor_def
    by (rule E_Land.IH grow_rules TrueI insertI1 insertI2 | assumption)+
next
  case (E_Lor e1 e2)
  show ?case unfolding walk_expr.simps walk_expr_landor_def
    by (rule E_Lor.IH grow_rules TrueI insertI1 insertI2 | assumption)+
next
  case (E_Ife e e1 e2)
  show ?case unfolding walk_expr.simps walk_if_common_def
    by (rule grown_condition E_Ife.IH grow_rules TrueI insertI1 insertI2 | assumption)+
qed

text \<open>Statements without labels and inner functions; the parser makes a body for each condition.\<close>

primrec structured :: "('i, 'v) stmt \<Rightarrow> bool" where
  "structured (S_Plain is) = True"
| "structured (S_Assign e i) = True"
| "structured (S_List ss) = list_all id (map structured ss)"
| "structured (S_Loop s) = structured s"
| "structured (S_While e s) = structured s"
| "structured (S_For pre l lo hi i s) = structured s"
| "structured (S_If es ss rest) =
     (es \<noteq> [] \<and> length ss = length es \<and> list_all id (map structured ss) \<and> pred_option id (map_option structured rest))"
| "structured S_Break = True"
| "structured S_Continue = True"
| "structured (S_Ret e) = True"
| "structured (S_Label name) = False"
| "structured (S_Goto name) = False"
| "structured (S_Fn rt s) = False"

lemma grown_gen_if_bbs:
  assumes "\<And>bbs. length bbs = n \<Longrightarrow> \<forall>(c, d)\<in>set bbs. k \<le> c \<and> k \<le> d \<Longrightarrow>
      yields (grown k i b0 ls (fst ` set bbs \<union> snd ` set bbs \<union> N)) (f bbs) (\<lambda>_. True)"
  shows "yields (grown k i b0 ls N) (act (gen_if_bbs n) f) (\<lambda>_. True)"
  using assms
proof (induction n arbitrary: N f)
  case 0
  have "act (ret []) f = f []" by (simp add: fun_eq_iff)
  then show ?case using 0 [of "[]"] by simp
next
  case (Suc n)
  have act3: "act (gen_if_bbs (Suc n)) f =
      act gen_bb (\<lambda>c. act gen_bb (\<lambda>d. act (gen_if_bbs n) (\<lambda>bbs. f ((c, d) # bbs))))"
    by (auto simp: fun_eq_iff act_def split: sum.splits prod.splits)
  show ?case
    unfolding act3
  proof (rule grown_gen_bb, rule grown_gen_bb, rule Suc.IH)
    fix c d bbs assume "k \<le> c" "k \<le> d" "length bbs = n" "\<forall>(c, d)\<in>set bbs. k \<le> c \<and> k \<le> d"
    then show "yields (grown k i b0 ls (fst ` set bbs \<union> snd ` set bbs \<union> insert d (insert c N)))
        (f ((c, d) # bbs)) (\<lambda>_. True)"
      using Suc.prems [of "(c, d) # bbs"] by (simp add: Un_commute Un_left_commute insert_commute)
  qed
qed

lemma grown_if_conds:
  assumes "\<forall>(c, d)\<in>set bbs. k \<le> c \<and> c \<in> N" "\<And>m. m \<in> set ms \<Longrightarrow> yields (grown k i b0 ls N) m (\<lambda>_. True)"
  shows "yields (grown k i b0 ls N) (walk_if_conds ms bbs) (\<lambda>_. True)"
  using assms
proof (induction ms bbs rule: walk_if_conds.induct)
  case (1 m ms c d bbs)
  have "yields (grown k i b0 ls N) m (\<lambda>_. True)" "k \<le> c" "c \<in> N"
      "yields (grown k i b0 ls N) (walk_if_conds ms bbs) (\<lambda>_. True)"
    using 1 by simp_all
  then show ?case unfolding walk_if_conds.simps by - (rule grown_condition grow_rules TrueI | assumption)+
qed (auto intro: yields_ret)

lemma grown_if_bodies:
  assumes "\<forall>d\<in>set bbs. k \<le> d \<and> d \<in> N" "\<And>m. m \<in> set ms \<Longrightarrow> yields (grown k i b0 ls N) m (\<lambda>_. True)"
  shows "yields (grown k i b0 ls N) (walk_if_bodies ms bbs out) (\<lambda>_. True)"
  using assms
proof (induction ms bbs out rule: walk_if_bodies.induct)
  case (1 m ms d bbs out)
  have "yields (grown k i b0 ls N) m (\<lambda>_. True)" "k \<le> d" "d \<in> N"
      "yields (grown k i b0 ls N) (walk_if_bodies ms bbs out) (\<lambda>_. True)"
    using 1 by simp_all
  then show ?case unfolding walk_if_bodies.simps by - (rule grow_rules TrueI | assumption)+
qed (auto intro: yields_ret)

lemma act_ret: "act (ret x) f = f x"
  by (simp add: fun_eq_iff)

lemma grown_if_common2:
  assumes "ms \<noteq> []" "\<And>N m. m \<in> set ms \<Longrightarrow> yields (grown k i b0 ls N) m (\<lambda>_. True)"
    "\<And>N m. m \<in> set ss \<Longrightarrow> yields (grown k i b0 ls N) m (\<lambda>_. True)"
    "\<And>N m. rest = Some m \<Longrightarrow> yields (grown k i b0 ls N) m (\<lambda>_. True)"
  shows "yields (grown k i b0 ls N) (walk_if_common2 ms ss rest) (\<lambda>_. True)"
  unfolding walk_if_common2_def
proof (rule grown_in_fn, rule grown_gen_bb, rule grown_gen_if_bbs)
  fix out bbs assume h: "k \<le> out" "\<forall>(c, d)\<in>set bbs. k \<le> c \<and> k \<le> d"
  define M where "M = fst ` set bbs \<union> snd ` set bbs \<union> insert out N"
  have conds: "yields (grown k i b0 ls N') (walk_if_conds ms bbs) (\<lambda>_. True)" if "M \<subseteq> N'" for N'
  proof (rule grown_if_conds [OF _ assms(2)])
    have "c \<in> M" if "(c, d) \<in> set bbs" for c d using that by (simp add: M_def) force
    then show "\<forall>(c, d)\<in>set bbs. k \<le> c \<and> c \<in> N'" using h(2) that by blast
  qed
  have bodies: "yields (grown k i b0 ls N') (walk_if_bodies ss (map snd bbs) out) (\<lambda>_. True)" if "M \<subseteq> N'" for N'
  proof (rule grown_if_bodies [OF _ assms(3)])
    have "snd ` set bbs \<subseteq> M" by (simp add: M_def) blast
    then show "\<forall>d\<in>set (map snd bbs). k \<le> d \<and> d \<in> N'" using h(2) that by auto
  qed
  have out: "out \<in> M" by (simp add: M_def)
  show "yields (grown k i b0 ls M)
      (act (case rest of None \<Rightarrow> ret out | Some _ \<Rightarrow> gen_bb) (\<lambda>restbb.
       act (walk_if_conds ms bbs) (\<lambda>_. act (emit (Br restbb)) (\<lambda>_.
       act (walk_if_bodies ss (map snd bbs) out) (\<lambda>_.
       act (case rest of None \<Rightarrow> ret () | Some s \<Rightarrow> walk_if_bodies [s] [restbb] out) (\<lambda>_. place out)))))) (\<lambda>_. True)"
  proof (cases rest)
    case None
    show ?thesis
      unfolding None option.case act_ret
      by (rule yields_act conds bodies grown_emit grown_place yields_ret h(1) out subset_refl TrueI)+
  next
    case (Some m)
    show ?thesis
      unfolding Some option.case
    proof (rule grown_gen_bb)
      fix n assume "k \<le> n"
      then have m: "yields (grown k i b0 ls (insert n M)) (walk_if_bodies [m] [n] out) (\<lambda>_. True)"
        using assms(4) [OF Some] by (intro grown_if_bodies) auto
      show "yields (grown k i b0 ls (insert n M))
          (act (walk_if_conds ms bbs) (\<lambda>_. act (emit (Br n)) (\<lambda>_.
           act (walk_if_bodies ss (map snd bbs) out) (\<lambda>_. act (walk_if_bodies [m] [n] out) (\<lambda>_. place out))))) (\<lambda>_. True)"
        by (rule m yields_act conds bodies grown_emit grown_place h(1) insertI2 [OF out] subset_insertI)+
    qed
  qed
qed

lemma grown_walk_loop:
  assumes "\<And>ls N. yields (grown k i b0 ls N) m (\<lambda>_. True)"
  shows "yields (grown k i b0 ls N) (walk_loop m) (\<lambda>_. True)"
  unfolding walk_loop_def
  by (rule assms grow_rules TrueI insertI1 insertI2 refl | assumption)+

lemma grown_walk_while:
  assumes "\<And>ls N. yields (grown k i b0 ls N) m (\<lambda>_. True)" "\<And>N. yields (grown k i b0 ls N) e (\<lambda>_. True)"
  shows "yields (grown k i b0 ls N) (walk_while e m) (\<lambda>_. True)"
  unfolding walk_while_def
  by (rule assms grown_condition grow_rules TrueI insertI1 insertI2 refl | assumption)+

lemma grown_for_bounds: "yields (grown k i b0 ls N) (for_bounds l lo hi) (\<lambda>_. True)"
  unfolding for_bounds_def
  by (cases l; simp only: for_list.case) (rule grow_rules TrueI)+

lemma grown_walk_for:
  assumes "\<And>ls N. yields (grown k i b0 ls N) m (\<lambda>_. True)"
  shows "yields (grown k i b0 ls N) (walk_for pre l lo hi x m) (\<lambda>_. True)"
  unfolding walk_for_def
  by (rule assms grown_for_bounds grow_rules TrueI insertI1 insertI2 refl | assumption)+

lemma grown_walk_stack: "structured c \<Longrightarrow> yields (grown k i b0 ls N) (walk_stack c) (\<lambda>_. True)"
proof (induction c arbitrary: ls N)
  case (S_List cs)
  have "yields (grown k i b0 ls N) (walk_stmtlist (map walk_stack cs)) (\<lambda>_. True)"
    using S_List by (induction cs) (auto intro!: yields_ret yields_act)
  then show ?case by simp
next
  case (S_Loop c)
  then show ?case by (simp add: grown_walk_loop)
next
  case (S_While e c)
  then show ?case by (simp add: grown_walk_while grown_walk_expr)
next
  case (S_For pre l lo hi x c)
  then show ?case by (simp add: grown_walk_for)
next
  case (S_If es ss rest)
  then show ?case
    unfolding walk_stack.simps
    by (intro grown_if_common2)
      (auto simp: list_all_iff pred_option_def intro: grown_walk_expr)
next
  case (S_Ret e)
  show ?case
    unfolding walk_stack.simps walk_ret_def
    by (cases e; simp only: option.map option.case)
      (rule grown_walk_expr grow_rules TrueI | assumption | rule yields_modifies, simp add: grown_def)+
next
  case (S_Plain xs)
  show ?case unfolding walk_stack.simps by (rule grow_rules)
next
  case (S_Assign e x)
  show ?case unfolding walk_stack.simps by (rule grown_walk_expr grow_rules)+
next
  case S_Break
  show ?case unfolding walk_stack.simps walk_break_def
    by (rule grown_current_loop grow_rules TrueI)+
next
  case S_Continue
  show ?case unfolding walk_stack.simps walk_continue_def
    by (rule grown_current_loop grow_rules TrueI)+
qed simp_all

subsection \<open>The builder's primitives as changes of its state\<close>

definition emitted :: "('i, 'v) instr \<Rightarrow> ('i, 'v) builder \<Rightarrow> ('i, 'v) builder" where
  "emitted i b = b\<lparr>bb_code := (bb_code b)(insert_bb b := bb_code b (insert_bb b) @ [i])\<rparr>"

definition new_bb :: "('i, 'v) builder \<Rightarrow> ('i, 'v) builder" where
  "new_bb b = b\<lparr>next_bb := Suc (next_bb b)\<rparr>"

definition new_reg :: "('i, 'v) builder \<Rightarrow> ('i, 'v) builder" where
  "new_reg b = b\<lparr>next_reg := Suc (next_reg b)\<rparr>"

definition new_slot :: "('i, 'v) builder \<Rightarrow> ('i, 'v) builder" where
  "new_slot b = b\<lparr>next_slot := Suc (next_slot b)\<rparr>"

definition placed :: "bb \<Rightarrow> ('i, 'v) builder \<Rightarrow> ('i, 'v) builder" where
  "placed n b = b\<lparr>fns := (fns b)(the (curr_fn b) := add_block n (fns b (the (curr_fn b)))), insert_bb := n\<rparr>"

definition with_loops :: "(bb \<times> bb) list \<Rightarrow> ('i, 'v) builder \<Rightarrow> ('i, 'v) builder" where
  "with_loops ls b = b\<lparr>loop_controls := ls\<rparr>"

lemmas builder_changes = emitted_def new_bb_def new_reg_def new_slot_def placed_def with_loops_def add_block_def

lemma builder_fields [simp]:
  "bb_code (emitted i b) = (bb_code b)(insert_bb b := bb_code b (insert_bb b) @ [i])"
  "bb_code (new_bb b) = bb_code b" "bb_code (new_reg b) = bb_code b" "bb_code (new_slot b) = bb_code b"
  "bb_code (placed n b) = bb_code b" "bb_code (with_loops ls b) = bb_code b"
  "insert_bb (emitted i b) = insert_bb b" "insert_bb (new_bb b) = insert_bb b" "insert_bb (new_reg b) = insert_bb b"
  "insert_bb (new_slot b) = insert_bb b" "insert_bb (placed n b) = n" "insert_bb (with_loops ls b) = insert_bb b"
  "next_bb (emitted i b) = next_bb b" "next_bb (new_bb b) = Suc (next_bb b)" "next_bb (new_reg b) = next_bb b"
  "next_bb (new_slot b) = next_bb b" "next_bb (placed n b) = next_bb b" "next_bb (with_loops ls b) = next_bb b"
  "next_reg (emitted i b) = next_reg b" "next_reg (new_bb b) = next_reg b" "next_reg (new_reg b) = Suc (next_reg b)"
  "next_reg (new_slot b) = next_reg b" "next_reg (placed n b) = next_reg b" "next_reg (with_loops ls b) = next_reg b"
  "next_slot (emitted i b) = next_slot b" "next_slot (new_bb b) = next_slot b" "next_slot (new_reg b) = next_slot b"
  "next_slot (new_slot b) = Suc (next_slot b)" "next_slot (placed n b) = next_slot b"
  "next_slot (with_loops ls b) = next_slot b"
  "loop_controls (emitted i b) = loop_controls b" "loop_controls (new_bb b) = loop_controls b"
  "loop_controls (new_reg b) = loop_controls b" "loop_controls (new_slot b) = loop_controls b"
  "loop_controls (placed n b) = loop_controls b" "loop_controls (with_loops ls b) = ls"
  "curr_fn (emitted i b) = curr_fn b" "curr_fn (new_bb b) = curr_fn b" "curr_fn (new_reg b) = curr_fn b"
  "curr_fn (new_slot b) = curr_fn b" "curr_fn (placed n b) = curr_fn b" "curr_fn (with_loops ls b) = curr_fn b"
  "main_fn (emitted i b) = main_fn b" "main_fn (new_bb b) = main_fn b" "main_fn (new_reg b) = main_fn b"
  "main_fn (new_slot b) = main_fn b" "main_fn (placed n b) = main_fn b" "main_fn (with_loops ls b) = main_fn b"
  by (simp_all add: builder_changes)

text \<open>The node of the function being built.\<close>

definition node :: "('i, 'v) builder \<Rightarrow> fndef" where
  "node b = fns b (the (curr_fn b))"

lemma node_fields [simp]:
  "node (emitted i b) = node b" "node (new_bb b) = node b" "node (new_reg b) = node b"
  "node (new_slot b) = node b" "node (with_loops ls b) = node b"
  "retbb (node (placed n b)) = retbb (node b)" "retslot (node (placed n b)) = retslot (node b)"
  "ret_type (node (placed n b)) = ret_type (node b)"
  by (simp_all add: builder_changes node_def)

lemma builder_runs [simp]:
  "emit i b = Inr ((), emitted i b)"
  "gen_bb b = Inr (next_bb b, new_bb b)"
  "gen_reg b = Inr (next_reg b, new_reg b)"
  "curr_fn b \<noteq> None \<Longrightarrow> place n b = Inr ((), placed n b)"
  "curr_fn b \<noteq> None \<Longrightarrow> gen_placed_bb b = Inr ((), placed (next_bb b) (new_bb b))"
  "curr_fn b \<noteq> None \<Longrightarrow> in_fn m b = m b"
  "curr_fn b \<noteq> None \<Longrightarrow> curr_fn_node b = Inr (node b, b)"
  "gen_value v b = Inr (Reg (next_reg b), emitted (Value (next_reg b) v) (new_reg b))"
  "gen_entry_block_var None b = Inr (next_slot b, new_slot b)"
  "gen_entry_block_var (Some a) b = Inr (next_slot b, emitted (Slot_Store (next_slot b) a) (new_slot b))"
  by (auto simp: emit_def gen_bb_def gen_reg_def place_def gen_placed_bb_def set_insert_point_def in_fn_def
      curr_fn_node_def gen_value_def gen_entry_block_var_def builder_changes node_def)

lemma emits_run [simp]:
  "emits [] b = Inr ((), b)" "emits (i # xs) b = emits xs (emitted i b)"
  by (simp_all add: emits_def emitted_def)

lemma in_loop_Inr:
  "in_loop c d m b = Inr (x, b') \<longleftrightarrow>
     (\<exists>b1. m (with_loops ((c, d) # loop_controls b) b) = Inr ((), b1) \<and> b' = with_loops (tl (loop_controls b1)) b1)"
  by (auto simp: in_loop_def act_Inr_iff with_loops_def)

lemma walk_condition_Inr:
  "walk_condition m b = Inr (v, b') \<longleftrightarrow> (\<exists>lt. m b = Inr ((v, BOOL, lt), b'))"
  by (auto simp: walk_condition_def act_Inr_iff lift_result_Inr_iff split: if_splits)

subsection \<open>Ready to go on\<close>

definition ready :: "('i, 'v) builder \<Rightarrow> bool" where
  "ready b \<longleftrightarrow>
     insert_bb b < next_bb b \<and> (\<forall>n\<ge>next_bb b. bb_code b n = []) \<and> curr_fn b \<noteq> None \<and>
     (\<forall>n. retslot (node b) = Some n \<longrightarrow> n < next_slot b)"

lemma ready_grown: "ready b \<Longrightarrow> N \<subseteq> {..<next_bb b} \<Longrightarrow> grown (next_bb b) (insert_bb b) b (loop_controls b) N b"
  by (auto simp: ready_def grown_def)

lemma grown_ready: "grown k i b0 ls N b \<Longrightarrow> ready b0 \<Longrightarrow> ready b"
  by (auto simp: ready_def grown_def node_def)

lemma yields_ready:
  assumes "\<And>N. yields (grown (next_bb b) (insert_bb b) b (loop_controls b) N) m (\<lambda>_. True)" "m b = Inr (x, b')" "ready b"
  shows "grown (next_bb b) (insert_bb b) b (loop_controls b) {..<next_bb b} b' \<and> ready b'"
  using yieldsD [OF assms(1) assms(2) ready_grown [OF assms(3) subset_refl]] grown_ready assms(3) by blast

lemmas walk_expr_grows = yields_ready [OF grown_walk_expr]

lemma walk_stack_grows:
  assumes "walk_stack c b = Inr (x, b')" "structured c" "ready b"
  shows "grown (next_bb b) (insert_bb b) b (loop_controls b) {..<next_bb b} b' \<and> ready b'"
  using yields_ready [OF grown_walk_stack [OF assms(2)] assms(1) assms(3)] .

lemma ready_changes [simp]:
  "ready b \<Longrightarrow> ready (emitted i b)" "ready b \<Longrightarrow> ready (new_bb b)" "ready b \<Longrightarrow> ready (new_reg b)"
  "ready b \<Longrightarrow> ready (new_slot b)" "ready b \<Longrightarrow> ready (with_loops ls b)"
  "ready b \<Longrightarrow> n < next_bb b \<Longrightarrow> ready (placed n b)"
  by (auto simp: ready_def)

lemma ready_fn [simp]: "ready b \<Longrightarrow> \<exists>f. curr_fn b = Some f"
  by (auto simp: ready_def)

text \<open>A block that is not appended to yet.\<close>

definition unused :: "bb \<Rightarrow> ('i, 'v) builder \<Rightarrow> bool" where
  "unused n b \<longleftrightarrow> bb_code b n = [] \<and> insert_bb b \<noteq> n"

lemma unused_new: "ready b \<Longrightarrow> next_bb b \<le> n \<Longrightarrow> unused n b"
  by (auto simp: ready_def unused_def)

lemma unused_changes [simp]:
  "unused n b \<Longrightarrow> unused n (emitted i b)" "unused n (new_bb b) = unused n b" "unused n (new_reg b) = unused n b"
  "unused n (new_slot b) = unused n b" "unused n (with_loops ls b) = unused n b"
  "unused n b \<Longrightarrow> m \<noteq> n \<Longrightarrow> unused n (placed m b)"
  by (auto simp: unused_def)

lemma unused_grown:
  "grown (next_bb b) (insert_bb b) b ls N b' \<Longrightarrow> n < next_bb b \<Longrightarrow> unused n b \<Longrightarrow> unused n b'"
  by (auto simp: grown_def unused_def)

lemma unused_code: "unused n b \<Longrightarrow> bb_code b n = []"
  by (simp add: unused_def)

text \<open>The finished code \<open>C\<close> continues what the builder carries.\<close>

definition carries :: "('i, 'v) code \<Rightarrow> ('i, 'v) builder \<Rightarrow> bool" where
  "carries C b \<longleftrightarrow> (\<forall>n. prefix (bb_code b n) (C n))"

lemma carries_emitted: "carries C (emitted i b) \<Longrightarrow> carries C b"
  unfolding carries_def builder_fields fun_upd_apply by (metis append_prefixD)

lemma carries_changes [simp]:
  "carries C (new_bb b) = carries C b" "carries C (new_reg b) = carries C b" "carries C (new_slot b) = carries C b"
  "carries C (placed n b) = carries C b" "carries C (with_loops ls b) = carries C b"
  by (simp_all add: carries_def)

lemma carries_grown: "carries C b' \<Longrightarrow> grown k i b ls N b' \<Longrightarrow> carries C b"
  unfolding carries_def grown_def using prefix_order.trans by blast

text \<open>The machine is where the builder appends.\<close>

definition at_end :: "('i, 'v) builder \<Rightarrow> 's config \<Rightarrow> bool" where
  "at_end b x \<longleftrightarrow> at_bb x = insert_bb b \<and> pc x = length (bb_code b (insert_bb b))"

lemma fetch_emitted:
  assumes "carries C (emitted i b)" "at_end b x"
  shows "fetch C x = Some i"
proof -
  have "prefix (bb_code b (insert_bb b) @ [i]) (C (insert_bb b))"
    using assms(1) unfolding carries_def builder_fields fun_upd_apply by metis
  then show ?thesis using assms(2) by (auto simp: fetch_def at_end_def prefix_def)
qed

lemma at_end_moves [simp]:
  "at_end b x \<Longrightarrow> at_end (emitted i b) (next_pc x)" "at_end b x \<Longrightarrow> at_end (emitted i b) (set_reg r n x)"
  "at_end b x \<Longrightarrow> at_end (emitted i b) (set_slot m n x)" "at_end b x \<Longrightarrow> at_end (emitted i b) (set_store s x)"
  "bb_code b m = [] \<Longrightarrow> at_end (placed m b) (jump m x)"
  "at_end (new_bb b) x = at_end b x" "at_end (new_reg b) x = at_end b x" "at_end (new_slot b) x = at_end b x"
  "at_end (with_loops ls b) x = at_end b x"
  by (auto simp: at_end_def config_moves)

lemma config_fields [simp]:
  "store (next_pc x) = store x" "store (set_reg r n x) = store x" "store (set_slot m n x) = store x"
  "store (set_store s x) = s" "store (jump m x) = store x"
  "regs (next_pc x) = regs x" "regs (set_reg r n x) = (regs x)(r := n)" "regs (set_slot m n x) = regs x"
  "regs (set_store s x) = regs x" "regs (jump m x) = regs x"
  "slots (next_pc x) = slots x" "slots (set_reg r n x) = slots x" "slots (set_slot m n x) = (slots x)(m := Some n)"
  "slots (set_store s x) = slots x" "slots (jump m x) = slots x"
  "from_bb (jump m x) = at_bb x" "at_bb (jump m x) = m" "pc (jump m x) = 0"
  by (simp_all add: config_moves)

lemma operand_value_moves [simp]:
  "operand_value (jump m x) a = operand_value x a" "operand_value (set_store s x) a = operand_value x a"
  "operand_value (set_slot m n x) a = operand_value x a" "operand_value (next_pc x) a = operand_value x a"
  by (cases a; simp)+

text \<open>Registers and slots the builder handed out before keep their value, but for the slot of the
  return value.\<close>

definition agree :: "('i, 'v) builder \<Rightarrow> 's config \<Rightarrow> 's config \<Rightarrow> bool" where
  "agree b x y \<longleftrightarrow>
     (\<forall>r<next_reg b. regs y r = regs x r) \<and>
     (\<forall>n<next_slot b. retslot (node b) \<noteq> Some n \<longrightarrow> slots y n = slots x n)"

lemma agree_refl [simp]: "agree b x x"
  by (simp add: agree_def)

lemma agree_trans: "agree b x y \<Longrightarrow> agree b y z \<Longrightarrow> agree b x z"
  by (simp add: agree_def)

lemma agree_grown: "agree b' x y \<Longrightarrow> grown k i b ls N b' \<Longrightarrow> agree b x y"
  by (auto simp: agree_def grown_def node_def)

text \<open>The builder before has handed out no more.\<close>

definition older :: "('i, 'v) builder \<Rightarrow> ('i, 'v) builder \<Rightarrow> bool" where
  "older b b' \<longleftrightarrow> next_reg b \<le> next_reg b' \<and> next_slot b \<le> next_slot b' \<and>
     retslot (node b') = retslot (node b) \<and> retbb (node b') = retbb (node b)"

lemma older_trans: "older b b1 \<Longrightarrow> older b1 b2 \<Longrightarrow> older b b2"
  by (auto simp: older_def)

lemma older_grown: "grown k i b ls N b' \<Longrightarrow> older b b'"
  by (auto simp: older_def grown_def node_def)

lemma older_changes [simp]:
  "older b b" "older b b' \<Longrightarrow> older b (emitted i b')" "older b b' \<Longrightarrow> older b (new_bb b')"
  "older b b' \<Longrightarrow> older b (new_reg b')" "older b b' \<Longrightarrow> older b (new_slot b')" "older b b' \<Longrightarrow> older b (placed m b')"
  "older b b' \<Longrightarrow> older b (with_loops ls b')"
  by (auto simp: older_def)

lemma agree_older: "agree b' x y \<Longrightarrow> older b b' \<Longrightarrow> agree b x y"
  by (auto simp: agree_def older_def)

lemma agree_changes [simp]:
  "agree (emitted i b) x y = agree b x y" "agree (new_bb b) x y = agree b x y"
  "agree (with_loops ls b) x y = agree b x y" "agree (placed m b) x y = agree b x y"
  by (simp_all add: agree_def)

lemma agree_new: "agree (new_reg b) x y \<Longrightarrow> agree b x y" "agree (new_slot b) x y \<Longrightarrow> agree b x y"
  by (simp_all add: agree_def)

lemma agree_moves [simp]:
  "agree b x (jump m y) = agree b x y" "agree b (jump m x) y = agree b x y" "agree b x (set_store s y) = agree b x y"
  "next_reg b \<le> r \<Longrightarrow> agree b x (set_reg r n y) = agree b x y"
  "next_slot b \<le> m \<or> retslot (node b) = Some m \<Longrightarrow> agree b x (set_slot m n y) = agree b x y"
  by (auto simp: agree_def)

lemma agree_intro: "regs y = regs x \<Longrightarrow> slots y = slots x \<Longrightarrow> agree b x y"
  by (simp add: agree_def)

lemma emits_carries: "emits xs b = Inr (x, b') \<Longrightarrow> carries C b' \<Longrightarrow> carries C b"
  by (induction xs arbitrary: b) (auto dest: carries_emitted)

lemma emits_ready: "emits xs b = Inr (x, b') \<Longrightarrow> ready b \<Longrightarrow> ready b'"
  by (induction xs arbitrary: b) auto

lemma emits_fields:
  "emits xs b = Inr (x, b') \<Longrightarrow> next_reg b' = next_reg b \<and> next_slot b' = next_slot b \<and> next_bb b' = next_bb b \<and>
     insert_bb b' = insert_bb b \<and> curr_fn b' = curr_fn b \<and> node b' = node b \<and> loop_controls b' = loop_controls b \<and>
     (\<forall>n. n \<noteq> insert_bb b \<longrightarrow> bb_code b' n = bb_code b n)"
  by (induction xs arbitrary: b) auto

subsection \<open>Expressions\<close>

text \<open>The code of \<open>m\<close> leaves in the operand what \<open>f\<close> computes.\<close>

definition value_sim ::
  "(('i, 'v) code \<Rightarrow> 's config \<Rightarrow> 's config \<Rightarrow> bool) \<Rightarrow> ('i, 'v) code \<Rightarrow> ('i, 'v) walk \<Rightarrow>
   ('s \<Rightarrow> (nat \<times> 's) option) \<Rightarrow> bool" where
  "value_sim step C m f \<longleftrightarrow>
     (\<forall>b a ty b' x k s.
        m b = Inr ((a, ty), b') \<longrightarrow> ready b \<longrightarrow> carries C b' \<longrightarrow> at_end b x \<longrightarrow> f (store x) = Some (k, s) \<longrightarrow>
        (\<exists>y. (step C)\<^sup>*\<^sup>* x y \<and> at_end b' y \<and> store y = s \<and> operand_value y a = k \<and> agree b x y))"

lemma value_simD:
  assumes "value_sim step C m f" "m b = Inr ((a, ty), b')" "ready b" "carries C b'" "at_end b x" "f (store x) = Some (k, s)"
  obtains y where "(step C)\<^sup>*\<^sup>* x y" "at_end b' y" "store y = s" "operand_value y a = k" "agree b x y"
  using assms unfolding value_sim_def by blast

definition grows :: "('i, 'v, 'a) build \<Rightarrow> bool" where
  "grows m \<longleftrightarrow> (\<forall>k i b0 ls N. yields (grown k i b0 ls N) m (\<lambda>_. True))"

lemma grows_walk_expr: "grows (walk_expr e)"
  unfolding grows_def by (simp add: grown_walk_expr)

lemma grows_walk_stack: "structured c \<Longrightarrow> grows (walk_stack c)"
  unfolding grows_def by (simp add: grown_walk_stack)

lemma growsD:
  assumes "grows m" "m b = Inr (x, b')" "ready b"
  shows "grown (next_bb b) (insert_bb b) b (loop_controls b) {..<next_bb b} b' \<and> ready b'"
proof -
  have "yields (grown (next_bb b) (insert_bb b) b (loop_controls b) N) m (\<lambda>_. True)" for N
    using assms(1) unfolding grows_def by blast
  then show ?thesis
    using yields_ready [of b m x b'] assms(2,3) by blast
qed

context llvm_machine
begin

lemma sim_emits:
  assumes "emits (map Plain xs) b = Inr ((), b')" "carries C b'" "at_end b x" "run_plains S xs (store x) = Some s"
  shows "\<exists>y. (step C)\<^sup>*\<^sup>* x y \<and> at_end b' y \<and> store y = s \<and> regs y = regs x \<and> slots y = slots x"
  using assms
proof (induction xs arbitrary: b x)
  case Nil
  then show ?case by auto
next
  case (Cons i xs)
  then obtain s1 where s1: "run_plain S i (store x) = Some s1" "run_plains S xs s1 = Some s"
    by (auto split: option.splits)
  have "emits (map Plain xs) (emitted (Plain i) b) = Inr ((), b')" using Cons.prems(1) by simp
  moreover from this have "fetch C x = Some (Plain i)"
    using emits_carries Cons.prems fetch_emitted by blast
  then have "step C x (set_store s1 x)" using plain s1(1) by blast
  ultimately show ?case
    using Cons.IH [of "emitted (Plain i) b" "set_store s1 x"] Cons.prems s1
    by (auto intro: converse_rtranclp_into_rtranclp)
qed

lemma steps_trans: "(step C)\<^sup>*\<^sup>* x y \<Longrightarrow> (step C)\<^sup>*\<^sup>* y z \<Longrightarrow> (step C)\<^sup>*\<^sup>* x z"
  by (rule rtranclp_trans)

lemma steps_into: "(step C)\<^sup>*\<^sup>* x y \<Longrightarrow> step C y z \<Longrightarrow> (step C)\<^sup>*\<^sup>* x z"
  by (rule rtranclp.rtrancl_into_rtrancl)

lemma sim_plain_expr: "value_sim step C (walk_expr (E_Plain xs v t)) (eval_expr S (E_Plain xs v t))"
  unfolding value_sim_def
proof (intro allI impI)
  fix b a ty b' x k s
  assume w: "walk_expr (E_Plain xs v t) b = Inr ((a, ty), b')" "ready b" "carries C b'" "at_end b x"
    and e: "eval_expr S (E_Plain xs v t) (store x) = Some (k, s)"
  then obtain b1 where b1: "emits (map Plain xs) b = Inr ((), b1)"
    "b' = emitted (Value (next_reg b1) v) (new_reg b1)" "a = Reg (next_reg b1)"
    by (auto simp: act_Inr_iff)
  have "run_plains S xs (store x) = Some s" and k: "k = value_of S v s" using e by auto
  moreover have "carries C b1" using w(3) b1 carries_emitted by fastforce
  ultimately obtain y where y: "(step C)\<^sup>*\<^sup>* x y" "at_end b1 y" "store y = s" "regs y = regs x" "slots y = slots x"
    using sim_emits [OF b1(1)] w(4) by blast
  let ?y = "set_reg (next_reg b1) (value_of S v (store y)) y"
  have "fetch C y = Some (Value (next_reg b1) v)"
    by (rule fetch_emitted [of C _ "new_reg b1"]) (use w(3) b1(2) y(2) in simp_all)
  then have "step C y ?y" by (rule val)
  moreover have "agree b x ?y" using emits_fields [OF b1(1)] y by (simp add: agree_intro)
  ultimately show "\<exists>y. (step C)\<^sup>*\<^sup>* x y \<and> at_end b' y \<and> store y = s \<and> operand_value y a = k \<and> agree b x y"
    using y b1 k steps_into by (intro exI [of _ ?y]) auto
qed

text \<open>What is left to do once the builder and the machine are at the same place.\<close>

lemma at_end_block: "at_end b x \<Longrightarrow> at_bb x = insert_bb b"
  by (simp add: at_end_def)

lemma sim_landor:
  assumes sim: "value_sim step C m1 f1" "value_sim step C m2 f2" and gr: "grows m1" "grows m2"
  shows "value_sim step C (walk_expr_landor isand m1 m2)
      (\<lambda>s. case f1 s of None \<Rightarrow> None | Some (v, s') \<Rightarrow> if (v \<noteq> 0) = isand then f2 s' else Some (v, s'))"
  unfolding value_sim_def
proof (intro allI impI)
  fix b a ty b' x k s
  assume w: "walk_expr_landor isand m1 m2 b = Inr ((a, ty), b')" "ready b" "carries C b'" "at_end b x"
    and e: "(case f1 (store x) of None \<Rightarrow> None
      | Some (v, s') \<Rightarrow> if (v \<noteq> 0) = isand then f2 s' else Some (v, s')) = Some (k, s)"
  obtain a1 t1 b1 where b1: "m1 b = Inr ((a1, t1), b1)" using w(1) by (auto simp: walk_expr_landor_def act_Inr_iff)
  note g1 = growsD [OF gr(1) b1 w(2)]
  let ?n = "next_bb b1"
  define b2 where "b2 = placed ?n (emitted (CondBr a1 (if isand then ?n else Suc ?n) (if isand then Suc ?n else ?n)) (new_bb (new_bb b1)))"
  obtain f where f: "curr_fn b1 = Some f" using g1 by (auto simp: ready_def)
  have r2: "ready b2" using g1 by (simp add: b2_def)
  obtain a2 t2 b3 where b3: "m2 b2 = Inr ((a2, t2), b3)"
    using w(1) b1 f by (auto simp: walk_expr_landor_def act_Inr_iff b2_def split: prod.splits)
  note g3 = growsD [OF gr(2) b3 r2]
  define b4 where "b4 = placed (Suc ?n) (emitted (Br (Suc ?n)) b3)"
  have f3: "curr_fn b3 \<noteq> None" using g3 by (simp add: ready_def)
  define phi' where "phi' = (Phi (next_reg b4) [(a2, insert_bb b3), (a1, insert_bb b1)] :: ('i, 'v) instr)"
  have b': "b' = emitted phi' (new_reg b4)" "a = Reg (next_reg b4)"
    using w(1) b1 f b3 f3 by (auto simp: walk_expr_landor_def act_Inr_iff b2_def b4_def phi'_def split: prod.splits)
  have carr: "carries C (emitted phi' b4)" "carries C b4" "carries C b3" "carries C b2" "carries C b1"
  proof -
    show "carries C (emitted phi' b4)" using w(3) b'(1) by (simp add: carries_def)
    then show "carries C b4" by (rule carries_emitted)
    then show "carries C b3" by (auto simp: b4_def dest: carries_emitted)
    then show "carries C b2" using carries_grown g3 by blast
    then show "carries C b1" by (auto simp: b2_def dest: carries_emitted)
  qed
  obtain v s1 where e1: "f1 (store x) = Some (v, s1)" using e by (auto split: option.splits)
  obtain y1 where y1: "(step C)\<^sup>*\<^sup>* x y1" "at_end b1 y1" "store y1 = s1" "operand_value y1 a1 = v" "agree b x y1"
    by (rule value_simD [OF sim(1) b1 w(2) carr(5) w(4) e1])
  have empty: "bb_code b2 ?n = []" "bb_code b4 (Suc ?n) = []"
    using g1 g3 by (auto simp: ready_def b2_def b4_def grown_def)
  have differ: "insert_bb b1 \<noteq> insert_bb b3" using g1 g3 by (auto simp: ready_def b2_def grown_def)
  \<comment> \<open>The last instruction, from the block of the second operand or from that of the first.\<close>
  have phi_step: "\<exists>y. (step C)\<^sup>*\<^sup>* x y \<and> at_end b' y \<and> store y = s \<and> operand_value y a = k \<and> agree b x y"
    if z: "(step C)\<^sup>*\<^sup>* x z" "at_end b4 z" "store z = s" "agree b x z"
      and via: "from_bb z = insert_bb b3 \<and> operand_value z a2 = k \<or> from_bb z = insert_bb b1 \<and> operand_value z a1 = k" for z
  proof -
    have "fetch C z = Some phi'" by (rule fetch_emitted [OF carr(1) z(2)])
    then have "step C z (set_reg (next_reg b4) k z)"
      using via differ phi [of C z, where a = a1] phi [of C z, where a = a2] unfolding phi'_def by auto
    moreover have "next_reg b \<le> next_reg b4" using g1 g3 by (simp add: b4_def b2_def grown_def)
    ultimately show ?thesis
      using z steps_into b' by (intro exI [of _ "set_reg (next_reg b4) k z"]) simp
  qed
  have f1: "fetch C y1 = Some (CondBr a1 (if isand then ?n else Suc ?n) (if isand then Suc ?n else ?n))"
    by (rule fetch_emitted [of C _ "new_bb (new_bb b1)"]) (use carr(4) y1(2) in \<open>simp_all add: b2_def\<close>)
  show "\<exists>y. (step C)\<^sup>*\<^sup>* x y \<and> at_end b' y \<and> store y = s \<and> operand_value y a = k \<and> agree b x y"
  proof (cases "(v \<noteq> 0) = isand")
    case True
    have "step C y1 (jump ?n y1)" using cond_br [OF f1] y1(4) True by (auto split: if_splits)
    moreover have "at_end b2 (jump ?n y1)" using empty(1) by (simp add: b2_def)
    moreover have "f2 (store (jump ?n y1)) = Some (k, s)" using e e1 y1 True by simp
    ultimately obtain y2 where y2: "(step C)\<^sup>*\<^sup>* (jump ?n y1) y2" "at_end b3 y2" "store y2 = s"
        "operand_value y2 a2 = k" "agree b2 (jump ?n y1) y2" and to1: "(step C)\<^sup>*\<^sup>* x (jump ?n y1)"
      using value_simD [OF sim(2) b3 r2 carr(3)] steps_into [OF y1(1)] by metis
    have "fetch C y2 = Some (Br (Suc ?n))" by (rule fetch_emitted [of C _ b3]) (use carr(2) y2(2) in \<open>simp_all add: b4_def\<close>)
    then have "step C y2 (jump (Suc ?n) y2)" by (rule br)
    then have "(step C)\<^sup>*\<^sup>* x (jump (Suc ?n) y2)" using steps_into steps_trans [OF to1 y2(1)] by blast
    moreover have "agree b1 y1 y2" using y2(5) by (simp add: b2_def)
    then have "agree b x y2" using g1 agree_grown agree_trans y1(5) by blast
    ultimately show ?thesis
      using y2 empty(2) by (intro phi_step [of "jump (Suc ?n) y2"]) (auto simp: b4_def at_end_block)
  next
    case False
    have "step C y1 (jump (Suc ?n) y1)" using cond_br [OF f1] y1(4) False by (auto split: if_splits)
    moreover have "k = v" "s = s1" using e e1 False by auto
    ultimately show ?thesis
      using y1 empty(2) steps_into [OF y1(1)] by (intro phi_step [of "jump (Suc ?n) y1"]) (auto simp: b4_def at_end_block)
  qed
qed

text \<open>The two arms of \<open>ife\<close>: the value goes to the slot \<open>n\<close>, and control to \<open>m\<close>.\<close>

lemma sim_arm:
  assumes sim: "value_sim step C m1 f" "grows m1" and b1: "m1 b = Inr ((a, t), b1)"
    and ready: "ready b" and c: "carries C (emitted (Br m) (emitted (Slot_Store n a) b1))"
    and x: "at_end b x" "f (store x) = Some (k, s)"
    and b0: "next_slot b0 \<le> n" "\<And>z. agree b x z \<Longrightarrow> agree b0 x z"
  shows "\<exists>y. (step C)\<^sup>*\<^sup>* x y \<and> at_bb y = m \<and> pc y = 0 \<and> store y = s \<and> slots y n = Some k \<and> agree b0 x y"
proof -
  have c1: "carries C (emitted (Slot_Store n a) b1)" "carries C b1"
    using c by (auto dest: carries_emitted)
  obtain y1 where y1: "(step C)\<^sup>*\<^sup>* x y1" "at_end b1 y1" "store y1 = s" "operand_value y1 a = k" "agree b x y1"
    by (rule value_simD [OF sim(1) b1 ready c1(2) x])
  let ?y = "jump m (set_slot n k y1)"
  have "step C y1 (set_slot n k y1)" using slot_store [OF fetch_emitted [OF c1(1) y1(2)]] y1(4) by simp
  moreover have "step C (set_slot n k y1) ?y" by (rule br [OF fetch_emitted [OF c]]) (use y1(2) in simp)
  ultimately have "(step C)\<^sup>*\<^sup>* x ?y" using y1(1) steps_into by blast
  then show ?thesis using y1 b0 by (intro exI [of _ ?y]) auto
qed

lemma walk_if_common_Inr:
  assumes w: "walk_if_common m m1 m2 b = Inr ((a, ty), b')" "ready b" and gr: "grows m" "grows m1" "grows m2"
  obtains v lt b1 a1 t1 b3 a2 t2 b5 b6 where
    "m (new_bb (new_bb (new_slot b))) = Inr ((v, lt), b1)" "ready b1"
    "m1 (placed (next_bb b) (emitted (CondBr v (next_bb b) (next_bb b1)) (new_bb b1))) = Inr ((a1, t1), b3)" "ready b3"
    "m2 (placed (next_bb b1) (emitted (Br (Suc (next_bb b))) (emitted (Slot_Store (next_slot b) a1) b3))) = Inr ((a2, t2), b5)"
    "ready b5" "b6 = placed (Suc (next_bb b)) (emitted (Br (Suc (next_bb b))) (emitted (Slot_Store (next_slot b) a2) b5))"
    "b' = emitted (Slot_Load (next_reg b6) (next_slot b)) (new_reg b6)" "a = Reg (next_reg b6)"
proof -
  let ?t = "next_bb b" and ?o = "Suc (next_bb b)" and ?s = "next_slot b"
  obtain v lt b1 where b1: "m (new_bb (new_bb (new_slot b))) = Inr ((v, BOOL, lt), b1)"
    using w(1) by (auto simp: walk_if_common_def act_Inr_iff walk_condition_Inr)
  have c1: "walk_condition m (new_bb (new_bb (new_slot b))) = Inr (v, b1)" using b1 by (auto simp: walk_condition_Inr)
  have r1: "ready b1" and n1: "?o < next_bb b1"
    using growsD [OF gr(1) b1] w(2) by (auto simp: grown_def)
  let ?b2 = "placed ?t (emitted (CondBr v ?t (next_bb b1)) (new_bb b1))"
  have f1: "curr_fn b1 \<noteq> None" using r1 by (simp add: ready_def)
  obtain a1 t1 b3 where b3: "m1 ?b2 = Inr ((a1, t1), b3)"
    using w(1) f1 c1 by (auto simp: walk_if_common_def act_Inr_iff split: prod.splits)
  have r2: "ready ?b2" using r1 n1 by simp
  have r3: "ready b3" and n3: "Suc (next_bb b1) \<le> next_bb b3" using growsD [OF gr(2) b3 r2] by (auto simp: grown_def)
  have f3: "curr_fn b3 \<noteq> None" using r3 by (simp add: ready_def)
  let ?b4 = "placed (next_bb b1) (emitted (Br ?o) (emitted (Slot_Store ?s a1) b3))"
  obtain a2 t2 b5 where b5: "m2 ?b4 = Inr ((a2, t2), b5)"
    using w(1) f1 c1 b3 f3 by (auto simp: walk_if_common_def act_Inr_iff split: prod.splits)
  have r4: "ready ?b4" using r3 n3 by simp
  have r5: "ready b5" using growsD [OF gr(3) b5 r4] by simp
  have f5: "curr_fn b5 \<noteq> None" using r5 by (simp add: ready_def)
  let ?b6 = "placed ?o (emitted (Br ?o) (emitted (Slot_Store ?s a2) b5))"
  have "b' = emitted (Slot_Load (next_reg ?b6) ?s) (new_reg ?b6)" "a = Reg (next_reg ?b6)"
    using w(1) f1 c1 b3 f3 b5 f5 by (auto simp: walk_if_common_def act_Inr_iff split: prod.splits if_splits)
  then show thesis using that b1 r1 b3 r3 b5 r5 by blast
qed

lemma sim_ife:
  assumes sim: "value_sim step C m f" "value_sim step C m1 f1" "value_sim step C m2 f2"
    and gr: "grows m" "grows m1" "grows m2"
  shows "value_sim step C (walk_if_common m m1 m2)
      (\<lambda>s. case f s of None \<Rightarrow> None | Some (v, s') \<Rightarrow> if v \<noteq> 0 then f1 s' else f2 s')"
  unfolding value_sim_def
proof (intro allI impI)
  fix b a ty b' x k s
  assume w: "walk_if_common m m1 m2 b = Inr ((a, ty), b')" "ready b" "carries C b'" "at_end b x"
    and e: "(case f (store x) of None \<Rightarrow> None | Some (v, s') \<Rightarrow> if v \<noteq> 0 then f1 s' else f2 s') = Some (k, s)"
  let ?t = "next_bb b" and ?o = "Suc (next_bb b)" and ?s = "next_slot b" and ?b0 = "new_bb (new_bb (new_slot b))"
  obtain v lt b1 a1 t1 b3 a2 t2 b5 b6 where i: "m ?b0 = Inr ((v, lt), b1)" "ready b1"
    "m1 (placed ?t (emitted (CondBr v ?t (next_bb b1)) (new_bb b1))) = Inr ((a1, t1), b3)" "ready b3"
    "m2 (placed (next_bb b1) (emitted (Br ?o) (emitted (Slot_Store ?s a1) b3))) = Inr ((a2, t2), b5)"
    "ready b5" and b6: "b6 = placed ?o (emitted (Br ?o) (emitted (Slot_Store ?s a2) b5))"
    and b': "b' = emitted (Slot_Load (next_reg b6) ?s) (new_reg b6)" "a = Reg (next_reg b6)"
    by (rule walk_if_common_Inr [OF w(1,2) gr])
  let ?b2 = "placed ?t (emitted (CondBr v ?t (next_bb b1)) (new_bb b1))"
  let ?b4 = "placed (next_bb b1) (emitted (Br ?o) (emitted (Slot_Store ?s a1) b3))"
  have r0: "ready ?b0" using w(2) by simp
  note g1 = growsD [OF gr(1) i(1) r0]
  have n1: "?o < next_bb b1" using g1 by (auto simp: grown_def)
  then have r2: "ready ?b2" using i(2) by simp
  note g3 = growsD [OF gr(2) i(3) r2]
  have n3: "next_bb b1 < next_bb b3" using g3 by (auto simp: grown_def)
  then have r4: "ready ?b4" using i(4) by simp
  note g5 = growsD [OF gr(3) i(5) r4]
  have c6: "carries C (emitted (Slot_Load (next_reg b6) ?s) b6)" using w(3) b' by (simp add: carries_def)
  then have c5: "carries C (emitted (Br ?o) (emitted (Slot_Store ?s a2) b5))" by (auto simp: b6 dest: carries_emitted)
  then have c4: "carries C ?b4" using carries_grown g5 by (blast dest: carries_emitted)
  then have c3: "carries C (emitted (Br ?o) (emitted (Slot_Store ?s a1) b3))" by simp
  then have c2: "carries C ?b2" using carries_grown g3 by (blast dest: carries_emitted)
  then have c1: "carries C (emitted (CondBr v ?t (next_bb b1)) (new_bb b1))" "carries C b1" by (auto dest: carries_emitted)
  have "older b ?b2" by (simp add: older_trans [OF _ older_grown [OF conjunct1 [OF g1]]])
  then have o2: "older b ?b2" and o4: "older b ?b4" by (simp_all add: older_trans [OF _ older_grown [OF conjunct1 [OF g3]]])
  then have o6: "older b b6" by (simp add: b6 older_trans [OF _ older_grown [OF conjunct1 [OF g5]]])
  obtain v' s1 where e1: "f (store x) = Some (v', s1)" using e by (auto split: option.splits)
  obtain y1 where y1: "(step C)\<^sup>*\<^sup>* x y1" "at_end b1 y1" "store y1 = s1" "operand_value y1 v = v'" "agree ?b0 x y1"
    by (rule value_simD [OF sim(1) i(1) r0 c1(2) _ e1]) (use w(4) in simp_all)
  have ag1: "agree b x y1" by (rule agree_older [OF y1(5)]) simp
  have f1: "fetch C y1 = Some (CondBr v ?t (next_bb b1))"
    by (rule fetch_emitted [OF c1(1)]) (use y1(2) in simp)
  have un1: "unused ?t b1" "unused ?o b1"
    using unused_grown [OF conjunct1 [OF g1]] unused_new [OF w(2)] by simp_all
  then have "unused ?o ?b2" "unused (next_bb b1) ?b2" using unused_new [OF i(2)] n1 by simp_all
  then have un3: "unused ?o b3" "unused (next_bb b1) b3"
    using unused_grown [OF conjunct1 [OF g3]] n1 by simp_all
  then have "unused ?o ?b4" using n1 by simp
  then have "unused ?o b5" using unused_grown [OF conjunct1 [OF g5]] n1 n3 by simp
  then have empty: "bb_code ?b2 ?t = []" "bb_code ?b4 (next_bb b1) = []" "bb_code b6 ?o = []"
    using un1 un3 by (simp_all add: b6 unused_def)
  have arms: "\<exists>y. (step C)\<^sup>*\<^sup>* (jump (if v' \<noteq> 0 then ?t else next_bb b1) y1) y \<and> at_bb y = ?o \<and> pc y = 0 \<and>
      store y = s \<and> slots y ?s = Some k \<and> agree b (jump (if v' \<noteq> 0 then ?t else next_bb b1) y1) y"
  proof (cases "v' \<noteq> 0")
    case True
    then show ?thesis
      using sim_arm [OF sim(2) gr(2) i(3) r2 c3, of "jump ?t y1" k s b] e e1 y1 empty(1) agree_older [OF _ o2]
      by auto
  next
    case False
    then show ?thesis
      using sim_arm [OF sim(3) gr(3) i(5) r4 c5, of "jump (next_bb b1) y1" k s b] e e1 y1 empty(2) agree_older [OF _ o4]
      by auto
  qed
  then obtain y where y: "(step C)\<^sup>*\<^sup>* (jump (if v' \<noteq> 0 then ?t else next_bb b1) y1) y" "at_bb y = ?o" "pc y = 0"
      "store y = s" "slots y ?s = Some k" "agree b y1 y" by auto
  have "step C y1 (jump (if v' \<noteq> 0 then ?t else next_bb b1) y1)" using cond_br [OF f1] y1(4) by simp
  then have "(step C)\<^sup>*\<^sup>* x y" using steps_trans [OF steps_into [OF y1(1)] y(1)] by blast
  moreover have "at_end b6 y" using y empty(3) by (simp add: at_end_def b6)
  then have "step C y (set_reg (next_reg b6) k y)" using slot_load [OF fetch_emitted [OF c6]] y(5) by blast
  moreover have "next_reg b \<le> next_reg b6" using o6 by (simp add: older_def)
  ultimately show "\<exists>y. (step C)\<^sup>*\<^sup>* x y \<and> at_end b' y \<and> store y = s \<and> operand_value y a = k \<and> agree b x y"
    using \<open>at_end b6 y\<close> y b' agree_trans [OF ag1] steps_into
    by (intro exI [of _ "set_reg (next_reg b6) k y"]) auto
qed

lemma sim_walk_expr: "value_sim step C (walk_expr e) (eval_expr S e)"
proof (induction e)
  case (E_Plain xs v t)
  show ?case by (rule sim_plain_expr)
next
  case (E_Land e1 e2)
  have "eval_expr S (E_Land e1 e2) =
      (\<lambda>s. case eval_expr S e1 s of None \<Rightarrow> None | Some (v, s') \<Rightarrow> if (v \<noteq> 0) = True then eval_expr S e2 s' else Some (v, s'))"
    by (simp add: fun_eq_iff cong: option.case_cong prod.case_cong)
  then show ?case using sim_landor [OF E_Land grows_walk_expr grows_walk_expr, where isand = True] by simp
next
  case (E_Lor e1 e2)
  have "eval_expr S (E_Lor e1 e2) =
      (\<lambda>s. case eval_expr S e1 s of None \<Rightarrow> None | Some (v, s') \<Rightarrow> if (v \<noteq> 0) = False then eval_expr S e2 s' else Some (v, s'))"
    by (auto simp: fun_eq_iff split: option.splits)
  then show ?case using sim_landor [OF E_Lor grows_walk_expr grows_walk_expr, where isand = False] by simp
next
  case (E_Ife e e1 e2)
  have "eval_expr S (E_Ife e e1 e2) =
      (\<lambda>s. case eval_expr S e s of None \<Rightarrow> None | Some (v, s') \<Rightarrow> if v \<noteq> 0 then eval_expr S e1 s' else eval_expr S e2 s')"
    by (simp add: fun_eq_iff)
  then show ?case using sim_ife [OF E_Ife grows_walk_expr grows_walk_expr grows_walk_expr] by simp
qed

end

subsection \<open>Statements\<close>

text \<open>Where the machine is after a statement, walked from \<open>b\<close> to \<open>b'\<close>, with the outcome \<open>r\<close>.\<close>

fun arrives :: "('i, 'v) builder \<Rightarrow> ('i, 'v) builder \<Rightarrow> outcome \<Rightarrow> 's config \<Rightarrow> bool" where
  "arrives b b' Normal y = at_end b' y"
| "arrives b b' Breaks y = (at_bb y = snd (hd (loop_controls b)) \<and> pc y = 0)"
| "arrives b b' Continues y = (at_bb y = fst (hd (loop_controls b)) \<and> pc y = 0)"
| "arrives b b' (Returns v) y =
     (at_bb y = retbb (node b) \<and> pc y = 0 \<and>
      (\<forall>k. v = Some k \<longrightarrow> (\<exists>n. retslot (node b) = Some n \<and> slots y n = Some k)))"

definition stmt_sim ::
  "(('i, 'v) code \<Rightarrow> 's config \<Rightarrow> 's config \<Rightarrow> bool) \<Rightarrow> ('i, 'v) code \<Rightarrow> ('i, 'v, unit) build \<Rightarrow>
   (('i, 'v) builder \<Rightarrow> 's config \<Rightarrow> bool) \<Rightarrow> 's \<Rightarrow> outcome \<Rightarrow> 's \<Rightarrow> bool" where
  "stmt_sim step C m starts s r s' \<longleftrightarrow>
     (\<forall>b b' x. m b = Inr ((), b') \<longrightarrow> ready b \<longrightarrow> carries C b' \<longrightarrow> starts b x \<longrightarrow> store x = s \<longrightarrow>
        (\<exists>y. (step C)\<^sup>*\<^sup>* x y \<and> store y = s' \<and> agree b x y \<and> arrives b b' r y))"

lemma stmt_simD:
  assumes "stmt_sim step C m starts s r s'" "m b = Inr ((), b')" "ready b" "carries C b'" "starts b x" "store x = s"
  obtains y where "(step C)\<^sup>*\<^sup>* x y" "store y = s'" "agree b x y" "arrives b b' r y"
  using assms unfolding stmt_sim_def by blast

lemma stmt_simI:
  assumes "\<And>b b' x. m b = Inr ((), b') \<Longrightarrow> ready b \<Longrightarrow> carries C b' \<Longrightarrow> starts b x \<Longrightarrow> store x = s \<Longrightarrow>
      \<exists>y. (step C)\<^sup>*\<^sup>* x y \<and> store y = s' \<and> agree b x y \<and> arrives b b' r y"
  shows "stmt_sim step C m starts s r s'"
  using assms unfolding stmt_sim_def by blast

text \<open>A loop starts where the builder is, or again at its first block, which is the next one made.\<close>

definition at_head :: "('i, 'v) builder \<Rightarrow> 's config \<Rightarrow> bool" where
  "at_head b x \<longleftrightarrow> at_end b x \<or> at_bb x = next_bb b \<and> pc x = 0"

lemma arrives_older:
  assumes "arrives b b' (Returns v) y" "older b0 b"
  shows "arrives b0 b0' (Returns v) y"
  using assms by (simp add: older_def)

context llvm_machine
begin

text \<open>The body of a loop, walked with the loop's blocks \<open>c\<close> and \<open>d\<close>, and the branch back.\<close>

lemma sim_body:
  assumes body: "stmt_sim step C m at_end s r s'" "grows m"
    and b2: "m (with_loops ((c, d) # ls) b) = Inr ((), b2)"
    and b': "b' = placed d (emitted (Br c) (with_loops ls' b2))"
    and h: "ready b" "unused d b" "d < next_bb b" "carries C b'" "at_end b x" "store x = s"
  obtains y where "(step C)\<^sup>*\<^sup>* x y" "store y = s'" "agree b x y"
    "r \<in> {Normal, Continues} \<longrightarrow> at_bb y = c \<and> pc y = 0" "r = Breaks \<longrightarrow> at_end b' y"
    "\<forall>v. r = Returns v \<longrightarrow> arrives b b' r y"
proof -
  let ?b1 = "with_loops ((c, d) # ls) b"
  have r1: "ready ?b1" using h(1) by simp
  have g2: "grown (next_bb ?b1) (insert_bb ?b1) ?b1 (loop_controls ?b1) {..<next_bb ?b1} b2"
    using growsD [OF body(2) b2 r1] by simp
  have cb: "carries C (emitted (Br c) (with_loops ls' b2))" using h(4) b' by simp
  then have c2: "carries C b2" by (auto dest: carries_emitted)
  obtain y where y: "(step C)\<^sup>*\<^sup>* x y" "store y = s'" "agree b x y" "arrives ?b1 b2 r y"
    using stmt_simD [OF body(1) b2 r1 c2 _ h(6)] h(5) by auto
  have un: "unused d b2" using unused_grown [OF g2] h(2,3) by simp
  show thesis
  proof (cases r)
    case Normal
    then have "fetch C y = Some (Br c)" using y(4) by (intro fetch_emitted [OF cb]) simp
    then have "(step C)\<^sup>*\<^sup>* x (jump c y)" using steps_into [OF y(1) br] by blast
    then show thesis using that [of "jump c y"] y Normal by simp
  next
    case Breaks
    then have "at_end b' y" using y(4) un b' by (simp add: at_end_def unused_def)
    then show thesis using that [OF y(1,2,3)] Breaks by simp
  next
    case Continues
    then show thesis using that [OF y(1,2,3)] y(4) by simp
  next
    case (Returns v)
    then show thesis using that [OF y(1,2,3)] y(4) by simp
  qed
qed

text \<open>What one round of a loop has to do, and what follows for the loop.\<close>

lemma sim_rounds:
  assumes round: "\<And>b b' x. M b = Inr ((), b') \<Longrightarrow> ready b \<Longrightarrow> carries C b' \<Longrightarrow> at_head b x \<Longrightarrow> store x = s \<Longrightarrow>
      \<exists>y. (step C)\<^sup>*\<^sup>* x y \<and> store y = s1 \<and> agree b x y \<and> (r \<in> {Normal, Continues} \<longrightarrow> at_head b y) \<and>
        (r = Breaks \<longrightarrow> at_end b' y) \<and> (\<forall>v. r = Returns v \<longrightarrow> arrives b b' r y)"
  shows "r \<in> {Normal, Continues} \<Longrightarrow> stmt_sim step C M at_head s1 r' s' \<Longrightarrow> stmt_sim step C M at_head s r' s'"
    and "r = Breaks \<Longrightarrow> stmt_sim step C M at_head s Normal s1"
    and "r = Returns v \<Longrightarrow> stmt_sim step C M at_head s r s1"
proof -
  show "stmt_sim step C M at_head s r' s'"
    if again: "r \<in> {Normal, Continues}" "stmt_sim step C M at_head s1 r' s'"
  proof (rule stmt_simI)
    fix b b' x assume w: "M b = Inr ((), b')" "ready b" "carries C b'" "at_head b x" "store x = s"
    obtain y where y: "(step C)\<^sup>*\<^sup>* x y" "store y = s1" "agree b x y" "at_head b y"
      using round [OF w] again(1) by blast
    obtain z where "(step C)\<^sup>*\<^sup>* y z" "store z = s'" "agree b y z" "arrives b b' r' z"
      by (rule stmt_simD [OF again(2) w(1,2,3) y(4,2)])
    then show "\<exists>z. (step C)\<^sup>*\<^sup>* x z \<and> store z = s' \<and> agree b x z \<and> arrives b b' r' z"
      using steps_trans [OF y(1)] agree_trans [OF y(3)] by blast
  qed
  show "stmt_sim step C M at_head s Normal s1" if "r = Breaks"
    using that by (intro stmt_simI) (drule round; auto)
  show "stmt_sim step C M at_head s r s1" if "r = Returns v"
    using that by (intro stmt_simI) (drule round; auto)
qed

lemma walk_loop_Inr:
  assumes "walk_loop m b = Inr ((), b')" "ready b" "grows m"
    and b1: "b1 = placed (next_bb b) (emitted (Br (next_bb b)) (new_bb (new_bb b)))"
  obtains b2 ls' where "m (with_loops ((next_bb b, Suc (next_bb b)) # loop_controls b) b1) = Inr ((), b2)"
    "b' = placed (Suc (next_bb b)) (emitted (Br (next_bb b)) (with_loops ls' b2))"
proof -
  have f: "curr_fn b \<noteq> None" using assms(2) by (simp add: ready_def)
  obtain b2 where b2: "m (with_loops ((next_bb b, Suc (next_bb b)) # loop_controls b) b1) = Inr ((), b2)"
    using assms(1) f by (auto simp: b1 walk_loop_def act_Inr_iff in_loop_Inr)
  moreover have "ready b1" using assms(2) by (simp add: b1)
  then have "curr_fn b2 \<noteq> None" using growsD [OF assms(3) b2] by (simp add: ready_def)
  ultimately show thesis using that assms(1) f by (auto simp: b1 walk_loop_def act_Inr_iff in_loop_Inr)
qed

lemma sim_enter:
  assumes "at_head b x" "carries C (emitted (Br (next_bb b)) b0)" "unused (next_bb b) b0" "at_end b x \<Longrightarrow> at_end b0 x"
  obtains y where "(step C)\<^sup>*\<^sup>* x y" "at_end (placed (next_bb b) (emitted (Br (next_bb b)) b0)) y" "store y = store x" "agree b x y"
proof (cases "at_end b x")
  case True
  then have "fetch C x = Some (Br (next_bb b))" using fetch_emitted assms(2,4) by blast
  then have "(step C)\<^sup>*\<^sup>* x (jump (next_bb b) x)" by (intro r_into_rtranclp br)
  then show thesis using that [of "jump (next_bb b) x"] assms(3) by (simp add: unused_def)
next
  case False
  then have "at_bb x = next_bb b \<and> pc x = 0" using assms(1) by (simp add: at_head_def)
  then show thesis using that [of x] assms(3) by (simp add: at_end_def unused_def)
qed

lemma sim_loop_round:
  assumes body: "stmt_sim step C m at_end s r s1" "grows m"
    and w: "walk_loop m b = Inr ((), b')" "ready b" "carries C b'" "at_head b x" "store x = s"
  shows "\<exists>y. (step C)\<^sup>*\<^sup>* x y \<and> store y = s1 \<and> agree b x y \<and> (r \<in> {Normal, Continues} \<longrightarrow> at_head b y) \<and>
      (r = Breaks \<longrightarrow> at_end b' y) \<and> (\<forall>v. r = Returns v \<longrightarrow> arrives b b' r y)"
proof -
  let ?l = "next_bb b"
  define b1 where "b1 = placed ?l (emitted (Br ?l) (new_bb (new_bb b)))"
  obtain b2 ls' where b2: "m (with_loops ((?l, Suc ?l) # loop_controls b) b1) = Inr ((), b2)"
    and b': "b' = placed (Suc ?l) (emitted (Br ?l) (with_loops ls' b2))"
    by (rule walk_loop_Inr [OF w(1,2) body(2) b1_def])
  have r1: "ready b1" using w(2) by (simp add: b1_def)
  have un: "unused ?l (new_bb (new_bb b))" "unused (Suc ?l) b1"
    using unused_new [OF w(2)] by (simp_all add: b1_def)
  have "carries C b2" using w(3) b' by (auto dest: carries_emitted)
  then have c1: "carries C b1"
    using growsD [OF body(2) b2] r1 carries_grown by (fastforce simp: carries_def)
  then have "carries C (emitted (Br ?l) (new_bb (new_bb b)))" by (simp add: b1_def)
  then obtain x1 where x1: "(step C)\<^sup>*\<^sup>* x x1" "at_end b1 x1" "store x1 = s" "agree b x x1"
    using sim_enter [OF w(4), of C "new_bb (new_bb b)"] un(1) w(5) unfolding b1_def by auto
  obtain y where y: "(step C)\<^sup>*\<^sup>* x1 y" "store y = s1" "agree b1 x1 y"
    "r \<in> {Normal, Continues} \<longrightarrow> at_bb y = ?l \<and> pc y = 0" "r = Breaks \<longrightarrow> at_end b' y"
    "\<forall>v. r = Returns v \<longrightarrow> arrives b1 b' r y"
    by (rule sim_body [OF body b2 b' r1 un(2) _ w(3) x1(2,3)]) (simp_all add: b1_def)
  have o: "older b b1" by (simp add: b1_def)
  have "arrives b b' r y" if "r = Returns v" for v using arrives_older [OF _ o] y(6) that by metis
  then show ?thesis
    using steps_trans [OF x1(1) y(1)] y(2,4,5) agree_trans [OF x1(4) agree_older [OF y(3) o]]
    by (intro exI [of _ y]) (simp add: at_head_def)
qed

lemma sim_loop:
  assumes m: "grows m"
  shows "stmt_sim step C m at_end s r s1 \<Longrightarrow> r \<in> {Normal, Continues} \<Longrightarrow>
      stmt_sim step C (walk_loop m) at_head s1 r' s' \<Longrightarrow> stmt_sim step C (walk_loop m) at_head s r' s'"
    and "stmt_sim step C m at_end s Breaks s' \<Longrightarrow> stmt_sim step C (walk_loop m) at_head s Normal s'"
    and "stmt_sim step C m at_end s (Returns v) s' \<Longrightarrow> stmt_sim step C (walk_loop m) at_head s (Returns v) s'"
  by (rule sim_rounds(1) [OF sim_loop_round [OF _ m]], assumption+)
    (rule sim_rounds(2) [OF sim_loop_round [OF _ m] refl], assumption+,
     rule sim_rounds(3) [OF sim_loop_round [OF _ m] refl], assumption+)

lemma walk_while_Inr:
  assumes "walk_while e m b = Inr ((), b')" "ready b" "grows e" "grows m"
    and b1: "b1 = placed (next_bb b) (emitted (Br (next_bb b)) (new_bb (new_bb (new_bb b))))"
  obtains v lt b2 b3 b4 ls' where "e b1 = Inr ((v, lt), b2)"
    "b3 = placed (Suc (next_bb b)) (emitted (CondBr v (Suc (next_bb b)) (Suc (Suc (next_bb b)))) b2)"
    "m (with_loops ((next_bb b, Suc (Suc (next_bb b))) # loop_controls b2) b3) = Inr ((), b4)"
    "b' = placed (Suc (Suc (next_bb b))) (emitted (Br (next_bb b)) (with_loops ls' b4))" "ready b3"
proof -
  let ?w = "Suc (next_bb b)" and ?d = "Suc (Suc (next_bb b))"
  have f: "curr_fn b \<noteq> None" and r1: "ready b1" using assms(2) by (simp_all add: ready_def b1)
  obtain v lt b2 where b2: "e b1 = Inr ((v, BOOL, lt), b2)"
    using assms(1) f by (auto simp: b1 walk_while_def act_Inr_iff walk_condition_Inr)
  then have c2: "walk_condition e b1 = Inr (v, b2)" by (auto simp: walk_condition_Inr)
  have r2: "ready b2" "next_bb b1 \<le> next_bb b2" using growsD [OF assms(3) b2 r1] by (auto simp: grown_def)
  then have f2: "curr_fn b2 \<noteq> None" by (simp add: ready_def)
  define b3 where "b3 = placed ?w (emitted (CondBr v ?w ?d) b2)"
  obtain b4 where b4: "m (with_loops ((next_bb b, ?d) # loop_controls b2) b3) = Inr ((), b4)"
    using assms(1) f f2 c2 by (auto simp: b1 b3_def walk_while_def act_Inr_iff in_loop_Inr)
  have r3: "ready b3" using r2 by (simp add: b3_def b1)
  then have "curr_fn b4 \<noteq> None" using growsD [OF assms(4) b4] by (simp add: ready_def)
  then obtain ls' where "b' = placed ?d (emitted (Br (next_bb b)) (with_loops ls' b4))"
    using assms(1) f f2 c2 b4 by (auto simp: b1 b3_def walk_while_def act_Inr_iff in_loop_Inr)
  then show thesis using that b2 b3_def b4 r3 by blast
qed

text \<open>The condition, at the head of the loop.\<close>

lemma sim_while_cond:
  assumes e: "value_sim step C e f" "grows e" and gr: "grows m"
    and w: "walk_while e m b = Inr ((), b')" "ready b" "carries C b'" "at_head b x" "f (store x) = Some (k, s)"
  obtains v b2 b3 b4 ls' y where
    "b3 = placed (Suc (next_bb b)) (emitted (CondBr v (Suc (next_bb b)) (Suc (Suc (next_bb b)))) b2)"
    "m (with_loops ((next_bb b, Suc (Suc (next_bb b))) # loop_controls b2) b3) = Inr ((), b4)"
    "b' = placed (Suc (Suc (next_bb b))) (emitted (Br (next_bb b)) (with_loops ls' b4))" "ready b3"
    "unused (Suc (Suc (next_bb b))) b3" "Suc (Suc (next_bb b)) < next_bb b3" "older b b3" "loop_controls b2 = loop_controls b"
    "(step C)\<^sup>*\<^sup>* x y" "store y = s" "agree b x y"
    "k \<noteq> 0 \<longrightarrow> at_end b3 y" "k = 0 \<longrightarrow> at_end b' y"
proof -
  let ?c = "next_bb b" and ?w = "Suc (next_bb b)" and ?d = "Suc (Suc (next_bb b))"
  define b0 where "b0 = new_bb (new_bb (new_bb b))"
  define b1 where "b1 = placed ?c (emitted (Br ?c) b0)"
  obtain v lt b2 b3 b4 ls' where b2: "e b1 = Inr ((v, lt), b2)" and b3: "b3 = placed ?w (emitted (CondBr v ?w ?d) b2)"
    and b4: "m (with_loops ((?c, ?d) # loop_controls b2) b3) = Inr ((), b4)"
    and b': "b' = placed ?d (emitted (Br ?c) (with_loops ls' b4))" and r3: "ready b3"
    using walk_while_Inr [OF w(1,2) e(2) gr] b1_def b0_def by metis
  have r1: "ready b1" using w(2) by (simp add: b1_def b0_def)
  note g2 = conjunct1 [OF growsD [OF e(2) b2 r1]]
  have r3': "ready (with_loops ((?c, ?d) # loop_controls b2) b3)" using r3 by simp
  note g4 = conjunct1 [OF growsD [OF gr b4 r3']]
  have "carries C b4" using w(3) b' by (auto dest: carries_emitted)
  then have "carries C b3" using carries_grown [OF _ g4] by simp
  then have c2: "carries C (emitted (CondBr v ?w ?d) b2)" "carries C b2" by (auto simp: b3 dest: carries_emitted)
  then have "carries C b1" using carries_grown [OF _ g2] by blast
  then have c0: "carries C (emitted (Br ?c) b0)" by (simp add: b1_def)
  have un0: "unused ?c b0" "unused ?w b0" "unused ?d b0" using unused_new [OF w(2)] by (simp_all add: b0_def)
  then have "unused ?w b1" "unused ?d b1" by (simp_all add: b1_def)
  then have un2: "unused ?w b2" "unused ?d b2" using unused_grown [OF g2] by (simp_all add: b1_def b0_def)
  then have un3: "unused ?d b3" by (simp add: b3)
  then have un4: "unused ?d b4" using unused_grown [OF g4] g2 by (simp add: grown_def b3 b1_def b0_def)
  have o: "older b b1" by (simp add: b1_def b0_def)
  then have o3: "older b b3" by (simp add: b3 older_trans [OF _ older_grown [OF g2]])
  obtain x1 where x1: "(step C)\<^sup>*\<^sup>* x x1" "at_end b1 x1" "store x1 = store x" "agree b x x1"
    using sim_enter [OF w(4) c0 un0(1)] unfolding b1_def by (auto simp: b0_def)
  obtain y where y: "(step C)\<^sup>*\<^sup>* x1 y" "at_end b2 y" "store y = s" "operand_value y v = k" "agree b1 x1 y"
    by (rule value_simD [OF e(1) b2 r1 c2(2) x1(2)]) (use x1(3) w(5) in auto)
  let ?y = "jump (if k \<noteq> 0 then ?w else ?d) y"
  have "step C y ?y" using cond_br [OF fetch_emitted [OF c2(1) y(2)]] y(4) by simp
  then have "(step C)\<^sup>*\<^sup>* x ?y" using steps_trans [OF x1(1) steps_into [OF y(1)]] by blast
  moreover have "agree b x ?y" using agree_trans [OF x1(4) agree_older [OF y(5) o]] by simp
  moreover have "k \<noteq> 0 \<Longrightarrow> at_end b3 ?y" using un2(1) by (simp add: b3 at_end_def unused_def)
  moreover have "k = 0 \<Longrightarrow> at_end b' ?y" using un4 by (simp add: b' at_end_def unused_def)
  moreover have "?d < next_bb b3" "loop_controls b2 = loop_controls b" using g2 by (auto simp: grown_def b3 b1_def b0_def)
  ultimately show thesis using that [OF b3 b4 b' r3 un3 _ o3, of ?y] y(3) by simp
qed

lemma sim_while:
  assumes e: "value_sim step C e f" "grows e" and gr: "grows m"
  shows "f s = Some (0, s') \<Longrightarrow> stmt_sim step C (walk_while e m) at_head s Normal s'"
    and "f s = Some (k, s1) \<Longrightarrow> k \<noteq> 0 \<Longrightarrow> stmt_sim step C m at_end s1 r s2 \<Longrightarrow> r \<in> {Normal, Continues} \<Longrightarrow>
      stmt_sim step C (walk_while e m) at_head s2 r' s' \<Longrightarrow> stmt_sim step C (walk_while e m) at_head s r' s'"
    and "f s = Some (k, s1) \<Longrightarrow> k \<noteq> 0 \<Longrightarrow> stmt_sim step C m at_end s1 Breaks s' \<Longrightarrow>
      stmt_sim step C (walk_while e m) at_head s Normal s'"
    and "f s = Some (k, s1) \<Longrightarrow> k \<noteq> 0 \<Longrightarrow> stmt_sim step C m at_end s1 (Returns v) s' \<Longrightarrow>
      stmt_sim step C (walk_while e m) at_head s (Returns v) s'"
proof -
  show "stmt_sim step C (walk_while e m) at_head s Normal s'" if "f s = Some (0, s')"
  proof (rule stmt_simI)
    fix b b' x assume w: "walk_while e m b = Inr ((), b')" "ready b" "carries C b'" "at_head b x" "store x = s"
    then have "f (store x) = Some (0, s')" using that by simp
    from sim_while_cond [OF e gr w(1-4) this]
    show "\<exists>y. (step C)\<^sup>*\<^sup>* x y \<and> store y = s' \<and> agree b x y \<and> arrives b b' Normal y" by (metis arrives.simps(1))
  qed
  have round: "\<exists>y. (step C)\<^sup>*\<^sup>* x y \<and> store y = s2 \<and> agree b x y \<and> (r \<in> {Normal, Continues} \<longrightarrow> at_head b y) \<and>
        (r = Breaks \<longrightarrow> at_end b' y) \<and> (\<forall>v. r = Returns v \<longrightarrow> arrives b b' r y)"
    if k: "f s = Some (k, s1)" "k \<noteq> 0" and body: "stmt_sim step C m at_end s1 r s2"
      and w: "walk_while e m b = Inr ((), b')" "ready b" "carries C b'" "at_head b x" "store x = s" for r s2 b b' x
  proof -
    let ?c = "next_bb b" and ?d = "Suc (Suc (next_bb b))"
    have "f (store x) = Some (k, s1)" using k(1) w(5) by simp
    then obtain v b2 b3 b4 ls' y where "b3 = placed (Suc ?c) (emitted (CondBr v (Suc ?c) ?d) b2)"
      and b4: "m (with_loops ((?c, ?d) # loop_controls b2) b3) = Inr ((), b4)"
      and b': "b' = placed ?d (emitted (Br ?c) (with_loops ls' b4))" and r3: "ready b3"
      and un: "unused ?d b3" "?d < next_bb b3" and o: "older b b3" and "loop_controls b2 = loop_controls b"
      and y: "(step C)\<^sup>*\<^sup>* x y" "store y = s1" "agree b x y" and there: "k \<noteq> 0 \<longrightarrow> at_end b3 y" "k = 0 \<longrightarrow> at_end b' y"
      by (rule sim_while_cond [OF e gr w(1-4)])
    obtain z where z: "(step C)\<^sup>*\<^sup>* y z" "store z = s2" "agree b3 y z"
      "r \<in> {Normal, Continues} \<longrightarrow> at_bb z = ?c \<and> pc z = 0" "r = Breaks \<longrightarrow> at_end b' z"
      "\<forall>v. r = Returns v \<longrightarrow> arrives b3 b' r z"
      by (rule sim_body [OF body gr b4 b' r3 un w(3) mp [OF there(1) k(2)] y(2)])
    have "arrives b b' r z" if "r = Returns v" for v using arrives_older [OF _ o] z(6) that by metis
    then show ?thesis
      using steps_trans [OF y(1) z(1)] z(2,4,5) agree_trans [OF y(3) agree_older [OF z(3) o]]
      by (intro exI [of _ z]) (simp add: at_head_def)
  qed
  show "stmt_sim step C (walk_while e m) at_head s r' s'"
    if "f s = Some (k, s1)" "k \<noteq> 0" "stmt_sim step C m at_end s1 r s2" "r \<in> {Normal, Continues}"
      "stmt_sim step C (walk_while e m) at_head s2 r' s'"
    by (rule sim_rounds(1) [OF round that(4,5)]) (use that(1-3) in blast)+
  show "stmt_sim step C (walk_while e m) at_head s Normal s'"
    if "f s = Some (k, s1)" "k \<noteq> 0" "stmt_sim step C m at_end s1 Breaks s'"
    by (rule sim_rounds(2) [OF round refl]) (use that in blast)+
  show "stmt_sim step C (walk_while e m) at_head s (Returns v) s'"
    if "f s = Some (k, s1)" "k \<noteq> 0" "stmt_sim step C m at_end s1 (Returns v) s'"
    by (rule sim_rounds(3) [OF round refl]) (use that in blast)+
qed
end

subsection \<open>\<open>for\<close>\<close>

text \<open>The code of the head of a \<open>for\<close> loop, and the code that takes an item and steps the index.\<close>

definition for_test :: "nat \<Rightarrow> Predicate \<Rightarrow> nat \<Rightarrow> operand \<Rightarrow> bb \<Rightarrow> bb \<Rightarrow> ('i, 'v) builder \<Rightarrow> ('i, 'v) builder" where
  "for_test idx p w ev l d b =
     placed l (emitted (CondBr (Reg (Suc (next_reg b))) l d)
       (emitted (Compare (Suc (next_reg b)) p w (Reg (next_reg b)) ev)
         (new_reg (emitted (Slot_Load (next_reg b) idx) (new_reg b)))))"

definition for_step :: "'i \<Rightarrow> nat \<Rightarrow> nat \<Rightarrow> nat \<Rightarrow> ('i, 'v) builder \<Rightarrow> ('i, 'v) builder" where
  "for_step ci idx w iv b =
     emitted (Slot_Store idx (Reg (Suc (next_reg b))))
       (emitted (Add_Bits (Suc (next_reg b)) w (Reg (next_reg b)) (Const_Bits 1))
         (new_reg (emitted (Slot_Load (next_reg b) idx) (new_reg (emitted (Item ci (Reg iv)) b)))))"

text \<open>From \<open>k\<close> the index goes through \<open>ks\<close> and then the test against \<open>h\<close> fails.\<close>

fun counts :: "Predicate \<Rightarrow> nat \<Rightarrow> nat \<Rightarrow> nat \<Rightarrow> nat list \<Rightarrow> bool" where
  "counts p w h k [] \<longleftrightarrow> \<not> int_compare p w k h"
| "counts p w h k (j # ks) \<longleftrightarrow> j = k \<and> int_compare p w k h \<and> counts p w h ((k + 1) mod 2 ^ w) ks"

text \<open>\<open>b4\<close> is the builder at the head of a \<open>for\<close> loop walked from \<open>b\<close> to \<open>b'\<close>.\<close>

definition for_built ::
  "('i, 'v) builder \<Rightarrow> ('i, 'v) builder \<Rightarrow> 'i \<Rightarrow> ('i, 'v, unit) build \<Rightarrow> nat \<Rightarrow> Predicate \<Rightarrow> nat \<Rightarrow> operand \<Rightarrow>
   ('i, 'v) builder \<Rightarrow> bool" where
  "for_built b b' ci m idx p w ev b4 \<longleftrightarrow>
     (let c = next_bb b; l = Suc (next_bb b); d = Suc (Suc (next_bb b))
      in ready b \<and> ready b4 \<and> older b b4 \<and> next_slot b \<le> idx \<and> idx < next_slot b4 \<and>
         insert_bb b4 = c \<and> bb_code b4 c = [] \<and> unused l b4 \<and> unused d b4 \<and> d < next_bb b4 \<and>
         (\<forall>r. ev = Reg r \<longrightarrow> r < next_reg b4) \<and>
         (\<exists>b12 ls'. m (with_loops ((c, d) # loop_controls b)
              (for_step ci idx w (next_reg b4) (for_test idx p w ev l d b4))) = Inr ((), b12) \<and>
            b' = placed d (emitted (Br c) (with_loops ls' b12))))"

text \<open>From the head, with \<open>k\<close> in the slot of the index and \<open>h\<close> the limit.\<close>

definition for_at :: "nat \<Rightarrow> operand \<Rightarrow> ('i, 'v) builder \<Rightarrow> nat \<Rightarrow> nat \<Rightarrow> 's config \<Rightarrow> bool" where
  "for_at idx ev b4 k h x \<longleftrightarrow> at_end b4 x \<and> slots x idx = Some k \<and> operand_value x ev = h"

lemma operand_value_set_reg:
  "(\<forall>r. a = Reg r \<longrightarrow> r < n) \<Longrightarrow> n \<le> q \<Longrightarrow> operand_value (set_reg q v x) a = operand_value x a"
  by (cases a) auto

lemma operand_value_agree:
  "(\<forall>r. a = Reg r \<longrightarrow> r < next_reg b) \<Longrightarrow> agree b x y \<Longrightarrow> operand_value y a = operand_value x a"
  by (cases a) (auto simp: agree_def)

context llvm_machine
begin

lemma sim_for_test:
  assumes c: "carries C (for_test idx p w ev l d b)" and x: "at_end b x" "slots x idx = Some k"
    and ev: "\<forall>r. ev = Reg r \<longrightarrow> r < next_reg b" and un: "unused l b"
  obtains y where "(step C)\<^sup>*\<^sup>* x y" "store y = store x" "slots y = slots x" "agree b x y" "regs y (next_reg b) = k"
    "int_compare p w k (operand_value x ev) \<longrightarrow> at_end (for_test idx p w ev l d b) y"
    "\<not> int_compare p w k (operand_value x ev) \<longrightarrow> at_bb y = d \<and> pc y = 0"
proof -
  let ?r = "next_reg b" and ?t = "int_compare p w k (operand_value x ev)"
  let ?b1 = "emitted (Slot_Load ?r idx) (new_reg b)"
  let ?b2 = "emitted (Compare (Suc ?r) p w (Reg ?r) ev) (new_reg ?b1)"
  have c3: "carries C (emitted (CondBr (Reg (Suc ?r)) l d) ?b2)" using c by (simp add: for_test_def)
  then have c2: "carries C ?b2" by (rule carries_emitted)
  then have c1: "carries C ?b1" by (auto dest: carries_emitted)
  let ?x1 = "set_reg ?r k x"
  let ?x2 = "set_reg (Suc ?r) (of_bool ?t) ?x1"
  let ?x3 = "jump (if ?t then l else d) ?x2"
  have "step C x ?x1" by (rule slot_load [OF fetch_emitted [OF c1] x(2)]) (use x(1) in simp)
  moreover have "at_end (new_reg ?b1) ?x1" using x(1) by simp
  then have "step C ?x1 ?x2"
    using compare [OF fetch_emitted [OF c2]] operand_value_set_reg [OF ev le_refl, of k x] by force
  moreover have "at_end ?b2 ?x2" using x(1) by simp
  then have "step C ?x2 ?x3" using cond_br [OF fetch_emitted [OF c3]] by fastforce
  ultimately have "(step C)\<^sup>*\<^sup>* x ?x3" by (meson r_into_rtranclp steps_into)
  moreover have "?t \<longrightarrow> at_end (for_test idx p w ev l d b) ?x3" using un by (simp add: for_test_def at_end_def unused_def)
  ultimately show thesis using that [of ?x3] by simp
qed

lemma sim_for_step:
  assumes c: "carries C (for_step ci idx w iv b)" and x: "at_end b x" "slots x idx = Some k"
    and i: "run_item S ci (regs x iv) (store x) = Some s"
  obtains y where "(step C)\<^sup>*\<^sup>* x y" "at_end (for_step ci idx w iv b) y" "store y = s"
    "slots y = (slots x)(idx := Some ((k + 1) mod 2 ^ w))" "\<forall>r<next_reg b. regs y r = regs x r"
proof -
  let ?r = "next_reg b"
  let ?b1 = "emitted (Item ci (Reg iv)) b"
  let ?b2 = "emitted (Slot_Load ?r idx) (new_reg ?b1)"
  let ?b3 = "emitted (Add_Bits (Suc ?r) w (Reg ?r) (Const_Bits 1)) (new_reg ?b2)"
  have c4: "carries C (emitted (Slot_Store idx (Reg (Suc ?r))) ?b3)" using c by (simp add: for_step_def)
  then have c3: "carries C ?b3" by (rule carries_emitted)
  then have c2: "carries C ?b2" by (auto dest: carries_emitted)
  then have c1: "carries C ?b1" by (auto dest: carries_emitted)
  let ?x1 = "set_store s x"
  let ?x2 = "set_reg ?r k ?x1"
  let ?x3 = "set_reg (Suc ?r) ((k + 1) mod 2 ^ w) ?x2"
  let ?x4 = "set_slot idx ((k + 1) mod 2 ^ w) ?x3"
  have "step C x ?x1" using item [OF fetch_emitted [OF c1 x(1)]] i by simp
  moreover have "at_end (new_reg ?b1) ?x1" using x(1) by simp
  then have "step C ?x1 ?x2" using slot_load [OF fetch_emitted [OF c2]] x(2) by simp
  moreover have "at_end (new_reg ?b2) ?x2" using x(1) by simp
  then have "step C ?x2 ?x3" using add_bits [OF fetch_emitted [OF c3]] by fastforce
  moreover have "at_end ?b3 ?x3" using x(1) by simp
  then have "step C ?x3 ?x4" using slot_store [OF fetch_emitted [OF c4]] by fastforce
  ultimately have "(step C)\<^sup>*\<^sup>* x ?x4" by (meson r_into_rtranclp steps_into)
  then show thesis using that [of ?x4] x(1) by (simp add: for_step_def)
qed

lemma for_built_carries:
  assumes f: "for_built b b' ci m idx p w ev b4" and m: "grows m" and c: "carries C b'"
  defines "b7 \<equiv> for_test idx p w ev (Suc (next_bb b)) (Suc (Suc (next_bb b))) b4"
  shows "carries C (for_step ci idx w (next_reg b4) b7)" "carries C b7"
    "ready b7" "ready (for_step ci idx w (next_reg b4) b7)"
proof -
  obtain b12 ls' where b12: "m (with_loops ((next_bb b, Suc (Suc (next_bb b))) # loop_controls b)
        (for_step ci idx w (next_reg b4) b7)) = Inr ((), b12)"
    and b': "b' = placed (Suc (Suc (next_bb b))) (emitted (Br (next_bb b)) (with_loops ls' b12))"
    using f by (auto simp: for_built_def Let_def b7_def)
  show r7: "ready b7" "ready (for_step ci idx w (next_reg b4) b7)"
    using f by (auto simp: for_built_def Let_def b7_def for_test_def for_step_def)
  have "carries C b12" using c b' by (auto dest: carries_emitted)
  then have "carries C (with_loops ((next_bb b, Suc (Suc (next_bb b))) # loop_controls b) (for_step ci idx w (next_reg b4) b7))"
    using carries_grown growsD [OF m b12] r7(2) by (fastforce simp del: carries_changes)
  then show "carries C (for_step ci idx w (next_reg b4) b7)" by simp
  then show "carries C b7" unfolding for_step_def by (metis carries_emitted carries_changes(2))
qed

lemma sim_for_done:
  assumes f: "for_built b b' ci m idx p w ev b4" "grows m" "carries C b'"
    and x: "for_at idx ev b4 k h x" "\<not> int_compare p w k h"
  shows "\<exists>y. (step C)\<^sup>*\<^sup>* x y \<and> store y = store x \<and> agree b x y \<and> at_end b' y"
proof -
  let ?d = "Suc (Suc (next_bb b))"
  let ?b7 = "for_test idx p w ev (Suc (next_bb b)) ?d b4"
  note fb = f(1) [unfolded for_built_def Let_def]
  note c = for_built_carries [OF f]
  obtain y where y: "(step C)\<^sup>*\<^sup>* x y" "store y = store x" "slots y = slots x" "agree b4 x y" "regs y (next_reg b4) = k"
    "int_compare p w k (operand_value x ev) \<longrightarrow> at_end ?b7 y" "\<not> int_compare p w k (operand_value x ev) \<longrightarrow> at_bb y = ?d \<and> pc y = 0"
    by (rule sim_for_test [OF c(2), of x k]) (use x fb in \<open>simp_all add: for_at_def\<close>)
  obtain b12 ls' where b12: "m (with_loops ((next_bb b, ?d) # loop_controls b) (for_step ci idx w (next_reg b4) ?b7)) = Inr ((), b12)"
    and b': "b' = placed ?d (emitted (Br (next_bb b)) (with_loops ls' b12))"
    using fb by auto
  have "unused ?d (with_loops ((next_bb b, ?d) # loop_controls b) (for_step ci idx w (next_reg b4) ?b7))"
    using fb by (simp add: for_step_def for_test_def)
  moreover have "?d < next_bb b4" using fb by simp
  ultimately have "unused ?d b12"
    using unused_grown growsD [OF f(2) b12] c(4) by (fastforce simp: for_step_def for_test_def)
  then have "at_end b' y" using y(7) x b' by (simp add: at_end_def unused_def for_at_def)
  then show ?thesis using y(1,2) agree_older [OF y(4)] fb by blast
qed

lemma sim_for_round:
  assumes f: "for_built b b' ci m idx p w ev b4" "grows m" "carries C b'"
    and x: "for_at idx ev b4 k h x" "int_compare p w k h"
    and i: "run_item S ci k (store x) = Some s1" and body: "stmt_sim step C m at_end s1 r s2"
  shows "\<exists>y. (step C)\<^sup>*\<^sup>* x y \<and> store y = s2 \<and> agree b x y \<and>
      (r \<in> {Normal, Continues} \<longrightarrow> for_at idx ev b4 ((k + 1) mod 2 ^ w) h y) \<and>
      (r = Breaks \<longrightarrow> at_end b' y) \<and> (\<forall>v. r = Returns v \<longrightarrow> arrives b b' r y)"
proof -
  let ?c = "next_bb b" and ?d = "Suc (Suc (next_bb b))" and ?k = "(k + 1) mod 2 ^ w"
  let ?b7 = "for_test idx p w ev (Suc ?c) ?d b4"
  let ?b11 = "for_step ci idx w (next_reg b4) ?b7"
  note fb = f(1) [unfolded for_built_def Let_def]
  note c = for_built_carries [OF f]
  obtain y where y: "(step C)\<^sup>*\<^sup>* x y" "store y = store x" "slots y = slots x" "agree b4 x y" "regs y (next_reg b4) = k"
    "int_compare p w k (operand_value x ev) \<longrightarrow> at_end ?b7 y" "\<not> int_compare p w k (operand_value x ev) \<longrightarrow> at_bb y = ?d \<and> pc y = 0"
    by (rule sim_for_test [OF c(2), of x k]) (use x fb in \<open>simp_all add: for_at_def\<close>)
  have y7: "at_end ?b7 y" "slots y idx = Some k" "run_item S ci (regs y (next_reg b4)) (store y) = Some s1"
    using y x i by (simp_all add: for_at_def)
  obtain z where z: "(step C)\<^sup>*\<^sup>* y z" "at_end ?b11 z" "store z = s1" "slots z = (slots y)(idx := Some ?k)"
    "\<forall>q<next_reg ?b7. regs z q = regs y q"
    by (rule sim_for_step [OF c(1) y7])
  obtain b12 ls' where b12: "m (with_loops ((?c, ?d) # loop_controls b) ?b11) = Inr ((), b12)"
    and b': "b' = placed ?d (emitted (Br ?c) (with_loops ls' b12))" using fb by auto
  have un: "unused ?d ?b11" "?d < next_bb ?b11" and node_b11: "node ?b11 = node ?b7" "retslot (node ?b7) = retslot (node b4)"
    and o11: "older b ?b11" "older b4 ?b11"
    using fb by (simp_all add: for_step_def for_test_def older_def)
  obtain y' where y': "(step C)\<^sup>*\<^sup>* z y'" "store y' = s2" "agree ?b11 z y'" "r \<in> {Normal, Continues} \<longrightarrow> at_bb y' = ?c \<and> pc y' = 0"
    "r = Breaks \<longrightarrow> at_end b' y'" "\<forall>v. r = Returns v \<longrightarrow> arrives ?b11 b' r y'"
    by (rule sim_body [OF body f(2) b12 b' c(4) un f(3) z(2,3)])
  have idx: "retslot (node b) \<noteq> Some idx" "idx < next_slot b4" using fb by (auto simp: ready_def)
  have xz: "agree b x z"
    using y(3) z(4,5) agree_older [OF y(4), of b] fb by (auto simp: agree_def older_def for_test_def)
  have "agree b x y'" using agree_trans [OF xz agree_older [OF y'(3) o11(1)]] .
  moreover have "slots y' idx = Some ?k"
    using y'(3) z(4) idx fb by (simp add: agree_def node_b11 older_def for_step_def for_test_def)
  moreover have "operand_value z ev = h"
    using operand_value_agree [OF _ y(4), of ev] x fb z(5) by (cases ev) (auto simp: for_at_def for_test_def)
  then have "operand_value y' ev = h"
    using operand_value_agree [of ev b4 z y'] fb agree_older [OF y'(3) o11(2)] by simp
  moreover have "at_end b4 y'" if "at_bb y' = ?c \<and> pc y' = 0" using that fb by (simp add: at_end_def)
  moreover have "arrives b b' r y'" if "r = Returns v" for v using arrives_older [OF _ o11(1)] y'(6) that by metis
  ultimately show ?thesis
    using steps_trans [OF steps_trans [OF y(1) z(1)] y'(1)] y'(2,4,5) by (intro exI [of _ y']) (auto simp: for_at_def)
qed

end

text \<open>The items that are left, from the head of the loop.\<close>

definition items_sim ::
  "(('i, 'v) code \<Rightarrow> 's config \<Rightarrow> 's config \<Rightarrow> bool) \<Rightarrow> ('i, 'v) code \<Rightarrow> 'i \<Rightarrow> ('i, 'v, unit) build \<Rightarrow>
   nat list \<Rightarrow> 's \<Rightarrow> outcome \<Rightarrow> 's \<Rightarrow> bool" where
  "items_sim step C ci m ks s r s' \<longleftrightarrow>
     (\<forall>b b' idx p w ev b4 x k h.
        for_built b b' ci m idx p w ev b4 \<longrightarrow> carries C b' \<longrightarrow> for_at idx ev b4 k h x \<longrightarrow> counts p w h k ks \<longrightarrow>
        store x = s \<longrightarrow> (\<exists>y. (step C)\<^sup>*\<^sup>* x y \<and> store y = s' \<and> agree b x y \<and> arrives b b' r y))"

text \<open>Where the index starts and the limit it is compared with.\<close>

definition for_ends :: "('i, 'v, 's) plain_sem \<Rightarrow> for_list \<Rightarrow> 'v \<Rightarrow> 'v \<Rightarrow> 's \<Rightarrow> nat \<times> nat" where
  "for_ends S l lo hi s = (case l of For_Array n \<Rightarrow> (0, n) | _ \<Rightarrow> (value_of S lo s, value_of S hi s))"

definition for_start :: "('i, 'v) builder \<Rightarrow> operand \<Rightarrow> ('i, 'v) builder \<Rightarrow> ('i, 'v) builder" where
  "for_start b bv b2 = placed (next_bb b) (emitted (Br (next_bb b)) (emitted (Slot_Store (next_slot b2) bv) (new_slot b2)))"

lemma for_bounds_Inr:
  assumes "for_bounds l lo hi b = Inr ((bv, ev), b2)"
  shows "(\<exists>n. l = For_Array n \<and> bv = Const_Bits 0 \<and> ev = Const_Bits n \<and> b2 = b) \<or>
    (\<forall>n. l \<noteq> For_Array n) \<and> bv = Reg (next_reg b) \<and> ev = Reg (Suc (next_reg b)) \<and>
    b2 = emitted (Value (Suc (next_reg b)) hi) (new_reg (emitted (Value (next_reg b) lo) (new_reg b)))"
  using assms by (cases l) (auto simp: for_bounds_def act_Inr_iff)

lemma walk_for_Inr:
  assumes "walk_for pre l lo hi ci m b = Inr ((), b')" "ready b" "grows m"
  obtains b1 p w bv ev b2 where "emits (map Plain pre) (new_bb (new_bb (new_bb b))) = Inr ((), b1)"
    "aux_create_compare_value_for l = Inr (p, w)" "for_bounds l lo hi b1 = Inr ((bv, ev), b2)"
    "for_built b b' ci m (next_slot b2) p w ev (for_start b bv b2)"
proof -
  let ?c = "next_bb b" and ?l = "Suc (next_bb b)" and ?d = "Suc (Suc (next_bb b))"
  let ?b0 = "new_bb (new_bb (new_bb b))"
  have fn: "curr_fn b \<noteq> None" using assms(2) by (simp add: ready_def)
  obtain b1 where b1: "emits (map Plain pre) ?b0 = Inr ((), b1)"
    using assms(1) fn by (auto simp: walk_for_def act_Inr_iff)
  have e1: "next_reg b1 = next_reg b" "next_slot b1 = next_slot b" "next_bb b1 = Suc ?d" "insert_bb b1 = insert_bb b"
    "curr_fn b1 = curr_fn b" "node b1 = node b" "loop_controls b1 = loop_controls b"
    "\<And>n. n \<noteq> insert_bb b \<Longrightarrow> bb_code b1 n = bb_code b n"
    using emits_fields [OF b1] by simp_all
  have r1: "ready b1" using emits_ready [OF b1] assms(2) by simp
  obtain p w where pw: "aux_create_compare_value_for l = Inr (p, w)"
    using assms(1) fn b1 by (auto simp: walk_for_def act_Inr_iff lift_result_Inr_iff)
  obtain bv ev b2 where b2: "for_bounds l lo hi b1 = Inr ((bv, ev), b2)"
    using assms(1) fn b1 pw by (auto simp: walk_for_def act_Inr_iff lift_result_Inr_iff)
  have e2: "next_slot b2 = next_slot b" "next_bb b2 = Suc ?d" "insert_bb b2 = insert_bb b"
    "curr_fn b2 = curr_fn b" "node b2 = node b" "loop_controls b2 = loop_controls b"
    "\<And>n. n \<noteq> insert_bb b \<Longrightarrow> bb_code b2 n = bb_code b n" "ready b2" "next_reg b \<le> next_reg b2"
    "\<forall>r. ev = Reg r \<longrightarrow> r < next_reg b2"
    using for_bounds_Inr [OF b2] e1 r1 by auto
  define b4 where "b4 = for_start b bv b2"
  define b11 where "b11 = for_step ci (next_slot b2) w (next_reg b4) (for_test (next_slot b2) p w ev ?l ?d b4)"
  have "unused n b2" if "next_bb b \<le> n" for n
    using unused_new [OF assms(2) that] e2(3) e2(7) [of n] by (simp add: unused_def)
  then have un: "unused ?c b2" "unused ?l b2" "unused ?d b2" by simp_all
  have fn2: "curr_fn b2 \<noteq> None" using fn e2 by simp
  have body: "\<exists>b12 ls'. m (with_loops ((?c, ?d) # loop_controls b) b11) = Inr ((), b12) \<and>
      b' = placed ?d (emitted (Br ?c) (with_loops ls' b12))"
  proof -
    obtain b12 where b12: "m (with_loops ((?c, ?d) # loop_controls b) b11) = Inr ((), b12)"
      using assms(1) fn b1 pw b2 fn2 e2(6)
      by (auto simp: walk_for_def act_Inr_iff lift_result_Inr_iff in_loop_Inr b11_def b4_def for_start_def for_step_def for_test_def)
    have "ready b11" using e2(2,8) by (simp add: b11_def b4_def for_start_def for_step_def for_test_def)
    then have "curr_fn b12 \<noteq> None" using growsD [OF assms(3) b12] by (simp add: ready_def)
    then show ?thesis
      using assms(1) fn b1 pw b2 fn2 e2(6) b12
      by (auto simp: walk_for_def act_Inr_iff lift_result_Inr_iff in_loop_Inr b11_def b4_def for_start_def for_step_def for_test_def)
  qed
  have "for_built b b' ci m (next_slot b2) p w ev b4"
    using assms(2) e2 un body
    by (auto simp: for_built_def Let_def b11_def b4_def for_start_def older_def unused_def)
  then show thesis using that b1 pw b2 b4_def by blast
qed

context llvm_machine
begin

lemma sim_items:
  assumes m: "grows m"
  shows "items_sim step C ci m [] s Normal s"
    and "run_item S ci k s = Some s1 \<Longrightarrow> stmt_sim step C m at_end s1 r s2 \<Longrightarrow> r \<in> {Normal, Continues} \<Longrightarrow>
      items_sim step C ci m ks s2 r' s' \<Longrightarrow> items_sim step C ci m (k # ks) s r' s'"
    and "run_item S ci k s = Some s1 \<Longrightarrow> stmt_sim step C m at_end s1 Breaks s' \<Longrightarrow>
      items_sim step C ci m (k # ks) s Normal s'"
    and "run_item S ci k s = Some s1 \<Longrightarrow> stmt_sim step C m at_end s1 (Returns v) s' \<Longrightarrow>
      items_sim step C ci m (k # ks) s (Returns v) s'"
proof -
  show "items_sim step C ci m [] s Normal s"
    unfolding items_sim_def using sim_for_done [OF _ m] by auto
  show "items_sim step C ci m (k # ks) s r' s'"
    if i: "run_item S ci k s = Some s1" and body: "stmt_sim step C m at_end s1 r s2" and r: "r \<in> {Normal, Continues}"
      and rest: "items_sim step C ci m ks s2 r' s'"
    unfolding items_sim_def
  proof (intro allI impI)
    fix b b' idx p w ev b4 x j h
    assume f: "for_built b b' ci m idx p w ev b4" "carries C b'" "for_at idx ev b4 j h x" "counts p w h j (k # ks)" "store x = s"
    obtain y where y: "(step C)\<^sup>*\<^sup>* x y" "store y = s2" "agree b x y" "for_at idx ev b4 ((k + 1) mod 2 ^ w) h y"
      using sim_for_round [OF f(1) m f(2,3) _ _ body] f(4,5) i r by auto
    have "counts p w h ((k + 1) mod 2 ^ w) ks" using f(4) by simp
    then obtain z where "(step C)\<^sup>*\<^sup>* y z" "store z = s'" "agree b y z" "arrives b b' r' z"
      using rest f(1,2) y(2,4) unfolding items_sim_def by blast
    then show "\<exists>y. (step C)\<^sup>*\<^sup>* x y \<and> store y = s' \<and> agree b x y \<and> arrives b b' r' y"
      using steps_trans [OF y(1)] agree_trans [OF y(3)] by blast
  qed
  have last: "\<exists>y. (step C)\<^sup>*\<^sup>* x y \<and> store y = s' \<and> agree b x y \<and>
      (r = Breaks \<longrightarrow> at_end b' y) \<and> (\<forall>v. r = Returns v \<longrightarrow> arrives b b' r y)"
    if "run_item S ci k s = Some s1" "stmt_sim step C m at_end s1 r s'"
      "for_built b b' ci m idx p w ev b4" "carries C b'" "for_at idx ev b4 j h x" "counts p w h j (k # ks)" "store x = s"
    for r b b' idx p w ev b4 j h x
    using sim_for_round [OF that(3) m that(4,5) _ _ that(2)] that(1,6,7) by auto
  show "items_sim step C ci m (k # ks) s Normal s'"
    if "run_item S ci k s = Some s1" "stmt_sim step C m at_end s1 Breaks s'"
    unfolding items_sim_def using last [OF that] by auto
  show "items_sim step C ci m (k # ks) s (Returns v) s'"
    if "run_item S ci k s = Some s1" "stmt_sim step C m at_end s1 (Returns v) s'"
    unfolding items_sim_def using last [OF that] by auto
qed

lemma sim_for_start:
  assumes l: "for_bounds l lo hi b1 = Inr ((bv, ev), b2)" and c: "carries C (for_start b bv b2)" and x: "at_end b1 x"
    and un: "unused (next_bb b) b2"
  obtains y where "(step C)\<^sup>*\<^sup>* x y" "store y = store x" "agree b1 x y"
    "for_at (next_slot b2) ev (for_start b bv b2) (fst (for_ends S l lo hi (store x))) (snd (for_ends S l lo hi (store x))) y"
proof -
  let ?k = "fst (for_ends S l lo hi (store x))" and ?h = "snd (for_ends S l lo hi (store x))"
  have c3: "carries C (emitted (Br (next_bb b)) (emitted (Slot_Store (next_slot b2) bv) (new_slot b2)))"
    using c by (simp add: for_start_def)
  then have c2: "carries C (emitted (Slot_Store (next_slot b2) bv) (new_slot b2))" by (rule carries_emitted)
  obtain y where y: "(step C)\<^sup>*\<^sup>* x y" "at_end b2 y" "store y = store x" "agree b1 x y"
    "operand_value y bv = ?k" "operand_value y ev = ?h" "next_slot b2 = next_slot b1" "retslot (node b2) = retslot (node b1)"
  proof (cases "\<exists>n. l = For_Array n")
    case True
    then show thesis using that [of x] for_bounds_Inr [OF l] x by (auto simp: for_ends_def)
  next
    case False
    let ?r = "next_reg b1"
    let ?b = "emitted (Value ?r lo) (new_reg b1)"
    have b2: "bv = Reg ?r" "ev = Reg (Suc ?r)" "b2 = emitted (Value (Suc ?r) hi) (new_reg ?b)"
      using for_bounds_Inr [OF l] False by auto
    have c': "carries C (emitted (Value (Suc ?r) hi) (new_reg ?b))" using c2 b2 by (auto dest: carries_emitted)
    then have c1: "carries C ?b" by (auto dest: carries_emitted)
    let ?x1 = "set_reg ?r (value_of S lo (store x)) x"
    let ?x2 = "set_reg (Suc ?r) (value_of S hi (store x)) ?x1"
    have "step C x ?x1" by (rule val [OF fetch_emitted [OF c1]]) (use x in simp)
    moreover have "at_end (new_reg ?b) ?x1" using x by simp
    then have "step C ?x1 ?x2" using val [OF fetch_emitted [OF c']] by fastforce
    ultimately have "(step C)\<^sup>*\<^sup>* x ?x2" by (meson r_into_rtranclp steps_into)
    then show thesis using that [of ?x2] x False b2 by (cases l) (auto simp: for_ends_def)
  qed
  let ?y1 = "set_slot (next_slot b2) ?k y"
  let ?y2 = "jump (next_bb b) ?y1"
  have "step C y ?y1" using slot_store [OF fetch_emitted [OF c2]] y(2,5) by fastforce
  moreover have "step C ?y1 ?y2" by (rule br [OF fetch_emitted [OF c3]]) (use y(2) in simp)
  ultimately have "(step C)\<^sup>*\<^sup>* x ?y2" using y(1) by (meson steps_into)
  moreover have "at_end (for_start b bv b2) ?y2" using un by (simp add: for_start_def at_end_def unused_def)
  ultimately show thesis using that [of ?y2] y by (auto simp: for_at_def)
qed

text \<open>Up to the head of the loop, with the first item in the slot.\<close>

lemma sim_for_entry:
  assumes w: "walk_for pre l lo hi ci m b = Inr ((), b')" "ready b" "carries C b'" "at_end b x"
    and m: "grows m" and pre: "run_plains S pre (store x) = Some s1"
  obtains p w idx ev b4 z where "aux_create_compare_value_for l = Inr (p, w)" "for_built b b' ci m idx p w ev b4"
    "(step C)\<^sup>*\<^sup>* x z" "store z = s1" "agree b x z"
    "for_at idx ev b4 (fst (for_ends S l lo hi s1)) (snd (for_ends S l lo hi s1)) z"
proof -
  obtain b1 p w bv ev b2 where b1: "emits (map Plain pre) (new_bb (new_bb (new_bb b))) = Inr ((), b1)"
    and pw: "aux_create_compare_value_for l = Inr (p, w)" and b2: "for_bounds l lo hi b1 = Inr ((bv, ev), b2)"
    and f: "for_built b b' ci m (next_slot b2) p w ev (for_start b bv b2)"
    by (rule walk_for_Inr [OF w(1,2) m])
  let ?b4 = "for_start b bv b2"
  have c4: "carries C ?b4"
    using for_built_carries(2) [OF f m w(3)] unfolding for_test_def
    by (metis carries_changes(2) carries_changes(4) carries_emitted)
  then have c2: "carries C b2" unfolding for_start_def by (metis carries_changes(3) carries_changes(4) carries_emitted)
  then have c1: "carries C b1" using for_bounds_Inr [OF b2] by (metis carries_changes(2) carries_emitted)
  obtain y where y: "(step C)\<^sup>*\<^sup>* x y" "at_end b1 y" "store y = s1" "regs y = regs x" "slots y = slots x"
    using sim_emits [OF b1 c1, of x s1] w(4) pre by auto
  have "unused (next_bb b) (new_bb (new_bb (new_bb b)))" using unused_new [OF w(2)] by simp
  then have "unused (next_bb b) b2"
    using emits_fields [OF b1] for_bounds_Inr [OF b2] by (auto simp: unused_def)
  then obtain z where z: "(step C)\<^sup>*\<^sup>* y z" "store z = store y" "agree b1 y z"
    "for_at (next_slot b2) ev ?b4 (fst (for_ends S l lo hi (store y))) (snd (for_ends S l lo hi (store y))) z"
    by (rule sim_for_start [OF b2 c4 y(2)])
  have "older b b1" using emits_fields [OF b1] by (simp add: older_def)
  then have "agree b x z" using agree_older [OF z(3)] y(4,5) by (simp add: agree_def)
  then show thesis using that [OF pw f steps_trans [OF y(1) z(1)]] z(2,4) y(3) by simp
qed

lemma sim_for:
  assumes m: "grows m" and pre: "run_plains S pre s = Some s1"
    and cnt: "\<And>p w. aux_create_compare_value_for l = Inr (p, w) \<Longrightarrow>
      counts p w (snd (for_ends S l lo hi s1)) (fst (for_ends S l lo hi s1)) ks"
    and items: "items_sim step C ci m ks s1 r s'"
  shows "stmt_sim step C (walk_for pre l lo hi ci m) at_end s r s'"
proof (rule stmt_simI)
  fix b b' x
  assume w: "walk_for pre l lo hi ci m b = Inr ((), b')" "ready b" "carries C b'" "at_end b x" "store x = s"
  have "run_plains S pre (store x) = Some s1" using pre w(5) by simp
  then obtain p w' idx ev b4 z where pw: "aux_create_compare_value_for l = Inr (p, w')" and f: "for_built b b' ci m idx p w' ev b4"
    and z: "(step C)\<^sup>*\<^sup>* x z" "store z = s1" "agree b x z"
      "for_at idx ev b4 (fst (for_ends S l lo hi s1)) (snd (for_ends S l lo hi s1)) z"
    by (rule sim_for_entry [OF w(1-4) m])
  obtain z' where z': "(step C)\<^sup>*\<^sup>* z z'" "store z' = s'" "agree b z z'" "arrives b b' r z'"
    using items f w(3) z(2,4) cnt [OF pw] unfolding items_sim_def by (metis (no_types))
  then show "\<exists>y. (step C)\<^sup>*\<^sup>* x y \<and> store y = s' \<and> agree b x y \<and> arrives b b' r y"
    using steps_trans [OF z(1) z'(1)] agree_trans [OF z(3) z'(3)] by blast
qed

end

subsection \<open>The items of a \<open>for\<close> are the ones the index goes through\<close>

text \<open>The ends fit their type, and an inclusive range does not end at its largest value.\<close>

definition for_fits :: "('i, 'v, 's) plain_sem \<Rightarrow> for_list \<Rightarrow> 'v \<Rightarrow> 'v \<Rightarrow> bool" where
  "for_fits S l lo hi \<longleftrightarrow>
     (case l of
        For_Array n \<Rightarrow> n < 2 ^ 64
      | For_Range ty incl \<Rightarrow>
          (let w = the (int_type_bits ty)
           in \<forall>s. value_of S lo s < 2 ^ w \<and> value_of S hi s < 2 ^ w \<and>
                (incl \<longrightarrow> \<not> (\<forall>n<2 ^ w. int_value ty w n \<le> int_value ty w (value_of S hi s))))
      | For_Other \<Rightarrow> True)"

lemma counts_interval:
  assumes test: "\<And>k. k < 2 ^ w \<Longrightarrow> int_compare p w k h \<longleftrightarrow> val k \<le> last_v"
    and succ: "\<And>k. k < 2 ^ w \<Longrightarrow> val k \<le> last_v \<Longrightarrow> val ((k + 1) mod 2 ^ w) = val k + 1"
    and bits: "\<And>k. k < 2 ^ w \<Longrightarrow> nat (val k mod 2 ^ w) = k"
    and k: "k < 2 ^ w"
  shows "counts p w h k (map (\<lambda>i. nat (i mod 2 ^ w)) [val k .. last_v])"
  using k
proof (induction "nat (last_v + 1 - val k)" arbitrary: k)
  case 0
  then show ?case using test by simp
next
  case (Suc n)
  then have le: "val k \<le> last_v" by simp
  have "counts p w h ((k + 1) mod 2 ^ w) (map (\<lambda>i. nat (i mod 2 ^ w)) [val ((k + 1) mod 2 ^ w) .. last_v])"
    by (rule Suc.hyps(1)) (use Suc.hyps(2) le succ [OF Suc.prems le] in simp_all)
  moreover have "[val k .. last_v] = val k # [val k + 1 .. last_v]" using le by (rule upto_rec1)
  ultimately show ?case using test bits succ le Suc.prems by simp
qed

lemma int_power2: "(2 :: int) ^ v = int (2 ^ v)"
  by simp

lemma sval_Suc: "sval (Suc v) k = (if k < 2 ^ v then int k else int k - int (2 * 2 ^ v))"
  by (simp add: sval_def)

lemma sval_range: "k < 2 ^ Suc v \<Longrightarrow> - int (2 ^ v) \<le> sval (Suc v) k \<and> sval (Suc v) k < int (2 ^ v)"
  unfolding sval_Suc by (simp del: of_nat_power)

lemma sval_next:
  assumes "k < 2 ^ Suc v" "sval (Suc v) k < int (2 ^ v) - 1"
  shows "sval (Suc v) ((k + 1) mod 2 ^ Suc v) = sval (Suc v) k + 1"
proof (cases "k + 1 = 2 ^ Suc v")
  case True
  then show ?thesis unfolding sval_Suc by (simp del: of_nat_power)
next
  case False
  then have "(k + 1) mod 2 ^ Suc v = k + 1" using assms(1) by simp
  then show ?thesis using assms False unfolding sval_Suc by (auto simp del: of_nat_power)
qed

lemma sval_bits: "k < 2 ^ w \<Longrightarrow> nat (sval w k mod 2 ^ w) = k"
proof -
  assume "k < 2 ^ w"
  then have "int k mod 2 ^ w = int k" by (simp add: int_power2 del: of_nat_power)
  then show ?thesis by (simp add: sval_def)
qed

lemma int_value_bits: "k < 2 ^ w \<Longrightarrow> nat (int_value ty w k mod 2 ^ w) = k"
  using sval_bits by (auto simp: int_value_def int_power2 simp del: of_nat_power)

text \<open>One more is the next value, but for the largest.\<close>

lemma int_value_next:
  assumes "k < 2 ^ w" "0 < w" "n < 2 ^ w" "int_value ty w k < int_value ty w n"
  shows "int_value ty w ((k + 1) mod 2 ^ w) = int_value ty w k + 1"
proof (cases "catype_is_signed ty")
  case True
  obtain v where v: "w = Suc v" using assms(2) by (cases w) simp_all
  have "sval w k < int (2 ^ v) - 1" using sval_range [of n v] assms(3,4) True v by (simp add: int_value_def)
  then show ?thesis using sval_next [of k v] assms(1) True v by (simp add: int_value_def)
next
  case False
  then have "k + 1 < 2 ^ w" using assms(3,4) by (simp add: int_value_def)
  then show ?thesis using False by (simp add: int_value_def)
qed

lemma range_test:
  assumes "aux_create_compare_value_for (For_Range ty incl) = Inr (p, w)"
  shows "0 < w" "the (int_type_bits ty) = w"
    "int_compare p w k h \<longleftrightarrow> int_value ty w k \<le> (if incl then int_value ty w h else int_value ty w h - 1)"
  using assms by (auto simp: int_value_def catype_is_signed_def split: if_splits)

lemma counts_for_items:
  assumes a: "aux_create_compare_value_for l = Inr (p, w)" and f: "for_fits S l lo hi"
  shows "counts p w (snd (for_ends S l lo hi s)) (fst (for_ends S l lo hi s))
      (for_items l (value_of S lo s) (value_of S hi s))"
proof (cases l)
  case (For_Array n)
  have n: "n < 2 ^ 64" using f For_Array by (simp add: for_fits_def)
  have "counts ICMP_ULT 64 n k [k..<n]" if "k \<le> n" for k
    using that
  proof (induction "n - k" arbitrary: k)
    case 0
    then show ?case by simp
  next
    case (Suc j)
    have "counts ICMP_ULT 64 n (Suc k) [Suc k..<n]" by (rule Suc.hyps(1)) (use Suc.hyps(2) in simp_all)
    moreover have "[k..<n] = k # [Suc k..<n]" using Suc.hyps(2) by (intro upt_conv_Cons) simp
    moreover have "(k + 1) mod 2 ^ 64 = Suc k" using Suc.hyps(2) n by simp
    ultimately show ?case using Suc.hyps(2) by (simp only: counts.simps int_compare.simps) simp
  qed
  then show ?thesis using a For_Array by (simp add: for_ends_def)
next
  case (For_Range ty incl)
  let ?h = "value_of S hi s" and ?k = "value_of S lo s"
  let ?e = "if incl then int_value ty w ?h else int_value ty w ?h - 1"
  note r = range_test [OF a [unfolded For_Range]]
  have fits: "?k < 2 ^ w" "?h < 2 ^ w" "incl \<Longrightarrow> \<exists>n<2 ^ w. int_value ty w ?h < int_value ty w n"
    using f r(2) by (auto simp: for_fits_def For_Range Let_def not_le)
  have "counts p w ?h ?k (map (\<lambda>i. nat (i mod 2 ^ w)) [int_value ty w ?k .. ?e])"
  proof (rule counts_interval)
    fix k :: nat assume k: "k < 2 ^ w" "int_value ty w k \<le> ?e"
    then obtain n where "n < 2 ^ w" "int_value ty w k < int_value ty w n"
      using fits by (cases incl) (auto intro: le_less_trans)
    then show "int_value ty w ((k + 1) mod 2 ^ w) = int_value ty w k + 1"
      using int_value_next k(1) r(1) by blast
  qed (use fits r(3) int_value_bits in auto)
  then show ?thesis using For_Range r(2) by (simp add: for_ends_def range_items_def Let_def)
next
  case For_Other
  then show ?thesis using a by simp
qed

subsection \<open>Chains of conditions\<close>

lemma ready_grown0: "ready b \<Longrightarrow> grown 0 0 b (loop_controls b) {..<next_bb b} b"
  by (auto simp: ready_def grown_def)

lemma walk_unused:
  assumes "grows m" "m b = Inr (x, b')" "ready b"
  shows "ready b'" "next_bb b \<le> next_bb b'" "unused n b \<Longrightarrow> n < next_bb b \<Longrightarrow> unused n b'"
    "loop_controls b' = loop_controls b" "older b b'" "carries C b' \<Longrightarrow> carries C b"
proof -
  note g = conjunct1 [OF growsD [OF assms]]
  show "ready b'" using growsD [OF assms] by blast
  show "next_bb b \<le> next_bb b'" "loop_controls b' = loop_controls b" using g by (simp_all add: grown_def)
  show "unused n b \<Longrightarrow> n < next_bb b \<Longrightarrow> unused n b'" by (rule unused_grown [OF g])
  show "older b b'" by (rule older_grown [OF g])
  show "carries C b' \<Longrightarrow> carries C b" by (rule carries_grown [OF _ g])
qed

text \<open>One condition of a chain: its value, the branch, and the next block.\<close>

lemma if_conds_Inr:
  assumes "walk_if_conds (m # ms) ((c, d) # bbs) b = Inr ((), b')" "ready b" "grows m"
  obtains v lt b1 where "m b = Inr ((v, lt), b1)"
    "walk_if_conds ms bbs (placed c (emitted (CondBr v d c) b1)) = Inr ((), b')"
proof -
  obtain v lt b1 where b1: "m b = Inr ((v, BOOL, lt), b1)"
    using assms(1) by (auto simp: act_Inr_iff walk_condition_Inr)
  then have "walk_condition m b = Inr (v, b1)" by (auto simp: walk_condition_Inr)
  moreover have "curr_fn b1 \<noteq> None" using walk_unused(1) [OF assms(3) b1 assms(2)] by (simp add: ready_def)
  ultimately show thesis using that [OF b1] assms(1) by (auto simp: act_Inr_iff)
qed

lemma if_bodies_Inr:
  assumes "walk_if_bodies (m # ms) (d # bbs) out b = Inr ((), b')" "ready b"
  obtains b1 where "m (placed d b) = Inr ((), b1)" "walk_if_bodies ms bbs out (emitted (Br out) b1) = Inr ((), b')"
  using assms by (auto simp: act_Inr_iff ready_def)

lemma if_conds_unused:
  assumes "walk_if_conds ms bbs b = Inr ((), b')" "ready b" "list_all grows ms" "length ms = length bbs"
    "\<forall>(c, d)\<in>set bbs. c < next_bb b"
  shows "ready b' \<and> next_bb b \<le> next_bb b' \<and> loop_controls b' = loop_controls b \<and> older b b' \<and>
    (carries C b' \<longrightarrow> carries C b) \<and> (\<forall>n<next_bb b. unused n b \<longrightarrow> n \<notin> fst ` set bbs \<longrightarrow> unused n b')"
  using assms
proof (induction ms bbs arbitrary: b rule: walk_if_conds.induct)
  case (1 m ms c d bbs)
  obtain v lt b1 where b1: "m b = Inr ((v, lt), b1)"
    and rest: "walk_if_conds ms bbs (placed c (emitted (CondBr v d c) b1)) = Inr ((), b')"
    by (rule if_conds_Inr [OF 1(2,3)]) (use 1 in simp)
  have m: "grows m" using 1 by simp
  note w = walk_unused [OF m b1 1(3)]
  have c: "c < next_bb b" using 1 by simp
  let ?b2 = "placed c (emitted (CondBr v d c) b1)"
  have r2: "ready ?b2" using w(1,2) c by simp
  have "\<forall>(c, d)\<in>set bbs. c < next_bb ?b2" using 1(6) w(2) by fastforce
  then have IH: "ready b'" "next_bb b1 \<le> next_bb b'" "loop_controls b' = loop_controls b1" "older ?b2 b'"
    "carries C b' \<longrightarrow> carries C ?b2" "\<forall>n<next_bb b1. unused n ?b2 \<longrightarrow> n \<notin> fst ` set bbs \<longrightarrow> unused n b'"
    using 1(1) [OF rest r2] 1(4,5) by auto
  have o: "older b ?b2" using w(5) by simp
  have u: "unused n b'" if "n < next_bb b" "unused n b" "n \<notin> fst ` set ((c, d) # bbs)" for n
    using IH(6) w(2) w(3) [OF that(2,1)] that(1,3) by simp
  have "carries C b" if "carries C b'"
    using w(6) IH(5) that by (auto dest: carries_emitted)
  then show ?case using IH(1-3) w(2,4) older_trans [OF o IH(4)] u by simp
qed (auto simp: action_simps)

lemma if_bodies_unused:
  assumes "walk_if_bodies ms bbs out b = Inr ((), b')" "ready b" "list_all grows ms" "length ms = length bbs"
    "\<forall>d\<in>set bbs. d < next_bb b"
  shows "ready b' \<and> next_bb b \<le> next_bb b' \<and> loop_controls b' = loop_controls b \<and> older b b' \<and>
    (carries C b' \<longrightarrow> carries C b) \<and> (\<forall>n<next_bb b. unused n b \<longrightarrow> n \<notin> set bbs \<longrightarrow> unused n b')"
  using assms
proof (induction ms bbs out arbitrary: b rule: walk_if_bodies.induct)
  case (1 m ms d bbs out)
  obtain b1 where b1: "m (placed d b) = Inr ((), b1)" and rest: "walk_if_bodies ms bbs out (emitted (Br out) b1) = Inr ((), b')"
    by (rule if_bodies_Inr [OF 1(2,3)])
  have m: "grows m" and d: "d < next_bb b" using 1 by simp_all
  have r0: "ready (placed d b)" using 1(3) d by simp
  note w = walk_unused [OF m b1 r0]
  let ?b2 = "emitted (Br out) b1"
  have "\<forall>d\<in>set bbs. d < next_bb ?b2" using 1(6) w(2) by fastforce
  then have IH: "ready b'" "next_bb b1 \<le> next_bb b'" "loop_controls b' = loop_controls b1" "older ?b2 b'"
    "carries C b' \<longrightarrow> carries C ?b2" "\<forall>n<next_bb b1. unused n ?b2 \<longrightarrow> n \<notin> set bbs \<longrightarrow> unused n b'"
    using 1(1) [OF rest] w(1) 1(4,5) by auto
  have "older b (placed d b)" by simp
  then have o: "older b ?b2" using w(5) older_trans by fastforce
  have u: "unused n b'" if "n < next_bb b" "unused n b" "n \<notin> set (d # bbs)" for n
    using IH(6) w(2) w(3) [of n] that by simp
  have "carries C b" if "carries C b'"
    using w(6) [of C] IH(5) that by (auto dest: carries_emitted)
  then show ?case using IH(1-3) w(2,4) older_trans [OF o IH(4)] u by simp
qed (auto simp: action_simps)

context llvm_machine
begin

lemma sim_if_conds:
  assumes "walk_if_conds (map walk_expr es) bbs b = Inr ((), b')" "ready b" "length es = length bbs"
    "\<forall>(c, d)\<in>set bbs. c < next_bb b \<and> unused c b" "distinct (map fst bbs)"
    "carries C b'" "at_end b x" "first_true S es (store x) = Some (j, s)"
  shows "\<exists>y. (step C)\<^sup>*\<^sup>* x y \<and> store y = s \<and> agree b x y \<and>
      (if j < length es then at_bb y = snd (bbs ! j) \<and> pc y = 0 else at_end b' y)"
  using assms
proof (induction es arbitrary: bbs b x j)
  case Nil
  then show ?case by auto
next
  case (Cons e es)
  obtain c d bbs' where bbs: "bbs = (c, d) # bbs'" using Cons.prems(3) by (cases bbs) auto
  have "walk_if_conds (walk_expr e # map walk_expr es) ((c, d) # bbs') b = Inr ((), b')"
    using Cons.prems(1) bbs by (simp only: list.map)
  then obtain v lt b1 where b1: "walk_expr e b = Inr ((v, lt), b1)"
    and rest: "walk_if_conds (map walk_expr es) bbs' (placed c (emitted (CondBr v d c) b1)) = Inr ((), b')"
    by (rule if_conds_Inr [OF _ Cons.prems(2) grows_walk_expr])
  let ?b2 = "placed c (emitted (CondBr v d c) b1)"
  note w = walk_unused [OF grows_walk_expr b1 Cons.prems(2)]
  have r2: "ready ?b2" using w(1,2) Cons.prems(4) bbs by auto
  have un: "\<forall>(c', d)\<in>set bbs'. c' < next_bb ?b2 \<and> unused c' ?b2"
    using w(2,3) Cons.prems(4,5) bbs by (fastforce simp: image_iff)
  have "list_all grows (map walk_expr es)" by (simp add: list_all_iff grows_walk_expr)
  moreover have "\<forall>(c, d)\<in>set bbs'. c < next_bb ?b2" using un by fastforce
  ultimately have c2: "carries C ?b2"
    using if_conds_unused [OF rest r2] Cons.prems(3,6) bbs by simp
  then have c1: "carries C (emitted (CondBr v d c) b1)" by simp
  obtain k s1 where k: "eval_expr S e (store x) = Some (k, s1)" using Cons.prems(8) by (auto split: option.splits)
  obtain y where y: "(step C)\<^sup>*\<^sup>* x y" "at_end b1 y" "store y = s1" "operand_value y v = k" "agree b x y"
    by (rule value_simD [OF sim_walk_expr b1 Cons.prems(2) carries_emitted [OF c1] Cons.prems(7) k])
  let ?y = "jump (if k \<noteq> 0 then d else c) y"
  have "step C y ?y" using cond_br [OF fetch_emitted [OF c1 y(2)]] y(4) by simp
  then have xy: "(step C)\<^sup>*\<^sup>* x ?y" using steps_into y(1) by blast
  show ?case
  proof (cases "k \<noteq> 0")
    case True
    then show ?thesis using xy y k Cons.prems(8) bbs by (intro exI [of _ ?y]) auto
  next
    case False
    then obtain j' where j': "first_true S es s1 = Some (j', s)" "j = Suc j'" using Cons.prems(8) k by auto
    have "unused c b1" using w(3) Cons.prems(4) bbs by auto
    then have "at_end ?b2 ?y" using False by (simp add: at_end_def unused_def)
    then obtain z where z: "(step C)\<^sup>*\<^sup>* ?y z" "store z = s" "agree ?b2 ?y z"
      "if j' < length es then at_bb z = snd (bbs' ! j') \<and> pc z = 0 else at_end b' z"
      using Cons.IH [OF rest r2 _ un _ Cons.prems(6), of ?y j'] Cons.prems(3,5) bbs j' y(3) by auto
    have "older b ?b2" using w(5) by simp
    then have "agree b y z" using agree_older [OF z(3)] by simp
    then show ?thesis
      using steps_trans [OF xy z(1)] z(2,4) agree_trans [OF y(5)] j'(2) bbs by (intro exI [of _ z]) simp
  qed
qed

lemma sim_if_bodies:
  assumes "walk_if_bodies (map walk_stack ss) bbs out b = Inr ((), b')" "ready b" "length ss = length bbs"
    "\<forall>c\<in>set ss. structured c" "\<forall>d\<in>set bbs. d < next_bb b \<and> unused d b" "distinct bbs" "carries C b'"
    "j < length ss" "at_bb x = bbs ! j" "pc x = 0" "stmt_sim step C (walk_stack (ss ! j)) at_end (store x) r s'"
  shows "\<exists>y. (step C)\<^sup>*\<^sup>* x y \<and> store y = s' \<and> agree b x y \<and>
      (if r = Normal then at_bb y = out \<and> pc y = 0 else arrives b b' r y)"
  using assms
proof (induction ss arbitrary: bbs b j)
  case Nil
  then show ?case by simp
next
  case (Cons c ss)
  obtain d bbs' where bbs: "bbs = d # bbs'" using Cons.prems(3) by (cases bbs) auto
  have "walk_if_bodies (walk_stack c # map walk_stack ss) (d # bbs') out b = Inr ((), b')"
    using Cons.prems(1) bbs by (simp only: list.map)
  then obtain b1 where b1: "walk_stack c (placed d b) = Inr ((), b1)"
    and rest: "walk_if_bodies (map walk_stack ss) bbs' out (emitted (Br out) b1) = Inr ((), b')"
    by (rule if_bodies_Inr [OF _ Cons.prems(2)])
  have r0: "ready (placed d b)" using Cons.prems(2,5) bbs by simp
  have gc: "grows (walk_stack c)" using Cons.prems(4) by (simp add: grows_walk_stack)
  note w = walk_unused [OF gc b1 r0]
  let ?b2 = "emitted (Br out) b1"
  have r2: "ready ?b2" using w(1) by simp
  have un: "\<forall>d\<in>set bbs'. d < next_bb ?b2 \<and> unused d ?b2"
  proof
    fix n assume n: "n \<in> set bbs'"
    then have "n \<noteq> d" "n < next_bb b" "unused n b" using Cons.prems(5,6) bbs by auto
    then show "n < next_bb ?b2 \<and> unused n ?b2" using w(2) w(3) [of n] by simp
  qed
  have "list_all grows (map walk_stack ss)" using Cons.prems(4) by (simp add: list_all_iff grows_walk_stack)
  then have c2: "carries C ?b2"
    using if_bodies_unused [OF rest r2] Cons.prems(3,7) bbs un by simp
  have o: "older b ?b2" using older_trans [of b "placed d b"] w(5) by simp
  have ls: "loop_controls ?b2 = loop_controls b" using w(4) by simp
  show ?case
  proof (cases j)
    case 0
    have start: "at_end (placed d b) x" using 0 Cons.prems(5,9,10) bbs by (simp add: at_end_def unused_def)
    have body: "stmt_sim step C (walk_stack c) at_end (store x) r s'" using Cons.prems(11) 0 by simp
    obtain y where y: "(step C)\<^sup>*\<^sup>* x y" "store y = s'" "agree (placed d b) x y" "arrives (placed d b) b1 r y"
      by (rule stmt_simD [where starts = at_end, OF body b1 r0 carries_emitted [OF c2] start refl])
    show ?thesis
    proof (cases "r = Normal")
      case True
      then have "step C y (jump out y)" using br [OF fetch_emitted [OF c2]] y(4) by simp
      then show ?thesis using steps_into [OF y(1)] y True by (intro exI [of _ "jump out y"]) simp
    next
      case False
      then show ?thesis using y by (intro exI [of _ y]) (cases r; simp)
    qed
  next
    case (Suc i)
    have IH: "\<exists>y. (step C)\<^sup>*\<^sup>* x y \<and> store y = s' \<and> agree ?b2 x y \<and>
        (if r = Normal then at_bb y = out \<and> pc y = 0 else arrives ?b2 b' r y)"
      by (rule Cons.IH [OF rest r2 _ _ un, of i]) (use Cons.prems Suc bbs in simp_all)
    have "arrives b b' r y" if "arrives ?b2 b' r y" "r \<noteq> Normal" for y
      using that o ls by (cases r) (simp_all add: older_def)
    then show ?thesis using IH agree_older [OF _ o] by (metis (full_types))
  qed
qed

end

fun if_bbs :: "nat \<Rightarrow> nat \<Rightarrow> (bb \<times> bb) list" where
  "if_bbs k 0 = []"
| "if_bbs k (Suc n) = (k, Suc k) # if_bbs (Suc (Suc k)) n"

lemma if_bbs_length [simp]: "length (if_bbs k n) = n"
  by (induction k n rule: if_bbs.induct) simp_all

lemma if_bbs_nth: "i < n \<Longrightarrow> if_bbs k n ! i = (k + 2 * i, Suc (k + 2 * i))"
  by (induction k n arbitrary: i rule: if_bbs.induct) (auto simp: nth_Cons split: nat.splits)

lemma if_bbs_mem: "(c, d) \<in> set (if_bbs k n) \<Longrightarrow> \<exists>i<n. c = k + 2 * i \<and> d = Suc (k + 2 * i)"
  by (auto simp: in_set_conv_nth if_bbs_nth)

lemma if_bbs_distinct: "distinct (map fst (if_bbs k n))" "distinct (map snd (if_bbs k n))"
  by (simp_all add: distinct_conv_nth if_bbs_nth)

lemma if_bbs_apart: "n' \<in> snd ` set (if_bbs k n) \<Longrightarrow> n' \<notin> fst ` set (if_bbs k n)"
proof -
  assume "n' \<in> snd ` set (if_bbs k n)"
  then obtain i where i: "n' = Suc (k + 2 * i)" using if_bbs_mem by fastforce
  show ?thesis
  proof
    assume "n' \<in> fst ` set (if_bbs k n)"
    then obtain j where "n' = k + 2 * j" using if_bbs_mem by fastforce
    then show False using i by presburger
  qed
qed

lemma new_bbs_fields [simp]:
  "bb_code ((new_bb ^^ n) b) = bb_code b" "insert_bb ((new_bb ^^ n) b) = insert_bb b"
  "next_bb ((new_bb ^^ n) b) = next_bb b + n" "loop_controls ((new_bb ^^ n) b) = loop_controls b"
  "curr_fn ((new_bb ^^ n) b) = curr_fn b" "ready b \<Longrightarrow> ready ((new_bb ^^ n) b)"
  "agree ((new_bb ^^ n) b) x y = agree b x y" "at_end ((new_bb ^^ n) b) x = at_end b x"
  "older b' ((new_bb ^^ n) b) = older b' b" "unused k ((new_bb ^^ n) b) = unused k b"
  by (induction n) (simp_all add: older_def)

lemma gen_if_bbs_run: "gen_if_bbs n b = Inr (if_bbs (next_bb b) n, (new_bb ^^ (2 * n)) b)"
  by (induction n arbitrary: b) (simp_all add: funpow_swap1)

lemma walk_if_bodies_append:
  "length ms = length ds \<Longrightarrow>
   walk_if_bodies (ms @ ms') (ds @ ds') out = act (walk_if_bodies ms ds out) (\<lambda>_. walk_if_bodies ms' ds' out)"
  by (induction ms ds rule: list_induct2) (auto simp: fun_eq_iff act_def split: sum.splits prod.splits)

text \<open>The body of \<open>else\<close> is one more body.\<close>

definition arms :: "'a list \<Rightarrow> 'a option \<Rightarrow> 'a list" where
  "arms ss rest = ss @ (case rest of None \<Rightarrow> [] | Some s \<Rightarrow> [s])"

lemma walk_if_common2_Inr:
  assumes "walk_if_common2 ms ss rest b = Inr ((), b')" "ready b" "list_all grows ms" "list_all grows (arms ss rest)"
    "length ss = length ms"
  defines "n \<equiv> length ms"
  defines "bbs \<equiv> if_bbs (Suc (next_bb b)) n"
  defines "b2 \<equiv> (new_bb ^^ (if rest = None then 2 * n else Suc (2 * n))) (new_bb b)"
  defines "restbb \<equiv> (if rest = None then next_bb b else Suc (next_bb b) + 2 * n)"
  obtains b3 b6 where "walk_if_conds ms bbs b2 = Inr ((), b3)"
    "walk_if_bodies (arms ss rest) (arms (map snd bbs) (map_option (\<lambda>_. restbb) rest)) (next_bb b) (emitted (Br restbb) b3) = Inr ((), b6)"
    "b' = placed (next_bb b) b6"
proof -
  have r2: "ready b2" using assms(2) by (simp add: b2_def)
  have fn: "curr_fn b \<noteq> None" using assms(2) by (simp add: ready_def)
  obtain b3 where b3: "walk_if_conds ms bbs b2 = Inr ((), b3)"
    using assms(1) fn
    by (cases rest) (auto simp: walk_if_common2_def act_Inr_iff gen_if_bbs_run bbs_def b2_def n_def)
  obtain b6 where b6: "walk_if_bodies (arms ss rest) (arms (map snd bbs) (map_option (\<lambda>_. restbb) rest)) (next_bb b)
        (emitted (Br restbb) b3) = Inr ((), b6)" "place (next_bb b) b6 = Inr ((), b')"
    using assms(1,5) fn b3
    by (cases rest) (auto simp: walk_if_common2_def act_Inr_iff gen_if_bbs_run bbs_def b2_def n_def restbb_def
        arms_def walk_if_bodies_append simp del: walk_if_bodies.simps(1))
  have bnd: "\<forall>(c, d)\<in>set bbs. c < next_bb b2 \<and> d < next_bb b2"
    using if_bbs_mem by (fastforce simp: bbs_def b2_def)
  then have "\<forall>(c, d)\<in>set bbs. c < next_bb b2" by fastforce
  then have "ready b3 \<and> next_bb b2 \<le> next_bb b3"
    using if_conds_unused [OF b3 r2 assms(3)] by (simp add: bbs_def n_def)
  moreover have "\<forall>d\<in>set (arms (map snd bbs) (map_option (\<lambda>_. restbb) rest)). d < next_bb b2"
    using bnd by (cases rest) (auto simp: arms_def restbb_def b2_def)
  moreover have "length (arms ss rest) = length (arms (map snd bbs) (map_option (\<lambda>_. restbb) rest))"
    using assms(5) by (cases rest) (simp_all add: arms_def bbs_def n_def)
  ultimately have "ready b6"
    using if_bodies_unused [OF b6(1) _ assms(4)] by fastforce
  then show thesis using that [OF b3 b6(1)] b6(2) by (simp add: ready_def)
qed

lemma length_arms [simp]: "length (arms xs opt) = length xs + (if opt = None then 0 else 1)"
  by (cases opt) (simp_all add: arms_def)

lemma chosen_arms:
  "k \<le> length ss \<Longrightarrow> chosen ss rest k = (if k < length (arms ss rest) then Some (arms ss rest ! k) else None)"
  by (cases rest) (auto simp: chosen_def arms_def nth_append)

lemma first_true_le: "first_true S es s = Some (k, s') \<Longrightarrow> k \<le> length es"
  by (induction es arbitrary: s k) (auto split: option.splits if_splits)

lemma arms_map: "arms (map f xs) (map_option f opt) = map f (arms xs opt)"
  by (cases opt) (simp_all add: arms_def)

lemma set_arms: "set (arms xs opt) = set xs \<union> set_option opt"
  by (cases opt) (simp_all add: arms_def)

text \<open>Where the blocks of a chain are, and that the ones a later part fills are still unused.\<close>

lemma if_blocks:
  fixes rest :: "'a option"
  assumes "ready b" and n: "n = length es"
  defines "bbs \<equiv> if_bbs (Suc (next_bb b)) n"
  defines "b2 \<equiv> (new_bb ^^ (if rest = None then 2 * n else Suc (2 * n))) (new_bb b)"
  defines "restbb \<equiv> (if rest = None then next_bb b else Suc (next_bb b) + 2 * n)"
  defines "ds \<equiv> arms (map snd bbs) (map_option (\<lambda>_. restbb) rest)"
  assumes b3: "walk_if_conds (map walk_expr es) bbs b2 = Inr ((), b3)"
  shows "ready b2" "\<forall>(c, d)\<in>set bbs. c < next_bb b2 \<and> unused c b2" "distinct ds"
    "ready b3" "\<forall>d\<in>set ds. d < next_bb b3 \<and> unused d b3" "next_bb b \<notin> set ds"
    "unused (next_bb b) b3" "next_bb b < next_bb b3" "carries C b3 \<Longrightarrow> carries C b2" "loop_controls b3 = loop_controls b" "older b b3"
proof -
  show r2: "ready b2" using assms(1) by (simp add: b2_def)
  have un2: "unused m b2" if "next_bb b \<le> m" for m using unused_new [OF assms(1) that] by (simp add: b2_def)
  have mem: "next_bb b < c \<and> c < d \<and> d < next_bb b2" "d < Suc (next_bb b) + 2 * n" if "(c, d) \<in> set bbs" for c d
    using if_bbs_mem that by (fastforce simp: bbs_def b2_def)+
  then show "\<forall>(c, d)\<in>set bbs. c < next_bb b2 \<and> unused c b2" using un2 by fastforce
  have ds: "next_bb b < d \<and> d < next_bb b2 \<and> d \<notin> fst ` set bbs" if "d \<in> set ds" for d
  proof (cases "d \<in> snd ` set bbs")
    case True
    then obtain c where "(c, d) \<in> set bbs" by auto
    then show ?thesis using mem(1) [of c d] if_bbs_apart True unfolding bbs_def by auto
  next
    case False
    then have "rest \<noteq> None \<and> d = Suc (next_bb b) + 2 * n"
      using that by (cases rest) (auto simp: ds_def set_arms restbb_def)
    moreover from this have "d \<notin> fst ` set bbs" using mem by fastforce
    ultimately show ?thesis by (simp add: b2_def)
  qed
  show "distinct ds"
    using if_bbs_distinct(2) mem(2) by (cases rest) (fastforce simp: ds_def arms_def bbs_def restbb_def)+
  have "list_all grows (map walk_expr es)" by (simp add: list_all_iff grows_walk_expr)
  moreover have "\<forall>(c, d)\<in>set bbs. c < next_bb b2" using mem by fastforce
  ultimately have w: "ready b3 \<and> next_bb b2 \<le> next_bb b3 \<and> loop_controls b3 = loop_controls b2 \<and> older b2 b3 \<and>
      (carries C b3 \<longrightarrow> carries C b2) \<and> (\<forall>n<next_bb b2. unused n b2 \<longrightarrow> n \<notin> fst ` set bbs \<longrightarrow> unused n b3)" for C
    using if_conds_unused [OF b3 r2] n by (simp add: bbs_def)
  show "ready b3" "carries C b3 \<Longrightarrow> carries C b2" "loop_controls b3 = loop_controls b" using w by (simp_all add: b2_def)
  have "older b b2" by (simp add: b2_def)
  then show "older b b3" using w older_trans by blast
  show "\<forall>d\<in>set ds. d < next_bb b3 \<and> unused d b3" using ds un2 w by (meson less_le_trans less_imp_le)
  show "next_bb b \<notin> set ds" using ds by blast
  have out: "next_bb b < next_bb b2" by (simp add: b2_def)
  then show "next_bb b < next_bb b3" using w by (meson less_le_trans)
  have "next_bb b \<notin> fst ` set bbs" using mem(1) by force
  then show "unused (next_bb b) b3" using w un2 out by blast
qed

context llvm_machine
begin

text \<open>The conditions of a chain, and the branch to the arm chosen or past all of them.\<close>

lemma sim_if_choice:
  assumes w: "walk_if_conds (map walk_expr es) bbs b2 = Inr ((), b3)" "ready b2" "length es = length bbs"
    "\<forall>(c, d)\<in>set bbs. c < next_bb b2 \<and> unused c b2" "distinct (map fst bbs)"
    and c: "carries C (emitted (Br m) b3)" and x: "at_end b2 x" "first_true S es (store x) = Some (j, s)"
  obtains y where "(step C)\<^sup>*\<^sup>* x y" "store y = s" "agree b2 x y" "pc y = 0"
    "at_bb y = (if j < length es then snd (bbs ! j) else m)"
proof -
  obtain y where y: "(step C)\<^sup>*\<^sup>* x y" "store y = s" "agree b2 x y"
    "if j < length es then at_bb y = snd (bbs ! j) \<and> pc y = 0 else at_end b3 y"
    using sim_if_conds [OF w carries_emitted [OF c] x] by blast
  show thesis
  proof (cases "j < length es")
    case True
    then show thesis using that y by simp
  next
    case False
    then have "step C y (jump m y)" using br [OF fetch_emitted [OF c]] y(4) by simp
    then show thesis using that [of "jump m y"] steps_into [OF y(1)] y(2,3) False by simp
  qed
qed

lemma sim_if:
  assumes es: "length ss = length es" "\<forall>c\<in>set (arms ss rest). structured c"
    and ft: "first_true S es s = Some (j, s1)"
    and body: "\<And>c. chosen ss rest j = Some c \<Longrightarrow> stmt_sim step C (walk_stack c) at_end s1 r s'"
    and none: "chosen ss rest j = None \<Longrightarrow> r = Normal \<and> s' = s1"
  shows "stmt_sim step C (walk_if_common2 (map walk_expr es) (map walk_stack ss) (map_option walk_stack rest)) at_end s r s'"
proof (rule stmt_simI)
  fix b b' x
  let ?rest = "map_option walk_stack rest"
  assume w: "walk_if_common2 (map walk_expr es) (map walk_stack ss) ?rest b = Inr ((), b')" "ready b"
    "carries C b'" "at_end b x" "store x = s"
  let ?n = "length es" and ?out = "next_bb b"
  let ?bbs = "if_bbs (Suc ?out) ?n"
  let ?b2 = "(new_bb ^^ (if rest = None then 2 * ?n else Suc (2 * ?n))) (new_bb b)"
  let ?restbb = "if rest = None then ?out else Suc ?out + 2 * ?n"
  let ?ds = "arms (map snd ?bbs) (map_option (\<lambda>_. ?restbb) rest)"
  have gr: "list_all grows (map walk_expr es)" "list_all grows (arms (map walk_stack ss) ?rest)"
    using es(2) by (simp_all add: arms_map list_all_iff grows_walk_expr grows_walk_stack)
  obtain b3 b6 where b3: "walk_if_conds (map walk_expr es) ?bbs ?b2 = Inr ((), b3)"
    and b6: "walk_if_bodies (map walk_stack (arms ss rest)) ?ds ?out (emitted (Br ?restbb) b3) = Inr ((), b6)"
    and b': "b' = placed ?out b6"
    by (rule walk_if_common2_Inr [OF w(1,2) gr, unfolded length_map option.map_comp comp_def arms_map map_option_is_None])
      (use es(1) in simp)
  note bl = if_blocks [OF w(2) refl b3]
  have r4: "ready (emitted (Br ?restbb) b3)" using bl(4) by simp
  have len: "length (arms ss rest) = length ?ds" using es(1) by simp
  have "list_all grows (map walk_stack (arms ss rest))" using gr(2) by (simp add: arms_map)
  then have c4: "carries C (emitted (Br ?restbb) b3)" and un6: "unused ?out b6"
    using if_bodies_unused [OF b6 r4] len bl(5,6,7,8) w(3) b' by auto
  have le: "j \<le> ?n" by (rule first_true_le [OF ft])
  have at2: "at_end ?b2 x" and ft': "first_true S es (store x) = Some (j, s1)" using w(4,5) ft by simp_all
  obtain y where y: "(step C)\<^sup>*\<^sup>* x y" "store y = s1" "agree ?b2 x y" "pc y = 0"
    "at_bb y = (if j < ?n then snd (?bbs ! j) else ?restbb)"
    by (rule sim_if_choice [OF b3 bl(1) _ bl(2) if_bbs_distinct(1) c4 at2 ft']) simp
  have ag: "agree b x y" using y(3) by simp
  show "\<exists>y. (step C)\<^sup>*\<^sup>* x y \<and> store y = s' \<and> agree b x y \<and> arrives b b' r y"
  proof (cases "j < length (arms ss rest)")
    case True
    then have ch: "chosen ss rest j = Some (arms ss rest ! j)" using le es(1) by (simp add: chosen_arms)
    have start: "at_bb y = ?ds ! j"
      using y(5) True es(1) le by (cases rest) (auto simp: arms_def nth_append)
    have c6: "carries C b6" using w(3) b' by simp
    have blocks: "\<forall>d\<in>set ?ds. d < next_bb (emitted (Br ?restbb) b3) \<and> unused d (emitted (Br ?restbb) b3)"
      using bl(5) by simp
    have arm: "stmt_sim step C (walk_stack (arms ss rest ! j)) at_end (store y) r s'" using body [OF ch] y(2) by simp
    obtain z where z: "(step C)\<^sup>*\<^sup>* y z" "store z = s'" "agree (emitted (Br ?restbb) b3) y z"
      "if r = Normal then at_bb z = ?out \<and> pc z = 0 else arrives (emitted (Br ?restbb) b3) b6 r z"
      using sim_if_bodies [OF b6 r4 len es(2) blocks bl(3) c6 True start y(4) arm] by blast
    have "arrives b b' r z"
      using z(4) un6 b' bl(10,11) by (cases r) (auto simp: at_end_def unused_def older_def)
    moreover have "agree b y z" using agree_older [OF z(3)] bl(11) by simp
    ultimately show ?thesis using steps_trans [OF y(1) z(1)] z(2) agree_trans [OF ag] by blast
  next
    case False
    then have "rest = None" "j = ?n" using le es(1) by (cases rest; simp)+
    then have "r = Normal \<and> s' = s1" using none es(1) by (simp add: chosen_def)
    moreover have "at_end b' y" using y(4,5) False un6 b' \<open>rest = None\<close> \<open>j = ?n\<close> by (simp add: at_end_def unused_def)
    ultimately show ?thesis using y(1,2) ag by auto
  qed
qed

lemma sim_plain: "run_plains S xs s = Some s' \<Longrightarrow> stmt_sim step C (walk_stack (S_Plain xs)) at_end s Normal s'"
proof (rule stmt_simI)
  fix b b' x
  assume r: "run_plains S xs s = Some s'"
    and w: "walk_stack (S_Plain xs) b = Inr ((), b')" "ready b" "carries C b'" "at_end b x" "store x = s"
  then obtain y where "(step C)\<^sup>*\<^sup>* x y" "at_end b' y" "store y = s'" "regs y = regs x" "slots y = slots x"
    using sim_emits [of xs b b' C x s'] by auto
  then show "\<exists>y. (step C)\<^sup>*\<^sup>* x y \<and> store y = s' \<and> agree b x y \<and> arrives b b' Normal y"
    using agree_intro by fastforce
qed

lemma sim_assign:
  assumes "eval_expr S e s = Some (k, s1)" "run_item S i k s1 = Some s'"
  shows "stmt_sim step C (walk_stack (S_Assign e i)) at_end s Normal s'"
proof (rule stmt_simI)
  fix b b' x
  assume w: "walk_stack (S_Assign e i) b = Inr ((), b')" "ready b" "carries C b'" "at_end b x" "store x = s"
  obtain a ty lt b1 where b1: "walk_expr e b = Inr ((a, ty, lt), b1)" "b' = emitted (Item i a) b1"
    using w(1) by (auto simp: act_Inr_iff)
  have c: "carries C (emitted (Item i a) b1)" using w(3) b1 by simp
  obtain y where y: "(step C)\<^sup>*\<^sup>* x y" "at_end b1 y" "store y = s1" "operand_value y a = k" "agree b x y"
    by (rule value_simD [OF sim_walk_expr b1(1) w(2) carries_emitted [OF c] w(4)]) (use w(5) assms(1) in auto)
  have "step C y (set_store s' y)" using item [OF fetch_emitted [OF c y(2)]] assms(2) y(3,4) by simp
  then show "\<exists>y. (step C)\<^sup>*\<^sup>* x y \<and> store y = s' \<and> agree b x y \<and> arrives b b' Normal y"
    using steps_into [OF y(1)] y b1(2) by (intro exI [of _ "set_store s' y"]) simp
qed

lemma sim_jump:
  assumes "\<And>b b'. m b = Inr ((), b') \<Longrightarrow> ready b \<Longrightarrow> \<exists>n. (carries C b' \<longrightarrow> carries C (emitted (Br n) b)) \<and>
      (\<forall>x. arrives b b' r (jump n (x :: 's config)))"
  shows "stmt_sim step C m at_end s r s"
proof (rule stmt_simI)
  fix b b' x assume w: "m b = Inr ((), b')" "ready b" "carries C b'" "at_end b x" "store x = s"
  obtain n where n: "carries C (emitted (Br n) b)" "\<forall>x. arrives b b' r (jump n (x :: 's config))"
    using assms [OF w(1,2)] w(3) by auto
  have "(step C)\<^sup>*\<^sup>* x (jump n x)" by (intro r_into_rtranclp br fetch_emitted [OF n(1) w(4)])
  then show "\<exists>y. (step C)\<^sup>*\<^sup>* x y \<and> store y = s \<and> agree b x y \<and> arrives b b' r y"
    using n(2) w(5) by (intro exI [of _ "jump n x"]) simp
qed

lemma current_loop_Inr: "current_loop b = Inr (l, b') \<longleftrightarrow> b' = b \<and> loop_controls b \<noteq> [] \<and> l = hd (loop_controls b)"
  by (cases "loop_controls b") (auto simp: current_loop_def)

lemma sim_break: "stmt_sim step C walk_break at_end s Breaks s"
  by (rule sim_jump) (auto simp: walk_break_def act_Inr_iff current_loop_Inr ready_def split: prod.splits)

lemma sim_continue: "stmt_sim step C walk_continue at_end s Continues s"
  by (rule sim_jump) (auto simp: walk_continue_def act_Inr_iff current_loop_Inr ready_def split: prod.splits)

text \<open>\<open>return\<close>: the value goes to the slot of the function.\<close>

lemma walk_ret_Inr:
  assumes "walk_ret m b = Inr ((), b')" "ready b" "\<And>e. m = Some e \<Longrightarrow> grows e"
  shows "case m of
      None \<Rightarrow> \<exists>b1. b' = b1\<lparr>with_ret_value := True\<rparr> \<and> b1 = placed (next_bb b) (new_bb (emitted (Br (retbb (node b))) b))
    | Some e \<Rightarrow> \<exists>a ty b1 n. e b = Inr ((a, ty), b1) \<and> retslot (node b) = Some n \<and>
        b' = (placed (next_bb b1) (new_bb (emitted (Br (retbb (node b))) (emitted (Slot_Store n a) b1))))\<lparr>with_ret_value := True\<rparr>"
proof (cases m)
  case None
  then show ?thesis
    using assms(1,2) by (auto simp: walk_ret_def act_Inr_iff ready_def split: if_splits)
next
  case (Some e)
  have fn: "curr_fn b \<noteq> None" using assms(2) by (simp add: ready_def)
  then obtain a ty b1 where b1: "e b = Inr ((a, ty), b1)"
    using assms(1) Some by (auto simp: walk_ret_def act_Inr_iff split: prod.splits)
  have "curr_fn b1 \<noteq> None" using walk_unused(1) [OF assms(3) [OF Some] b1 assms(2)] by (simp add: ready_def)
  then show ?thesis
    using assms(1) Some fn b1 by (auto simp: walk_ret_def act_Inr_iff split: prod.splits if_splits option.splits)
qed

lemma carries_more [simp]: "carries C (b\<lparr>with_ret_value := v\<rparr>) = carries C b"
  by (simp add: carries_def)

lemma sim_ret:
  assumes "eval_return S e s = Some (v, s')"
  shows "stmt_sim step C (walk_ret (map_option walk_expr e)) at_end s (Returns v) s'"
proof (rule stmt_simI)
  fix b b' x
  assume w: "walk_ret (map_option walk_expr e) b = Inr ((), b')" "ready b" "carries C b'" "at_end b x" "store x = s"
  have inv: "case map_option walk_expr e of
      None \<Rightarrow> \<exists>b1. b' = b1\<lparr>with_ret_value := True\<rparr> \<and> b1 = placed (next_bb b) (new_bb (emitted (Br (retbb (node b))) b))
    | Some m \<Rightarrow> \<exists>a ty b1 n. m b = Inr ((a, ty), b1) \<and> retslot (node b) = Some n \<and>
        b' = (placed (next_bb b1) (new_bb (emitted (Br (retbb (node b))) (emitted (Slot_Store n a) b1))))\<lparr>with_ret_value := True\<rparr>"
    by (rule walk_ret_Inr [OF w(1,2)]) (auto simp: grows_walk_expr)
  show "\<exists>y. (step C)\<^sup>*\<^sup>* x y \<and> store y = s' \<and> agree b x y \<and> arrives b b' (Returns v) y"
  proof (cases e)
    case None
    then have "carries C (emitted (Br (retbb (node b))) b)" using inv w(3) by auto
    then have "(step C)\<^sup>*\<^sup>* x (jump (retbb (node b)) x)"
      using w(4) by (intro r_into_rtranclp br fetch_emitted)
    then show ?thesis using assms None w(5) by (intro exI [of _ "jump (retbb (node b)) x"]) simp
  next
    case (Some e')
    obtain k where k: "eval_expr S e' s = Some (k, s')" "v = Some k" using assms Some by auto
    obtain a ty b1 n where b1: "walk_expr e' b = Inr ((a, ty), b1)" and n: "retslot (node b) = Some n"
      and c: "carries C (emitted (Br (retbb (node b))) (emitted (Slot_Store n a) b1))"
      using inv Some w(3) by auto
    have c1: "carries C (emitted (Slot_Store n a) b1)" by (rule carries_emitted [OF c])
    obtain y where y: "(step C)\<^sup>*\<^sup>* x y" "at_end b1 y" "store y = s'" "operand_value y a = k" "agree b x y"
      by (rule value_simD [OF sim_walk_expr b1(1) w(2) carries_emitted [OF c1] w(4)]) (use w(5) k in auto)
    let ?y = "jump (retbb (node b)) (set_slot n k y)"
    have "step C y (set_slot n k y)" using slot_store [OF fetch_emitted [OF c1 y(2)]] y(4) by simp
    moreover have "step C (set_slot n k y) ?y" by (rule br [OF fetch_emitted [OF c]]) (use y(2) in simp)
    ultimately have "(step C)\<^sup>*\<^sup>* x ?y" using steps_into y(1) by blast
    then show ?thesis using y n k(2) by (intro exI [of _ ?y]) simp
  qed
qed

lemma sim_list:
  shows "stmt_sim step C (walk_stmtlist []) at_end s Normal s"
    and "grows (walk_stmtlist ms) \<Longrightarrow> grows m \<Longrightarrow> stmt_sim step C m at_end s Normal s1 \<Longrightarrow>
      stmt_sim step C (walk_stmtlist ms) at_end s1 r s' \<Longrightarrow> stmt_sim step C (walk_stmtlist (m # ms)) at_end s r s'"
    and "grows (walk_stmtlist ms) \<Longrightarrow> grows m \<Longrightarrow> stmt_sim step C m at_end s r s' \<Longrightarrow> r \<noteq> Normal \<Longrightarrow>
      stmt_sim step C (walk_stmtlist (m # ms)) at_end s r s'"
proof -
  show "stmt_sim step C (walk_stmtlist []) at_end s Normal s"
    by (rule stmt_simI) (use agree_refl in auto)
  have split: "\<exists>b1. m b = Inr ((), b1) \<and> walk_stmtlist ms b1 = Inr ((), b')" if "walk_stmtlist (m # ms) b = Inr ((), b')" for b b'
    using that by (auto simp: act_Inr_iff)
  show "stmt_sim step C (walk_stmtlist (m # ms)) at_end s r s'"
    if g: "grows (walk_stmtlist ms)" "grows m" and one: "stmt_sim step C m at_end s Normal s1"
      and rest: "stmt_sim step C (walk_stmtlist ms) at_end s1 r s'"
  proof (rule stmt_simI)
    fix b b' x assume w: "walk_stmtlist (m # ms) b = Inr ((), b')" "ready b" "carries C b'" "at_end b x" "store x = s"
    obtain b1 where b1: "m b = Inr ((), b1)" "walk_stmtlist ms b1 = Inr ((), b')" using split [OF w(1)] by blast
    note u = walk_unused [OF g(2) b1(1) w(2)]
    have c1: "carries C b1" by (rule walk_unused(6) [OF g(1) b1(2) u(1) w(3)])
    obtain y where y: "(step C)\<^sup>*\<^sup>* x y" "store y = s1" "agree b x y" "arrives b b1 Normal y"
      by (rule stmt_simD [where starts = at_end, OF one b1(1) w(2) c1 w(4,5)])
    obtain z where z: "(step C)\<^sup>*\<^sup>* y z" "store z = s'" "agree b1 y z" "arrives b1 b' r z"
      by (rule stmt_simD [where starts = at_end, OF rest b1(2) u(1) w(3) _ y(2)]) (use y(4) in simp_all)
    have "arrives b b' r z" using z(4) u(4,5) by (cases r) (simp_all add: older_def)
    then show "\<exists>y. (step C)\<^sup>*\<^sup>* x y \<and> store y = s' \<and> agree b x y \<and> arrives b b' r y"
      using steps_trans [OF y(1) z(1)] z(2) agree_trans [OF y(3) agree_older [OF z(3) u(5)]] by blast
  qed
  show "stmt_sim step C (walk_stmtlist (m # ms)) at_end s r s'"
    if g: "grows (walk_stmtlist ms)" "grows m" and one: "stmt_sim step C m at_end s r s'" and r: "r \<noteq> Normal"
  proof (rule stmt_simI)
    fix b b' x assume w: "walk_stmtlist (m # ms) b = Inr ((), b')" "ready b" "carries C b'" "at_end b x" "store x = s"
    obtain b1 where b1: "m b = Inr ((), b1)" "walk_stmtlist ms b1 = Inr ((), b')" using split [OF w(1)] by blast
    note u = walk_unused [OF g(2) b1(1) w(2)]
    have c1: "carries C b1" by (rule walk_unused(6) [OF g(1) b1(2) u(1) w(3)])
    obtain y where y: "(step C)\<^sup>*\<^sup>* x y" "store y = s'" "agree b x y" "arrives b b1 r y"
      by (rule stmt_simD [where starts = at_end, OF one b1(1) w(2) c1 w(4,5)])
    then show "\<exists>y. (step C)\<^sup>*\<^sup>* x y \<and> store y = s' \<and> agree b x y \<and> arrives b b' r y"
      using r by (intro exI [of _ y]) (cases r; simp)
  qed
qed

end

subsection \<open>The whole\<close>

primrec fors_fit :: "('i, 'v, 's) plain_sem \<Rightarrow> ('i, 'v) stmt \<Rightarrow> bool" where
  "fors_fit S (S_Plain is) = True"
| "fors_fit S (S_Assign e i) = True"
| "fors_fit S (S_List ss) = list_all id (map (fors_fit S) ss)"
| "fors_fit S (S_Loop s) = fors_fit S s"
| "fors_fit S (S_While e s) = fors_fit S s"
| "fors_fit S (S_For pre l lo hi i s) = (for_fits S l lo hi \<and> fors_fit S s)"
| "fors_fit S (S_If es ss rest) = (list_all id (map (fors_fit S) ss) \<and> pred_option id (map_option (fors_fit S) rest))"
| "fors_fit S S_Break = True"
| "fors_fit S S_Continue = True"
| "fors_fit S (S_Ret e) = True"
| "fors_fit S (S_Label name) = True"
| "fors_fit S (S_Goto name) = True"
| "fors_fit S (S_Fn rt s) = fors_fit S s"

text \<open>A \<open>loop\<close> or \<open>while\<close> may also start at its head.\<close>

fun starts :: "('i, 'v) stmt \<Rightarrow> ('i, 'v) builder \<Rightarrow> 's config \<Rightarrow> bool" where
  "starts (S_Loop c) = at_head"
| "starts (S_While e c) = at_head"
| "starts c = at_end"

lemma stmt_sim_starts: "stmt_sim step C m (starts c) s r s' \<Longrightarrow> stmt_sim step C m at_end s r s'"
  unfolding stmt_sim_def by (cases c) (simp_all add: at_head_def)

lemma chosen_mem: "chosen ss rest k = Some c \<Longrightarrow> c \<in> set (arms ss rest)"
  by (auto simp: chosen_def set_arms split: if_splits)

context llvm_machine
begin

theorem simulation:
  shows "big_step S c s r s' \<Longrightarrow> structured c \<Longrightarrow> fors_fit S c \<Longrightarrow> stmt_sim step C (walk_stack c) (starts c) s r s'"
    and "big_items S ci c ks s r s' \<Longrightarrow> structured c \<Longrightarrow> fors_fit S c \<Longrightarrow> items_sim step C ci (walk_stack c) ks s r s'"
proof (induction rule: big_step_big_items.inducts)
  case (Plain xs s s')
  then show ?case by (simp only: starts.simps sim_plain)
next
  case (Assign e s v s1 i s')
  then show ?case by (simp only: starts.simps sim_assign)
next
  case (Nil s)
  show ?case by (simp only: walk_stack.simps list.map starts.simps sim_list(1))
next
  case (Cons c s s1 cs r s')
  have g: "grows (walk_stmtlist (map walk_stack cs))" "grows (walk_stack c)"
    using grows_walk_stack [of "S_List cs"] grows_walk_stack [of c] Cons.prems by simp_all
  show ?case
    unfolding walk_stack.simps list.map starts.simps
    by (rule sim_list(2) [OF g stmt_sim_starts]) (use Cons in simp_all)
next
  case (Cons_stop c s r s' cs)
  have g: "grows (walk_stmtlist (map walk_stack cs))" "grows (walk_stack c)"
    using grows_walk_stack [of "S_List cs"] grows_walk_stack [of c] Cons_stop.prems by simp_all
  show ?case
    unfolding walk_stack.simps list.map starts.simps
    by (rule sim_list(3) [OF g stmt_sim_starts]) (use Cons_stop in simp_all)
next
  case (Loop_again c s r s1 r' s')
  then have g: "grows (walk_stack c)" by (simp add: grows_walk_stack)
  show ?case
    unfolding walk_stack.simps starts.simps
    by (rule sim_loop(1) [OF g stmt_sim_starts]) (use Loop_again in simp_all)
next
  case (Loop_break c s s')
  then have g: "grows (walk_stack c)" by (simp add: grows_walk_stack)
  show ?case
    unfolding walk_stack.simps starts.simps
    by (rule sim_loop(2) [OF g stmt_sim_starts]) (use Loop_break in simp_all)
next
  case (Loop_return c s v s')
  then have g: "grows (walk_stack c)" by (simp add: grows_walk_stack)
  show ?case
    unfolding walk_stack.simps starts.simps
    by (rule sim_loop(3) [OF g stmt_sim_starts]) (use Loop_return in simp_all)
next
  case (While_false e s s' c)
  then have g: "grows (walk_stack c)" by (simp add: grows_walk_stack)
  show ?case
    unfolding walk_stack.simps starts.simps
    by (rule sim_while(1) [OF sim_walk_expr grows_walk_expr g While_false(1)])
next
  case (While_again e s v s1 c r s2 r' s')
  then have g: "grows (walk_stack c)" by (simp add: grows_walk_stack)
  show ?case
    unfolding walk_stack.simps starts.simps
    by (rule sim_while(2) [OF sim_walk_expr grows_walk_expr g _ _ stmt_sim_starts]) (use While_again in simp_all)
next
  case (While_break e s v s1 c s')
  then have g: "grows (walk_stack c)" by (simp add: grows_walk_stack)
  show ?case
    unfolding walk_stack.simps starts.simps
    by (rule sim_while(3) [OF sim_walk_expr grows_walk_expr g _ _ stmt_sim_starts]) (use While_break in simp_all)
next
  case (While_return e s v s1 c k s')
  then have g: "grows (walk_stack c)" by (simp add: grows_walk_stack)
  show ?case
    unfolding walk_stack.simps starts.simps
    by (rule sim_while(4) [OF sim_walk_expr grows_walk_expr g _ _ stmt_sim_starts]) (use While_return in simp_all)
next
  case (For pre s s1 ci c l lo hi r s')
  have g: "grows (walk_stack c)" and fit: "for_fits S l lo hi" using For.prems by (simp_all add: grows_walk_stack)
  show ?case
    unfolding walk_stack.simps starts.simps
    by (rule sim_for [OF g For(1) counts_for_items [OF _ fit]]) (use For in simp_all)
next
  case (If es s k s1 ss rest c r s')
  have prem: "length ss = length es" "\<forall>c\<in>set (arms ss rest). structured c \<and> fors_fit S c"
    using If.prems by (auto simp: set_arms list_all_iff pred_option_def)
  have "structured c" "fors_fit S c" using chosen_mem [OF If(4)] prem(2) by auto
  then have "stmt_sim step C (walk_stack c) at_end s1 r s'" by (rule stmt_sim_starts [OF If(3)])
  then show ?case
    unfolding walk_stack.simps starts.simps
    by (intro sim_if [OF prem(1) _ If(1)]) (use prem(2) If(4) in auto)
next
  case (If_none es s k s' ss rest)
  have prem: "length ss = length es" "\<forall>c\<in>set (arms ss rest). structured c"
    using If_none.prems by (auto simp: set_arms list_all_iff pred_option_def)
  show ?case
    unfolding walk_stack.simps starts.simps
    by (rule sim_if [OF prem If_none(1)]) (use If_none(2) in auto)
next
  case (Break s)
  show ?case by (simp only: walk_stack.simps starts.simps sim_break)
next
  case (Continue s)
  show ?case by (simp only: walk_stack.simps starts.simps sim_continue)
next
  case (Ret e s v s')
  then show ?case by (simp only: walk_stack.simps starts.simps sim_ret)
next
  case (No_items ci c s)
  then show ?case by (simp only: sim_items(1) grows_walk_stack)
next
  case (Items_again ci k s s1 c r s2 ks r' s')
  then have g: "grows (walk_stack c)" by (simp add: grows_walk_stack)
  show ?case by (rule sim_items(2) [OF g Items_again(1) stmt_sim_starts]) (use Items_again in simp_all)
next
  case (Items_break ci k s s1 c s' ks)
  then have g: "grows (walk_stack c)" by (simp add: grows_walk_stack)
  show ?case by (rule sim_items(3) [OF g Items_break(1) stmt_sim_starts]) (use Items_break in simp_all)
next
  case (Items_return ci k s s1 c v s' ks)
  then have g: "grows (walk_stack c)" by (simp add: grows_walk_stack)
  show ?case by (rule sim_items(4) [OF g Items_return(1) stmt_sim_starts]) (use Items_return in simp_all)
qed

end

end
