(* ===== verification/Control_Ok.thy ===== *)
theory Control_Ok
  imports Control_Sim
begin

section \<open>Which functions compile\<close>

text \<open>
  The errors of the walkers, exactly: an expression compiles when it has a type, and a statement
  when its conditions are \<open>bool\<close>, what it iterates over can be stepped, what it returns has the
  LLVM type of the function, and \<open>break\<close> and \<open>continue\<close> are inside a loop.
\<close>

fun expr_type :: "('i, 'v) expr \<Rightarrow> (tokenid \<times> LType) option" where
  "expr_type (E_Plain is v ty) = Some ty"
| "expr_type (E_Land e1 e2) =
     (case (expr_type e1, expr_type e2) of (Some (t, _), Some _) \<Rightarrow> Some (t, LT_Int 1) | _ \<Rightarrow> None)"
| "expr_type (E_Lor e1 e2) =
     (case (expr_type e1, expr_type e2) of (Some (t, _), Some _) \<Rightarrow> Some (t, LT_Int 1) | _ \<Rightarrow> None)"
| "expr_type (E_Ife e e1 e2) =
     (case (expr_type e, expr_type e1, expr_type e2) of
        (Some (t, _), Some (t1, _), Some (t2, _)) \<Rightarrow> if t = BOOL \<and> t1 = t2 then Some (t1, LT_Int 32) else None
      | _ \<Rightarrow> None)"

definition is_cond :: "('i, 'v) expr \<Rightarrow> bool" where
  "is_cond e \<longleftrightarrow> (case expr_type e of Some (t, _) \<Rightarrow> t = BOOL | None \<Rightarrow> False)"

text \<open>\<open>rt\<close> is the return type, \<open>inloop\<close> says that there is a loop around.\<close>

primrec ok_stmt :: "tokenid \<times> LType \<Rightarrow> ('i, 'v) stmt \<Rightarrow> bool \<Rightarrow> bool" where
  "ok_stmt rt (S_Plain is) inloop = True"
| "ok_stmt rt (S_Assign e i) inloop = (expr_type e \<noteq> None)"
| "ok_stmt rt (S_List ss) inloop = list_all (\<lambda>ok. ok inloop) (map (ok_stmt rt) ss)"
| "ok_stmt rt (S_Loop s) inloop = ok_stmt rt s True"
| "ok_stmt rt (S_While e s) inloop = (is_cond e \<and> ok_stmt rt s True)"
| "ok_stmt rt (S_For pre l lo hi i s) inloop = (\<not> isl (aux_create_compare_value_for l) \<and> ok_stmt rt s True)"
| "ok_stmt rt (S_If es ss rest) inloop =
     (list_all is_cond es \<and> list_all (\<lambda>ok. ok inloop) (map (ok_stmt rt) ss) \<and>
      pred_option (\<lambda>ok. ok inloop) (map_option (ok_stmt rt) rest))"
| "ok_stmt rt S_Break inloop = inloop"
| "ok_stmt rt S_Continue inloop = inloop"
| "ok_stmt rt (S_Ret e) inloop =
     (case e of
        None \<Rightarrow> snd rt = LT_Void
      | Some e \<Rightarrow> fst rt \<noteq> VOID \<and> (case expr_type e of None \<Rightarrow> False | Some (_, lt) \<Rightarrow> lt = snd rt))"
| "ok_stmt rt (S_Label name) inloop = True"
| "ok_stmt rt (S_Goto name) inloop = True"
| "ok_stmt rt (S_Fn rt' s) inloop = ok_stmt rt' s inloop"

lemma ready_curr [simp]: "ready b \<Longrightarrow> curr_fn b \<noteq> None"
  by (simp add: ready_def)

lemma grows_ready: "grows m \<Longrightarrow> m b = Inr (x, b') \<Longrightarrow> ready b \<Longrightarrow> ready b'"
  by (rule conjunct2 [OF growsD])

text \<open>Walking leaves a value of the type \<open>T\<close>, or is an error when there is none.\<close>

definition walks :: "('i, 'v) walk \<Rightarrow> (tokenid \<times> LType) option \<Rightarrow> bool" where
  "walks m T \<longleftrightarrow>
     (\<forall>b. ready b \<longrightarrow> (case T of None \<Rightarrow> isl (m b) | Some t \<Rightarrow> \<exists>a b'. m b = Inr ((a, t), b') \<and> ready b'))"

lemma walks_Some: "walks m (Some t) \<Longrightarrow> ready b \<Longrightarrow> \<exists>a b'. m b = Inr ((a, t), b') \<and> ready b'"
  by (simp add: walks_def)

lemma walks_None: "walks m None \<Longrightarrow> ready b \<Longrightarrow> \<exists>e. m b = Inl e"
  by (auto simp: walks_def isl_def)

lemma walks_landor:
  fixes m1 m2 :: "('i, 'v) walk"
  assumes "walks m1 T1" "walks m2 T2" "grows m2"
  shows "walks (walk_expr_landor isand m1 m2)
      (case (T1, T2) of (Some (t, _), Some _) \<Rightarrow> Some (t, LT_Int 1) | _ \<Rightarrow> None)"
  unfolding walks_def
proof (intro allI impI)
  fix b :: "('i, 'v) builder" assume b: "ready b"
  show "case (case (T1, T2) of (Some (t, _), Some _) \<Rightarrow> Some (t, LT_Int 1) | _ \<Rightarrow> None) of
      None \<Rightarrow> isl (walk_expr_landor isand m1 m2 b)
    | Some t \<Rightarrow> \<exists>a b'. walk_expr_landor isand m1 m2 b = Inr ((a, t), b') \<and> ready b'"
  proof (cases T1)
    case None
    then show ?thesis using walks_None [of m1 b] assms(1) b by (auto simp: walk_expr_landor_def)
  next
    case (Some t1)
    then obtain a1 b1 where b1: "m1 b = Inr ((a1, t1), b1)" "ready b1" using walks_Some assms(1) b by blast
    obtain tk lt where t1: "t1 = (tk, lt)" by (cases t1)
    let ?b2 = "placed (next_bb b1) (emitted (CondBr a1 (if isand then next_bb b1 else Suc (next_bb b1))
        (if isand then Suc (next_bb b1) else next_bb b1)) (new_bb (new_bb b1)))"
    have r2: "ready ?b2" using b1(2) by simp
    show ?thesis
    proof (cases T2)
      case None
      then obtain e where "m2 ?b2 = Inl e" using walks_None [of m2] assms(2) r2 by blast
      then show ?thesis using b1 t1 Some None by (simp add: walk_expr_landor_def)
    next
      case (Some t2)
      then obtain a2 b3 where b3: "m2 ?b2 = Inr ((a2, t2), b3)" "ready b3" using walks_Some assms(2) r2 by blast
      obtain tk2 lt2 where "t2 = (tk2, lt2)" by (cases t2)
      moreover have "Suc (next_bb b1) < next_bb b3" using growsD [OF assms(3) b3(1) r2] by (simp add: grown_def)
      ultimately show ?thesis using b1 t1 \<open>T1 = Some t1\<close> Some b3 by (simp add: walk_expr_landor_def)
    qed
  qed
qed

lemma walks_condition:
  assumes "walks m T" "ready b"
  shows "if (case T of Some (t, _) \<Rightarrow> t = BOOL | None \<Rightarrow> False)
    then \<exists>v b'. walk_condition m b = Inr (v, b') \<and> ready b' \<and> (\<exists>lt. m b = Inr ((v, lt), b'))
    else isl (walk_condition m b)"
proof (cases T)
  case None
  then show ?thesis using walks_None [of m b] assms by (auto simp: walk_condition_def)
next
  case (Some t)
  obtain tk lt where t: "t = (tk, lt)" by (cases t)
  obtain a b1 where b1: "m b = Inr ((a, t), b1)" "ready b1" using walks_Some assms Some by blast
  show ?thesis
  proof (cases "tk = BOOL")
    case True
    then show ?thesis using b1 t Some by (auto simp: walk_condition_def)
  next
    case False
    then have "isl (walk_condition m b)"
      using b1 t by (cases "get_type_string tk") (simp_all add: walk_condition_def)
    then show ?thesis using Some t False by simp
  qed
qed

lemma walks_ife:
  fixes m m1 m2 :: "('i, 'v) walk"
  assumes "walks m T" "walks m1 T1" "walks m2 T2" and gr: "grows m" "grows m1" "grows m2"
  shows "walks (walk_if_common m m1 m2)
      (case (T, T1, T2) of
         (Some (t, _), Some (t1, _), Some (t2, _)) \<Rightarrow> if t = BOOL \<and> t1 = t2 then Some (t1, LT_Int 32) else None
       | _ \<Rightarrow> None)" (is "walks _ ?T")
  unfolding walks_def
proof (intro allI impI)
  fix b :: "('i, 'v) builder" assume b: "ready b"
  let ?b0 = "new_bb (new_bb (new_slot b))" and ?o = "Suc (next_bb b)"
  have r0: "ready ?b0" using b by simp
  note c = walks_condition [OF assms(1) r0]
  show "case ?T of None \<Rightarrow> isl (walk_if_common m m1 m2 b)
    | Some t \<Rightarrow> \<exists>a b'. walk_if_common m m1 m2 b = Inr ((a, t), b') \<and> ready b'"
  proof (cases "case T of Some (t, _) \<Rightarrow> t = BOOL | None \<Rightarrow> False")
    case False
    then obtain e where "walk_condition m ?b0 = Inl e" using c by (auto simp: isl_def)
    moreover have "?T = None" using False by (auto split: option.splits)
    ultimately show ?thesis by (simp add: walk_if_common_def)
  next
    case True
    then obtain v b1 lt where b1: "walk_condition m ?b0 = Inr (v, b1)" "ready b1" "m ?b0 = Inr ((v, lt), b1)" using c by auto
    have n1: "?o < next_bb b1" using growsD [OF gr(1) b1(3) r0] by (simp add: grown_def)
    let ?b2 = "placed (next_bb b) (emitted (CondBr v (next_bb b) (next_bb b1)) (new_bb b1))"
    have r2: "ready ?b2" using b1(2) n1 by simp
    show ?thesis
    proof (cases T1)
      case None
      then obtain e where "m1 ?b2 = Inl e" using walks_None assms(2) r2 by blast
      moreover have "?T = None" using None by (auto split: option.splits)
      ultimately show ?thesis using b1 by (simp add: walk_if_common_def)
    next
      case (Some t1)
      then obtain a1 b3 where b3: "m1 ?b2 = Inr ((a1, t1), b3)" "ready b3" using walks_Some assms(2) r2 by blast
      have n3: "next_bb b1 < next_bb b3" using growsD [OF gr(2) b3(1) r2] by (simp add: grown_def)
      let ?b4 = "placed (next_bb b1) (emitted (Br ?o) (emitted (Slot_Store (next_slot b) a1) b3))"
      have r4: "ready ?b4" using b3(2) n3 by simp
      show ?thesis
      proof (cases T2)
        case None
        then obtain e where "m2 ?b4 = Inl e" using walks_None assms(3) r4 by blast
        moreover have "?T = None" using None by (auto split: option.splits)
        ultimately show ?thesis using b1 b3 by (cases t1) (simp add: walk_if_common_def)
      next
        case (Some t2)
        then obtain a2 b5 where b5: "m2 ?b4 = Inr ((a2, t2), b5)" "ready b5" using walks_Some assms(3) r4 by blast
        have "?o < next_bb b5" using growsD [OF gr(3) b5(1) r4] n1 n3 by (simp add: grown_def)
        then show ?thesis
          using b1 b3 b5 True Some \<open>T1 = Some t1\<close>
          by (cases t1; cases t2) (auto simp: walk_if_common_def split: option.splits)
      qed
    qed
  qed
qed

text \<open>An expression that is walked leaves a value of its type; one without a type is an error.\<close>

lemma emits_total: "ready b \<Longrightarrow> \<exists>b'. emits xs b = Inr ((), b') \<and> ready b'"
  by (induction xs arbitrary: b) auto

lemma walks_expr: "walks (walk_expr e) (expr_type e)"
proof (induction e)
  case (E_Plain xs v ty)
  show ?case
    unfolding walks_def expr_type.simps option.case
  proof (intro allI impI)
    fix b :: "('a, 'b) builder" assume "ready b"
    then obtain b1 where "emits (map Plain xs) b = Inr ((), b1)" "ready b1" using emits_total by blast
    then show "\<exists>a b'. walk_expr (E_Plain xs v ty) b = Inr ((a, ty), b') \<and> ready b'" by simp
  qed
next
  case (E_Land e1 e2)
  then show ?case using walks_landor [OF E_Land grows_walk_expr] by simp
next
  case (E_Lor e1 e2)
  then show ?case using walks_landor [OF E_Lor grows_walk_expr] by simp
next
  case (E_Ife e e1 e2)
  then show ?case using walks_ife [OF E_Ife grows_walk_expr grows_walk_expr grows_walk_expr] by simp
qed

subsection \<open>Statements\<close>

lemma in_loop_run:
  "in_loop c d m b =
     (case m (with_loops ((c, d) # loop_controls b) b) of
        Inl e \<Rightarrow> Inl e | Inr (_, b1) \<Rightarrow> Inr ((), with_loops (tl (loop_controls b1)) b1))"
  by (simp add: in_loop_def act_def with_loops_def split: sum.splits prod.splits)

text \<open>In a function that returns \<open>rt\<close>, walking succeeds when \<open>ok\<close> holds of there being a loop, and is
  an error otherwise.\<close>

definition in_function :: "tokenid \<times> LType \<Rightarrow> ('i, 'v) builder \<Rightarrow> bool" where
  "in_function rt b \<longleftrightarrow> ready b \<and> ret_type (node b) = rt \<and> (retslot (node b) = None \<longleftrightarrow> fst rt = VOID)"

definition compiles :: "tokenid \<times> LType \<Rightarrow> ('i, 'v, unit) build \<Rightarrow> (bool \<Rightarrow> bool) \<Rightarrow> bool" where
  "compiles rt m ok \<longleftrightarrow>
     grows m \<and>
     (\<forall>b. in_function rt b \<longrightarrow>
        (if ok (loop_controls b \<noteq> []) then \<exists>b'. m b = Inr ((), b') \<and> in_function rt b' else isl (m b)))"

lemma in_function_ready [simp]: "in_function rt b \<Longrightarrow> ready b"
  by (simp add: in_function_def)

lemma in_function_grown:
  "in_function rt b \<Longrightarrow> grown k i b ls N b' \<Longrightarrow> ready b' \<Longrightarrow> in_function rt b'"
  by (auto simp: in_function_def grown_def node_def)

lemma in_function_changes [simp]:
  "in_function rt b \<Longrightarrow> in_function rt (emitted i b)" "in_function rt b \<Longrightarrow> in_function rt (new_bb b)"
  "in_function rt b \<Longrightarrow> in_function rt (new_reg b)" "in_function rt b \<Longrightarrow> in_function rt (new_slot b)"
  "in_function rt b \<Longrightarrow> in_function rt (with_loops ls b)"
  "in_function rt b \<Longrightarrow> n < next_bb b \<Longrightarrow> in_function rt (placed n b)"
  by (auto simp: in_function_def)

lemma walk_in_function: "grows m \<Longrightarrow> m b = Inr (x, b') \<Longrightarrow> in_function rt b \<Longrightarrow> in_function rt b'"
  by (rule in_function_grown) (use growsD [of m b x b'] in auto)

lemma compilesI:
  assumes "grows m" "\<And>b. in_function rt b \<Longrightarrow>
      if ok (loop_controls b \<noteq> []) then \<exists>b'. m b = Inr ((), b') else isl (m b)"
  shows "compiles rt m ok"
  unfolding compiles_def
proof (intro conjI allI impI)
  fix b :: "('a, 'b) builder" assume b: "in_function rt b"
  show "if ok (loop_controls b \<noteq> []) then \<exists>b'. m b = Inr ((), b') \<and> in_function rt b' else isl (m b)"
    using assms(2) [OF b] walk_in_function [OF assms(1) _ b] by (auto split: if_splits)
qed (rule assms)

lemma compiles_Inr:
  assumes "compiles rt m ok" "in_function rt b" "ok (loop_controls b \<noteq> [])"
  shows "\<exists>b'. m b = Inr ((), b') \<and> in_function rt b' \<and> next_bb b \<le> next_bb b' \<and> loop_controls b' = loop_controls b"
proof -
  obtain b' where b': "m b = Inr ((), b')" "in_function rt b'" using assms unfolding compiles_def by metis
  have "grows m" using assms(1) by (simp add: compiles_def)
  then show ?thesis using walk_unused(2,4) [of m b "()" b'] b' assms(2) by auto
qed

lemma compiles_Inl:
  assumes "compiles rt m ok" "in_function rt b" "\<not> ok (loop_controls b \<noteq> [])"
  shows "\<exists>e. m b = Inl e"
  using assms unfolding compiles_def by (metis isl_def)

lemma compiles_loop: 
  assumes m: "compiles rt m ok"
  shows "compiles rt (walk_loop m) (\<lambda>_. ok True)"
proof (rule compilesI)
  show "grows (walk_loop m)" using m by (simp add: compiles_def grows_def grown_walk_loop)
  fix b :: "('a, 'b) builder" assume b: "in_function rt b"
  let ?b1 = "with_loops ((next_bb b, Suc (next_bb b)) # loop_controls b) (placed (next_bb b) (emitted (Br (next_bb b)) (new_bb (new_bb b))))"
  have b1: "in_function rt ?b1" using b by simp
  show "if ok True then \<exists>b'. walk_loop m b = Inr ((), b') else isl (walk_loop m b)"
  proof (cases "ok True")
    case True
    then obtain b2 where "m ?b1 = Inr ((), b2)" "in_function rt b2" using compiles_Inr [OF m b1] by auto
    then show ?thesis using b True by (simp add: walk_loop_def in_loop_run)
  next
    case False
    then obtain e where "m ?b1 = Inl e" using compiles_Inl [OF m b1] by auto
    then show ?thesis using b False by (simp add: walk_loop_def in_loop_run)
  qed
qed

lemma compiles_while: 
  assumes m: "compiles rt m ok" and e: "walks c T" "grows c"
  shows "compiles rt (walk_while c m) (\<lambda>_. (case T of Some (t, _) \<Rightarrow> t = BOOL | None \<Rightarrow> False) \<and> ok True)"
proof (rule compilesI)
  have gm: "grows m" using m by (simp add: compiles_def)
  then show "grows (walk_while c m)" using e(2) by (simp add: grows_def grown_walk_while)
  fix b :: "('a, 'b) builder" assume b: "in_function rt b"
  let ?T = "case T of Some (t, _) \<Rightarrow> t = BOOL | None \<Rightarrow> False"
  let ?c = "next_bb b" and ?w = "Suc (next_bb b)" and ?d = "Suc (Suc (next_bb b))"
  let ?b1 = "placed ?c (emitted (Br ?c) (new_bb (new_bb (new_bb b))))"
  have b1: "in_function rt ?b1" "ready ?b1" using b by simp_all
  note cond = walks_condition [OF e(1) b1(2)]
  show "if ?T \<and> ok True then \<exists>b'. walk_while c m b = Inr ((), b') else isl (walk_while c m b)"
  proof (cases ?T)
    case False
    then obtain x where "walk_condition c ?b1 = Inl x" using cond by (auto simp: isl_def)
    moreover have "\<not> (?T \<and> ok True)" using False by blast
    ultimately show ?thesis using b by (simp add: walk_while_def)
  next
    case True
    then obtain v b2 lt where b2: "walk_condition c ?b1 = Inr (v, b2)" "c ?b1 = Inr ((v, lt), b2)" using cond by auto
    note u = walk_unused [OF e(2) b2(2) b1(2)]
    let ?b3 = "with_loops ((?c, ?d) # loop_controls b2) (placed ?w (emitted (CondBr v ?w ?d) b2))"
    have "in_function rt b2" by (rule walk_in_function [OF e(2) b2(2) b1(1)])
    then have b3: "in_function rt ?b3" using u(2) by simp
    show ?thesis
    proof (cases "ok True")
      case ok: True
      then obtain b4 where "m ?b3 = Inr ((), b4)" "in_function rt b4" using compiles_Inr [OF m b3] by auto
      then have "\<exists>b'. walk_while c m b = Inr ((), b')" using b b2 u(1) by (simp add: walk_while_def in_loop_run)
      then show ?thesis using True ok by simp
    next
      case False
      then obtain x where "m ?b3 = Inl x" using compiles_Inl [OF m b3] by auto
      then have "isl (walk_while c m b)" using b b2 u(1) by (simp add: walk_while_def in_loop_run)
      then show ?thesis using False by simp
    qed
  qed
qed

lemma compiles_for:
  assumes m: "compiles rt m ok"
  shows "compiles rt (walk_for pre l lo hi ci m) (\<lambda>_. \<not> isl (aux_create_compare_value_for l) \<and> ok True)"
proof (rule compilesI)
  have gm: "grows m" using m by (simp add: compiles_def)
  then show "grows (walk_for pre l lo hi ci m)" by (simp add: grows_def grown_walk_for)
  fix b :: "('a, 'b) builder" assume b: "in_function rt b"
  let ?c = "next_bb b" and ?l = "Suc (next_bb b)" and ?d = "Suc (Suc (next_bb b))"
  let ?b0 = "new_bb (new_bb (new_bb b))"
  have b0: "in_function rt ?b0" using b by simp
  then obtain b1 where b1: "emits (map Plain pre) ?b0 = Inr ((), b1)" "ready b1" using emits_total in_function_ready by blast
  have fb1: "in_function rt b1" "next_bb b1 = Suc ?d" "loop_controls b1 = loop_controls b"
    using b b1(2) emits_fields [OF b1(1)] by (auto simp: in_function_def)
  show "if \<not> isl (aux_create_compare_value_for l) \<and> ok True then \<exists>b'. walk_for pre l lo hi ci m b = Inr ((), b')
      else isl (walk_for pre l lo hi ci m b)"
  proof (cases "aux_create_compare_value_for l")
    case (Inl e)
    then show ?thesis using b b1 by (simp add: walk_for_def)
  next
    case (Inr pw)
    obtain p w where pw: "pw = (p, w)" by (cases pw)
    obtain bv ev b2 where b2: "for_bounds l lo hi b1 = Inr ((bv, ev), b2)"
      by (cases l) (auto simp: for_bounds_def)
    have fb2: "in_function rt b2" "next_bb b2 = Suc ?d" "loop_controls b2 = loop_controls b"
      using for_bounds_Inr [OF b2] fb1 by auto
    let ?b4 = "for_start b bv b2"
    let ?b11 = "with_loops ((?c, ?d) # loop_controls b) (for_step ci (next_slot b2) w (next_reg ?b4) (for_test (next_slot b2) p w ev ?l ?d ?b4))"
    have b11: "in_function rt ?b11" using fb2 by (simp add: for_step_def for_test_def for_start_def)
    show ?thesis
    proof (cases "ok True")
      case True
      then obtain b12 where "m ?b11 = Inr ((), b12)" "in_function rt b12" using compiles_Inr [OF m b11] by auto
      then have "\<exists>b'. walk_for pre l lo hi ci m b = Inr ((), b')"
        using b b1 b2 Inr pw fb2
        by (auto simp: walk_for_def in_loop_run for_step_def for_test_def for_start_def)
      then show ?thesis using Inr True by simp
    next
      case False
      then obtain e where "m ?b11 = Inl e" using compiles_Inl [OF m b11] by auto
      then have "isl (walk_for pre l lo hi ci m b)"
        using b b1 b2 Inr pw fb2
        by (auto simp: walk_for_def in_loop_run for_step_def for_test_def for_start_def)
      then show ?thesis using False by simp
    qed
  qed
qed

lemma compiles_simple:
  "compiles rt (walk_stack (S_Plain xs)) (\<lambda>_. True)"
  "compiles rt (walk_stack (S_Assign e i)) (\<lambda>_. expr_type e \<noteq> None)"
  "compiles rt walk_break (\<lambda>inloop. inloop)"
  "compiles rt walk_continue (\<lambda>inloop. inloop)"
proof -
  show "compiles rt (walk_stack (S_Plain xs)) (\<lambda>_. True)"
  proof (rule compilesI)
    show "grows (walk_stack (S_Plain xs))" by (rule grows_walk_stack) simp
    show "if True then \<exists>b'. walk_stack (S_Plain xs) b = Inr ((), b') else isl (walk_stack (S_Plain xs) b)"
      if "in_function rt b" for b using emits_total [of b "map Plain xs"] that by auto
  qed
  show "compiles rt (walk_stack (S_Assign e i)) (\<lambda>_. expr_type e \<noteq> None)"
  proof (rule compilesI)
    show "grows (walk_stack (S_Assign e i))" by (rule grows_walk_stack) simp
    show "if expr_type e \<noteq> None then \<exists>b'. walk_stack (S_Assign e i) b = Inr ((), b') else isl (walk_stack (S_Assign e i) b)"
      if "in_function rt b" for b
    proof (cases "expr_type e")
      case None
      then show ?thesis using walks_None [of "walk_expr e" b] walks_expr [of e] that by auto
    next
      case (Some t)
      then show ?thesis using walks_Some [of "walk_expr e" t b] walks_expr [of e] that by (cases t) auto
    qed
  qed
  show "compiles rt walk_break (\<lambda>inloop. inloop)"
  proof (rule compilesI)
    show "grows walk_break" using grows_walk_stack [of S_Break] by simp
    show "if loop_controls b \<noteq> [] then \<exists>b'. walk_break b = Inr ((), b') else isl (walk_break b)"
      if "in_function rt b" for b using that by (cases "loop_controls b") (auto simp: walk_break_def current_loop_def)
  qed
  show "compiles rt walk_continue (\<lambda>inloop. inloop)"
  proof (rule compilesI)
    show "grows walk_continue" using grows_walk_stack [of S_Continue] by simp
    show "if loop_controls b \<noteq> [] then \<exists>b'. walk_continue b = Inr ((), b') else isl (walk_continue b)"
      if "in_function rt b" for b using that by (cases "loop_controls b") (auto simp: walk_continue_def current_loop_def)
  qed
qed

lemma compiles_ret:
  "compiles rt (walk_ret (map_option walk_expr e))
     (\<lambda>_. case e of
        None \<Rightarrow> snd rt = LT_Void
      | Some e \<Rightarrow> fst rt \<noteq> VOID \<and> (case expr_type e of None \<Rightarrow> False | Some (_, lt) \<Rightarrow> lt = snd rt))"
    (is "compiles rt _ (\<lambda>_. ?ok)")
proof (rule compilesI)
  show "grows (walk_ret (map_option walk_expr e))" using grows_walk_stack [of "S_Ret e"] by simp
  fix b :: "('a, 'b) builder" assume b: "in_function rt b"
  then have r: "ready b" "ret_type (node b) = rt" "retslot (node b) = None \<longleftrightarrow> fst rt = VOID" by (simp_all add: in_function_def)
  show "if ?ok then \<exists>b'. walk_ret (map_option walk_expr e) b = Inr ((), b') else isl (walk_ret (map_option walk_expr e) b)"
  proof (cases e)
    case None
    then show ?thesis using r by (simp add: walk_ret_def)
  next
    case (Some e')
    show ?thesis
    proof (cases "expr_type e'")
      case None
      then have "walks (walk_expr e') None" using walks_expr [of e'] by simp
      then obtain x where "walk_expr e' b = Inl x" using walks_None r(1) by blast
      then show ?thesis using r Some None by (simp add: walk_ret_def)
    next
      case (Some t)
      then have "walks (walk_expr e') (Some t)" using walks_expr [of e'] by simp
      then obtain a b1 where b1: "walk_expr e' b = Inr ((a, t), b1)" "ready b1" using walks_Some r(1) by blast
      obtain tk lt where t: "t = (tk, lt)" by (cases t)
      show ?thesis
      proof (cases "retslot (node b)")
        case None
        then show ?thesis using \<open>e = Some e'\<close> Some r b1 t by (cases "snd rt = lt") (simp_all add: walk_ret_def)
      next
        case (Some n)
        then show ?thesis using \<open>e = Some e'\<close> \<open>expr_type e' = Some t\<close> r b1 t
          by (cases "snd rt = lt") (simp_all add: walk_ret_def)
      qed
    qed
  qed
qed

lemma compiles_list:
  fixes m :: "('a, 'b, unit) build"
  shows "compiles rt (walk_stmtlist ([] :: ('a, 'b, unit) build list)) (\<lambda>_. True)"
  "compiles rt m ok \<Longrightarrow> compiles rt (walk_stmtlist ms) oks \<Longrightarrow>
   compiles rt (walk_stmtlist (m # ms)) (\<lambda>inloop. ok inloop \<and> oks inloop)"
proof -
  show "compiles rt (walk_stmtlist ([] :: ('a, 'b, unit) build list)) (\<lambda>_. True)"
  proof (rule compilesI)
    show "grows (walk_stmtlist [])" using grows_walk_stack [of "S_List []"] by simp
  qed simp
  assume m: "compiles rt m ok" and ms: "compiles rt (walk_stmtlist ms) oks"
  show "compiles rt (walk_stmtlist (m # ms)) (\<lambda>inloop. ok inloop \<and> oks inloop)"
  proof (rule compilesI)
    show "grows (walk_stmtlist (m # ms))"
      using m ms by (auto simp: compiles_def grows_def intro!: yields_act)
    fix b :: "('a, 'b) builder" assume b: "in_function rt b"
    show "if ok (loop_controls b \<noteq> []) \<and> oks (loop_controls b \<noteq> []) then \<exists>b'. walk_stmtlist (m # ms) b = Inr ((), b')
        else isl (walk_stmtlist (m # ms) b)"
    proof (cases "ok (loop_controls b \<noteq> [])")
      case False
      then show ?thesis using compiles_Inl [OF m b] by auto
    next
      case True
      then obtain b1 where b1: "m b = Inr ((), b1)" "in_function rt b1" "loop_controls b1 = loop_controls b"
        using compiles_Inr [OF m b] by auto
      then show ?thesis
        using compiles_Inr [OF ms b1(2)] compiles_Inl [OF ms b1(2)] True by (cases "oks (loop_controls b \<noteq> [])") auto
    qed
  qed
qed

lemma conds_ok:
  assumes "in_function rt b" "length es = length bbs" "\<forall>(c, d)\<in>set bbs. c < next_bb b"
  shows "if list_all is_cond es
    then \<exists>b'. walk_if_conds (map walk_expr es) bbs b = Inr ((), b') \<and> in_function rt b' \<and> next_bb b \<le> next_bb b' \<and>
      loop_controls b' = loop_controls b
    else isl (walk_if_conds (map walk_expr es) bbs b)"
  using assms
proof (induction es arbitrary: bbs b)
  case Nil
  then show ?case by simp
next
  case (Cons e es)
  obtain c d bbs' where bbs: "bbs = (c, d) # bbs'" using Cons.prems(2) by (cases bbs) auto
  note cond = walks_condition [OF walks_expr [of e] in_function_ready [OF Cons.prems(1)]]
  show ?case
  proof (cases "is_cond e")
    case False
    then obtain x where "walk_condition (walk_expr e) b = Inl x" using cond by (auto simp: is_cond_def isl_def)
    then show ?thesis using False bbs by simp
  next
    case True
    then obtain v b1 lt where b1: "walk_condition (walk_expr e) b = Inr (v, b1)" "walk_expr e b = Inr ((v, lt), b1)"
      using cond by (auto simp: is_cond_def)
    note u = walk_unused [OF grows_walk_expr b1(2) in_function_ready [OF Cons.prems(1)]]
    let ?b2 = "placed c (emitted (CondBr v d c) b1)"
    have "in_function rt b1" by (rule walk_in_function [OF grows_walk_expr b1(2) Cons.prems(1)])
    then have "in_function rt ?b2" "\<forall>(c, d)\<in>set bbs'. c < next_bb ?b2" using u(2) Cons.prems(3) bbs by fastforce+
    moreover have "walk_if_conds (map walk_expr (e # es)) bbs b = walk_if_conds (map walk_expr es) bbs' ?b2"
      using b1 u(1) bbs by simp
    ultimately show ?thesis using Cons.IH [of ?b2 bbs'] Cons.prems(2) True u(2,4) bbs by (auto split: if_splits)
  qed
qed

lemma bodies_ok:
  assumes "in_function rt b" "length ms = length bbs" "\<forall>d\<in>set bbs. d < next_bb b" "length oks = length ms"
    "\<forall>i<length ms. compiles rt (ms ! i) (oks ! i)"
  shows "if list_all (\<lambda>ok. ok (loop_controls b \<noteq> [])) oks
    then \<exists>b'. walk_if_bodies ms bbs out b = Inr ((), b') \<and> in_function rt b' \<and> next_bb b \<le> next_bb b'
    else isl (walk_if_bodies ms bbs out b)"
  using assms
proof (induction ms arbitrary: bbs oks b)
  case Nil
  then show ?case by simp
next
  case (Cons m ms)
  obtain d bbs' where bbs: "bbs = d # bbs'" using Cons.prems(2) by (cases bbs) auto
  obtain ok oks' where oks: "oks = ok # oks'" using Cons.prems(4) by (cases oks) auto
  have m: "compiles rt m ok" using Cons.prems(5) oks by force
  have ms: "\<forall>i<length ms. compiles rt (ms ! i) (oks' ! i)" using Cons.prems(5) oks by force
  have d: "in_function rt (placed d b)" using Cons.prems(1,3) bbs by simp
  have fn: "curr_fn b \<noteq> None" using Cons.prems(1) by (intro ready_curr) simp
  show ?case
  proof (cases "ok (loop_controls b \<noteq> [])")
    case False
    then show ?thesis using compiles_Inl [OF m d] fn bbs oks by auto
  next
    case True
    then obtain b1 where b1: "m (placed d b) = Inr ((), b1)" "in_function rt b1" "next_bb b \<le> next_bb b1" "loop_controls b1 = loop_controls b"
      using compiles_Inr [OF m d] by auto
    have "\<forall>d\<in>set bbs'. d < next_bb (emitted (Br out) b1)" using Cons.prems(3) bbs b1(3) by fastforce
    moreover have "walk_if_bodies (m # ms) bbs out b = walk_if_bodies ms bbs' out (emitted (Br out) b1)"
      using b1(1) fn bbs by simp
    ultimately show ?thesis
      using Cons.IH [of "emitted (Br out) b1" bbs' oks'] Cons.prems(2,4) ms True b1(2,3,4) bbs oks by (auto split: if_splits)
  qed
qed

lemma act_assoc: "act (act m f) g = act m (\<lambda>x. act (f x) g)"
  by (auto simp: fun_eq_iff act_def split: sum.splits prod.splits)

lemma walk_if_common2_run:
  fixes rest :: "('i, 'v, unit) build option"
  assumes "curr_fn b \<noteq> None" "length ss = length ms"
  defines "bbs \<equiv> if_bbs (Suc (next_bb b)) (length ms)"
  defines "restbb \<equiv> (if rest = None then next_bb b else Suc (next_bb b) + 2 * length ms)"
  shows "walk_if_common2 ms ss rest b =
    act (walk_if_conds ms bbs) (\<lambda>_. act (emit (Br restbb)) (\<lambda>_.
    act (walk_if_bodies (arms ss rest) (arms (map snd bbs) (map_option (\<lambda>_. restbb) rest)) (next_bb b)) (\<lambda>_. place (next_bb b))))
      ((new_bb ^^ (if rest = None then 2 * length ms else Suc (2 * length ms))) (new_bb b))"
proof (cases rest)
  case None
  then show ?thesis
    using assms(1,2) by (simp add: walk_if_common2_def gen_if_bbs_run bbs_def restbb_def arms_def act_ret)
next
  case (Some s)
  have "act (walk_if_bodies ss (map snd bbs) out) (\<lambda>_. act (walk_if_bodies [s] [restbb] out) f) =
      act (walk_if_bodies (ss @ [s]) (map snd bbs @ [restbb]) out) f" for out and f :: "unit \<Rightarrow> ('i, 'v, unit) build"
    using assms(2) by (simp add: walk_if_bodies_append act_assoc bbs_def del: walk_if_bodies.simps)
  then show ?thesis
    using Some assms(1,2) by (simp add: walk_if_common2_def gen_if_bbs_run bbs_def restbb_def arms_def del: walk_if_bodies.simps)
qed

lemma compiles_if:
  assumes es: "length ss = length es" "\<forall>c\<in>set (arms ss rest). structured c"
    and arms_ok: "\<forall>c\<in>set (arms ss rest). compiles rt (walk_stack c) (ok_stmt rt c)"
    and g: "grows (walk_if_common2 (map walk_expr es) (map walk_stack ss) (map_option walk_stack rest))"
  shows "compiles rt (walk_if_common2 (map walk_expr es) (map walk_stack ss) (map_option walk_stack rest))
      (\<lambda>inloop. list_all is_cond es \<and> list_all (\<lambda>c. ok_stmt rt c inloop) (arms ss rest))"
proof (rule compilesI [OF g])
  fix b :: "('a, 'b) builder" assume b: "in_function rt b"
  let ?n = "length es" and ?out = "next_bb b" and ?l = "loop_controls b \<noteq> []"
  let ?bbs = "if_bbs (Suc ?out) ?n"
  let ?restbb = "if rest = None then ?out else Suc ?out + 2 * ?n"
  let ?ds = "arms (map snd ?bbs) (map_option (\<lambda>_. ?restbb) rest)"
  let ?b2 = "(new_bb ^^ (if rest = None then 2 * ?n else Suc (2 * ?n))) (new_bb b)"
  have fn: "curr_fn b \<noteq> None" using b by (intro ready_curr) simp
  have run: "walk_if_common2 (map walk_expr es) (map walk_stack ss) (map_option walk_stack rest) b =
      act (walk_if_conds (map walk_expr es) ?bbs) (\<lambda>_. act (emit (Br ?restbb)) (\<lambda>_.
      act (walk_if_bodies (map walk_stack (arms ss rest)) ?ds ?out) (\<lambda>_. place ?out))) ?b2"
    using walk_if_common2_run [OF fn, of "map walk_stack ss" "map walk_expr es" "map_option walk_stack rest"] es(1)
    by (simp only: length_map arms_map map_option_is_None option.map_comp comp_def)
  have b2: "in_function rt ?b2"
  proof -
    have "in_function rt ((new_bb ^^ k) (new_bb b))" for k by (induction k) (use b in simp_all)
    then show ?thesis .
  qed
  have mem: "\<forall>(c, d)\<in>set ?bbs. c < next_bb ?b2 \<and> d < next_bb ?b2" using if_bbs_mem by fastforce
  then have cb: "\<forall>(c, d)\<in>set ?bbs. c < next_bb ?b2" by fastforce
  note conds = conds_ok [OF b2 _ cb, of es]
  show "if list_all is_cond es \<and> list_all (\<lambda>c. ok_stmt rt c ?l) (arms ss rest)
      then \<exists>b'. walk_if_common2 (map walk_expr es) (map walk_stack ss) (map_option walk_stack rest) b = Inr ((), b')
      else isl (walk_if_common2 (map walk_expr es) (map walk_stack ss) (map_option walk_stack rest) b)"
  proof (cases "list_all is_cond es")
    case False
    then obtain x where "walk_if_conds (map walk_expr es) ?bbs ?b2 = Inl x" using conds by (auto simp: isl_def)
    then show ?thesis using False unfolding run by simp
  next
    case True
    then obtain b3 where b3: "walk_if_conds (map walk_expr es) ?bbs ?b2 = Inr ((), b3)" "in_function rt b3"
      "next_bb ?b2 \<le> next_bb b3" "loop_controls b3 = loop_controls b" using conds by auto
    let ?b4 = "emitted (Br ?restbb) b3"
    have b4: "in_function rt ?b4" using b3(2) by simp
    have dsb: "\<forall>d\<in>set ?ds. d < next_bb ?b4"
    proof
      fix d assume "d \<in> set ?ds"
      then have "d < next_bb ?b2" using mem by (cases rest) (auto simp: set_arms)
      then show "d < next_bb ?b4" using b3(3) by simp
    qed
    have "\<forall>i<length (map walk_stack (arms ss rest)).
        compiles rt (map walk_stack (arms ss rest) ! i) (map (ok_stmt rt) (arms ss rest) ! i)"
      using arms_ok by (metis length_map nth_map nth_mem)
    from bodies_ok [OF b4 _ dsb _ this, of ?out] es(1)
    have bodies: "if list_all (\<lambda>c. ok_stmt rt c ?l) (arms ss rest)
      then \<exists>b'. walk_if_bodies (map walk_stack (arms ss rest)) ?ds ?out ?b4 = Inr ((), b') \<and> in_function rt b' \<and> next_bb ?b4 \<le> next_bb b'
      else isl (walk_if_bodies (map walk_stack (arms ss rest)) ?ds ?out ?b4)"
      using b3(4) by (simp add: list.pred_map comp_def del: walk_if_bodies.simps)
    show ?thesis
    proof (cases "list_all (\<lambda>c. ok_stmt rt c ?l) (arms ss rest)")
      case ok: True
      then obtain b6 where b6: "walk_if_bodies (map walk_stack (arms ss rest)) ?ds ?out ?b4 = Inr ((), b6)" "in_function rt b6"
        using bodies by auto
      then have "curr_fn b6 \<noteq> None" by (intro ready_curr) simp
      then show ?thesis using True ok b3(1) b6(1) unfolding run by simp
    next
      case False
      then obtain x where "walk_if_bodies (map walk_stack (arms ss rest)) ?ds ?out ?b4 = Inl x" using bodies by (auto simp: isl_def)
      then show ?thesis using False b3(1) unfolding run by simp
    qed
  qed
qed

text \<open>A statement without labels and inner functions compiles exactly when it is well typed.\<close>

theorem compiles_stmt: "structured c \<Longrightarrow> compiles rt (walk_stack c) (ok_stmt rt c)"
proof (induction c)
  case (S_Plain xs)
  show ?case using compiles_simple(1) [of rt xs] by (simp add: fun_eq_iff del: walk_stack.simps)
next
  case (S_Assign e i)
  show ?case using compiles_simple(2) [of rt e i] by (simp del: walk_stack.simps)
next
  case (S_List cs)
  have "compiles rt (walk_stmtlist (map walk_stack cs)) (\<lambda>l. list_all (\<lambda>ok. ok l) (map (ok_stmt rt) cs))"
    using S_List by (induction cs) (auto simp del: walk_stmtlist.simps simp: compiles_list)
  then show ?case by simp
next
  case (S_Loop c)
  then show ?case using compiles_loop [of rt "walk_stack c" "ok_stmt rt c"] by simp
next
  case (S_While e c)
  then show ?case
    using compiles_while [of rt "walk_stack c" "ok_stmt rt c" "walk_expr e" "expr_type e"] walks_expr [of e] grows_walk_expr [of e]
    by (simp add: is_cond_def)
next
  case (S_For pre l lo hi i c)
  then show ?case using compiles_for [of rt "walk_stack c" "ok_stmt rt c"] by simp
next
  case (S_If es ss rest)
  have ok: "compiles rt (walk_stack c) (ok_stmt rt c)" "structured c" if "c \<in> set (arms ss rest)" for c
    using S_If that by (auto simp: set_arms list_all_iff pred_option_def)
  have "ok_stmt rt (S_If es ss rest) = (\<lambda>l. list_all is_cond es \<and> list_all (\<lambda>c. ok_stmt rt c l) (arms ss rest))"
    by (auto simp: fun_eq_iff list.pred_map comp_def arms_def split: option.splits)
  moreover have "grows (walk_stack (S_If es ss rest))" by (rule grows_walk_stack [OF S_If.prems])
  ultimately show ?case
    using compiles_if [of ss es rest rt] ok S_If.prems by simp
next
  case (S_Ret e)
  show ?case using compiles_ret [of rt e] by simp
next
  case S_Break
  have ok: "ok_stmt rt S_Break = (\<lambda>inloop. inloop)" by (simp add: fun_eq_iff)
  show ?case unfolding walk_stack.simps ok by (rule compiles_simple(3))
next
  case S_Continue
  have ok: "ok_stmt rt S_Continue = (\<lambda>inloop. inloop)" by (simp add: fun_eq_iff)
  show ?case unfolding walk_stack.simps ok by (rule compiles_simple(4))
qed simp_all

subsection \<open>Whether there is a \<open>return\<close>\<close>

primrec has_ret :: "('i, 'v) stmt \<Rightarrow> bool" where
  "has_ret (S_Plain is) = False"
| "has_ret (S_Assign e i) = False"
| "has_ret (S_List ss) = list_ex id (map has_ret ss)"
| "has_ret (S_Loop s) = has_ret s"
| "has_ret (S_While e s) = has_ret s"
| "has_ret (S_For pre l lo hi i s) = has_ret s"
| "has_ret (S_If es ss rest) = (list_ex id (map has_ret ss) \<or> \<not> pred_option Not (map_option has_ret rest))"
| "has_ret S_Break = False"
| "has_ret S_Continue = False"
| "has_ret (S_Ret e) = True"
| "has_ret (S_Label name) = False"
| "has_ret (S_Goto name) = False"
| "has_ret (S_Fn rt s) = False"

text \<open>From a builder in a function to one in it; the flag \<open>with_ret_value\<close> is set when \<open>h\<close>, and else kept.\<close>

definition flags :: "('i, 'v, 'a) build \<Rightarrow> bool \<Rightarrow> bool" where
  "flags m h \<longleftrightarrow>
     (\<forall>b x b'. m b = Inr (x, b') \<longrightarrow> curr_fn b \<noteq> None \<longrightarrow>
        curr_fn b' \<noteq> None \<and> (with_ret_value b' \<longleftrightarrow> with_ret_value b \<or> h))"

lemma flags_act: "flags m h1 \<Longrightarrow> (\<And>x. flags (f x) h2) \<Longrightarrow> flags (act m f) (h1 \<or> h2)"
  unfolding flags_def act_Inr_iff by metis

lemma flags_act_False:
  "flags m False \<Longrightarrow> (\<And>x. flags (f x) h) \<Longrightarrow> flags (act m f) h"
  using flags_act [of m False f h] by simp

lemma flags_modifies:
  "(\<And>b. curr_fn (g b) = curr_fn b \<and> with_ret_value (g b) = with_ret_value b) \<Longrightarrow> flags (modifies g) False"
  by (simp add: flags_def)

lemma flags_simple:
  "flags (ret x) False" "flags (fail e) h" "flags (reads f) False" "flags (lift_result r) False"
  by (auto simp: flags_def lift_result_Inr_iff)

lemma flags_emit: "flags (emit i) False" "flags (emits xs) False" "flags (set_insert_point n) False"
  unfolding emit_def emits_def set_insert_point_def by (rule flags_modifies; simp)+

lemma flags_gen:
  "flags gen_bb False" "flags (place n) False" "flags gen_placed_bb False" "flags gen_reg False" "flags (gen_value v) False"
  "flags (gen_entry_block_var d) False" "flags curr_fn_node False" "flags current_loop False"
  by (auto simp: flags_def gen_bb_def place_def gen_placed_bb_def gen_reg_def gen_value_def gen_entry_block_var_def
      curr_fn_node_def current_loop_def set_insert_point_def emit_def act_Inr_iff split: option.splits list.splits)

lemma flags_if: "(c \<Longrightarrow> flags m h) \<Longrightarrow> (\<not> c \<Longrightarrow> flags m' h) \<Longrightarrow> flags (if c then m else m') h"
  by simp

lemma flags_prod: "(\<And>x y. flags (f x y) h) \<Longrightarrow> flags (case p of (x, y) \<Rightarrow> f x y) h"
  by (cases p) simp

lemma flags_in_fn: "flags m h \<Longrightarrow> flags (in_fn m) h"
  by (auto simp: flags_def in_fn_def act_Inr_iff split: if_splits)

lemma flags_in_loop: "flags m h \<Longrightarrow> flags (in_loop c d m) h"
  by (fastforce simp: flags_def in_loop_def act_Inr_iff)

lemma flags_condition: "flags m False \<Longrightarrow> flags (walk_condition m) False"
  unfolding walk_condition_def by (rule flags_act_False flags_prod flags_if flags_simple | assumption)+

lemmas flag_rules = flags_in_fn flags_act_False flags_simple flags_emit flags_gen flags_prod flags_condition

lemma flags_expr: "flags (walk_expr e) False"
proof (induction e)
  case (E_Plain xs v ty)
  show ?case unfolding walk_expr.simps by (rule flag_rules)+
next
  case (E_Land e1 e2)
  show ?case unfolding walk_expr.simps walk_expr_landor_def by (rule E_Land.IH flag_rules)+
next
  case (E_Lor e1 e2)
  show ?case unfolding walk_expr.simps walk_expr_landor_def by (rule E_Lor.IH flag_rules)+
next
  case (E_Ife e e1 e2)
  show ?case unfolding walk_expr.simps walk_if_common_def by (rule E_Ife.IH flags_if flag_rules)+
qed

lemma flags_if_bbs: "flags (gen_if_bbs n) False"
proof (induction n)
  case (Suc n)
  show ?case unfolding gen_if_bbs.simps by (rule flag_rules Suc.IH)+
qed (simp add: flags_simple del: action_simps)

lemma flags_if_conds: "\<forall>m\<in>set ms. flags m False \<Longrightarrow> flags (walk_if_conds ms bbs) False"
proof (induction ms bbs rule: walk_if_conds.induct)
  case (1 m ms c d bbs)
  then have "flags m False" "flags (walk_if_conds ms bbs) False" by simp_all
  then show ?case unfolding walk_if_conds.simps by - (rule flag_rules | assumption)+
qed (simp_all only: walk_if_conds.simps flags_simple)

lemma flags_if_bodies:
  "length ms = length bbs \<Longrightarrow> list_all2 flags ms hs \<Longrightarrow> flags (walk_if_bodies ms bbs out) (list_ex id hs)"
proof (induction ms bbs arbitrary: hs rule: list_induct2)
  case (Cons m ms d bbs)
  then obtain h hs' where hs: "hs = h # hs'" "flags m h" "list_all2 flags ms hs'" by (auto simp: list_all2_Cons1)
  have "flags (walk_if_bodies (m # ms) (d # bbs) out) (h \<or> list_ex id hs')"
    unfolding walk_if_bodies.simps
    by (rule flags_act_False [OF flags_gen(2)], rule flags_act [OF hs(2)], rule flags_act_False [OF flags_emit(1)], rule Cons.IH [OF hs(3)])
  then show ?case by (simp add: hs(1) list_ex_iff del: walk_if_bodies.simps)
qed (simp add: flags_simple del: action_simps)

lemma flags_act_first: "flags m h \<Longrightarrow> (\<And>x. flags (f x) False) \<Longrightarrow> flags (act m f) h"
  using flags_act [of m h f False] by simp

lemma flags_loops:
  assumes m: "flags m h"
  shows "flags (walk_loop m) h" "flags (walk_while (walk_expr e) m) h" "flags (walk_for pre l lo hi ci m) h"
proof -
  have in_loop: "flags (act (in_loop c d m) f) h" if "\<And>x. flags (f x) False" for c d and f :: "unit \<Rightarrow> ('a, 'b, unit) build"
    by (rule flags_act_first [OF flags_in_loop [OF m] that])
  have bounds: "flags (for_bounds l lo hi) False"
    unfolding for_bounds_def by (cases l; simp only: for_list.case) (rule flag_rules)+
  show "flags (walk_loop m) h" unfolding walk_loop_def by (rule in_loop flag_rules)+
  show "flags (walk_while (walk_expr e) m) h" unfolding walk_while_def by (rule in_loop flags_expr flag_rules)+
  show "flags (walk_for pre l lo hi ci m) h" unfolding walk_for_def by (rule in_loop bounds flag_rules)+
qed

lemma flags_ret: "flags (walk_ret (map_option walk_expr e)) True"
proof -
  have set_flag: "flags (modifies (with_ret_value_update (\<lambda>_. True))) True" by (simp add: flags_def)
  have store: "flags (case map_option walk_expr e of
      Some e \<Rightarrow> act e (\<lambda>(v, ty, lt). if snd (ret_type n) \<noteq> lt then fail x
        else (case retslot n of None \<Rightarrow> fail y | Some n \<Rightarrow> emit (Slot_Store n v)))
    | None \<Rightarrow> if snd (ret_type n) \<noteq> LT_Void then fail z else ret ()) False" for n x y z
    by (cases e; cases "retslot n"; simp only: option.map option.case) (rule flags_expr flags_if flag_rules)+
  show ?thesis unfolding walk_ret_def by (rule store set_flag flag_rules)+
qed

lemma flags_if_common2:
  assumes "length ss = length es" "\<forall>c\<in>set (arms ss rest). flags (walk_stack c) (has_ret c)"
  shows "flags (walk_if_common2 (map walk_expr es) (map walk_stack ss) (map_option walk_stack rest)) (\<exists>c\<in>set (arms ss rest). has_ret c)"
  unfolding flags_def
proof (intro allI impI)
  fix b x b'
  assume w: "walk_if_common2 (map walk_expr es) (map walk_stack ss) (map_option walk_stack rest) b = Inr (x, b')" "curr_fn b \<noteq> None"
  let ?h = "\<exists>c\<in>set (arms ss rest). has_ret c"
  have "list_all2 flags (map walk_stack (arms ss rest)) (map has_ret (arms ss rest))"
    using assms(2) by (auto simp: list_all2_conv_all_nth)
  moreover have "list_ex id (map has_ret (arms ss rest)) \<longleftrightarrow> ?h" by (auto simp: list_ex_iff)
  ultimately have bodies: "flags (walk_if_bodies (map walk_stack (arms ss rest)) ds out) ?h"
    if "length (arms ss rest) = length ds" for ds out
    using flags_if_bodies [of "map walk_stack (arms ss rest)" ds "map has_ret (arms ss rest)" out] that by simp
  have conds: "flags (walk_if_conds (map walk_expr es) bbs) False" for bbs
    by (rule flags_if_conds) (simp add: flags_expr)
  let ?restbb = "if rest = None then next_bb b else Suc (next_bb b) + 2 * length es"
  let ?bbs = "if_bbs (Suc (next_bb b)) (length es)"
  let ?m = "act (walk_if_conds (map walk_expr es) ?bbs) (\<lambda>_. act (emit (Br ?restbb)) (\<lambda>_.
      act (walk_if_bodies (map walk_stack (arms ss rest)) (arms (map snd ?bbs) (map_option (\<lambda>_. ?restbb) rest)) (next_bb b))
        (\<lambda>_. place (next_bb b))))"
  have len: "length (arms ss rest) = length (arms (map snd ?bbs) (map_option (\<lambda>_. ?restbb) rest))" using assms(1) by simp
  have m: "flags ?m ?h"
    by (rule flags_act_False [OF conds], rule flags_act_False [OF flags_emit(1)], rule flags_act_first [OF bodies [OF len] flags_gen(2)])
  have "?m ((new_bb ^^ (if rest = None then 2 * length es else Suc (2 * length es))) (new_bb b)) = Inr (x, b')"
    using walk_if_common2_run [OF w(2), of "map walk_stack ss" "map walk_expr es" "map_option walk_stack rest"] assms(1) w(1)
    by (simp only: length_map arms_map map_option_is_None option.map_comp comp_def)
  moreover have "with_ret_value ((new_bb ^^ k) (new_bb b)) = with_ret_value b" "curr_fn ((new_bb ^^ k) (new_bb b)) = curr_fn b" for k
    by (induction k) (simp_all add: new_bb_def)
  ultimately show "curr_fn b' \<noteq> None \<and> (with_ret_value b' \<longleftrightarrow> with_ret_value b \<or> ?h)"
    using m w(2) unfolding flags_def by metis
qed

lemma flags_stmt: "structured c \<Longrightarrow> flags (walk_stack c) (has_ret c)"
proof (induction c)
  case (S_List cs)
  have "flags (walk_stmtlist (map walk_stack cs)) (list_ex id (map has_ret cs))"
    using S_List by (induction cs) (auto intro!: flags_act flags_simple simp del: action_simps)
  then show ?case by simp
next
  case (S_If es ss rest)
  have "\<forall>c\<in>set (arms ss rest). flags (walk_stack c) (has_ret c)"
    using S_If by (auto simp: set_arms list_all_iff pred_option_def)
  moreover have "has_ret (S_If es ss rest) \<longleftrightarrow> (\<exists>c\<in>set (arms ss rest). has_ret c)"
    by (auto simp: set_arms list_ex_iff pred_option_def)
  ultimately show ?case using flags_if_common2 [of ss es rest] S_If.prems by simp
next
  case (S_Ret e)
  show ?case using flags_ret [of e] by simp
next
  case (S_Plain xs)
  show ?case unfolding walk_stack.simps has_ret.simps by (rule flag_rules)
next
  case (S_Assign e i)
  show ?case unfolding walk_stack.simps has_ret.simps by (rule flags_expr flag_rules)+
next
  case S_Break
  show ?case unfolding walk_stack.simps has_ret.simps walk_break_def by (rule flag_rules)+
next
  case S_Continue
  show ?case unfolding walk_stack.simps has_ret.simps walk_continue_def by (rule flag_rules)+
qed (simp_all add: flags_loops)

declare ready_curr [simp del]

end
