(* ===== verification/Control_Fn.thy ===== *)
theory Control_Fn
  imports Control_Ok
begin

section \<open>Whole functions\<close>

text \<open>
  The simulation for a function that is compiled into a builder: from its entry block, the code
  does what the body means and returns its value. Then what \<open>for\<close> does at the end of the range of
  its type, and the statements whose blocks are not those of the function around them.
\<close>

subsection \<open>The frame of a function\<close>

text \<open>The builder where the body starts.\<close>

definition fn_entry :: "tokenid \<times> LType \<Rightarrow> ('i, 'v) builder \<Rightarrow> ('i, 'v) builder" where
  "fn_entry rt b =
     b\<lparr>with_ret_value := False, next_fn := Suc (next_fn b),
       fns := (fns b)(next_fn b := \<lparr>fn_blocks = [Suc (next_bb b)], ret_type = rt, retbb = next_bb b,
         retslot = (if fst rt \<noteq> VOID then Some (next_slot b) else None)\<rparr>),
       curr_fn_stack := curr_fn b # curr_fn_stack b, curr_fn := Some (next_fn b),
       next_bb := Suc (Suc (next_bb b)), insert_bb := Suc (next_bb b),
       next_slot := (if fst rt \<noteq> VOID then Suc (next_slot b) else next_slot b)\<rparr>"

lemma walk_fn_define_entry:
  fixes m :: "('i, 'v, unit) build"
  shows "walk_fn_define rt m b =
     act m (\<lambda>_. act (emit (Br (next_bb b))) (\<lambda>_. act (place (next_bb b)) (\<lambda>_.
       act generate_final_return (\<lambda>_. leave_fn (insert_bb b))))) (fn_entry rt b)"
proof -
  have eq: "s = t \<Longrightarrow> act m f s = act m f t" for f :: "unit \<Rightarrow> ('i, 'v, unit) build" and s t by simp
  show ?thesis
    by (simp add: walk_fn_define_def new_fn_def fn_entry_def set_retbb_def set_retslot_def placed_def new_bb_def
        new_slot_def add_block_def)
      (intro conjI impI eq builder.equality; simp)
qed

lemma fn_entry_fields [simp]:
  "bb_code (fn_entry rt b) = bb_code b" "insert_bb (fn_entry rt b) = Suc (next_bb b)"
  "next_bb (fn_entry rt b) = Suc (Suc (next_bb b))" "loop_controls (fn_entry rt b) = loop_controls b"
  "curr_fn (fn_entry rt b) = Some (next_fn b)" "main_fn (fn_entry rt b) = main_fn b"
  "retbb (node (fn_entry rt b)) = next_bb b" "ret_type (node (fn_entry rt b)) = rt"
  "retslot (node (fn_entry rt b)) = (if fst rt \<noteq> VOID then Some (next_slot b) else None)"
  by (simp_all add: fn_entry_def node_def)

lemma fn_entry_ready: "\<forall>n\<ge>next_bb b. bb_code b n = [] \<Longrightarrow> ready (fn_entry rt b)"
  by (auto simp: ready_def) (simp add: fn_entry_def)

lemma leave_fn_code: "leave_fn n b = Inr (x, b') \<Longrightarrow> bb_code b' = bb_code b"
  by (auto simp: leave_fn_def act_Inr_iff split: if_splits)

text \<open>The return block, for a file with its own \<open>main\<close>.\<close>

definition final_return :: "tokenid \<Rightarrow> nat option \<Rightarrow> ('i, 'v) builder \<Rightarrow> ('i, 'v) builder" where
  "final_return t slot b =
     (if t = VOID then emitted Ret_Void b
      else emitted (Ret_Value (Reg (next_reg b))) (emitted (Slot_Load (next_reg b) (the slot)) (new_reg b)))"

lemma generate_final_return_Inr:
  assumes "generate_final_return b = Inr (x, b')" "curr_fn b \<noteq> None" "main_fn b = None"
  shows "b' = final_return (fst (ret_type (node b))) (retslot (node b)) b"
    "fst (ret_type (node b)) \<noteq> VOID \<Longrightarrow> retslot (node b) \<noteq> None \<and> with_ret_value b"
  using assms by (auto simp: generate_final_return_def act_Inr_iff final_return_def split: if_splits option.splits)

lemma walk_fn_define_Inr:
  assumes w: "walk_fn_define rt m b = Inr (x, b')" and e: "\<forall>n\<ge>next_bb b. bb_code b n = []"
    and main: "main_fn b = None" and m: "grows m"
  obtains b1 where "m (fn_entry rt b) = Inr ((), b1)" "ready b1"
    "bb_code b' = bb_code (final_return (fst rt) (Some (next_slot b)) (placed (next_bb b) (emitted (Br (next_bb b)) b1)))"
proof -
  note r0 = fn_entry_ready [OF e, of rt]
  obtain b1 where b1: "m (fn_entry rt b) = Inr ((), b1)"
    using w by (auto simp: walk_fn_define_entry act_Inr_iff)
  note g = growsD [OF m b1 r0]
  have fn: "curr_fn b1 \<noteq> None" using g by (simp add: ready_def)
  let ?b2 = "placed (next_bb b) (emitted (Br (next_bb b)) b1)"
  obtain b3 where b3: "generate_final_return ?b2 = Inr ((), b3)" "leave_fn (insert_bb b) b3 = Inr (x, b')"
    using w b1 fn by (auto simp: walk_fn_define_entry act_Inr_iff)
  note code = leave_fn_code [OF b3(2)]
  have same: "ret_type (node b1) = rt" "retslot (node b1) = (if fst rt \<noteq> VOID then Some (next_slot b) else None)"
  proof -
    have "ret_type (node b1) = ret_type (node (fn_entry rt b))" "retslot (node b1) = retslot (node (fn_entry rt b))"
      using g by (simp_all add: grown_def node_def)
    then show "ret_type (node b1) = rt" "retslot (node b1) = (if fst rt \<noteq> VOID then Some (next_slot b) else None)" by simp_all
  qed
  have node: "ret_type (node ?b2) = rt" "retslot (node ?b2) = (if fst rt \<noteq> VOID then Some (next_slot b) else None)"
    "main_fn ?b2 = None"
    using same main g by (simp_all add: grown_def)
  have "b3 = final_return (fst rt) (Some (next_slot b)) ?b2"
    using generate_final_return_Inr(1) [OF b3(1)] fn node by (auto simp: final_return_def)
  then show thesis using that b1 code g by simp
qed

subsection \<open>A function returns what its body means\<close>

context llvm_machine
begin

lemma sim_function:
  assumes w: "walk_fn_define rt (walk_stack c) b = Inr ((), b')"
    and c: "structured c" "fors_fit S c"
    and b: "main_fn b = None" "\<forall>n\<ge>next_bb b. bb_code b n = []"
    and run: "big_step S c s r s'" "r = Returns v \<or> r = Normal \<and> v = None" "v = None \<longleftrightarrow> fst rt = VOID"
    and x: "at_bb x = Suc (next_bb b)" "pc x = 0" "store x = s"
  shows "\<exists>y. (step (bb_code b'))\<^sup>*\<^sup>* x y \<and> store y = s' \<and>
      (case v of
         None \<Rightarrow> fetch (bb_code b') y = Some Ret_Void
       | Some k \<Rightarrow> \<exists>a. fetch (bb_code b') y = Some (Ret_Value a) \<and> operand_value y a = k)"
proof -
  let ?C = "bb_code b'" and ?b0 = "fn_entry rt b" and ?n = "next_bb b"
  obtain b1 where b1: "walk_stack c ?b0 = Inr ((), b1)" "ready b1"
    and code: "?C = bb_code (final_return (fst rt) (Some (next_slot b)) (placed ?n (emitted (Br ?n) b1)))"
    by (rule walk_fn_define_Inr [OF w b(2,1) grows_walk_stack [OF c(1)]])
  let ?b2 = "placed ?n (emitted (Br ?n) b1)"
  note r0 = fn_entry_ready [OF b(2), of rt]
  note u = walk_unused [OF grows_walk_stack [OF c(1)] b1(1) r0]
  have carr: "carries ?C (final_return (fst rt) (Some (next_slot b)) ?b2)" using code by (simp add: carries_def)
  then have c2: "carries ?C (emitted (Br ?n) b1)"
    by (cases "fst rt = VOID") (auto simp: final_return_def dest!: carries_emitted)
  have at0: "at_end ?b0 x" using x b(2) by (simp add: at_end_def)
  have sim: "stmt_sim step ?C (walk_stack c) at_end s r s'"
    by (rule stmt_sim_starts [OF simulation(1) [OF run(1) c]])
  obtain y where y: "(step ?C)\<^sup>*\<^sup>* x y" "store y = s'" "agree ?b0 x y" "arrives ?b0 b1 r y"
    by (rule stmt_simD [where starts = at_end, OF sim b1(1) r0 carries_emitted [OF c2] at0 x(3)])
  have un: "unused ?n b1" using u(3) b(2) by (simp add: unused_def)
  \<comment> \<open>In the return block, with the value in its slot.\<close>
  obtain z where z: "(step ?C)\<^sup>*\<^sup>* x z" "store z = s'" "at_end ?b2 z" "\<forall>k. v = Some k \<longrightarrow> slots z (next_slot b) = Some k"
  proof (cases "r = Normal")
    case True
    then have "step ?C y (jump ?n y)" using y(4) by (intro br fetch_emitted [OF c2]) simp
    moreover have "at_end ?b2 (jump ?n y)" using un by (simp add: at_end_def unused_def)
    ultimately show thesis using that [of "jump ?n y"] steps_into [OF y(1)] y(2) run(2) True by auto
  next
    case False
    then have "at_end ?b2 y" using run(2) y(4) un by (auto simp: at_end_def unused_def)
    then show thesis using that [OF y(1,2)] y(4) run(2) False by (auto split: if_splits)
  qed
  show ?thesis
  proof (cases v)
    case None
    then have "carries ?C (emitted Ret_Void ?b2)" using carr run(3) by (simp add: final_return_def)
    then show ?thesis using z fetch_emitted None by (intro exI [of _ z]) simp
  next
    case (Some k)
    let ?q = "next_reg ?b2"
    have c4: "carries ?C (emitted (Ret_Value (Reg ?q)) (emitted (Slot_Load ?q (next_slot b)) (new_reg ?b2)))"
      using carr run(3) Some by (simp add: final_return_def)
    have "step ?C z (set_reg ?q k z)"
      by (rule slot_load [OF fetch_emitted [OF carries_emitted [OF c4]]]) (use z(3,4) Some in simp_all)
    then have "(step ?C)\<^sup>*\<^sup>* x (set_reg ?q k z)" by (rule steps_into [OF z(1)])
    moreover have "fetch ?C (set_reg ?q k z) = Some (Ret_Value (Reg ?q))"
      by (rule fetch_emitted [OF c4]) (use z(3) in simp)
    ultimately show ?thesis using z(2) Some by (intro exI [of _ "set_reg ?q k z"]) simp
  qed
qed

end


text \<open>A function that adds up \<open>0 .. 3\<close> with \<open>for\<close> and returns the sum; an item is added to the store.\<close>

definition example_sem :: "(unit, nat, nat) plain_sem" where
  "example_sem = \<lparr>run_plain = \<lambda>_ s. Some s, value_of = \<lambda>v s. if v = 9 then s else v, run_item = \<lambda>_ k s. Some (s + k)\<rparr>"

definition example_body :: "(unit, nat) stmt" where
  "example_body =
     S_List [S_For [] (For_Range U32 False) 0 3 () (S_If [E_Plain [] 1 (BOOL, LT_Int 1)] [S_Continue] None),
             S_Ret (Some (E_Plain [] 9 (U32, LT_Int 32)))]"

definition empty_builder :: "('i, 'v) builder" where
  "empty_builder =
     \<lparr>bb_code = \<lambda>_. [], insert_bb = 0, next_bb = 0, next_reg = 0, next_slot = 0, loop_controls = [], label_map = [],
      with_ret_value = False, fns = \<lambda>_. \<lparr>fn_blocks = [], ret_type = (VOID, LT_Void), retbb = 0, retslot = None\<rparr>,
      next_fn = 0, curr_fn = None, curr_fn_stack = [], main_fn = None, main_bb = 0\<rparr>"

definition example_fn :: "(unit, nat) builder" where
  "example_fn = snd (projr (walk_fn_define (U32, LT_Int 32) (walk_stack example_body) empty_builder))"

subsection \<open>Which functions compile\<close>

lemma compiles_iff:
  assumes "structured c" "main_fn b = None" "\<forall>n\<ge>next_bb b. bb_code b n = []"
  shows "(\<exists>b'. walk_fn_define rt (walk_stack c) b = Inr ((), b')) \<longleftrightarrow>
    ok_stmt rt c (loop_controls b \<noteq> []) \<and> (fst rt = VOID \<or> has_ret c)"
proof -
  let ?b0 = "fn_entry rt b" and ?n = "next_bb b"
  note r0 = fn_entry_ready [OF assms(3), of rt]
  have f0: "in_function rt ?b0" using r0 by (simp add: in_function_def)
  note comp = compiles_stmt [OF assms(1), of rt]
  show ?thesis
  proof (cases "ok_stmt rt c (loop_controls b \<noteq> [])")
    case False
    then obtain e where "walk_stack c ?b0 = Inl e" using compiles_Inl [OF comp f0] by auto
    then show ?thesis using False by (simp add: walk_fn_define_entry)
  next
    case True
    then obtain b1 where b1: "walk_stack c ?b0 = Inr ((), b1)" "in_function rt b1" using compiles_Inr [OF comp f0] by auto
    have fn: "curr_fn b1 \<noteq> None" using b1(2) by (intro ready_curr) simp
    have main: "main_fn b1 = None" using growsD [OF grows_walk_stack [OF assms(1)] b1(1) r0] assms(2) by (simp add: grown_def)
    have "with_ret_value ?b0 = False" by (simp add: fn_entry_def)
    then have ret: "with_ret_value b1 = has_ret c" using flags_stmt [OF assms(1)] b1(1) unfolding flags_def by fastforce
    let ?b2 = "placed ?n (emitted (Br ?n) b1)"
    have more: "with_ret_value ?b2 = has_ret c" using ret by (simp add: builder_changes)
    have "(\<exists>b'. generate_final_return ?b2 = Inr ((), b')) \<longleftrightarrow> fst rt = VOID \<or> has_ret c"
      using fn main more b1(2)
      by (cases "retslot (node b1)"; cases "fst rt = VOID"; cases "has_ret c") (auto simp: generate_final_return_def in_function_def)
    moreover have "\<exists>b'. leave_fn s b3 = Inr ((), b')" for s b3 by (simp add: leave_fn_def act_def reads_def modifies_def)
    ultimately show ?thesis using True b1(1) fn by (auto simp: walk_fn_define_entry act_Inr_iff)
  qed
qed



lemma example_compiles: "walk_fn_define (U32, LT_Int 32) (walk_stack example_body) empty_builder = Inr ((), example_fn)"
  using compiles_iff [of example_body "empty_builder :: (unit, nat) builder" "(U32, LT_Int 32)"]
  by (auto simp: example_fn_def example_body_def empty_builder_def is_cond_def)

lemma example_run: "big_step example_sem example_body 0 (Returns (Some 3)) 3"
proof -
  let ?if = "S_If [E_Plain [] 1 (BOOL, LT_Int 1)] [S_Continue] None :: (unit, nat) stmt"
  have body: "big_step example_sem ?if s Continues s" for s
    by (rule big_step_big_items.If [of _ _ _ 0 s _ _ S_Continue])
      (auto simp: example_sem_def chosen_def intro: big_step_big_items.intros)
  have next_item: "big_items example_sem () ?if ks (s + k) Normal s' \<Longrightarrow> big_items example_sem () ?if (k # ks) s Normal s'" for k ks s s'
    by (rule big_step_big_items.Items_again [OF _ body]) (simp_all add: example_sem_def)
  have items: "big_items example_sem () ?if [0, 1, 2] 0 Normal 3"
    by (intro next_item) (simp add: numeral_3_eq_3 big_step_big_items.No_items)
  have "range_items U32 False 0 3 = [0, 1, 2]"
    by (simp add: range_items_def int_value_def catype_is_signed_def upto.simps)
  then have for_stmt: "big_step example_sem (S_For [] (For_Range U32 False) 0 3 () ?if) 0 Normal 3"
    using items by (intro big_step_big_items.For [of _ _ 0 0]) (simp_all add: example_sem_def)
  have ret_stmt: "big_step example_sem (S_List [S_Ret (Some (E_Plain [] 9 (U32, LT_Int 32)))]) 3 (Returns (Some 3)) 3"
    by (rule big_step_big_items.Cons_stop, rule big_step_big_items.Ret) (simp_all add: example_sem_def)
  show ?thesis
    unfolding example_body_def by (rule big_step_big_items.Cons [OF for_stmt ret_stmt])
qed

lemma example_fits: "fors_fit example_sem example_body"
  by (simp add: example_body_def for_fits_def example_sem_def)


end
