(* ===== verification/Control_Ends.thy ===== *)
theory Control_Ends
  imports Control_Fn
begin

section \<open>Loops that do not end, and code that leaves its function\<close>

text \<open>
  What the simulation leaves out: \<open>for\<close> over an inclusive range that ends at the largest value of
  its type, and the statements whose code goes to blocks of other functions, because the loops and
  labels of a function stay behind when the next one is compiled, and because a script always
  returns to the entry block of \<open>main\<close>.
\<close>

subsection \<open>An inclusive range up to the largest value\<close>

lemma path_prefix:
  assumes det: "\<forall>x y z. R x y \<longrightarrow> R x z \<longrightarrow> y = z" and n: "(R ^^ n) x y" and m: "(R ^^ (n + k)) x z"
  shows "(R ^^ k) y z"
proof -
  obtain y' where "(R ^^ n) x y'" "(R ^^ k) y' z" using m by (auto simp: relpowp_add relcompp_apply)
  moreover have "y' = y" if "(R ^^ n) x y'" for y' using n that
  proof (induction n arbitrary: y y')
    case (Suc n)
    then obtain u u' where "(R ^^ n) x u" "R u y" "(R ^^ n) x u'" "R u' y'" by auto
    then show ?case using Suc.IH det by blast
  qed simp
  ultimately show ?thesis by simp
qed

text \<open>A deterministic machine that comes back to \<open>I\<close> from each of its configurations never stops.\<close>

lemma never_stops:
  assumes det: "\<forall>x y z. R x y \<longrightarrow> R x z \<longrightarrow> y = z"
    and again: "\<forall>x\<in>I. \<exists>y\<in>I. R\<^sup>*\<^sup>* x y \<and> x \<noteq> y"
    and x: "x \<in> I" "R\<^sup>*\<^sup>* x y"
  shows "\<exists>z. R y z"
proof -
  obtain n where "(R ^^ n) x y" using x(2) by (auto simp: rtranclp_power)
  then show ?thesis using x(1)
  proof (induction n arbitrary: x rule: less_induct)
    case (less n)
    obtain x1 m where x1: "x1 \<in> I" "(R ^^ m) x x1" "x \<noteq> x1" using again less.prems(2) by (fastforce simp: rtranclp_power)
    then have "0 < m" by (cases m) auto
    show ?case
    proof (cases "n < m")
      case True
      then obtain k where k: "m = n + Suc k" using less_imp_Suc_add [of n m] by auto
      then have "(R ^^ Suc k) y x1" using path_prefix [OF det less.prems(1), where k = "Suc k" and z = x1] x1(2) by blast
      then show ?thesis by (metis relpowp_Suc_D2)
    next
      case False
      then have "(R ^^ (n - m)) x1 y" using path_prefix [OF det x1(2), where k = "n - m" and z = y] less.prems(1) by simp
      then show ?thesis using less.IH [of "n - m" x1] x1(1) \<open>0 < m\<close> False by simp
    qed
  qed
qed

text \<open>... also from before \<open>I\<close>.\<close>

lemma never_stops_from:
  assumes det: "\<forall>x y z. R x y \<longrightarrow> R x z \<longrightarrow> y = z"
    and again: "\<forall>x\<in>I. \<exists>y\<in>I. R\<^sup>*\<^sup>* x y \<and> x \<noteq> y"
    and x: "R\<^sup>*\<^sup>* x0 x" "x \<in> I" "R\<^sup>*\<^sup>* x0 y"
  shows "\<exists>z. R y z"
proof -
  obtain n m where nm: "(R ^^ n) x0 y" "(R ^^ m) x0 x" using x(1,3) by (auto simp: rtranclp_power)
  show ?thesis
  proof (cases "n < m")
    case True
    then obtain k where "m = n + Suc k" using less_imp_Suc_add [of n m] by auto
    then have "(R ^^ Suc k) y x" using path_prefix [OF det nm(1), where k = "Suc k" and z = x] nm(2) by blast
    then show ?thesis by (metis relpowp_Suc_D2)
  next
    case False
    then have "(R ^^ (n - m)) x y" using path_prefix [OF det nm(2), where k = "n - m" and z = y] nm(1) by simp
    then show ?thesis using never_stops [OF det again x(2)] by (auto simp: rtranclp_power)
  qed
qed

text \<open>The largest value of a type of \<open>w\<close> bits.\<close>

definition is_largest :: "tokenid \<Rightarrow> nat \<Rightarrow> bool" where
  "is_largest ty h \<longleftrightarrow>
     (let w = the (int_type_bits ty) in h < 2 ^ w \<and> (\<forall>n<2 ^ w. int_value ty w n \<le> int_value ty w h))"

text \<open>Claim C38: A \<open>for\<close> over an inclusive range that ends at the largest value of its type never ends:
  after that item the index wraps around and the comparison holds again. Whatever the items do (with
  a body that neither breaks nor returns), from where the statement starts the machine never stops,
  whatever it has reached.\<close>

theorem inclusive_for_never_ends:
  assumes "walk_for pre (For_Range ty True) lo hi ci (walk_stack c) b = Inr ((), b')" "ready b" "carries C b'"
    and "structured c" "fors_fit S c" "at_end b x" "run_plains S pre (store x) = Some s1"
    and "is_largest ty (value_of S hi s1)" "value_of S lo s1 < 2 ^ the (int_type_bits ty)"
    and "\<forall>s k. \<exists>s1 s2 r. run_item S ci k s = Some s1 \<and> big_step S c s1 r s2 \<and> r \<in> {Normal, Continues}"
    and "(llvm_step S C)\<^sup>*\<^sup>* x y"
  shows "\<exists>z. llvm_step S C y z"
proof -
  have g: "grows (walk_stack c)" by (rule grows_walk_stack [OF assms(4)])
  obtain p w idx ev b4 z where pw: "aux_create_compare_value_for (For_Range ty True) = Inr (p, w)"
    and f: "for_built b b' ci (walk_stack c) idx p w ev b4" and xz: "(llvm_step S C)\<^sup>*\<^sup>* x z" "store z = s1" "agree b x z"
    and z: "for_at idx ev b4 (fst (for_ends S (For_Range ty True) lo hi s1)) (snd (for_ends S (For_Range ty True) lo hi s1)) z"
    by (rule llvm.sim_for_entry [OF assms(1,2,3,6) g assms(7)])
  note r = range_test [OF pw]
  let ?h = "value_of S hi s1"
  let ?I = "{y. \<exists>k<2 ^ w. for_at idx ev b4 k ?h y}"
  have z_in: "z \<in> ?I" using z assms(9) r(2) by (auto simp: for_ends_def)
  have again: "\<exists>y'\<in>?I. (llvm_step S C)\<^sup>*\<^sup>* y y' \<and> y \<noteq> y'" if y_in: "y \<in> ?I" for y
  proof -
    obtain k where k: "k < 2 ^ w" "for_at idx ev b4 k ?h y" using y_in by blast
    then have test: "int_compare p w k ?h" using r(2,3) assms(8) by (simp add: is_largest_def Let_def)
    obtain t1 t2 rr where t: "run_item S ci k (store y) = Some t1" "big_step S c t1 rr t2" "rr \<in> {Normal, Continues}"
      using assms(10) by metis
    have body: "stmt_sim (llvm_step S) C (walk_stack c) at_end t1 rr t2"
      by (rule stmt_sim_starts [OF llvm.simulation(1) [OF t(2) assms(4,5)]])
    obtain y' where y': "(llvm_step S C)\<^sup>*\<^sup>* y y'" "for_at idx ev b4 ((k + 1) mod 2 ^ w) ?h y'"
      using llvm.sim_for_round [OF f g assms(3) k(2) test t(1) body] t(3) by blast
    have "(k + 1) mod 2 ^ w \<noteq> k"
    proof (cases "k + 1 = 2 ^ w")
      case True
      have "even (k + 1)" unfolding True using r(1) by simp
      then have "0 < k" by (cases k) auto
      then show ?thesis using True by simp
    next
      case False
      then show ?thesis using k(1) by simp
    qed
    then have "y \<noteq> y'" using k(2) y'(2) by (auto simp: for_at_def)
    then show ?thesis using y' by (intro bexI [of _ y']) (auto intro!: exI [of _ "(k + 1) mod 2 ^ w"])
  qed
  then have "\<forall>y\<in>?I. \<exists>y'\<in>?I. (llvm_step S C)\<^sup>*\<^sup>* y y' \<and> y \<noteq> y'" by blast
  moreover have "\<forall>x y z. llvm_step S C x y \<longrightarrow> llvm_step S C x z \<longrightarrow> y = z" using llvm_step_deterministic by blast
  ultimately show ?thesis by (intro never_stops_from [OF _ _ xz(1) z_in assms(11)])
qed

definition example_entry :: "(unit, nat) builder" where
  "example_entry = fn_entry (VOID, LT_Void) empty_builder"

theorem inclusive_for_never_ends_witness:
  "\<exists>b' z. walk_for [] (For_Range U8 True) 254 255 () (walk_stack (S_Plain [])) example_entry = Inr ((), b') \<and>
     llvm_step example_sem (bb_code b') \<lparr>from_bb = 0, at_bb = 1, pc = 0, regs = \<lambda>_. 0, slots = \<lambda>_. None, store = 0\<rparr> z"
proof -
  let ?x = "\<lparr>from_bb = 0, at_bb = 1, pc = 0, regs = \<lambda>_. 0, slots = \<lambda>_. None, store = 0\<rparr> :: nat config"
  have r: "ready example_entry" unfolding example_entry_def by (rule fn_entry_ready) (simp add: empty_builder_def)
  then have "in_function (VOID, LT_Void) example_entry" by (simp add: in_function_def example_entry_def)
  then obtain b' where b': "walk_for [] (For_Range U8 True) 254 255 () (walk_stack (S_Plain [])) example_entry = Inr ((), b')"
    using compiles_Inr [OF compiles_stmt [of "S_For [] (For_Range U8 True) 254 255 () (S_Plain [])" "(VOID, LT_Void)"]] by auto
  have "at_end example_entry ?x" by (simp add: at_end_def example_entry_def empty_builder_def)
  moreover have "is_largest U8 255"
    by (auto simp: is_largest_def int_value_def catype_is_signed_def)
  moreover have "big_step example_sem (S_Plain []) s Normal s" "run_item example_sem () k s = Some (s + k)" for s k
    by (auto simp: example_sem_def intro: big_step_big_items.Plain)
  then have "\<forall>s k. \<exists>s1 s2 r. run_item example_sem () k s = Some s1 \<and>
      big_step example_sem (S_Plain []) s1 r s2 \<and> r \<in> {Normal, Continues}"
    by blast
  ultimately have "\<exists>z. llvm_step example_sem (bb_code b') ?x z"
    by (intro inclusive_for_never_ends [OF b' r, of "bb_code b'" example_sem ?x 0 ?x])
      (simp_all add: carries_def example_sem_def)
  then show ?thesis using b' by blast
qed

end
