(* ===== verification/Control_Verify.thy ===== *)
theory Control_Verify
  imports Control_Fn
begin

section \<open>Every block ends in one terminator\<close>

text \<open>
  LLVM's verifier wants each block of a function to end in its only terminator and each branch to
  stay in the function; the generator makes blocks such as \<open>extra\<close> and \<open>afterret\<close> for this. Here
  the walkers are shown to keep it, with Hoare triples over the shape of the function being built.
\<close>

fun is_terminator :: "('i, 'v) instr \<Rightarrow> bool" where
  "is_terminator (Br n) = True"
| "is_terminator (CondBr a n m) = True"
| "is_terminator Ret_Void = True"
| "is_terminator (Ret_Value a) = True"
| "is_terminator _ = False"

fun targets :: "('i, 'v) instr \<Rightarrow> bb set" where
  "targets (Br n) = {n}"
| "targets (CondBr a n m) = {n, m}"
| "targets _ = {}"

definition terminated :: "('i, 'v) instr list \<Rightarrow> bool" where
  "terminated is \<longleftrightarrow> is \<noteq> [] \<and> is_terminator (last is) \<and> (\<forall>i\<in>set (butlast is). \<not> is_terminator i)"

lemma terminated_snoc [simp]: "terminated (is @ [i]) \<longleftrightarrow> is_terminator i \<and> (\<forall>i\<in>set is. \<not> is_terminator i)"
  by (auto simp: terminated_def)

text \<open>
  The code \<open>C\<close> of a function with the blocks \<open>bs\<close>, which are those from \<open>k\<close> on: the ones not in it
  are empty, the ones in it have their terminator but perhaps the block \<open>i\<close> to append to, which is
  \<open>sealed\<close> when it has, and branches go to \<open>bs\<close> or \<open>T\<close>.
\<close>

definition good_code :: "bb \<Rightarrow> bool \<Rightarrow> bb set \<Rightarrow> bb set \<Rightarrow> bb \<Rightarrow> ('i, 'v) code \<Rightarrow> bool" where
  "good_code k sealed T bs i C \<longleftrightarrow>
     (\<forall>n\<ge>k. n \<notin> bs \<longrightarrow> C n = []) \<and> (\<forall>n\<in>bs. n \<noteq> i \<longrightarrow> terminated (C n)) \<and>
     (if sealed then terminated (C i) else \<forall>j\<in>set (C i). \<not> is_terminator j) \<and>
     (\<forall>n\<in>bs. \<forall>j\<in>set (C n). targets j \<subseteq> bs \<union> T)"

lemma good_code_emit:
  assumes "good_code k False T bs i C" "i \<in> bs" "targets j \<subseteq> bs \<union> T"
  shows "good_code k (is_terminator j) T bs i (C(i := C i @ [j]))"
  using assms unfolding good_code_def by (cases "is_terminator j") simp_all

lemma good_code_place:
  assumes "good_code k True T bs i C" "n \<notin> bs" "k \<le> n"
  shows "good_code k False (T - {n}) (insert n bs) n C"
  unfolding good_code_def
proof (intro conjI allI ballI impI)
  have C: "C n = []" using assms by (simp add: good_code_def)
  show "C m = []" if "k \<le> m" "m \<notin> insert n bs" for m using assms(1) that by (simp add: good_code_def)
  show "terminated (C m)" if "m \<in> insert n bs" "m \<noteq> n" for m
    using assms(1) that by (cases "m = i") (simp_all add: good_code_def)
  show "if False then terminated (C n) else \<forall>j\<in>set (C n). \<not> is_terminator j" by (simp add: C)
  show "targets j \<subseteq> insert n bs \<union> (T - {n})" if "m \<in> insert n bs" "j \<in> set (C m)" for m j
  proof -
    have "m \<in> bs" using that C by auto
    then have "targets j \<subseteq> bs \<union> T" using assms(1) that(2) by (simp add: good_code_def)
    then show ?thesis by blast
  qed
qed

lemma good_code_mono: "good_code k s T bs i C \<Longrightarrow> T \<subseteq> bs \<union> T' \<Longrightarrow> good_code k s T' bs i C"
  unfolding good_code_def by (simp (no_asm_simp)) blast

text \<open>Where \<open>break\<close>, \<open>continue\<close> and \<open>return\<close> go.\<close>

definition exits :: "('i, 'v) builder \<Rightarrow> bb set" where
  "exits b = insert (retbb (node b)) (fst ` set (loop_controls b) \<union> snd ` set (loop_controls b))"

definition blocks :: "('i, 'v) builder \<Rightarrow> bb set" where
  "blocks b = set (fn_blocks (node b))"

text \<open>\<open>B\<close> are blocks in the function, \<open>U\<close> blocks made but not in it yet.\<close>

definition shape :: "bb \<Rightarrow> bool \<Rightarrow> bb set \<Rightarrow> bb set \<Rightarrow> bb set \<Rightarrow> ('i, 'v) builder \<Rightarrow> bool" where
  "shape k sealed B T U b \<longleftrightarrow>
     curr_fn b \<noteq> None \<and> insert_bb b \<in> blocks b \<and> B \<subseteq> blocks b \<and> U \<inter> blocks b = {} \<and>
     blocks b \<union> U \<union> T \<subseteq> {k..<next_bb b} \<and> exits b \<subseteq> blocks b \<union> T \<and>
     good_code k sealed T (blocks b) (insert_bb b) (bb_code b)"

lemma blocks_changes [simp]:
  "blocks (emitted i b) = blocks b" "blocks (new_bb b) = blocks b" "blocks (new_reg b) = blocks b"
  "blocks (new_slot b) = blocks b" "blocks (with_loops ls b) = blocks b" "blocks (placed n b) = insert n (blocks b)"
  "exits (emitted i b) = exits b" "exits (new_bb b) = exits b" "exits (new_reg b) = exits b"
  "exits (new_slot b) = exits b" "exits (placed n b) = exits b"
  by (simp_all add: blocks_def exits_def) (simp add: node_def placed_def add_block_def)

lemma shape_mono:
  assumes "shape k s B T U b" "B' \<subseteq> B" "U' \<subseteq> U" "T \<subseteq> T' \<union> B" "T' \<subseteq> T \<union> U \<union> B"
  shows "shape k s B' T' U' b"
proof -
  have "T \<subseteq> blocks b \<union> T'" using assms(1,4) by (auto simp: shape_def)
  then have "good_code k s T' (blocks b) (insert_bb b) (bb_code b)" "exits b \<subseteq> blocks b \<union> T'"
    using assms(1) good_code_mono by (auto simp: shape_def)
  moreover have "T' \<subseteq> {k..<next_bb b}" "U' \<subseteq> {k..<next_bb b}"
    using assms(1,2,3,5) unfolding shape_def by blast+
  ultimately show ?thesis using assms(1,2,3) unfolding shape_def by blast
qed

definition hoare :: "('s \<Rightarrow> bool) \<Rightarrow> ('s, 'a) action \<Rightarrow> ('a \<Rightarrow> 's \<Rightarrow> bool) \<Rightarrow> bool" where
  "hoare P m Q \<longleftrightarrow> (\<forall>s x s'. P s \<longrightarrow> m s = Inr (x, s') \<longrightarrow> Q x s')"

lemma hoareD: "hoare P m Q \<Longrightarrow> P s \<Longrightarrow> m s = Inr (x, s') \<Longrightarrow> Q x s'"
  unfolding hoare_def by blast

lemma hoare_act: "hoare P m Q \<Longrightarrow> (\<And>x. hoare (Q x) (f x) R) \<Longrightarrow> hoare P (act m f) R"
  unfolding hoare_def act_Inr_iff by blast

lemma hoare_weaken: "hoare P m Q \<Longrightarrow> (\<And>x s. Q x s \<Longrightarrow> R x s) \<Longrightarrow> hoare P m R"
  unfolding hoare_def by blast

lemma hoare_prod: "(\<And>x y. hoare P (f x y) Q) \<Longrightarrow> hoare P (case p of (x, y) \<Rightarrow> f x y) Q"
  by (cases p) simp

lemma hoare_if: "(c \<Longrightarrow> hoare P m Q) \<Longrightarrow> (\<not> c \<Longrightarrow> hoare P m' Q) \<Longrightarrow> hoare P (if c then m else m') Q"
  by simp

lemma hoare_simple:
  "hoare P (ret x) (\<lambda>_. P)" "hoare P (fail e) Q" "hoare P (reads g) (\<lambda>_. P)" "hoare P (lift_result r) (\<lambda>_. P)"
  by (auto simp: hoare_def lift_result_Inr_iff)

lemma shape_emit:
  assumes "shape k False B T U b" "targets i \<subseteq> B \<union> T"
  shows "shape k (is_terminator i) B T U (emitted i b)"
proof -
  have "targets i \<subseteq> blocks b \<union> T" using assms by (auto simp: shape_def)
  then have "good_code k (is_terminator i) T (blocks b) (insert_bb b) (bb_code (emitted i b))"
    using good_code_emit assms(1) by (auto simp: shape_def)
  then show ?thesis using assms(1) by (simp add: shape_def)
qed

lemma shape_place:
  assumes "shape k True B T U b" "n \<in> U"
  shows "shape k False (insert n B) (T - {n}) (U - {n}) (placed n b)"
proof -
  have n: "n \<notin> blocks b" "k \<le> n" using assms by (auto simp: shape_def)
  have "good_code k True T (blocks b) (insert_bb b) (bb_code b)" using assms(1) by (simp add: shape_def)
  from good_code_place [OF this n]
  have "good_code k False (T - {n}) (blocks (placed n b)) (insert_bb (placed n b)) (bb_code (placed n b))" by simp
  moreover have "exits b \<subseteq> insert n (blocks b) \<union> (T - {n})" using assms(1) by (auto simp: shape_def)
  ultimately show ?thesis using assms by (auto simp: shape_def)
qed

lemma shape_new_bb:
  assumes "shape k s B T U b"
  shows "shape k s B (insert (next_bb b) T) (insert (next_bb b) U) (new_bb b)"
    "next_bb b \<notin> B" "next_bb b \<notin> T" "next_bb b \<notin> U"
proof -
  have ge: "k \<le> next_bb b" and notin: "next_bb b \<notin> blocks b" using assms by (auto simp: shape_def)
  have "good_code k s (insert (next_bb b) T) (blocks b) (insert_bb b) (bb_code b)"
    by (rule good_code_mono [of k s T]) (use assms in \<open>auto simp: shape_def\<close>)
  then show "shape k s B (insert (next_bb b) T) (insert (next_bb b) U) (new_bb b)"
    using assms ge notin by (auto simp: shape_def)
qed (use assms in \<open>auto simp: shape_def\<close>)

lemma shape_others [simp]:
  "shape k s B T U (new_reg b) = shape k s B T U b" "shape k s B T U (new_slot b) = shape k s B T U b"
  by (simp_all add: shape_def)

lemma hoare_emit:
  "\<not> is_terminator i \<Longrightarrow> targets i = {} \<Longrightarrow> hoare (shape k False B T U) (emit i) (\<lambda>_. shape k False B T U)"
  using shape_emit [of k B T U _ i] by (simp add: hoare_def)

lemma hoare_term:
  "is_terminator i \<Longrightarrow> targets i \<subseteq> B \<union> T \<Longrightarrow> hoare (shape k False B T U) (emit i) (\<lambda>_. shape k True B T U)"
  using shape_emit [of k B T U _ i] by (simp add: hoare_def)

lemma shape_curr: "shape k s B T U b \<Longrightarrow> curr_fn b \<noteq> None"
  by (simp add: shape_def)

lemma hoare_place:
  "n \<in> U \<Longrightarrow> hoare (shape k True B T U) (place n) (\<lambda>_. shape k False (insert n B) (T - {n}) (U - {n}))"
  using shape_place shape_curr unfolding hoare_def by fastforce

lemma hoare_gen_bb:
  assumes "\<And>n. n \<notin> B \<Longrightarrow> n \<notin> T \<Longrightarrow> n \<notin> U \<Longrightarrow> hoare (shape k s B (insert n T) (insert n U)) (f n) Q"
  shows "hoare (shape k s B T U) (act gen_bb f) Q"
  unfolding hoare_def
proof (intro allI impI)
  fix b x b' assume b: "shape k s B T U b" "act gen_bb f b = Inr (x, b')"
  then have "f (next_bb b) (new_bb b) = Inr (x, b')" by simp
  then show "Q x b'" using hoareD [OF assms] shape_new_bb [OF b(1)] by blast
qed

lemma hoare_gen_placed_bb: "hoare (shape k True B T U) gen_placed_bb (\<lambda>_. shape k False B T U)"
  unfolding hoare_def
proof (intro allI impI)
  fix b x b' assume b: "shape k True B T U b" "gen_placed_bb b = Inr (x, b')"
  then have b': "b' = placed (next_bb b) (new_bb b)" using shape_curr by fastforce
  have "shape k False (insert (next_bb b) B) (insert (next_bb b) T - {next_bb b}) (insert (next_bb b) U - {next_bb b}) b'"
    unfolding b' by (rule shape_place) (use shape_new_bb [OF b(1)] in simp_all)
  then show "shape k False B T U b'" by (rule shape_mono) (use shape_new_bb [OF b(1)] in auto)
qed

lemma hoare_open:
  "hoare (shape k s B T U) gen_reg (\<lambda>_. shape k s B T U)"
  "hoare (shape k s B T U) curr_fn_node (\<lambda>n b. shape k s B T U b \<and> node b = n)"
  "hoare (shape k False B T U) (gen_value v) (\<lambda>_. shape k False B T U)"
  "hoare (shape k False B T U) (gen_entry_block_var d) (\<lambda>_. shape k False B T U)"
  "hoare (shape k False B T U) (emits (map Plain xs)) (\<lambda>_. shape k False B T U)"
proof -
  have plain: "shape k False B T U (emitted i b)" if "shape k False B T U b" "targets i = {}" "\<not> is_terminator i" for i b
    using shape_emit [OF that(1), of i] that(2,3) by simp
  show "hoare (shape k s B T U) gen_reg (\<lambda>_. shape k s B T U)" by (simp add: hoare_def)
  show "hoare (shape k s B T U) curr_fn_node (\<lambda>n b. shape k s B T U b \<and> node b = n)"
    using shape_curr by (fastforce simp: hoare_def)
  show "hoare (shape k False B T U) (gen_value v) (\<lambda>_. shape k False B T U)"
    by (simp add: hoare_def plain)
  show "hoare (shape k False B T U) (gen_entry_block_var d) (\<lambda>_. shape k False B T U)"
    by (cases d) (simp_all add: hoare_def plain)
  show "hoare (shape k False B T U) (emits (map Plain xs)) (\<lambda>_. shape k False B T U)"
  proof (induction xs)
    case (Cons i xs)
    have "\<forall>b. shape k False B T U b \<longrightarrow> shape k False B T U (emitted (Plain i) b)" by (simp add: plain)
    then show ?case using Cons.IH unfolding hoare_def by simp blast
  qed (simp add: hoare_def)
qed

subsection \<open>Expressions\<close>

text \<open>A walker keeps the shape of the function: it starts and ends in an open block.\<close>

definition shapely :: "bb \<Rightarrow> ('i, 'v, 'a) build \<Rightarrow> bool" where
  "shapely k m \<longleftrightarrow> (\<forall>B T U. hoare (shape k False B T U) m (\<lambda>_. shape k False B T U))"

lemma shapelyD: "shapely k m \<Longrightarrow> hoare (shape k False B T U) m (\<lambda>_. shape k False B T U)"
  by (simp add: shapely_def)

lemma shapely_act: "shapely k m \<Longrightarrow> (\<And>x. shapely k (f x)) \<Longrightarrow> shapely k (act m f)"
  unfolding shapely_def by (blast intro: hoare_act)

lemma shapely_simple:
  "shapely k (ret x)" "shapely k (fail e)" "shapely k (reads g)" "shapely k (lift_result r)" "shapely k gen_reg"
  "shapely k (gen_value v)" "shapely k (gen_entry_block_var d)" "shapely k (emits (map Plain xs))"
  by (simp_all add: shapely_def hoare_simple hoare_open)

lemma shapely_emit: "\<not> is_terminator i \<Longrightarrow> targets i = {} \<Longrightarrow> shapely k (emit i)"
  unfolding shapely_def using hoare_emit by blast

lemma shapely_case_prod: "(\<And>x y. shapely k (f x y)) \<Longrightarrow> shapely k (case p of (x, y) \<Rightarrow> f x y)"
  by (cases p) simp

lemma shapely_if: "(c \<Longrightarrow> shapely k m) \<Longrightarrow> (\<not> c \<Longrightarrow> shapely k m') \<Longrightarrow> shapely k (if c then m else m')"
  by simp

lemma shapely_in_fn: "(shapely k m) \<Longrightarrow> shapely k (in_fn m)"
  unfolding in_fn_def by (intro shapely_act shapely_if shapely_simple) auto

lemma shapely_condition: "shapely k c \<Longrightarrow> shapely k (walk_condition c)"
  unfolding walk_condition_def by (intro shapely_act shapely_case_prod shapely_if shapely_simple) auto

text \<open>Forward steps: each takes the shape along.\<close>

lemma step_keep: "shapely k m \<Longrightarrow> (\<And>x. hoare (shape k False B T U) (f x) Q) \<Longrightarrow> hoare (shape k False B T U) (act m f) Q"
  by (rule hoare_act [OF shapelyD])

lemma step_term:
  "is_terminator i \<Longrightarrow> targets i \<subseteq> B \<union> T \<Longrightarrow> hoare (shape k True B T U) (f ()) Q \<Longrightarrow>
   hoare (shape k False B T U) (act (emit i) f) Q"
  by (rule hoare_act [OF hoare_term]) simp_all

lemma step_place:
  "n \<in> U \<Longrightarrow> hoare (shape k False (insert n B) (T - {n}) (U - {n})) (f ()) Q \<Longrightarrow>
   hoare (shape k True B T U) (act (place n) f) Q"
  by (rule hoare_act [OF hoare_place]) simp_all

lemma last_place:
  assumes "n \<in> U'" "B \<subseteq> insert n B'" "U \<subseteq> U' - {n}" "T' \<subseteq> T \<union> insert n B'" "T \<subseteq> T' \<union> U' \<union> insert n B'"
  shows "hoare (shape k True B' T' U') (place n) (\<lambda>_. shape k False B T U)"
  by (rule hoare_weaken [OF hoare_place [OF assms(1)]], erule shape_mono) (use assms in auto)

lemma step_exit:
  assumes "\<And>c d. hoare (shape k False (B \<union> ({c, d} - T)) T U) (f c d) Q"
  shows "hoare (shape k False B T U) (act current_loop (\<lambda>(c, d). f c d)) Q"
  unfolding hoare_def
proof (intro allI impI)
  fix b x b' assume b: "shape k False B T U b" "act current_loop (\<lambda>(c, d). f c d) b = Inr (x, b')"
  then obtain c d ls where ls: "loop_controls b = (c, d) # ls" "f c d b = Inr (x, b')"
    by (auto simp: current_loop_def act_Inr_iff split: list.splits)
  then have "{c, d} \<subseteq> blocks b \<union> T" using b(1) by (auto simp: shape_def exits_def)
  then have "shape k False (B \<union> ({c, d} - T)) T U b" using b(1) by (auto simp: shape_def)
  then show "Q x b'" using hoareD [OF assms] ls(2) by blast
qed

lemma step_node:
  assumes "\<And>n. hoare (shape k False (B \<union> ({retbb n} - T)) T U) (f n) Q"
  shows "hoare (shape k False B T U) (act curr_fn_node f) Q"
  unfolding hoare_def
proof (intro allI impI)
  fix b x b' assume b: "shape k False B T U b" "act curr_fn_node f b = Inr (x, b')"
  then have f: "f (node b) b = Inr (x, b')" using shape_curr by (fastforce simp: act_Inr_iff)
  have "retbb (node b) \<in> blocks b \<union> T" using b(1) by (auto simp: shape_def exits_def)
  then have "shape k False (B \<union> ({retbb (node b)} - T)) T U b" using b(1) by (auto simp: shape_def)
  then show "Q x b'" using hoareD [OF assms] f by blast
qed

lemma shape_loops: "shape k s B T U b \<Longrightarrow> exits (with_loops ls b) \<subseteq> blocks b \<union> T \<Longrightarrow> shape k s B T U (with_loops ls b)"
  by (simp add: shape_def)

lemma shapely_in_loop:
  assumes m: "shapely k m" and cd: "c \<in> B \<union> T" "d \<in> B \<union> T"
  shows "hoare (shape k False B T U) (in_loop c d m) (\<lambda>_. shape k False B T U)"
  unfolding hoare_def
proof (intro allI impI)
  fix b x b' assume b: "shape k False B T U b" "in_loop c d m b = Inr (x, b')"
  then obtain b1 where b1: "m (with_loops ((c, d) # loop_controls b) b) = Inr ((), b1)" "b' = with_loops (tl (loop_controls b1)) b1"
    by (auto simp: in_loop_def act_Inr_iff with_loops_def)
  have "exits (with_loops ((c, d) # loop_controls b) b) = exits b \<union> {c, d}" by (auto simp: exits_def)
  then have "shape k False B T U (with_loops ((c, d) # loop_controls b) b)"
    using shape_loops [OF b(1)] b(1) cd by (auto simp: shape_def)
  then have s: "shape k False B T U b1" using hoareD [OF shapelyD [OF m]] b1(1) by blast
  have "exits (with_loops (tl (loop_controls b1)) b1) \<subseteq> exits b1"
    by (cases "loop_controls b1") (auto simp: exits_def)
  then show "shape k False B T U b'" unfolding b1(2) using shape_loops [OF s] s by (auto simp: shape_def)
qed

lemma step_in_loop:
  "shapely k m \<Longrightarrow> c \<in> B \<union> T \<Longrightarrow> d \<in> B \<union> T \<Longrightarrow> hoare (shape k False B T U) (f ()) Q \<Longrightarrow>
   hoare (shape k False B T U) (act (in_loop c d m) f) Q"
  by (rule hoare_act [OF shapely_in_loop]) simp_all

subsection \<open>Loops\<close>

lemmas step_branches = step_term [of "Br n" for n, simplified] step_term [of "CondBr a n m" for a n m, simplified]

lemmas shapely_emits [simp] =
  shapely_emit [of "Slot_Store n v" for n v, simplified] shapely_emit [of "Slot_Load r n" for r n, simplified]
  shapely_emit [of "Compare r p w x y" for r p w x y, simplified] shapely_emit [of "Add_Bits r w x y" for r w x y, simplified]
  shapely_emit [of "Item i x" for i x, simplified] shapely_emit [of "Phi r xs" for r xs, simplified]
  shapely_emit [of "Plain i" for i, simplified] shapely_emit [of "Value r v" for r v, simplified]

lemmas steps = hoare_gen_bb step_branches step_place step_in_loop step_exit step_node hoare_prod last_place shapelyD step_keep shapely_emits shapely_simple

lemma shapely_loop:
  assumes "shapely k m"
  shows "shapely k (walk_loop m)"
proof -
  have "hoare (shape k False B T U) (act gen_bb (\<lambda>loopbb. act gen_bb (\<lambda>endloopbb.
     act (emit (Br loopbb)) (\<lambda>_. act (place loopbb) (\<lambda>_. act (in_loop loopbb endloopbb m) (\<lambda>_.
     act (emit (Br loopbb)) (\<lambda>_. place endloopbb)))))))
    (\<lambda>_. shape k False B T U)" for B T U
    by (rule steps assms | simp | blast)+
  then show ?thesis unfolding walk_loop_def by (intro shapely_in_fn) (simp add: shapely_def)
qed

lemma shapely_while:
  assumes "shapely k c" "shapely k m"
  shows "shapely k (walk_while c m)"
proof -
  have "hoare (shape k False B T U) (act gen_bb (\<lambda>condbb. act gen_bb (\<lambda>whilebb. act gen_bb (\<lambda>endwhilebb.
     act (emit (Br condbb)) (\<lambda>_. act (place condbb) (\<lambda>_. act (walk_condition c) (\<lambda>v.
     act (emit (CondBr v whilebb endwhilebb)) (\<lambda>_. act (place whilebb) (\<lambda>_.
     act (in_loop condbb endwhilebb m) (\<lambda>_. act (emit (Br condbb)) (\<lambda>_. place endwhilebb)))))))))))
    (\<lambda>_. shape k False B T U)" for B T U
    by (rule steps shapely_condition assms | simp | blast)+
  then show ?thesis unfolding walk_while_def by (intro shapely_in_fn) (simp add: shapely_def)
qed

lemma shapely_for_bounds: "shapely k (for_bounds list lo hi)"
  unfolding for_bounds_def by (cases list) (auto intro!: shapely_act shapely_simple)

lemma shapely_for:
  assumes "shapely k m"
  shows "shapely k (walk_for pre list lo hi copy_item m)"
  unfolding walk_for_def
  by (rule shapely_in_fn, unfold shapely_def, intro allI) (rule steps shapely_for_bounds assms | simp | blast)+

subsection \<open>Branches and jumps\<close>

text \<open>The join of an expression, whose value is made in the last block.\<close>

lemma join_place:
  assumes "shapely k (f ())" "n \<in> U'" "B \<subseteq> insert n B'" "U \<subseteq> U' - {n}" "T' \<subseteq> T \<union> insert n B'" "T \<subseteq> T' \<union> U' \<union> insert n B'"
  shows "hoare (shape k True B' T' U') (act (place n) f) (\<lambda>_. shape k False B T U)"
  by (rule hoare_act [OF last_place [OF assms(2-)]]) (use shapelyD [OF assms(1)] in simp)

lemma shapely_landor:
  assumes "shapely k e1" "shapely k e2"
  shows "shapely k (walk_expr_landor isand e1 e2)"
proof -
  have "shapely k (act gen_reg (\<lambda>r. act (emit (Phi r xs)) (\<lambda>_. ret (Reg r, dt, LT_Int 1))))" for xs dt
    by (intro shapely_act shapely_simple shapely_emits)
  note join = join_place [where f = "\<lambda>_. act gen_reg (\<lambda>r. act (emit (Phi r xs)) (\<lambda>_. ret (Reg r, dt, LT_Int 1)))" for xs dt, OF this]
  show ?thesis
    unfolding walk_expr_landor_def
    by (cases isand; unfold shapely_def if_True if_False, intro allI; (rule join steps assms | simp | blast)+)
qed

lemma shapely_ife:
  assumes "shapely k c" "shapely k e1" "shapely k e2"
  shows "shapely k (walk_if_common c e1 e2)"
proof -
  have "shapely k (if t1 \<noteq> t2 then fail err else act gen_reg (\<lambda>r. act (emit (Slot_Load r n)) (\<lambda>_. ret (Reg r, t1, LT_Int 32))))" for t1 t2 :: tokenid and err n
    by (intro shapely_if shapely_act shapely_simple shapely_emits)
  note join = join_place [where f = "\<lambda>_. if t1 \<noteq> t2 then fail err else act gen_reg (\<lambda>r. act (emit (Slot_Load r n)) (\<lambda>_. ret (Reg r, t1, LT_Int 32)))" for t1 t2 :: tokenid and err n, OF this]
  show ?thesis
    unfolding walk_if_common_def
    by (unfold shapely_def, intro allI) (rule join steps shapely_condition assms | simp | blast)+
qed

lemma shapely_expr: "shapely k (walk_expr e)"
  by (induction e) (simp_all add: shapely_landor shapely_ife, intro shapely_act shapely_simple)

lemma last_gen_placed:
  "B \<subseteq> B' \<Longrightarrow> hoare (shape k True B' T U) gen_placed_bb (\<lambda>_. shape k False B T U)"
  by (rule hoare_weaken [OF hoare_gen_placed_bb], erule shape_mono) auto

lemma shapely_break: "shapely k walk_break" and shapely_continue: "shapely k walk_continue"
  unfolding walk_break_def walk_continue_def shapely_def
  by (intro allI, (rule step_exit step_branches last_gen_placed | simp | blast)+)+

lemma shapely_store_value:
  assumes "\<And>e. expr = Some e \<Longrightarrow> shapely k e"
  shows "shapely k (case expr of
    Some e \<Rightarrow> act e (\<lambda>(v, ty, lt). if lt' \<noteq> lt then fail err else (case slot of None \<Rightarrow> fail err' | Some n \<Rightarrow> emit (Slot_Store n v)))
  | None \<Rightarrow> if lt' \<noteq> LT_Void then fail err'' else ret ())"
  using assms by (cases expr; cases slot) (auto intro!: shapely_act shapely_simple shapely_emits)

lemma shapely_ret:
  assumes "\<And>e. expr = Some e \<Longrightarrow> shapely k e"
  shows "shapely k (walk_ret expr)"
proof -
  have flag: "hoare (shape k False B T U) (modifies (\<lambda>b. b\<lparr>with_ret_value := v\<rparr>)) (\<lambda>_. shape k False B T U)" for B T U v
    by (simp add: hoare_def shape_def blocks_def exits_def node_def)
  have jump: "hoare (shape k False (B \<union> ({n} - T)) T U)
      (act (emit (Br n)) (\<lambda>_. act gen_placed_bb (\<lambda>_. modifies (\<lambda>b. b\<lparr>with_ret_value := True\<rparr>)))) (\<lambda>_. shape k False B T U)" for B T U n
    by (rule step_branches, blast, rule hoare_act [OF last_gen_placed [of B]], blast, rule flag)
  show ?thesis
    unfolding walk_ret_def shapely_def
    by (intro allI step_node step_keep [OF shapely_store_value] jump assms)
qed

lemma shapely_stmtlist: "\<forall>m\<in>set ms. shapely k m \<Longrightarrow> shapely k (walk_stmtlist ms)"
  by (induction ms) (auto intro: shapely_act shapely_simple)

subsection \<open>Chains of conditions\<close>

definition bbs_set :: "(bb \<times> bb) list \<Rightarrow> bb set" where
  "bbs_set bbs = set (map fst bbs @ map snd bbs)"

lemma step_gen_if_bbs:
  assumes "\<And>bbs. length bbs = n \<Longrightarrow> distinct (map fst bbs @ map snd bbs) \<Longrightarrow> bbs_set bbs \<inter> (B \<union> T \<union> U) = {} \<Longrightarrow>
    hoare (shape k s B (bbs_set bbs \<union> T) (bbs_set bbs \<union> U)) (f bbs) Q"
  shows "hoare (shape k s B T U) (act (gen_if_bbs n) f) Q"
  using assms
proof (induction n arbitrary: T U f)
  case 0
  then show ?case by (simp add: bbs_set_def)
next
  case (Suc n)
  show ?case
    unfolding gen_if_bbs.simps act_assoc act_ret
  proof (rule hoare_gen_bb, rule hoare_gen_bb, rule Suc.IH)
    fix c b bbs
    assume "c \<notin> B" "c \<notin> T" "c \<notin> U" "b \<notin> B" "b \<notin> insert c T" "b \<notin> insert c U" "length bbs = n"
      "distinct (map fst bbs @ map snd bbs)" "bbs_set bbs \<inter> (B \<union> insert b (insert c T) \<union> insert b (insert c U)) = {}"
    then have "hoare (shape k s B (bbs_set ((c, b) # bbs) \<union> T) (bbs_set ((c, b) # bbs) \<union> U)) (f ((c, b) # bbs)) Q"
      by (intro Suc.prems) (auto simp: bbs_set_def)
    then show "hoare (shape k s B (bbs_set bbs \<union> insert b (insert c T)) (bbs_set bbs \<union> insert b (insert c U))) (f ((c, b) # bbs)) Q"
      by (simp add: bbs_set_def Un_insert_right insert_commute)
  qed
qed

lemma hoare_if_conds:
  assumes "\<forall>c\<in>set cs. shapely k c" "length bbs = length cs" "distinct (map fst bbs @ map snd bbs)" "bbs_set bbs \<subseteq> T" "bbs_set bbs \<subseteq> U"
  shows "hoare (shape k False B T U) (walk_if_conds cs bbs)
    (\<lambda>_. shape k False (fst ` set bbs \<union> B) (T - fst ` set bbs) (U - fst ` set bbs))"
  using assms
proof (induction cs bbs arbitrary: B T U rule: walk_if_conds.induct)
  case (1 c cs x y bbs)
  have "hoare (shape k False (insert x B) (T - {x}) (U - {x})) (walk_if_conds cs bbs)
    (\<lambda>_. shape k False (fst ` set bbs \<union> insert x B) (T - {x} - fst ` set bbs) (U - {x} - fst ` set bbs))"
    by (rule "1.IH") (use "1.prems" in \<open>auto simp: bbs_set_def\<close>)
  moreover have "T - {x} - A = T - (insert x A)" for T A :: "bb set" by blast
  ultimately have "hoare (shape k False (insert x B) (T - {x}) (U - {x})) (walk_if_conds cs bbs)
    (\<lambda>_. shape k False (fst ` set ((x, y) # bbs) \<union> B) (T - fst ` set ((x, y) # bbs)) (U - fst ` set ((x, y) # bbs)))"
    by simp
  then show ?case unfolding walk_if_conds.simps
    by (intro step_keep [OF shapely_condition] step_branches step_place) (use "1.prems" in \<open>auto simp: bbs_set_def\<close>)
qed (simp_all add: hoare_simple)

lemma hoare_if_bodies:
  assumes "\<forall>m\<in>set ss. shapely k m" "length bbs = length ss" "distinct bbs" "set bbs \<subseteq> U" "out \<in> B \<union> T" "out \<notin> set bbs"
  shows "hoare (shape k True B T U) (walk_if_bodies ss bbs out) (\<lambda>_. shape k True (set bbs \<union> B) (T - set bbs) (U - set bbs))"
  using assms
proof (induction ss bbs out arbitrary: B T U rule: walk_if_bodies.induct)
  case (1 s ss x bbs out)
  have "hoare (shape k True (insert x B) (T - {x}) (U - {x})) (walk_if_bodies ss bbs out)
    (\<lambda>_. shape k True (set bbs \<union> insert x B) (T - {x} - set bbs) (U - {x} - set bbs))"
    by (rule "1.IH") (use "1.prems" in auto)
  moreover have "T - {x} - A = T - (insert x A)" for T A :: "bb set" by blast
  ultimately have "hoare (shape k True (insert x B) (T - {x}) (U - {x})) (walk_if_bodies ss bbs out)
    (\<lambda>_. shape k True (set (x # bbs) \<union> B) (T - set (x # bbs)) (U - set (x # bbs)))"
    by simp
  then show ?case unfolding walk_if_bodies.simps
    by (intro step_place step_keep step_branches) (use "1.prems" in auto)
qed (simp_all add: hoare_simple)

lemma step_if_conds:
  assumes "\<forall>c\<in>set cs. shapely k c" "length bbs = length cs" "distinct (map fst bbs @ map snd bbs)" "bbs_set bbs \<subseteq> T" "bbs_set bbs \<subseteq> U"
    "hoare (shape k False (fst ` set bbs \<union> B) (T - fst ` set bbs) (U - fst ` set bbs)) (f ()) Q"
  shows "hoare (shape k False B T U) (act (walk_if_conds cs bbs) f) Q"
  by (rule hoare_act [OF hoare_if_conds]) (use assms in simp_all)

lemma step_if_bodies:
  assumes "\<forall>m\<in>set ss. shapely k m" "length bbs = length ss" "distinct bbs" "set bbs \<subseteq> U" "out \<in> B \<union> T" "out \<notin> set bbs"
    "hoare (shape k True (set bbs \<union> B) (T - set bbs) (U - set bbs)) (f ()) Q"
  shows "hoare (shape k True B T U) (act (walk_if_bodies ss bbs out) f) Q"
  by (rule hoare_act [OF hoare_if_bodies]) (use assms in simp_all)

text \<open>The two forms, after the blocks are made: \<open>out\<close> and, with an \<open>else\<close>, \<open>r\<close> are new as well.\<close>

lemma if_chain_blocks:
  assumes "distinct (map fst bbs @ map snd bbs)" "bbs_set bbs \<inter> X = {}"
  shows "fst ` set bbs \<inter> snd ` set bbs = {}" "fst ` set bbs \<inter> X = {}" "snd ` set bbs \<inter> X = {}"
    "bbs_set bbs = fst ` set bbs \<union> snd ` set bbs" "distinct (map snd bbs)"
  using assms by (auto simp: bbs_set_def)

lemma shapely_if_chain:
  assumes cs: "\<forall>c\<in>set cs. shapely k c" and ss: "\<forall>m\<in>set ss. shapely k m" and len: "length ss = length cs"
    and bbs: "length bbs = length cs" "distinct (map fst bbs @ map snd bbs)"
    and new: "bbs_set bbs \<inter> (B \<union> insert out T \<union> insert out U) = {}" and out: "out \<notin> B" "out \<notin> T" "out \<notin> U"
  shows "hoare (shape k False B (bbs_set bbs \<union> insert out T) (bbs_set bbs \<union> insert out U))
    (act (walk_if_conds cs bbs) (\<lambda>_. act (emit (Br out)) (\<lambda>_. act (walk_if_bodies ss (map snd bbs) out) (\<lambda>_. place out))))
    (\<lambda>_. shape k False B T U)"
  using if_chain_blocks [OF bbs(2) new]
  by - (rule step_if_conds step_branches step_if_bodies last_place cs ss | (use bbs out len in \<open>auto; fail\<close>))+

lemma shapely_if_else_chain:
  assumes cs: "\<forall>c\<in>set cs. shapely k c" and ss: "\<forall>m\<in>set ss. shapely k m" "shapely k m" and len: "length ss = length cs"
    and bbs: "length bbs = length cs" "distinct (map fst bbs @ map snd bbs)"
    and new: "bbs_set bbs \<inter> (B \<union> insert out T \<union> insert out U) = {}" and out: "out \<notin> B" "out \<notin> T" "out \<notin> U"
    and r: "r \<notin> B" "r \<notin> bbs_set bbs \<union> insert out T" "r \<notin> bbs_set bbs \<union> insert out U"
  shows "hoare (shape k False B (insert r (bbs_set bbs \<union> insert out T)) (insert r (bbs_set bbs \<union> insert out U)))
    (act (walk_if_conds cs bbs) (\<lambda>_. act (emit (Br r)) (\<lambda>_. act (walk_if_bodies ss (map snd bbs) out) (\<lambda>_.
     act (walk_if_bodies [m] [r] out) (\<lambda>_. place out)))))
    (\<lambda>_. shape k False B T U)"
  using if_chain_blocks [OF bbs(2) new] r
  by - (rule step_if_conds step_branches step_if_bodies last_place cs ss | (use bbs out len ss(2) in \<open>auto; fail\<close>))+

lemma shapely_if_stmt:
  assumes "\<forall>c\<in>set cs. shapely k c" "\<forall>m\<in>set ss. shapely k m" "\<And>m. remain = Some m \<Longrightarrow> shapely k m" "length ss = length cs"
  shows "shapely k (walk_if_common2 cs ss remain)"
proof -
  have "hoare (shape k False B T U) (act gen_bb (\<lambda>outbb.
        act (gen_if_bbs (length cs)) (\<lambda>bbs.
        act (case remain of None \<Rightarrow> ret outbb | Some _ \<Rightarrow> gen_bb) (\<lambda>restbb.
        act (walk_if_conds cs bbs) (\<lambda>_.
        act (emit (Br restbb)) (\<lambda>_.
        act (walk_if_bodies ss (map snd bbs) outbb) (\<lambda>_.
        act (case remain of None \<Rightarrow> ret () | Some s \<Rightarrow> walk_if_bodies [s] [restbb] outbb) (\<lambda>_.
        place outbb))))))))
    (\<lambda>_. shape k False B T U)" for B T U
  proof (cases remain)
    case None
    show ?thesis
      unfolding None option.case act_ret
      by (rule hoare_gen_bb, rule step_gen_if_bbs, rule shapely_if_chain) (use assms in simp_all)
  next
    case (Some m)
    show ?thesis
      unfolding Some option.case
      by (rule hoare_gen_bb, rule step_gen_if_bbs, rule hoare_gen_bb, rule shapely_if_else_chain) (use assms Some in simp_all)
  qed
  then show ?thesis unfolding walk_if_common2_def by (intro shapely_in_fn) (simp add: shapely_def)
qed

subsection \<open>Statements\<close>

lemma shapely_stmt: "structured s \<Longrightarrow> shapely k (walk_stack s)"
proof (induction s)
  case (S_Plain xs)
  then show ?case by (simp add: shapely_simple)
next
  case (S_Assign e i)
  then show ?case by (simp, intro shapely_act shapely_case_prod shapely_expr shapely_emits)
next
  case (S_List ss)
  then show ?case by (auto intro!: shapely_stmtlist simp: list.pred_set)
next
  case (S_If es ss rest)
  then show ?case by (auto intro!: shapely_if_stmt simp: shapely_expr list.pred_set option.pred_set)
next
  case (S_Ret e)
  then show ?case by (auto intro!: shapely_ret simp: shapely_expr)
qed (simp_all add: shapely_loop shapely_while shapely_for shapely_break shapely_continue shapely_expr)

subsection \<open>Functions\<close>

lemma final_return_shape: "hoare (shape k False B T U) generate_final_return (\<lambda>_ b. shape k True B T U b)"
proof -
  have t: "hoare (shape k False B T U) (emit Ret_Void) (\<lambda>_. shape k True B T U)"
    "hoare (shape k False B T U) (emit (Ret_Value a)) (\<lambda>_. shape k True B T U)" for a
    by (rule hoare_term; simp)+
  have d: "hoare (shape k False B T U)
      (case v of Some (V_Const_Int bits i) \<Rightarrow> emit (Ret_Value (Const_Bits (nat i))) | _ \<Rightarrow> fail err) (\<lambda>_. shape k True B T U)" for v err
    by (auto split: option.split lvalue.split intro: t hoare_simple)
  have s: "hoare (shape k False B T U)
      (case slot of None \<Rightarrow> fail err | Some n \<Rightarrow> act gen_reg (\<lambda>r. act (emit (Slot_Load r n)) (\<lambda>_. emit (Ret_Value (Reg r)))))
      (\<lambda>_. shape k True B T U)" for slot err
    by (cases slot) (auto intro!: step_keep shapely_simple shapely_emits t hoare_simple)
  have n: "hoare (shape k False B T U) curr_fn_node (\<lambda>_. shape k False B T U)"
    by (rule hoare_weaken [OF hoare_open(2)]) simp
  show ?thesis
    unfolding generate_final_return_def
    by (rule hoare_act [OF n]) (intro hoare_if step_keep shapely_simple s t d hoare_simple)
qed

lemma curr_fn_node_same: "curr_fn_node b = Inr (x, b') \<Longrightarrow> b' = b"
  by (auto simp: curr_fn_node_def act_Inr_iff split: option.splits)

lemma default_return_same:
  "(case v of V_Const_Int bits i \<Rightarrow> emit (Ret_Value (Const_Bits (nat i))) | _ \<Rightarrow> fail err) b = Inr (x, b') \<Longrightarrow>
   \<exists>i. b' = emitted i b"
  by (auto split: lvalue.splits)

lemma final_return_same:
  "generate_final_return b = Inr (x, b') \<Longrightarrow> curr_fn b' = curr_fn b \<and> fns b' = fns b \<and> insert_bb b' = insert_bb b"
  by (auto simp: generate_final_return_def act_Inr_iff lift_result_Inr_iff builder_changes
      dest!: curr_fn_node_same default_return_same split: if_split_asm option.split_asm)

lemma leave_fn_same: "leave_fn n b = Inr (x, b') \<Longrightarrow> bb_code b' = bb_code b \<and> fns b' = fns b"
  by (auto simp: leave_fn_def act_Inr_iff split: if_splits)

lemma entry_shape:
  assumes "\<forall>n\<ge>next_bb b. bb_code b n = []" "loop_controls b = []"
  shows "shape (next_bb b) False {Suc (next_bb b)} {next_bb b} {next_bb b} (fn_entry rt b)"
proof -
  have "fn_blocks (node (fn_entry rt b)) = [Suc (next_bb b)]" by (simp add: fn_entry_def node_def)
  then show ?thesis using assms by (auto simp: shape_def blocks_def exits_def good_code_def)
qed

lemma function_shape:
  assumes "walk_fn_define rt (walk_stack c) b = Inr ((), b')" "structured c"
    and "\<forall>n\<ge>next_bb b. bb_code b n = []" "loop_controls b = []"
  shows "good_code (next_bb b) True {} (set (fn_blocks (fns b' (next_fn b)))) (next_bb b) (bb_code b')"
    and "{next_bb b, Suc (next_bb b)} \<subseteq> set (fn_blocks (fns b' (next_fn b)))"
proof -
  let ?k = "next_bb b" and ?b0 = "fn_entry rt b"
  note r0 = fn_entry_ready [OF assms(3), of rt]
  obtain b1 where b1: "walk_stack c ?b0 = Inr ((), b1)" using assms(1) by (auto simp: walk_fn_define_entry act_Inr_iff)
  note g = growsD [OF grows_walk_stack [OF assms(2)] b1 r0]
  have s1: "shape ?k False {Suc ?k} {?k} {?k} b1"
    using hoareD [OF shapelyD [OF shapely_stmt [OF assms(2)]] entry_shape [OF assms(3,4)] b1] .
  note s2 = shape_place [OF shape_emit [OF s1, of "Br ?k", simplified], of ?k, simplified]
  let ?b2 = "placed ?k (emitted (Br ?k) b1)"
  have fn: "curr_fn b1 = Some (next_fn b)" using g by (simp add: grown_def)
  obtain b3 where b3: "generate_final_return ?b2 = Inr ((), b3)" "leave_fn (insert_bb b) b3 = Inr ((), b')"
    using assms(1) b1 fn by (auto simp: walk_fn_define_entry act_Inr_iff)
  have s3: "shape ?k True {?k, Suc ?k} {} {} b3" by (rule hoareD [OF final_return_shape s2 b3(1)])
  note same = final_return_same [OF b3(1)]
  have "curr_fn b3 = Some (next_fn b)" "insert_bb b3 = ?k" using same fn by (simp_all add: builder_changes)
  then have "node b3 = fns b' (next_fn b)" using leave_fn_same [OF b3(2)] by (simp add: node_def)
  then have bs: "blocks b3 = set (fn_blocks (fns b' (next_fn b)))" by (simp add: blocks_def)
  show "good_code ?k True {} (set (fn_blocks (fns b' (next_fn b)))) ?k (bb_code b')"
    using s3 leave_fn_same [OF b3(2)] \<open>insert_bb b3 = ?k\<close> unfolding bs [symmetric] by (simp add: shape_def)
  show "{?k, Suc ?k} \<subseteq> set (fn_blocks (fns b' (next_fn b)))" using s3 unfolding bs [symmetric] shape_def by blast
qed

text \<open>Claim C3: A compiled function passes the checks LLVM's verifier makes of its blocks. Compile a
  function without labels, \<open>goto\<close> and inner functions, outside any loop: then each of its blocks ends
  in a branch or return, which is the only one in the block, and every branch goes to a block of the
  same function. This holds whatever follows a \<open>break\<close>, \<open>continue\<close> or \<open>return\<close> in the source.\<close>

theorem compiled_blocks_terminated:
  assumes "walk_fn_define rt (walk_stack c) b = Inr ((), b')" "structured c"
    and "\<forall>n\<ge>next_bb b. bb_code b n = []" "loop_controls b = []"
    and "n \<in> set (fn_blocks (fns b' (next_fn b)))"
  shows "terminated (bb_code b' n) \<and> (\<forall>i\<in>set (bb_code b' n). targets i \<subseteq> set (fn_blocks (fns b' (next_fn b))))"
  using function_shape(1) [OF assms(1-4)] assms(5) by (cases "n = next_bb b") (simp_all add: good_code_def)

theorem compiled_blocks_terminated_witness: "terminated (bb_code (example_fn :: (unit, nat) builder) 1)"
proof -
  let ?e = "empty_builder :: (unit, nat) builder"
  have b: "structured example_body" "\<forall>n\<ge>next_bb ?e. bb_code ?e n = []" "loop_controls ?e = []"
    by (simp_all add: example_body_def empty_builder_def)
  have "Suc (next_bb ?e) \<in> set (fn_blocks (fns example_fn (next_fn ?e)))"
    using function_shape(2) [OF example_compiles b] by simp
  from compiled_blocks_terminated [OF example_compiles b this] show ?thesis by (simp add: empty_builder_def)
qed

end
