(* ===== verification/Spec2Isabelle.thy ===== *)
theory Spec2Isabelle
  imports CA_Prelude Symname Containers Source_Info Tokens Literal_Scopes Symtable CText Typeid
    Methods Declarations Patterns Catype Layout Casts Typedefs Unwind Unwind_Cases Canonical
    Typelookup
    Type_Cycles Mangling Ast Inference Infer_Rules Literals Control_Ends Control_Verify
begin

text \<open>
  This library models the compiler of the language CA (\<open>src/src\<close>): the tables and types of the
  front end, literals, conversions, and the generation of basic blocks. Definitions carry the
  names of the C and C++ functions they translate; paths below are relative to \<open>src/src\<close>.

  \<^bold>\<open>How the program works.\<close> The bison grammar (\<open>ca.y\<close>) calls the functions of \<open>ca_parser.c\<close> while it
  parses: they intern names (\<open>symtable_cpp.cpp\<close>), open and close scopes, enter variables, functions,
  types and methods into the scope they are in, and build the syntax tree. Types are named by
  texts; \<open>type_system.cpp\<close> turns a text into a type object and computes its size and layout.
  After parsing, \<open>llvm/IR_generator.cpp\<close> walks the tree twice: the first pass checks and infers
  types, the second one emits LLVM instructions, with the conversions of
  \<open>type_system_llvm.cpp\<close> and the helpers of \<open>llvm/ir1.cpp\<close>. Nearly everything is global state: the
  name table, the scopes, the type tables, the LLVM builder.

  \<^bold>\<open>How it is modelled.\<close> The global state is a record that grows from theory to theory (names,
  scopes, types), and a C function is an \<open>action\<close>, from a state to an error or a result with a new
  state (\<open>CA_Prelude\<close>). An error is \<open>Exit\<close> with the format of the report (\<open>yyerror\<close> and \<open>caerror\<close> end
  the process), \<open>Undefined\<close> for what C++ leaves undefined (null, an index out of range, a buffer
  written past its end), or \<open>Out_of_fuel\<close>. Objects that are shared by pointer (scopes, type
  objects, struct layouts) are in heaps, maps from addresses, so that aliasing and cycles are
  those of the program; \<open>std::map\<close>s are maps or, where the order is observable, ordered lists.
  Integers that can wrap are taken modulo their width.

  \<^bold>\<open>The parts.\<close>
    \<^item> \<open>Symname\<close>: the table of interned texts (\<open>symname_check_insert\<close>, \<open>symname_get\<close>); the locale
      \<open>name_store\<close> states what its clients rely on, and \<open>Typeid\<close> uses it through the interpretation
      \<open>tbl\<close>. Shown: texts are read back, ids are canonical.
    \<^item> \<open>Containers\<close>, \<open>Source_Info\<close>: the C interface to vectors, strings, sets and argument stacks, and the
      source lines kept for reports.
    \<^item> \<open>Symtable\<close>: scopes (\<open>SymTable\<close>, \<open>STEntry\<close>), \<open>sym_getsym\<close> with associations, opening and closing of
      scopes. Shown: lookup finds the innermost declaration and ends, scopes are restored.
    \<^item> \<open>Tokens\<close>, \<open>Literal_Scopes\<close>, \<open>Literals\<close>: primitive types, the tables of which literal may take which
      type, the reading of literals. Shown: the tables agree with the range checks, numbers are
      read back, a literal is compiled to its value or refused.
    \<^item> \<open>CText\<close>, \<open>Typeid\<close>: the scanners of \<open>strutil.c\<close>; the texts behind type, function, label and method
      ids. Shown: the name spaces are disjoint, derived ids are canonical.
    \<^item> \<open>Methods\<close>: the registry of methods per struct and trait (\<open>StructImplInfo\<close>), over the locale
      \<open>insert_once_map\<close>, which is interpreted for the lists that stand for \<open>std::map\<close> and for the maps of
      scopes. Shown: which method a call gets.
    \<^item> \<open>Declarations\<close>, \<open>Patterns\<close>: variables with their shadowing (\<open>CAVariableShielding\<close>), parameters, function
      scopes, patterns of \<open>let\<close>. Shown: the second pass meets the declarations in the order the
      parser made them; a \<open>let\<close> binds a name once.
    \<^item> \<open>Catype\<close>, \<open>Typedefs\<close>, \<open>Unwind\<close>, \<open>Typelookup\<close>, \<open>Layout\<close>: type objects (\<open>CADataType\<close>), type definitions,
      \<open>catype_unwind_type_signature\<close>, \<open>catype_get_by_name\<close>, \<open>catype_formalize_type\<close>. \<open>Canonical\<close> gives the
      grammar of unwound texts, with a printer, and shows that unwinding is its inverse;
      \<open>Unwind_Cases\<close> runs recursive definitions. \<open>Layout\<close> compares offsets and sizes with the C
      layout of an abstract type. \<open>Typelookup\<close> shows that a name keeps its object, \<open>Type_Cycles\<close> that
      the walk that names an object ends, also when types contain themselves.
    \<^item> \<open>Ast\<close>, \<open>Inference\<close>: the trees of expressions and what \<open>ca_parser.c\<close> says of their types
      (\<open>inference_expr_type\<close>, \<open>get_expr_type_from_tree\<close>, \<open>determine_expr_type\<close>,
      \<open>reduce_node_and_type_group\<close>), calls of functions and methods included. \<open>Infer_Rules\<close> has typing
      rules for scalar expressions, and shows that inference is exactly these rules.
    \<^item> \<open>Casts\<close>: LLVM types of type objects, the cast table, operators and comparisons, as trees of
      builder calls; what the instructions compute is a parameter with LLVM's documented rules.
    \<^item> \<open>Control_Flow\<close>: the walkers that make basic blocks (\<open>walk_if\<close>, \<open>walk_while\<close>, \<open>walk_for\<close>, \<open>walk_ret\<close>,
      \<open>walk_fn_define\<close> and so on). \<open>Control_Sem\<close> has the two meanings that are compared: steps of a
      machine over basic blocks, under the locale \<open>llvm_machine\<close> of LLVM's rules, interpreted on an
      executable machine, and a big-step relation over statements. \<open>Control_Sim\<close> proves the simulation
      and \<open>Control_Fn\<close> lifts it to functions, \<open>Control_Ok\<close> says which functions compile, \<open>Control_Verify\<close>
      that blocks end in one terminator, \<open>Control_Ends\<close> what goes wrong outside of that fragment.
    \<^item> \<open>Mangling\<close>: the stack of lexical scopes and the names that nested functions and methods get in
      the module (\<open>mangling_function_name\<close>). Shown: a name determines the scopes and the function.

  \<^bold>\<open>Fuel.\<close> A recursion over shared objects has fuel, one unit per call. \<open>sym_search\<close> uses one per scope,
  and lookups end when the parents form a tree; a nested function in a script can make a scope its own
  parent, and then no fuel is enough. Unwinding, formalizing and layout use one per level of a type:
  a type that is written out, or a struct without cycles, needs its depth. The walk of
  \<open>typeid_get_top_down\<close> goes through each struct once and through chains of pointers and arrays in
  between, so the number of structs and one, times the longest chain and two, is enough. The functions on expressions use
  one unit per level of the tree. Everything else recurses on its data.

  \<^bold>\<open>Not modelled.\<close> The walkers of \<open>IR_generator.cpp\<close> that make straight-line code (calls, variables, fields and
  items, drops, \<open>let\<close>): the control flow model takes their instructions as a parameter, and their operators
  and conversions are in \<open>Casts\<close>. The constructors of tree nodes, which only allocate and store. The
  lexer and the grammar, which are input of flex and bison. Debug information, the JIT, the command
  line, the runtime and the drawing of trees, which are calls of LLVM, of the C library or of the
  system. LLVM itself is a parameter: its rules are the hypotheses of \<open>llvm_machine\<close> and those of the
  theorems of \<open>Casts\<close>. The type of the expression of a \<open>typeof\<close> is a parameter of unwinding.
\<close>

end
